(* ===== verification/Prelude.thy ===== *)
theory Prelude
  imports Main "HOL-Library.List_Lexorder" "HOL-Library.Char_ord"
begin

text \<open>
  What the components share: Rust's ordered maps and sets, the string operations of the
  standard library that the sources call, and decimal integers.

  A \<open>BTreeMap\<close> is an association list kept in ascending key order, so that iterating
  over it is iterating over the list, exactly as the source's \<open>for (k, v) in &map\<close>
  does; a \<open>BTreeSet\<close> is a strictly ascending list.  Strings are ordered
  lexicographically by their characters (\<open>List_Lexorder\<close> over \<open>Char_ord\<close>), which is
  Rust's order on \<open>String\<close>.

  A Rust \<open>str\<close> is a list of \<open>char\<close>, each element standing for one Unicode scalar
  value in the range U+0000 to U+00FF.  A Rust byte buffer is a list of \<open>char\<close> too,
  each element standing for one byte; which of the two is meant is said where a type is
  introduced.
\<close>

named_theorems bmap_simps \<open>rewrite rules for ordered maps and sets\<close>
named_theorems text_simps \<open>rewrite rules for the string operations\<close>

lemma find_Some_mem: "find P xs = Some x \<Longrightarrow> x \<in> set xs \<and> P x"
  by (induction xs) (auto split: if_splits)

section \<open>Ordered maps: BTreeMap\<close>

type_synonym ('k, 'v) bmap = "('k \<times> 'v) list"

abbreviation bget :: "('k, 'v) bmap \<Rightarrow> 'k \<Rightarrow> 'v option" where
  "bget m k \<equiv> map_of m k"

abbreviation bkeys :: "('k, 'v) bmap \<Rightarrow> 'k list" where
  "bkeys m \<equiv> map fst m"

fun binsert :: "'k::linorder \<Rightarrow> 'v \<Rightarrow> ('k, 'v) bmap \<Rightarrow> ('k, 'v) bmap" where
  "binsert k v [] = [(k, v)]"
| "binsert k v ((k', v') # m) =
     (if k < k' then (k, v) # (k', v') # m
      else if k = k' then (k, v) # m
      else (k', v') # binsert k v m)"

definition bremove :: "'k \<Rightarrow> ('k, 'v) bmap \<Rightarrow> ('k, 'v) bmap" where
  "bremove k m = filter (\<lambda>(k', _). k' \<noteq> k) m"

text \<open>\<open>if let Some(v) = m.get_mut(k) \{ *v = f(*v) \}\<close>.\<close>

definition bupdate :: "'k \<Rightarrow> ('v \<Rightarrow> 'v) \<Rightarrow> ('k, 'v) bmap \<Rightarrow> ('k, 'v) bmap" where
  "bupdate k f m = map (\<lambda>(k', v). (k', if k' = k then f v else v)) m"

definition bmap_ok :: "('k::linorder, 'v) bmap \<Rightarrow> bool" where
  "bmap_ok m \<longleftrightarrow> sorted_wrt (<) (bkeys m)"

lemma bmap_ok_Nil [simp]: "bmap_ok []"
  by (simp add: bmap_ok_def)

lemma bmap_ok_Cons: "bmap_ok ((k, v) # m) \<longleftrightarrow> (\<forall>k' \<in> set (bkeys m). k < k') \<and> bmap_ok m"
  by (auto simp: bmap_ok_def)

lemma bmap_ok_distinct: "bmap_ok m \<Longrightarrow> distinct (bkeys m)"
  unfolding bmap_ok_def by (induction m) auto

lemma bget_binsert [simp]: "bget (binsert k v m) x = (if x = k then Some v else bget m x)"
  by (induction k v m rule: binsert.induct) auto

lemma set_bkeys_binsert [simp]: "fst ` set (binsert k v m) = insert k (fst ` set m)"
  by (induction k v m rule: binsert.induct) auto

lemma binsert_not_Nil [simp]: "binsert k v m \<noteq> []"
  by (induction k v m rule: binsert.induct) auto

lemma bmap_ok_binsert [simp]: "bmap_ok m \<Longrightarrow> bmap_ok (binsert k v m)"
  by (induction k v m rule: binsert.induct) (auto simp: bmap_ok_Cons)

lemma bget_bremove [simp]: "bget (bremove k m) x = (if x = k then None else bget m x)"
  unfolding bremove_def by (induction m) auto

lemma bmap_ok_filter: "bmap_ok m \<Longrightarrow> bmap_ok (filter P m)"
  by (induction m) (auto simp: bmap_ok_def)

lemma bmap_ok_bremove [simp]: "bmap_ok m \<Longrightarrow> bmap_ok (bremove k m)"
  unfolding bremove_def by (rule bmap_ok_filter)

lemma bkeys_bupdate [simp]: "bkeys (bupdate k f m) = bkeys m"
  unfolding bupdate_def by (induction m) auto

lemma bget_bupdate [simp]:
  "bget (bupdate k f m) x = (if x = k then map_option f (bget m k) else bget m x)"
  unfolding bupdate_def by (induction m) auto

lemma bmap_ok_bupdate [simp]: "bmap_ok (bupdate k f m) = bmap_ok m"
  by (simp only: bmap_ok_def bkeys_bupdate)

lemma bget_Some_set: "bmap_ok m \<Longrightarrow> bget m k = Some v \<longleftrightarrow> (k, v) \<in> set m"
  by (simp add: bmap_ok_distinct)

lemma bget_in_keys: "bget m k = Some v \<Longrightarrow> k \<in> set (bkeys m)"
  by (force dest: map_of_SomeD)

lemma bget_None_iff: "bget m k = None \<longleftrightarrow> k \<notin> set (bkeys m)"
  by (simp add: map_of_eq_None_iff)

lemma in_keys_bget: "k \<in> set (bkeys m) \<Longrightarrow> \<exists>v. bget m k = Some v"
  using bget_None_iff [of m k] by (cases "bget m k") auto

lemmas bmap_intros = bmap_ok_binsert bmap_ok_bremove bmap_ok_filter

section \<open>Ordered sets: BTreeSet\<close>

fun sinsert :: "'k::linorder \<Rightarrow> 'k list \<Rightarrow> 'k list" where
  "sinsert x [] = [x]"
| "sinsert x (y # ys) =
     (if x < y then x # y # ys else if x = y then y # ys else y # sinsert x ys)"

abbreviation sset_ok :: "'k::linorder list \<Rightarrow> bool" where
  "sset_ok \<equiv> sorted_wrt (<)"

lemma set_sinsert [simp]: "set (sinsert x ys) = insert x (set ys)"
  by (induction x ys rule: sinsert.induct) auto

lemma sset_ok_sinsert [simp]: "sset_ok ys \<Longrightarrow> sset_ok (sinsert x ys)"
  by (induction x ys rule: sinsert.induct) auto

lemma sset_ok_distinct: "sset_ok ys \<Longrightarrow> distinct ys"
  by (induction ys) auto

section \<open>The interface of an ordered map\<close>

text \<open>
  What the clients of a \<open>BTreeMap\<close> rely on.  The loader and the supervisor fold
  insertions over lists; the facts about such folds are proved from the laws alone.
\<close>

locale ordered_map =
  fixes mempty :: "'m"
    and mlookup :: "'m \<Rightarrow> 'k \<Rightarrow> 'v option"
    and minsert :: "'k \<Rightarrow> 'v \<Rightarrow> 'm \<Rightarrow> 'm"
    and mremove :: "'k \<Rightarrow> 'm \<Rightarrow> 'm"
    and minv :: "'m \<Rightarrow> bool"
  assumes lookup_empty: "mlookup mempty k = None"
    and lookup_insert: "mlookup (minsert k v m) x = (if x = k then Some v else mlookup m x)"
    and lookup_remove: "mlookup (mremove k m) x = (if x = k then None else mlookup m x)"
    and inv_empty: "minv mempty"
    and inv_insert: "minv m \<Longrightarrow> minv (minsert k v m)"
    and inv_remove: "minv m \<Longrightarrow> minv (mremove k m)"
begin

lemma lookup_fold_insert:
  "mlookup (fold (\<lambda>(k, v). minsert k v) kvs m) x =
     (case map_of (rev kvs) x of Some v \<Rightarrow> Some v | None \<Rightarrow> mlookup m x)"
  by (induction kvs arbitrary: m) (auto simp: lookup_insert map_add_def split: option.splits)

lemma inv_fold_insert: "minv m \<Longrightarrow> minv (fold (\<lambda>(k, v). minsert k v) kvs m)"
  by (induction kvs arbitrary: m) (auto simp: inv_insert)

lemma lookup_remove_insert: "mlookup (mremove k (minsert k v m)) x = mlookup (mremove k m) x"
  by (simp add: lookup_remove lookup_insert)

end

interpretation bm: ordered_map "[]" map_of binsert bremove bmap_ok
  by unfold_locales simp_all

end
