(* ===== verification/Clock.thy ===== *)
theory Clock
  imports Text
begin

text \<open>
  Time.  A \<open>std::time::Duration\<close> is a natural number of nanoseconds, at most
  \<open>dur_max\<close> (64 bits of seconds and the nanoseconds below one second); an
  \<open>Instant\<close> is a natural number of nanoseconds on the monotonic clock, and
  \<open>Instant::elapsed\<close> saturates at zero as subtraction on the naturals does.  The 64-bit
  unsigned operations that can overflow are written out: \<open>checked_\<close> is \<open>None\<close> and
  \<open>saturating_\<close> stops at the bound.
\<close>

type_synonym duration = nat
type_synonym instant = nat

definition nanos_per_sec :: nat where "nanos_per_sec = 1000000000"

definition dur_max :: duration where
  "dur_max = u64_max * nanos_per_sec + (nanos_per_sec - 1)"

definition from_secs :: "nat \<Rightarrow> duration" where "from_secs s = s * nanos_per_sec"
definition from_millis :: "nat \<Rightarrow> duration" where "from_millis s = s * 1000000"
definition from_micros :: "nat \<Rightarrow> duration" where "from_micros s = s * 1000"

definition as_secs :: "duration \<Rightarrow> nat" where "as_secs d = d div nanos_per_sec"
definition subsec_nanos :: "duration \<Rightarrow> nat" where "subsec_nanos d = d mod nanos_per_sec"
definition as_micros :: "duration \<Rightarrow> nat" where "as_micros d = d div 1000"

definition dur_saturating_mul :: "duration \<Rightarrow> nat \<Rightarrow> duration" where
  "dur_saturating_mul d n = min (d * n) dur_max"

definition elapsed :: "instant \<Rightarrow> instant \<Rightarrow> duration" where
  "elapsed now since = now - since"

definition checked_add64 :: "nat \<Rightarrow> nat \<Rightarrow> nat option" where
  "checked_add64 a b = (if a + b \<le> u64_max then Some (a + b) else None)"

definition checked_mul64 :: "nat \<Rightarrow> nat \<Rightarrow> nat option" where
  "checked_mul64 a b = (if a * b \<le> u64_max then Some (a * b) else None)"

definition saturating_add64 :: "nat \<Rightarrow> nat \<Rightarrow> nat" where
  "saturating_add64 a b = min (a + b) u64_max"

definition saturating_add32 :: "nat \<Rightarrow> nat \<Rightarrow> nat" where
  "saturating_add32 a b = min (a + b) u32_max"

lemmas time_unit_defs = from_secs_def from_millis_def from_micros_def nanos_per_sec_def
  as_secs_def subsec_nanos_def as_micros_def

lemma duration_split: "from_secs (as_secs d) + subsec_nanos d = d"
  by (simp add: time_unit_defs)

lemma as_secs_mono: "a \<le> b \<Longrightarrow> as_secs a \<le> as_secs b"
  by (simp add: as_secs_def div_le_mono)

lemma as_secs_from_secs [simp]: "as_secs (from_secs s) = s"
  by (simp add: time_unit_defs)

lemma saturating_add64_le: "saturating_add64 a b \<le> u64_max"
  by (simp add: saturating_add64_def)

end
