(* ===== verification/Values.thy ===== *)
theory Values
  imports Clock
begin

text \<open>
  The duration and size strings of the unit format: \<open>crates/oxinit-unit/src/value.rs\<close> and
  its error type.  Microseconds and bytes are \<open>u64\<close> in the source: here natural numbers
  with the overflow checks written out.
\<close>

section \<open>Values and errors\<close>

datatype value_error =
    EmptyDuration
  | DurationSyntax string
  | DurationSuffix string
  | DurationUnit string
  | DurationOverflow
  | EmptySize
  | SizeSyntax string
  | SizeUnit string
  | SizeOverflow

datatype size_value = Bytes nat | Max

definition micros_per :: "(string \<times> nat) list" where
  "micros_per =
    [(''usec'', 1),
     (''us'', 1),
     (''msec'', 1000),
     (''ms'', 1000),
     (''seconds'', 1000000),
     (''sec'', 1000000),
     (''s'', 1000000),
     (''minutes'', 60 * 1000000),
     (''min'', 60 * 1000000),
     (''hours'', 3600 * 1000000),
     (''h'', 3600 * 1000000),
     (''days'', 86400 * 1000000),
     (''d'', 86400 * 1000000)]"

section \<open>Parsers\<close>

definition take_while :: "string \<Rightarrow> (char \<Rightarrow> bool) \<Rightarrow> string" where
  "take_while text pred = takeWhile pred text"

definition advance :: "string \<Rightarrow> nat \<Rightarrow> string" where
  "advance text n = drop n text"

lemma advance_shorter: "text \<noteq> [] \<Longrightarrow> n \<noteq> 0 \<Longrightarrow> length (advance text n) < length text"
  by (simp add: advance_def)

text \<open>The \<open>while\<close> loop of \<open>parse_duration\<close>; \<open>input\<close> is only quoted in errors.\<close>

function duration_loop :: "string \<Rightarrow> string \<Rightarrow> nat \<Rightarrow> value_error + nat" where
  "duration_loop input rest micros =
     (if rest = [] then Inr micros
      else
        let digits = take_while rest is_ascii_digit in
        if digits = [] then Inl (DurationSyntax input)
        else
          let rest1 = advance rest (length digits);
              suffix = take_while rest1 is_ascii_alphabetic in
          if suffix = [] then Inl (DurationSuffix input)
          else
            let rest2 = trim_start (advance rest1 (length suffix)) in
            case find (\<lambda>(name, _). name = suffix) micros_per of
              None \<Rightarrow> Inl (DurationUnit suffix)
            | Some (_, multiplier) \<Rightarrow>
                (case parse_uint u64_max digits of
                   None \<Rightarrow> Inl DurationOverflow
                 | Some v \<Rightarrow>
                     (case checked_mul64 v multiplier of
                        None \<Rightarrow> Inl DurationOverflow
                      | Some scaled \<Rightarrow>
                          (case checked_add64 micros scaled of
                             None \<Rightarrow> Inl DurationOverflow
                           | Some micros' \<Rightarrow> duration_loop input rest2 micros'))))"
  by pat_completeness auto
termination
proof (relation "measure (\<lambda>(_, rest, _). length rest)", goal_cases)
  case 1
  then show ?case by simp
next
  case (2 input rest micros digits rest1 suffix rest2)
  have "length rest2 \<le> length (advance rest1 (length suffix))"
    by (simp add: 2)
  also have "\<dots> \<le> length rest1" by (simp add: advance_def)
  also have "\<dots> < length rest" using 2 by (simp add: advance_shorter)
  finally show ?case by simp
qed

declare duration_loop.simps [simp del]

definition parse_duration :: "string \<Rightarrow> value_error + duration" where
  "parse_duration input =
     (let rest = trim input in
      if rest = [] then Inl EmptyDuration
      else map_sum id from_micros (duration_loop input rest 0))"

definition parse_size :: "string \<Rightarrow> value_error + size_value" where
  "parse_size input =
     (let text = trim input in
      if text = ''max'' then Inr Max
      else if text = [] then Inl EmptySize
      else
        let digits = take_while text is_ascii_digit in
        if digits = [] then Inl (SizeSyntax input)
        else
          let other = advance text (length digits);
              multiplier =
                (if other = '''' then Some 1
                 else if other = ''K'' then Some (2 ^ 10)
                 else if other = ''M'' then Some (2 ^ 20)
                 else if other = ''G'' then Some (2 ^ 30)
                 else if other = ''T'' then Some (2 ^ 40)
                 else None) in
          (case multiplier of
             None \<Rightarrow> Inl (SizeUnit other)
           | Some mult \<Rightarrow>
               (case parse_uint u64_max digits of
                  None \<Rightarrow> Inl SizeOverflow
                | Some v \<Rightarrow>
                    (case checked_mul64 v mult of
                       None \<Rightarrow> Inl SizeOverflow
                     | Some n \<Rightarrow> Inr (Bytes n)))))"

text \<open>\<open>Display for SizeValue\<close>: what is written into a cgroup file.\<close>

fun show_size :: "size_value \<Rightarrow> string" where
  "show_size (Bytes n) = show_nat n"
| "show_size Max = ''max''"

section \<open>Lemmas\<close>

lemma trim_id: "s \<noteq> [] \<Longrightarrow> \<not> is_whitespace (hd s) \<Longrightarrow> \<not> is_whitespace (last s) \<Longrightarrow> trim s = s"
proof -
  assume s: "s \<noteq> []" "\<not> is_whitespace (hd s)" "\<not> is_whitespace (last s)"
  then have "dropWhile is_whitespace s = s" "dropWhile is_whitespace (rev s) = rev s"
    by (simp_all add: dropWhile_eq_self_iff hd_rev)
  then show "trim s = s" by (simp add: trim_def trim_start_def trim_end_def)
qed

lemma digit_not_ws: "is_ascii_digit c \<Longrightarrow> \<not> is_whitespace c"
  by (auto simp: char_class_defs)

lemma digit_not_alpha: "is_ascii_digit c \<Longrightarrow> \<not> is_ascii_alphabetic c"
  by (auto simp: char_class_defs)

lemma alpha_not_ws: "is_ascii_alphabetic c \<Longrightarrow> \<not> is_whitespace c"
  by (auto simp: char_class_defs)

lemma ws_not_alpha: "is_whitespace c \<Longrightarrow> \<not> is_ascii_alphabetic c"
  by (auto simp: char_class_defs)

lemma show_nat_hd_last:
  "is_ascii_digit (hd (show_nat n))" "is_ascii_digit (last (show_nat n))"
  using show_nat_digits [of n] hd_in_set [OF show_nat_not_Nil, of n]
    last_in_set [OF show_nat_not_Nil, of n]
  by (auto simp: list_all_iff)

text \<open>The text of one number and suffix, followed by anything that does not start with a
  letter, is consumed as one pair.\<close>

lemma takeWhile_run:
  assumes "\<forall>c \<in> set a. P c" and "b = [] \<or> \<not> P (hd b)"
  shows "takeWhile P (a @ b) = a"
proof -
  have "takeWhile P b = []" using assms(2) by (cases b) auto
  then show ?thesis using assms(1) by (simp add: takeWhile_append2)
qed

lemma duration_loop_pair:
  assumes "suffix \<noteq> []" and alpha: "\<forall>c \<in> set suffix. is_ascii_alphabetic c"
    and "find (\<lambda>(name, _). name = suffix) micros_per = Some (nm, mult)"
    and "rest = [] \<or> \<not> is_ascii_alphabetic (hd rest)"
    and bound: "micros + n * mult \<le> u64_max" and "0 < mult"
  shows "duration_loop input (show_nat n @ suffix @ rest) micros =
     duration_loop input (trim_start rest) (micros + n * mult)"
proof -
  have hd_suffix: "\<not> is_ascii_digit (hd (suffix @ rest))"
    using assms(1) alpha by (cases suffix) (auto dest: digit_not_alpha)
  have digits: "takeWhile is_ascii_digit (show_nat n @ suffix @ rest) = show_nat n"
    by (rule takeWhile_run) (use hd_suffix show_nat_set in auto)
  have suffix: "takeWhile is_ascii_alphabetic (suffix @ rest) = suffix"
    by (rule takeWhile_run) (use assms in auto)
  have "n \<le> n * mult" using \<open>0 < mult\<close> by simp
  with bound have "n \<le> u64_max" "n * mult \<le> u64_max" by linarith+
  with bound show ?thesis
    by (simp add: duration_loop.simps [of input "show_nat n @ suffix @ rest"] take_while_def
        advance_def digits suffix assms(1,3) parse_uint_show_nat checked_mul64_def
        checked_add64_def)
qed

text \<open>A duration as its documentation writes it: pairs of a number and a suffix of the
  table, each further pair preceded by white space or by nothing.\<close>

fun render_rest :: "(string \<times> nat \<times> string) list \<Rightarrow> string" where
  "render_rest [] = []"
| "render_rest ((w, n, u) # ps) = w @ show_nat n @ u @ render_rest ps"

definition pair_ok :: "string \<times> nat \<times> string \<Rightarrow> bool" where
  "pair_ok p = (case p of (w, n, u) \<Rightarrow>
     list_all is_whitespace w \<and> u \<in> fst ` set micros_per)"

definition micros_of :: "string \<Rightarrow> nat" where
  "micros_of u = (case map_of micros_per u of None \<Rightarrow> 0 | Some m \<Rightarrow> m)"

definition pair_micros :: "string \<times> nat \<times> string \<Rightarrow> nat" where
  "pair_micros p = (case p of (w, n, u) \<Rightarrow> n * micros_of u)"

lemma find_map_of: "find (\<lambda>(k, _). k = x) kvs = map_option (Pair x) (map_of kvs x)"
  by (induction kvs) auto

lemma suffix_facts:
  assumes "u \<in> fst ` set micros_per"
  shows "u \<noteq> []" "\<forall>c \<in> set u. is_ascii_alphabetic c" "0 < micros_of u"
    "find (\<lambda>(name, _). name = u) micros_per = Some (u, micros_of u)"
proof -
  have "\<forall>k \<in> fst ` set micros_per. k \<noteq> [] \<and> (\<forall>c \<in> set k. is_ascii_alphabetic c) \<and> 0 < micros_of k
      \<and> map_of micros_per k = Some (micros_of k)"
    by (simp add: micros_per_def micros_of_def is_ascii_alphabetic_def scalar_def)
  with assms show "u \<noteq> []" "\<forall>c \<in> set u. is_ascii_alphabetic c" "0 < micros_of u"
    "find (\<lambda>(name, _). name = u) micros_per = Some (u, micros_of u)"
    by (auto simp: find_map_of)
qed

lemma render_rest_hd: "list_all pair_ok ps \<Longrightarrow> render_rest ps = [] \<or> \<not> is_ascii_alphabetic (hd (render_rest ps))"
proof (cases ps)
  case (Cons p ps')
  assume ok: "list_all pair_ok ps"
  obtain w n u where p: "p = (w, n, u)" by (cases p)
  show ?thesis
  proof (cases w)
    case Nil
    then show ?thesis using Cons p show_nat_hd_last(1) [of n] by (auto dest: digit_not_alpha)
  next
    case (Cons c w')
    then show ?thesis using \<open>ps = p # ps'\<close> p ok by (auto simp: pair_ok_def dest: ws_not_alpha)
  qed
qed simp

lemma trim_start_ws: "list_all is_whitespace w \<Longrightarrow> trim_start (w @ s) = trim_start s"
  by (induction w) (auto simp: trim_start_def)

lemma trim_start_show_nat: "trim_start (show_nat n @ s) = show_nat n @ s"
  using show_nat_hd_last(1) [of n] show_nat_not_Nil [of n]
  by (cases "show_nat n") (auto simp: trim_start_def dest: digit_not_ws)

lemma duration_loop_render:
  assumes "list_all pair_ok ps" and "micros + sum_list (map pair_micros ps) \<le> u64_max"
  shows "duration_loop input (trim_start (render_rest ps)) micros =
     Inr (micros + sum_list (map pair_micros ps))"
  using assms
proof (induction ps arbitrary: micros)
  case Nil
  then show ?case by (simp add: trim_start_def duration_loop.simps)
next
  case (Cons p ps)
  obtain w n u where p: "p = (w, n, u)" by (cases p)
  from Cons.prems have "pair_ok p" and ps: "list_all pair_ok ps" by simp_all
  with p have w: "list_all is_whitespace w" and u: "u \<in> fst ` set micros_per"
    by (simp_all add: pair_ok_def)
  note u = suffix_facts [OF u]
  have pair_p: "pair_micros (w, n, u) = n * micros_of u" by (simp add: pair_micros_def)
  have b: "micros + n * micros_of u + sum_list (map pair_micros ps) \<le> u64_max"
    using Cons.prems(2) p pair_p by (simp add: add.assoc)
  then have b': "micros + n * micros_of u \<le> u64_max" by simp
  have "duration_loop input (trim_start (render_rest (p # ps))) micros =
      duration_loop input (show_nat n @ u @ render_rest ps) micros"
    using p w by (simp add: trim_start_ws trim_start_show_nat)
  also have "\<dots> = duration_loop input (trim_start (render_rest ps)) (micros + n * micros_of u)"
    by (rule duration_loop_pair [OF u(1,2,4) render_rest_hd [OF ps] b' u(3)])
  also have "\<dots> = Inr (micros + n * micros_of u + sum_list (map pair_micros ps))"
    by (rule Cons.IH [OF ps b])
  finally show ?case using p pair_p by (simp add: add.assoc)
qed

lemma render_rest_last: "ps \<noteq> [] \<Longrightarrow> list_all pair_ok ps \<Longrightarrow> render_rest ps \<noteq> [] \<and> \<not> is_whitespace (last (render_rest ps))"
proof (induction ps)
  case (Cons p ps)
  obtain w n u where p: "p = (w, n, u)" by (cases p)
  show ?case
  proof (cases "ps = []")
    case True
    have "u \<in> fst ` set micros_per" using Cons.prems p by (simp add: pair_ok_def)
    from suffix_facts(1,2) [OF this] have "u \<noteq> []" "is_ascii_alphabetic (last u)" by auto
    with True p show ?thesis by (auto dest: alpha_not_ws)
  next
    case False
    with Cons p show ?thesis by auto
  qed
qed simp

lemma parse_duration_render:
  assumes ok: "list_all pair_ok (([], n, u) # ps)"
    and bound: "sum_list (map pair_micros (([], n, u) # ps)) \<le> u64_max"
  shows "parse_duration (render_rest (([], n, u) # ps)) =
     Inr (from_micros (sum_list (map pair_micros (([], n, u) # ps))))"
proof -
  let ?ps = "([], n, u) # ps"
  let ?s = "render_rest ?ps"
  have last: "?s \<noteq> []" "\<not> is_whitespace (last ?s)"
    using render_rest_last [OF _ ok] by auto
  have start: "trim_start ?s = ?s" by (simp add: trim_start_show_nat)
  have "\<not> is_whitespace (hd ?s)"
    using show_nat_hd_last(1) [of n] by (auto dest: digit_not_ws)
  with last have trim: "trim ?s = ?s" by (intro trim_id)
  have "duration_loop ?s (trim_start ?s) 0 = Inr (0 + sum_list (map pair_micros ?ps))"
    by (rule duration_loop_render [OF ok]) (use bound in simp)
  then have "duration_loop ?s ?s 0 = Inr (sum_list (map pair_micros ?ps))"
    by (simp only: start add_0)
  then show ?thesis using last(1) by (simp only: parse_duration_def Let_def trim) simp
qed

text \<open>Whatever is accepted fits: the sum is checked at every step.\<close>

lemma duration_loop_bound:
  "duration_loop input rest micros = Inr t \<Longrightarrow> micros \<le> u64_max \<Longrightarrow> micros \<le> t \<and> t \<le> u64_max"
proof (induction input rest micros rule: duration_loop.induct)
  case (1 input rest micros)
  show ?case
  proof (cases "rest = []")
    case True
    with 1 show ?thesis by (simp add: duration_loop.simps)
  next
    case False
    let ?digits = "take_while rest is_ascii_digit"
    let ?rest1 = "advance rest (length ?digits)"
    let ?suffix = "take_while ?rest1 is_ascii_alphabetic"
    let ?rest2 = "trim_start (advance ?rest1 (length ?suffix))"
    from False "1.prems" obtain nm mult v scaled micros' where
      eqs: "?digits \<noteq> []" "?suffix \<noteq> []"
        "find (\<lambda>(name, _). name = ?suffix) micros_per = Some (nm, mult)"
        "parse_uint u64_max ?digits = Some v" "checked_mul64 v mult = Some scaled"
        "checked_add64 micros scaled = Some micros'"
      and run: "duration_loop input ?rest2 micros' = Inr t"
      by (auto simp: duration_loop.simps [of input rest] Let_def
          split: if_splits option.splits prod.splits)
    from eqs(6) have le: "micros \<le> micros'" "micros' \<le> u64_max"
      by (auto simp: checked_add64_def split: if_splits)
    have "micros' \<le> t \<and> t \<le> u64_max"
      by (rule "1.IH" [OF False refl eqs(1) refl refl eqs(2) refl eqs(3) refl eqs(4-6) run le(2)])
    with le show ?thesis by simp
  qed
qed

lemma parse_duration_bound:
  assumes "parse_duration s = Inr d" shows "d \<le> from_micros u64_max"
proof -
  from assms obtain t where "duration_loop s (trim s) 0 = Inr t" and d: "d = from_micros t"
    by (auto simp: parse_duration_def Let_def map_sum_def split: if_splits sum.splits)
  then have "t \<le> u64_max" using duration_loop_bound by force
  with d show ?thesis by (simp add: from_micros_def)
qed

lemma parse_duration_in_range: "parse_duration s = Inr d \<Longrightarrow> d \<le> dur_max"
  by (drule parse_duration_bound) (simp add: from_micros_def dur_max_def nanos_per_sec_def u64_max_def)

lemma trim_show_nat: "trim (show_nat n) = show_nat n"
  using show_nat_hd_last [of n] by (intro trim_id) (auto dest: digit_not_ws)

lemma takeWhile_show_nat [simp]: "takeWhile is_ascii_digit (show_nat n) = show_nat n"
  using show_nat_digits [of n] by (simp add: takeWhile_eq_all_conv list_all_iff)

lemma parse_duration_bare: "parse_duration (show_nat n) = Inl (DurationSuffix (show_nat n))"
  by (simp add: parse_duration_def trim_show_nat duration_loop.simps take_while_def advance_def)

lemma show_nat_not_max: "show_nat n \<noteq> ''max''"
  using show_nat_hd_last(1) [of n] by (auto simp: is_ascii_digit_def scalar_def)

definition size_ok :: "size_value \<Rightarrow> bool" where
  "size_ok s = (case s of Bytes n \<Rightarrow> n \<le> u64_max | Max \<Rightarrow> True)"

lemma parse_show_size: "size_ok s \<Longrightarrow> parse_size (show_size s) = Inr s"
proof (cases s)
  case (Bytes n)
  assume "size_ok s"
  with Bytes show ?thesis
    by (simp add: parse_size_def trim_show_nat take_while_def advance_def show_nat_not_max
        size_ok_def parse_uint_show_nat checked_mul64_def)
next
  case Max
  have "trim ''max'' = ''max''" by (rule trim_id) (simp_all add: is_whitespace_def scalar_def)
  with Max show ?thesis by (simp add: parse_size_def)
qed

definition size_decode :: "string \<Rightarrow> size_value option" where
  "size_decode s = (case parse_size s of Inl _ \<Rightarrow> None | Inr v \<Rightarrow> Some v)"

interpretation size_text: codec show_size size_decode size_ok
  by unfold_locales (simp add: size_decode_def parse_show_size)

section \<open>Properties\<close>

text \<open>A duration means the sum of its parts: a number with a suffix of the table, and
  further pairs after it, with or without white space between, is accepted exactly as long
  as the total fits 64 bits of microseconds, and is that total.\<close>

theorem duration_is_the_sum:
  assumes "list_all pair_ok (([], n, u) # ps)"
    and "sum_list (map pair_micros (([], n, u) # ps)) \<le> u64_max"
  shows "parse_duration (render_rest (([], n, u) # ps)) =
     Inr (from_micros (sum_list (map pair_micros (([], n, u) # ps))))"
  using assms by (rule parse_duration_render)

theorem duration_is_the_sum_witness:
  "parse_duration (render_rest [([], 1, ''min''), ('' '', 30, ''s'')]) = Inr (from_secs 90)"
proof -
  let ?ps = "[([], 1, ''min''), ('' '', 30, ''s'')]"
  have ok: "list_all pair_ok ?ps" by (simp add: pair_ok_def micros_per_def is_whitespace_def scalar_def)
  have total: "sum_list (map pair_micros ?ps) = 90000000"
    by (simp add: pair_micros_def micros_of_def micros_per_def)
  have "sum_list (map pair_micros ?ps) \<le> u64_max" unfolding total by (simp add: u64_max_def)
  from duration_is_the_sum [OF ok this] show ?thesis
    unfolding total by (simp add: from_micros_def from_secs_def nanos_per_sec_def)
qed

end
