(* ===== verification/Exec.thy ===== *)
theory Exec
  imports Text
begin

text \<open>
  Turning the \<open>exec\<close> string of a service into an argv array: \<open>crates/oxinit-unit/src/exec.rs\<close>
  and \<open>ExecError\<close> of \<open>error.rs\<close>.  The loops over \<open>chars()\<close> are recursions over the remaining
  characters with the loop variables as arguments.
\<close>

datatype exec_error =
    ExecEmpty
  | NotAbsolute string
  | UnknownSpecifier char
  | TrailingPercent
  | UnterminatedQuote
  | TrailingBackslash

record specifiers =
  sp_name :: string
  sp_full_name :: string
  sp_hostname :: string
  sp_user :: string

section \<open>Specifier expansion\<close>

fun expand_loop :: "specifiers \<Rightarrow> string \<Rightarrow> string \<Rightarrow> exec_error + string" where
  "expand_loop sp [] out = Inr out"
| "expand_loop sp (c # chars) out =
     (if c \<noteq> CHR ''%'' then expand_loop sp chars (out @ [c])
      else case chars of
        [] \<Rightarrow> Inl TrailingPercent
      | d # chars' \<Rightarrow>
          if d = CHR ''n'' then expand_loop sp chars' (out @ sp_name sp)
          else if d = CHR ''N'' then expand_loop sp chars' (out @ sp_full_name sp)
          else if d = CHR ''H'' then expand_loop sp chars' (out @ sp_hostname sp)
          else if d = CHR ''u'' then expand_loop sp chars' (out @ sp_user sp)
          else if d = CHR ''%'' then expand_loop sp chars' (out @ ''%'')
          else Inl (UnknownSpecifier d))"

definition expand :: "string \<Rightarrow> specifiers \<Rightarrow> exec_error + string" where
  "expand input sp = expand_loop sp input []"

section \<open>Splitting\<close>

fun split_loop :: "string \<Rightarrow> string list \<Rightarrow> string \<Rightarrow> bool \<Rightarrow> char option \<Rightarrow> exec_error + string list" where
  "split_loop [] argv current has_current quote =
     (if quote \<noteq> None then Inl UnterminatedQuote
      else if has_current then Inr (argv @ [current])
      else Inr argv)"
| "split_loop (c # chars) argv current has_current quote =
     (if c = backslash then
        (case chars of
           [] \<Rightarrow> Inl TrailingBackslash
         | escaped # chars' \<Rightarrow> split_loop chars' argv (current @ [escaped]) True quote)
      else if (c = dquote \<or> c = squote) \<and> quote = None then
        split_loop chars argv current True (Some c)
      else if quote = Some c then split_loop chars argv current has_current None
      else if is_whitespace c \<and> quote = None then
        (if has_current then split_loop chars (argv @ [current]) [] False quote
         else split_loop chars argv current has_current quote)
      else split_loop chars argv (current @ [c]) True quote)"

definition split_argv :: "string \<Rightarrow> exec_error + string list" where
  "split_argv input = split_loop input [] [] False None"

definition parse_exec :: "string \<Rightarrow> specifiers \<Rightarrow> exec_error + string list" where
  "parse_exec exec sp =
     (case expand exec sp of
        Inl e \<Rightarrow> Inl e
      | Inr expanded \<Rightarrow>
          (case split_argv expanded of
             Inl e \<Rightarrow> Inl e
           | Inr [] \<Rightarrow> Inl ExecEmpty
           | Inr (program # args) \<Rightarrow>
               (if strip_prefix ''/'' program = None then Inl (NotAbsolute program)
                else Inr (program # args))))"

section \<open>Lemmas\<close>

text \<open>Doubling every percent sign is the inverse of expansion, whatever the specifiers are.\<close>

definition escape_percent :: "string \<Rightarrow> string" where
  "escape_percent s = concat (map (\<lambda>c. if c = CHR ''%'' then ''%%'' else [c]) s)"

lemma expand_loop_escape: "expand_loop sp (escape_percent s @ t) out = expand_loop sp t (out @ s)"
  by (induction s arbitrary: out) (auto simp: escape_percent_def)

lemma expand_escape: "expand (escape_percent s) sp = Inr s"
  using expand_loop_escape [of sp s "[]" "[]"] by (simp add: expand_def)

lemma expand_specifiers:
  "expand (escape_percent a @ ''%n'' @ escape_percent b) sp = Inr (a @ sp_name sp @ b)"
  "expand (escape_percent a @ ''%N'' @ escape_percent b) sp = Inr (a @ sp_full_name sp @ b)"
  "expand (escape_percent a @ ''%H'' @ escape_percent b) sp = Inr (a @ sp_hostname sp @ b)"
  "expand (escape_percent a @ ''%u'' @ escape_percent b) sp = Inr (a @ sp_user sp @ b)"
  using expand_loop_escape [of sp b "[]"]
  by (simp_all add: expand_def expand_loop_escape)

text \<open>Quoting an argument: every character escaped, between double quotes.\<close>

definition escape_all :: "string \<Rightarrow> string" where
  "escape_all s = concat (map (\<lambda>c. [backslash, c]) s)"

definition quote_word :: "string \<Rightarrow> string" where
  "quote_word w = dquote # escape_all w @ [dquote]"

definition quote_argv :: "string list \<Rightarrow> string" where
  "quote_argv argv = concat (map (\<lambda>w. quote_word w @ '' '') argv)"

lemma split_loop_escape:
  "split_loop (escape_all w @ rest) argv current True quote =
     split_loop rest argv (current @ w) True quote"
  by (induction w arbitrary: current) (simp_all add: escape_all_def)

lemma quote_char_facts [simp]:
  "dquote \<noteq> backslash" "squote \<noteq> backslash" "is_whitespace CHR '' ''"
  "CHR '' '' \<noteq> backslash" "CHR '' '' \<noteq> dquote" "CHR '' '' \<noteq> squote"
  "\<not> is_whitespace dquote" "\<not> is_whitespace squote"
  by (simp_all add: is_whitespace_def scalar_def)

lemma split_loop_word:
  "split_loop (quote_word w @ '' '' @ rest) argv [] False None = split_loop rest (argv @ [w]) [] False None"
  by (simp add: quote_word_def split_loop_escape del: One_nat_def)

lemma split_quote_argv: "split_argv (quote_argv argv) = Inr argv"
proof -
  have "split_loop (quote_argv argv @ []) acc [] False None = Inr (acc @ argv)" for acc
  proof (induction argv arbitrary: acc)
    case Nil
    then show ?case by (simp add: quote_argv_def)
  next
    case (Cons w argv)
    have "split_loop (quote_argv (w # argv)) acc [] False None =
        split_loop (quote_argv argv) (acc @ [w]) [] False None"
      using split_loop_word [of w "quote_argv argv" acc] by (simp add: quote_argv_def)
    with Cons show ?case by simp
  qed
  from this [of "[]"] show ?thesis by (simp add: split_argv_def)
qed

text \<open>Splitting plain text: words with no quote, backslash or white space in them.\<close>

definition plain_char :: "char \<Rightarrow> bool" where
  "plain_char c \<longleftrightarrow> \<not> is_whitespace c \<and> c \<noteq> backslash \<and> c \<noteq> dquote \<and> c \<noteq> squote"

lemma split_loop_plain:
  "list_all plain_char w \<Longrightarrow> w \<noteq> [] \<or> h \<Longrightarrow>
     split_loop (w @ rest) argv current h None = split_loop rest argv (current @ w) True None"
proof (induction w arbitrary: current h)
  case (Cons c w)
  then show ?case by (cases "w = []") (auto simp: plain_char_def)
qed simp_all

lemma split_loop_spaces:
  "list_all is_whitespace ws \<Longrightarrow> split_loop (ws @ rest) argv [] False None = split_loop rest argv [] False None"
proof (induction ws)
  case (Cons c ws)
  moreover have "c \<noteq> backslash \<and> c \<noteq> dquote \<and> c \<noteq> squote"
    using Cons.prems by (auto simp: is_whitespace_def scalar_def)
  ultimately show ?case by simp
qed simp

definition join_words :: "(string \<times> string) list \<Rightarrow> string" where
  "join_words ps = concat (map (\<lambda>(w, ws). w @ ws) ps)"

lemma split_plain_words:
  assumes "list_all (\<lambda>(w, ws). w \<noteq> [] \<and> list_all plain_char w \<and> ws \<noteq> [] \<and> list_all is_whitespace ws) ps"
  shows "split_argv (join_words ps) = Inr (map fst ps)"
proof -
  have "split_loop (join_words ps) acc [] False None = Inr (acc @ map fst ps)" for acc
    using assms
  proof (induction ps arbitrary: acc)
    case Nil
    then show ?case by (simp add: join_words_def)
  next
    case (Cons p ps)
    obtain w ws where p: "p = (w, ws)" by (cases p)
    from Cons.prems p obtain s ss where ws: "ws = s # ss" and s: "is_whitespace s"
      and ss: "list_all is_whitespace ss" and w: "w \<noteq> []" "list_all plain_char w"
      by (cases ws) auto
    have s': "s \<noteq> backslash \<and> s \<noteq> dquote \<and> s \<noteq> squote"
      using s by (auto simp: is_whitespace_def scalar_def)
    have "split_loop (join_words (p # ps)) acc [] False None =
        split_loop (w @ s # ss @ join_words ps) acc [] False None"
      using p ws by (simp add: join_words_def)
    also have "\<dots> = split_loop (ss @ join_words ps) (acc @ [w]) [] False None"
      using w s s' by (simp add: split_loop_plain)
    also have "\<dots> = split_loop (join_words ps) (acc @ [w]) [] False None"
      using ss by (rule split_loop_spaces)
    finally show ?case using Cons p by simp
  qed
  from this [of "[]"] show ?thesis by (simp add: split_argv_def)
qed

lemma parse_exec_absolute:
  "parse_exec s sp = Inr argv \<Longrightarrow> \<exists>program args. argv = (CHR ''/'' # program) # args"
  by (auto simp: parse_exec_def split: sum.splits list.splits if_splits)
    (metis append_Cons append_Nil strip_prefix_Some)

lemma parse_exec_quoted:
  "parse_exec (escape_percent (quote_argv ((CHR ''/'' # p) # args))) sp = Inr ((CHR ''/'' # p) # args)"
  by (simp add: parse_exec_def expand_escape split_quote_argv)

definition exec_decode :: "specifiers \<Rightarrow> string \<Rightarrow> string list option" where
  "exec_decode sp s = (case parse_exec s sp of Inl _ \<Rightarrow> None | Inr argv \<Rightarrow> Some argv)"

definition exec_encodable :: "string list \<Rightarrow> bool" where
  "exec_encodable argv = (case argv of [] \<Rightarrow> False | p # _ \<Rightarrow> (case p of [] \<Rightarrow> False | c # _ \<Rightarrow> c = CHR ''/''))"

interpretation exec_text: codec "\<lambda>argv. escape_percent (quote_argv argv)" "exec_decode sp" exec_encodable for sp
  by unfold_locales
    (auto simp: exec_encodable_def exec_decode_def parse_exec_quoted split: list.splits)

section \<open>Properties\<close>

text \<open>C10.  Every argv whose program is an absolute path can be written as an \<open>exec\<close> string:
  with percent signs doubled and each argument escaped between double quotes, parsing
  recovers it, whatever the specifiers expand to.\<close>

theorem exec_recovers_argv:
  assumes "exec_encodable argv"
  shows "parse_exec (escape_percent (quote_argv argv)) sp = Inr argv"
proof -
  from assms obtain p args where "argv = (CHR ''/'' # p) # args"
    by (auto simp: exec_encodable_def split: list.splits)
  then show ?thesis by (simp add: parse_exec_quoted)
qed

theorem exec_recovers_argv_witness:
  "parse_exec (escape_percent (quote_argv [''/bin/echo'', ''100%'', ''a b'']))
     \<lparr>sp_name = ''u'', sp_full_name = ''u.service'', sp_hostname = ''h'', sp_user = ''root''\<rparr>
   = Inr [''/bin/echo'', ''100%'', ''a b'']"
  using exec_recovers_argv [of "[''/bin/echo'', ''100%'', ''a b'']"] by (simp add: exec_encodable_def)

text \<open>There is no search path: whatever the text and the specifiers, an accepted command
  has a program, and the program is an absolute path.\<close>

theorem exec_program_absolute:
  assumes "parse_exec s sp = Inr argv"
  shows "\<exists>program args. argv = (CHR ''/'' # program) # args"
  using assms by (rule parse_exec_absolute)

theorem exec_program_absolute_witness:
  "\<exists>program args. [''/bin/true'', ''x''] = (CHR ''/'' # program) # args"
proof (rule exec_program_absolute)
  show "parse_exec ''/bin/true x''
      \<lparr>sp_name = ''u'', sp_full_name = ''u.service'', sp_hostname = ''h'', sp_user = ''root''\<rparr>
    = Inr [''/bin/true'', ''x'']" by code_simp
qed

end
