(* ===== verification/Schedule.thy ===== *)
theory Schedule
  imports Clock "HOL-Library.Word"
begin

text \<open>
  When a timer next elapses: \<open>crates/oxinit-timer/src/lib.rs\<close>.  A wall-clock moment
  (\<open>Unix = u64\<close> in the source) is a \<open>64 word\<close>, whose addition wraps as the source's does
  in a release build; the fields of a literal time are \<open>u32\<close> in the source and naturals
  here, cast into the word arithmetic.  The specification side works on naturals: the
  moments a calendar names are a residue class, and the next one is the least member that
  is not before now.
\<close>

type_synonym unix = "64 word"

abbreviation MINUTE :: unix where "MINUTE \<equiv> 60"
abbreviation HOUR :: unix where "HOUR \<equiv> 3600"
abbreviation DAY :: unix where "DAY \<equiv> 86400"

datatype calendar = Hourly | Daily | Weekly | At nat nat nat

datatype calendar_error = CalendarError string

section \<open>Parsing and printing\<close>

definition cal_number :: "string \<Rightarrow> nat \<Rightarrow> string \<Rightarrow> calendar_error + nat" where
  "cal_number part bound text =
     (case parse_uint u32_max part of
        None \<Rightarrow> Inl (CalendarError text)
      | Some v \<Rightarrow> if v > bound then Inl (CalendarError text) else Inr v)"

definition cal_field :: "string option \<Rightarrow> nat \<Rightarrow> string \<Rightarrow> calendar_error + nat" where
  "cal_field part bound text =
     (case part of None \<Rightarrow> Inl (CalendarError text) | Some p \<Rightarrow> cal_number p bound text)"

text \<open>\<open>parts.next()\<close>: what the iterator yields and what is left of it.\<close>

fun iter_next :: "'a list \<Rightarrow> 'a option \<times> 'a list" where
  "iter_next [] = (None, [])"
| "iter_next (x # xs) = (Some x, xs)"

definition calendar_parse :: "string \<Rightarrow> calendar_error + calendar" where
  "calendar_parse text =
     (if text = ''hourly'' then Inr Hourly
      else if text = ''daily'' then Inr Daily
      else if text = ''weekly'' then Inr Weekly
      else
        let (p1, parts1) = iter_next (split_on CHR '':'' text) in
        case cal_field p1 23 text of
          Inl e \<Rightarrow> Inl e
        | Inr hour \<Rightarrow>
            let (p2, parts2) = iter_next parts1 in
            (case cal_field p2 59 text of
               Inl e \<Rightarrow> Inl e
             | Inr minute \<Rightarrow>
                 let (p3, parts3) = iter_next parts2 in
                 (case (case p3 of None \<Rightarrow> Inr 0 | Some f \<Rightarrow> cal_number f 59 text) of
                    Inl e \<Rightarrow> Inl e
                  | Inr second \<Rightarrow>
                      if fst (iter_next parts3) \<noteq> None then Inl (CalendarError text)
                      else Inr (At hour minute second))))"

text \<open>\<open>\{:02\}\<close>.\<close>

definition pad2 :: "nat \<Rightarrow> string" where
  "pad2 n = (if n < 10 then ''0'' @ show_nat n else show_nat n)"

fun show_calendar :: "calendar \<Rightarrow> string" where
  "show_calendar Hourly = ''hourly''"
| "show_calendar Daily = ''daily''"
| "show_calendar Weekly = ''weekly''"
| "show_calendar (At h m s) = pad2 h @ '':'' @ pad2 m @ '':'' @ pad2 s"

section \<open>The next moment of a calendar\<close>

definition round_up :: "unix \<Rightarrow> unix \<Rightarrow> unix" where
  "round_up now step =
     (let past = now mod step in if past = 0 then now else now + (step - past))"

definition next_at :: "calendar \<Rightarrow> unix \<Rightarrow> unix" where
  "next_at c now =
     (case c of
        Hourly \<Rightarrow> round_up now HOUR
      | Daily \<Rightarrow> round_up now DAY
      | Weekly \<Rightarrow>
          (let monday_offset = 4 * DAY in
           round_up (now + (7 * DAY - monday_offset)) (7 * DAY) - (7 * DAY - monday_offset))
      | At hour minute second \<Rightarrow>
          (let offset = of_nat hour * HOUR + of_nat minute * MINUTE + of_nat second;
               midnight = now - now mod DAY in
           if midnight + offset \<ge> now then midnight + offset else midnight + DAY + offset))"

section \<open>Schedules\<close>

record schedule =
  on_boot :: "duration option"
  interval :: "duration option"
  calendar :: "calendar option"

datatype next_fire = After duration | AtWall unix

definition sat_add_unix :: "unix \<Rightarrow> unix \<Rightarrow> unix" where
  "sat_add_unix a b = (if unat a + unat b < 2 ^ 64 then a + b else - 1)"

definition sat_sub_unix :: "unix \<Rightarrow> unix \<Rightarrow> unix" where
  "sat_sub_unix a b = (if b \<le> a then a - b else 0)"

definition next_in_seconds :: "next_fire \<Rightarrow> unix \<Rightarrow> nat" where
  "next_in_seconds n now =
     (case n of After delay \<Rightarrow> as_secs delay | AtWall at \<Rightarrow> unat (sat_sub_unix at now))"

definition schedule_is_empty :: "schedule \<Rightarrow> bool" where
  "schedule_is_empty s \<longleftrightarrow> on_boot s = None \<and> interval s = None \<and> calendar s = None"

definition calendar_at :: "schedule \<Rightarrow> unix \<Rightarrow> unix option" where
  "calendar_at s now =
     (case calendar s of None \<Rightarrow> None | Some c \<Rightarrow> Some (next_at c (sat_add_unix now 1)))"

fun sooner :: "duration option \<Rightarrow> unix option \<Rightarrow> unix \<Rightarrow> next_fire option" where
  "sooner (Some delay) (Some at) now =
     (if sat_add_unix now (of_nat (as_secs delay)) \<le> at then Some (After delay)
      else Some (AtWall at))"
| "sooner (Some delay) None now = Some (After delay)"
| "sooner None (Some at) now = Some (AtWall at)"
| "sooner None None now = None"

definition schedule_first :: "schedule \<Rightarrow> unix \<Rightarrow> next_fire option" where
  "schedule_first s now =
     sooner (case on_boot s of Some d \<Rightarrow> Some d | None \<Rightarrow> interval s) (calendar_at s now) now"

definition schedule_next :: "schedule \<Rightarrow> unix \<Rightarrow> next_fire option" where
  "schedule_next s now = sooner (interval s) (calendar_at s now) now"

section \<open>Specification: residue classes\<close>

text \<open>The fields of a literal time that \<open>calendar_parse\<close> lets through.\<close>

definition calendar_ok :: "calendar \<Rightarrow> bool" where
  "calendar_ok c = (case c of At h m s \<Rightarrow> h \<le> 23 \<and> m \<le> 59 \<and> s \<le> 59 | _ \<Rightarrow> True)"

text \<open>The moments a calendar names: a period, and a residue modulo it.  The epoch was a
  Thursday, so Monday midnight is the fourth day of the week that starts with it.\<close>

fun cal_period :: "calendar \<Rightarrow> nat" where
  "cal_period Hourly = 3600"
| "cal_period Daily = 86400"
| "cal_period Weekly = 604800"
| "cal_period (At h m s) = 86400"

fun cal_residue :: "calendar \<Rightarrow> nat" where
  "cal_residue Hourly = 0"
| "cal_residue Daily = 0"
| "cal_residue Weekly = 345600"
| "cal_residue (At h m s) = h * 3600 + m * 60 + s"

definition names_moment :: "calendar \<Rightarrow> nat \<Rightarrow> bool" where
  "names_moment c t \<longleftrightarrow> t mod cal_period c = cal_residue c"

definition next_congruent :: "nat \<Rightarrow> nat \<Rightarrow> nat \<Rightarrow> nat" where
  "next_congruent p r n = n + (p + r - n mod p) mod p"

lemma next_congruent_mod:
  assumes "r < p" shows "next_congruent p r n mod p = r"
proof -
  have "n mod p < p" using assms by simp
  have "next_congruent p r n mod p = (n mod p + (p + r - n mod p)) mod p"
    unfolding next_congruent_def by presburger
  also have "\<dots> = (p + r) mod p" using \<open>n mod p < p\<close> by simp
  finally show ?thesis using assms by simp
qed

lemma next_congruent_ge: "n \<le> next_congruent p r n"
  by (simp add: next_congruent_def)

lemma next_congruent_less: "0 < p \<Longrightarrow> next_congruent p r n < n + p"
  by (simp add: next_congruent_def)

lemma next_congruent_least:
  assumes "r < p" and "n \<le> t" and "t mod p = r"
  shows "next_congruent p r n \<le> t"
proof (rule ccontr)
  assume "\<not> ?thesis"
  then have less: "t < next_congruent p r n" by simp
  have "next_congruent p r n mod p = t mod p" using assms next_congruent_mod by simp
  then have "p dvd next_congruent p r n - t"
    using less by (simp add: mod_eq_dvd_iff_nat)
  moreover have "next_congruent p r n - t < p"
    using next_congruent_less [of p r n] assms(1,2) less by linarith
  moreover have "0 < next_congruent p r n - t" using less by simp
  ultimately show False by (auto dest: dvd_imp_le)
qed

lemma next_congruent_eqI:
  assumes "r < p" and "n \<le> t" and "t < n + p" and "t mod p = r"
  shows "t = next_congruent p r n"
proof -
  have le: "next_congruent p r n \<le> t" using assms next_congruent_least by blast
  have "t mod p = next_congruent p r n mod p" using assms(1,4) next_congruent_mod by simp
  then have "p dvd t - next_congruent p r n" using le by (simp add: mod_eq_dvd_iff_nat)
  moreover have "t - next_congruent p r n < p"
    using assms(1,3) next_congruent_ge [of n p r] le by linarith
  ultimately show ?thesis using le by (auto dest: dvd_imp_le)
qed

section \<open>The word computation implements the specification\<close>

lemma unat_add_small: "unat a + unat b < 2 ^ 64 \<Longrightarrow> unat (a + b :: unix) = unat a + unat b"
  using unat_add_lem [of a b] by simp

lemma unat_sub_le: "unat b \<le> unat a \<Longrightarrow> unat (a - b :: unix) = unat a - unat b"
  by (simp add: unat_sub word_le_nat_alt)

lemma unat_round_up:
  assumes "0 < unat step" and "unat now + unat step < 2 ^ 64"
  shows "unat (round_up now step) = next_congruent (unat step) 0 (unat now)"
proof (cases "now mod step = 0")
  case True
  then have "unat now mod unat step = 0" by (metis unat_0 unat_mod_distrib)
  then show ?thesis using True by (simp add: round_up_def next_congruent_def)
next
  case False
  have m: "unat (now mod step) = unat now mod unat step" by (simp add: unat_mod_distrib)
  with False have pos: "0 < unat now mod unat step" by (metis unat_eq_0 gr0I)
  have "unat now mod unat step < unat step" using assms(1) by simp
  then have d: "unat (step - now mod step) = unat step - unat now mod unat step"
    using m by (simp add: unat_sub_le)
  then have "unat (now + (step - now mod step)) = unat now + (unat step - unat now mod unat step)"
    using assms(2) by (simp add: unat_add_small)
  moreover have "(unat step - unat now mod unat step) mod unat step = unat step - unat now mod unat step"
    using pos assms(1) by (intro mod_less) linarith
  ultimately show ?thesis using False pos by (simp add: round_up_def next_congruent_def)
qed

lemma cal_residue_less: "calendar_ok c \<Longrightarrow> cal_residue c < cal_period c"
  by (cases c) (auto simp: calendar_ok_def)

lemma next_congruent_shift:
  assumes "s \<le> p" and "0 < p"
  shows "next_congruent p 0 (n + s) - s = next_congruent p ((p - s) mod p) n"
proof (rule next_congruent_eqI)
  let ?t = "next_congruent p 0 (n + s)"
  have ge: "n + s \<le> ?t" by (rule next_congruent_ge)
  show "(p - s) mod p < p" using assms by simp
  show "n \<le> ?t - s" using ge by simp
  show "?t - s < n + p" using next_congruent_less [of p 0 "n + s"] assms ge by linarith
  have m: "?t mod p = 0" using next_congruent_mod [of 0 p] assms by simp
  have "(?t - s) mod p = (?t - s + p) mod p" by simp
  also have "?t - s + p = ?t + (p - s)" using ge assms by simp
  also have "(?t + (p - s)) mod p = (p - s) mod p" using m by (metis add_0 mod_add_left_eq)
  finally show "(?t - s) mod p = (p - s) mod p" .
qed

text \<open>The horizon below which no intermediate sum of \<open>next_at\<close> wraps: two weeks
  short of the last second that 64 bits can hold.\<close>

definition unix_horizon :: nat where "unix_horizon = 2 ^ 64 - 2 * 604800"

lemma unat_next_at_At:
  assumes ok: "h \<le> 23" "m \<le> 59" "s \<le> 59" and "unat now < unix_horizon"
  shows "unat (next_at (At h m s) now) = next_congruent 86400 (h * 3600 + m * 60 + s) (unat now)"
proof -
  define off where "off = h * 3600 + m * 60 + s"
  define o' where "o' = (of_nat h * HOUR + of_nat m * MINUTE + of_nat s :: unix)"
  have off: "off < 86400" using ok by (simp add: off_def)
  have "o' = of_nat off" by (simp add: o'_def off_def)
  then have uo: "unat o' = off" using off by (simp add: unat_of_nat)
  define mid where "mid = now - now mod DAY"
  have dm: "unat (now mod DAY) = unat now mod 86400" by (simp add: unat_mod_distrib)
  have um: "unat mid = unat now - unat now mod 86400"
    unfolding mid_def using dm by (simp add: unat_sub_le)
  have hz: "unat now < 2 ^ 64 - 2 * 604800" using assms(4) by (simp add: unix_horizon_def)
  have a: "unat (mid + o') = unat now - unat now mod 86400 + off"
    using um uo off hz by (simp add: unat_add_small)
  have b: "unat (mid + DAY + o') = unat now - unat now mod 86400 + 86400 + off"
  proof -
    have "unat (mid + DAY) = unat now - unat now mod 86400 + 86400"
      using um hz by (simp add: unat_add_small)
    then show ?thesis using uo off hz by (simp add: unat_add_small)
  qed
  have step: "next_at (At h m s) now = (if mid + o' \<ge> now then mid + o' else mid + DAY + o')"
    by (simp add: next_at_def Let_def o'_def mid_def)
  have mz: "(unat now - unat now mod 86400) mod 86400 = 0" by (simp add: minus_mod_eq_mult_div)
  have mlt: "unat now mod 86400 < 86400" by simp
  have le: "unat now mod 86400 \<le> unat now" by simp
  have "unat (next_at (At h m s) now) = next_congruent 86400 off (unat now)"
  proof (cases "now \<le> mid + o'")
    case True
    then have "unat now \<le> unat now - unat now mod 86400 + off" using a by (simp add: word_le_nat_alt)
    moreover have "(unat now - unat now mod 86400 + off) mod 86400 = off"
      using mz off by (metis add_0 mod_add_left_eq mod_less)
    ultimately show ?thesis
      using True a step next_congruent_eqI [of off 86400 "unat now" "unat (mid + o')"] off mlt le
      by simp
  next
    case False
    then have "unat now > unat now - unat now mod 86400 + off" using a by (simp add: word_le_nat_alt)
    moreover have "(unat now - unat now mod 86400 + 86400 + off) mod 86400 = off"
      using mz off by (metis add_0 mod_add_left_eq mod_add_self2 mod_less)
    ultimately show ?thesis
      using False b step next_congruent_eqI [of off 86400 "unat now" "unat (mid + DAY + o')"] off mlt le
      by simp
  qed
  then show ?thesis by (simp add: off_def)
qed

lemma unat_next_at:
  assumes "calendar_ok c" and "unat now < unix_horizon"
  shows "unat (next_at c now) = next_congruent (cal_period c) (cal_residue c) (unat now)"
proof (cases c)
  case Hourly
  then show ?thesis using assms by (simp add: next_at_def unat_round_up unix_horizon_def)
next
  case Daily
  then show ?thesis using assms by (simp add: next_at_def unat_round_up unix_horizon_def)
next
  case Weekly
  have hz: "unat now < 2 ^ 64 - 2 * 604800" using assms by (simp add: unix_horizon_def)
  have p: "unat (now + 259200) = unat now + 259200" using hz by (simp add: unat_add_small)
  have u: "unat (round_up (now + 259200) 604800) = next_congruent 604800 0 (unat now + 259200)"
    using hz p by (simp add: unat_round_up)
  have "259200 \<le> next_congruent 604800 0 (unat now + 259200)"
    using next_congruent_ge [of "unat now + 259200" 604800 0] by simp
  then have "unat (round_up (now + 259200) 604800 - 259200)
      = next_congruent 604800 0 (unat now + 259200) - 259200"
    using u by (simp add: unat_sub_le)
  then show ?thesis
    using Weekly next_congruent_shift [of 259200 604800 "unat now"] by (simp add: next_at_def Let_def)
next
  case (At h m s)
  then show ?thesis using assms unat_next_at_At by (simp add: calendar_ok_def)
qed

text \<open>\<open>next_at\<close> is the least named moment that is not before now.\<close>

lemma next_at_least:
  assumes "calendar_ok c" and "unat now < unix_horizon"
  shows "unat now \<le> unat (next_at c now)"
    and "names_moment c (unat (next_at c now))"
    and "\<And>t. unat now \<le> t \<Longrightarrow> names_moment c t \<Longrightarrow> unat (next_at c now) \<le> t"
    and "unat (next_at c now) < unat now + cal_period c"
  using assms cal_residue_less [OF assms(1)] next_congruent_ge [of "unat now"]
    next_congruent_mod [of "cal_residue c" "cal_period c"]
    next_congruent_least [of "cal_residue c" "cal_period c" "unat now"]
    next_congruent_less [of "cal_period c"]
  by (auto simp: unat_next_at names_moment_def)

section \<open>Schedules fire later, and the sooner half wins\<close>

lemma next_in_sooner:
  "sooner (Some d) (Some a) now \<in> {Some (After d), Some (AtWall a)}"
  by simp

lemma sooner_None: "sooner d a now = None \<longleftrightarrow> d = None \<and> a = None"
  by (cases d; cases a; simp)

lemma unat_sat_add: "unat (sat_add_unix a b) = min (unat a + unat b) (2 ^ 64 - 1)"
  using unsigned_minus_1_eq_mask [where 'a = nat and 'b = 64]
  by (auto simp: sat_add_unix_def unat_add_small mask_eq_exp_minus_1)

lemma calendar_at_later:
  assumes "calendar_at s now = Some a" and "calendar s = Some c" and "calendar_ok c"
    and "unat now + 1 < unix_horizon"
  shows "unat now < unat a" and "names_moment c (unat a)"
    and "\<And>t. unat now < t \<Longrightarrow> names_moment c t \<Longrightarrow> unat a \<le> t"
proof -
  have n: "unat (sat_add_unix now 1) = unat now + 1"
    using assms(4) by (simp add: unat_sat_add unix_horizon_def)
  have a: "a = next_at c (sat_add_unix now 1)" using assms(1,2) by (simp add: calendar_at_def)
  have hz: "unat (sat_add_unix now 1) < unix_horizon" using n assms(4) by simp
  note l = next_at_least [OF assms(3) hz]
  show "unat now < unat a" using l(1) n a by simp
  show "names_moment c (unat a)" using l(2) a by simp
  show "\<And>t. unat now < t \<Longrightarrow> names_moment c t \<Longrightarrow> unat a \<le> t" using l(3) n a by simp
qed

section \<open>Printing and parsing\<close>

lemma digits_value_zero_Cons: "digits_value (CHR ''0'' # s) = digits_value s"
  by (simp add: digits_value_def scalar_def)

lemma pad2_digits: "list_all is_ascii_digit (pad2 n)"
  by (auto simp: pad2_def show_nat_digits) (simp add: char_class_defs)

lemma pad2_not_Nil [simp]: "pad2 n \<noteq> []"
  by (simp add: pad2_def)

lemma pad2_colon: "CHR '':'' \<notin> set (pad2 n)"
  using pad2_digits [of n] by (auto simp: list_all_iff char_class_defs)

lemma digits_value_pad2: "digits_value (pad2 n) = n"
  by (simp add: pad2_def digits_value_zero_Cons digits_value_show_nat)

lemma cal_number_pad2: "n \<le> b \<Longrightarrow> b \<le> 59 \<Longrightarrow> cal_number (pad2 n) b t = Inr n"
  by (simp add: cal_number_def parse_uint_digits [OF pad2_digits] digits_value_pad2 u32_max_def)

lemma hd_pad2: "is_ascii_digit (hd (pad2 n))"
  using pad2_digits [of n] pad2_not_Nil [of n] by (cases "pad2 n") auto

lemma calendar_parse_show:
  assumes "calendar_ok c" shows "calendar_parse (show_calendar c) = Inr c"
proof (cases c)
  case (At h m s)
  define t where "t = pad2 h @ CHR '':'' # pad2 m @ CHR '':'' # pad2 s"
  have sp: "split_on CHR '':'' t = [pad2 h, pad2 m, pad2 s]"
    by (simp add: t_def split_on_append split_on_plain pad2_colon)
  have "is_ascii_digit (hd t)" using hd_pad2 [of h] by (simp add: t_def)
  then have "t \<noteq> ''hourly''" "t \<noteq> ''daily''" "t \<noteq> ''weekly''"
    by (auto simp: char_class_defs)
  then show ?thesis
    using At assms sp
    by (simp add: t_def [symmetric] calendar_parse_def Let_def cal_field_def cal_number_pad2
        calendar_ok_def)
qed (simp_all add: calendar_parse_def)

lemma calendar_parse_ok: "calendar_parse t = Inr c \<Longrightarrow> calendar_ok c"
  by (auto simp: calendar_parse_def calendar_ok_def cal_field_def cal_number_def Let_def
      split: if_splits prod.splits option.splits sum.splits)

definition calendar_decode :: "string \<Rightarrow> calendar option" where
  "calendar_decode t = (case calendar_parse t of Inl e \<Rightarrow> None | Inr c \<Rightarrow> Some c)"

interpretation calendar_text: codec show_calendar calendar_decode calendar_ok
  by unfold_locales (simp add: calendar_decode_def calendar_parse_show)

section \<open>Properties\<close>

text \<open>C8.  The next moment of a calendar is the least moment it names that is not before now,
  and the 64-bit computation never wraps below a horizon two weeks short of the last
  representable second.\<close>

theorem calendar_next_is_least:
  assumes "calendar_ok c" and "unat now < unix_horizon"
  shows "unat now \<le> unat (next_at c now) \<and> names_moment c (unat (next_at c now))
    \<and> (\<forall>t. unat now \<le> t \<and> names_moment c t \<longrightarrow> unat (next_at c now) \<le> t)"
  using next_at_least [OF assms] by blast

theorem calendar_next_is_least_witness:
  "next_at (At 3 30 0) 90000 = 99000 \<and> names_moment (At 3 30 0) (unat (next_at (At 3 30 0) 90000))"
proof
  show "next_at (At 3 30 0) 90000 = 99000" by (simp add: next_at_def Let_def)
  have ok: "calendar_ok (At 3 30 0)" by (simp add: calendar_ok_def)
  have hz: "unat (90000 :: unix) < unix_horizon" unfolding unix_horizon_def by simp
  show "names_moment (At 3 30 0) (unat (next_at (At 3 30 0) 90000))"
    using calendar_next_is_least [OF ok hz] by blast
qed

text \<open>A calendar timer that has just fired is armed for a strictly later moment, the
  first one the calendar names after now: it neither fires twice in the same second nor
  skips an occurrence.\<close>

theorem calendar_rearm_is_later:
  assumes "calendar s = Some c" and "interval s = None" and "calendar_ok c"
    and "unat now + 1 < unix_horizon"
  shows "\<exists>a. schedule_next s now = Some (AtWall a) \<and> unat now < unat a \<and> names_moment c (unat a)
    \<and> (\<forall>t. unat now < t \<and> names_moment c t \<longrightarrow> unat a \<le> t)"
proof -
  obtain a where a: "calendar_at s now = Some a" using assms(1) by (simp add: calendar_at_def)
  have "schedule_next s now = Some (AtWall a)" using a assms(2) by (simp add: schedule_next_def)
  with calendar_at_later [OF a assms(1,3,4)] show ?thesis by blast
qed

theorem calendar_rearm_is_later_witness:
  "\<exists>a. schedule_next \<lparr>on_boot = None, interval = None, calendar = Some Hourly\<rparr> 7200 = Some (AtWall a)
    \<and> 7200 < unat a"
  using calendar_rearm_is_later [of "\<lparr>on_boot = None, interval = None, calendar = Some Hourly\<rparr>" Hourly 7200]
  by (auto simp: calendar_ok_def unix_horizon_def)

text \<open>C9.  Printing a calendar and parsing it again gives it back, and only calendars whose
  fields are in range are ever parsed.\<close>

theorem calendar_round_trip:
  assumes "calendar_ok c"
  shows "calendar_parse (show_calendar c) = Inr c"
  using assms by (rule calendar_parse_show)

theorem calendar_round_trip_witness: "calendar_parse ''03:30:00'' = Inr (At 3 30 0)"
proof -
  have "show_calendar (At 3 30 0) = ''03:30:00''" by code_simp
  then show ?thesis using calendar_round_trip [of "At 3 30 0"] by (simp add: calendar_ok_def)
qed

text \<open>The vocabulary is wider than documented: a field is read as \<open>u32\<close>, which takes a
  leading plus sign and any number of digits, so these are accepted as times.\<close>

theorem calendar_accepts_signs:
  "calendar_parse ''+9:+0'' = Inr (At 9 0 0) \<and> calendar_parse ''3:5'' = Inr (At 3 5 0)
    \<and> calendar_parse ''0000000003:30'' = Inr (At 3 30 0)"
  by (simp add: calendar_parse_def cal_field_def cal_number_def parse_uint_def digits_value_def
      u32_max_def char_class_defs)

end
