(* ===== verification/Address.thy ===== *)
theory Address
  imports Text
begin

text \<open>
  The literals that \<open>str::parse::<SocketAddr>\<close> of Rust's standard library accepts: an IPv4
  address and a port, or a bracketed IPv6 address with an optional numeric scope and a
  port.  The unit parser relies on it to refuse host names and bare ports.  Each reader
  returns the value read and the text left, or \<open>None\<close> having read nothing.
\<close>

datatype socket_addr =
    V4 "nat list" nat
  | V6 "nat list" nat nat

type_synonym 'a reader = "string \<Rightarrow> ('a \<times> string) option"

definition hex_value :: "char \<Rightarrow> nat option" where
  "hex_value c =
     (if is_ascii_digit c then Some (scalar c - 48)
      else if 97 \<le> scalar c \<and> scalar c \<le> 102 then Some (scalar c - 87)
      else if 65 \<le> scalar c \<and> scalar c \<le> 70 then Some (scalar c - 55)
      else None)"

definition to_digit :: "nat \<Rightarrow> char \<Rightarrow> nat option" where
  "to_digit radix c = (case hex_value c of None \<Rightarrow> None | Some d \<Rightarrow> if d < radix then Some d else None)"

definition read_number :: "nat \<Rightarrow> nat option \<Rightarrow> bool \<Rightarrow> nat \<Rightarrow> nat reader" where
  "read_number radix max_digits allow_zero maxv s =
     (let ds = takeWhile (\<lambda>c. to_digit radix c \<noteq> None) s;
          v = foldl (\<lambda>acc c. acc * radix + the (to_digit radix c)) 0 ds in
      if ds = [] then None
      else if (case max_digits of None \<Rightarrow> False | Some k \<Rightarrow> k < length ds) then None
      else if \<not> allow_zero \<and> hd ds = CHR ''0'' \<and> 1 < length ds then None
      else if maxv < v then None
      else Some (v, drop (length ds) s))"

definition read_given_char :: "char \<Rightarrow> unit reader" where
  "read_given_char c s = (case s of [] \<Rightarrow> None | x # xs \<Rightarrow> if x = c then Some ((), xs) else None)"

text \<open>\<open>read_separator\<close>: before every item but the first, the separator.\<close>

definition read_separator :: "char \<Rightarrow> nat \<Rightarrow> 'a reader \<Rightarrow> 'a reader" where
  "read_separator sep i inner s =
     (if i = 0 then inner s
      else (case read_given_char sep s of None \<Rightarrow> None | Some (_, t) \<Rightarrow> inner t))"

fun read_octets :: "nat \<Rightarrow> nat \<Rightarrow> nat list reader" where
  "read_octets i 0 s = Some ([], s)"
| "read_octets i (Suc n) s =
     (case read_separator CHR ''.'' i (read_number 10 (Some 3) False 255) s of
        None \<Rightarrow> None
      | Some (v, t) \<Rightarrow>
          (case read_octets (Suc i) n t of
             None \<Rightarrow> None | Some (vs, u) \<Rightarrow> Some (v # vs, u)))"

definition read_ipv4 :: "nat list reader" where "read_ipv4 s = read_octets 0 4 s"

text \<open>\<open>read_groups\<close> of the IPv6 parser: up to \<open>n\<close> groups from position \<open>i\<close>, the
  groups read, whether they ended in an embedded IPv4 address, and the text left.\<close>

fun read_groups :: "nat \<Rightarrow> nat \<Rightarrow> string \<Rightarrow> nat list \<times> bool \<times> string" where
  "read_groups i 0 s = ([], False, s)"
| "read_groups i (Suc n) s =
     (case (if 0 < n then read_separator CHR '':'' i read_ipv4 s else None) of
        Some (v4, t) \<Rightarrow>
          ([v4 ! 0 * 256 + v4 ! 1, v4 ! 2 * 256 + v4 ! 3], True, t)
      | None \<Rightarrow>
          (case read_separator CHR '':'' i (read_number 16 (Some 4) True 65535) s of
             None \<Rightarrow> ([], False, s)
           | Some (g, t) \<Rightarrow>
               (let (gs, v4, u) = read_groups (Suc i) n t in (g # gs, v4, u))))"

definition read_ipv6 :: "nat list reader" where
  "read_ipv6 s =
     (let (head, head_ipv4, t) = read_groups 0 8 s in
      if length head = 8 then Some (head, t)
      else if head_ipv4 then None
      else case strip_prefix ''::'' t of
        None \<Rightarrow> None
      | Some u \<Rightarrow>
          (let (tail, _, w) = read_groups 0 (8 - (length head + 1)) u in
           Some (head @ replicate (8 - length head - length tail) 0 @ tail, w)))"

definition read_port :: "nat reader" where
  "read_port s =
     (case read_given_char CHR '':'' s of
        None \<Rightarrow> None | Some (_, t) \<Rightarrow> read_number 10 None True 65535 t)"

definition read_scope_id :: "nat reader" where
  "read_scope_id s =
     (case read_given_char CHR ''%'' s of
        None \<Rightarrow> None | Some (_, t) \<Rightarrow> read_number 10 None True u32_max t)"

definition read_socket_v4 :: "socket_addr reader" where
  "read_socket_v4 s =
     (case read_ipv4 s of
        None \<Rightarrow> None
      | Some (ip, t) \<Rightarrow> (case read_port t of None \<Rightarrow> None | Some (p, u) \<Rightarrow> Some (V4 ip p, u)))"

definition read_socket_v6 :: "socket_addr reader" where
  "read_socket_v6 s =
     (case read_given_char CHR ''['' s of None \<Rightarrow> None | Some (_, t) \<Rightarrow>
     (case read_ipv6 t of None \<Rightarrow> None | Some (ip, u) \<Rightarrow>
     (let (scope, u') = (case read_scope_id u of None \<Rightarrow> (0, u) | Some (n, w) \<Rightarrow> (n, w)) in
      case read_given_char CHR '']'' u' of None \<Rightarrow> None | Some (_, v) \<Rightarrow>
     (case read_port v of None \<Rightarrow> None | Some (p, w) \<Rightarrow> Some (V6 ip scope p, w)))))"

text \<open>The parse succeeds only when nothing is left over.\<close>

definition parse_socket_addr :: "string \<Rightarrow> socket_addr option" where
  "parse_socket_addr s =
     (case (case read_socket_v4 s of Some r \<Rightarrow> Some r | None \<Rightarrow> read_socket_v6 s) of
        Some (a, []) \<Rightarrow> Some a | _ \<Rightarrow> None)"

section \<open>What every accepted address looks like\<close>

lemma read_number_first:
  "read_number r m z b s = Some (v, t) \<Longrightarrow> s \<noteq> [] \<and> to_digit r (hd s) \<noteq> None"
  by (cases s) (auto simp: read_number_def Let_def split: if_splits option.splits)

lemma read_number_10_digit:
  "read_number 10 m z b s = Some (v, t) \<Longrightarrow> is_ascii_digit (hd s)"
  using read_number_first [of 10 m z b s v t]
  by (auto simp: to_digit_def hex_value_def char_class_defs split: if_splits)

lemma read_number_le: "read_number r m z b s = Some (v, t) \<Longrightarrow> v \<le> b"
  by (auto simp: read_number_def Let_def split: if_splits)

lemma read_separator_le:
  assumes "read_separator sep i (read_number r m z b) s = Some (v, t)" shows "v \<le> b"
  using assms by (auto simp: read_separator_def read_number_le split: if_splits option.splits)

lemma read_octets_shape:
  "read_octets i n s = Some (vs, t) \<Longrightarrow> length vs = n \<and> (\<forall>v \<in> set vs. v \<le> 255)"
proof (induction i n s arbitrary: vs t rule: read_octets.induct)
  case (2 i n s)
  then show ?case
    using read_separator_le [of "CHR ''.''" i 10 "Some 3" False 255 s]
    by (fastforce split: option.splits)
qed simp

lemma read_octets_first: "read_octets 0 (Suc n) s = Some (vs, t) \<Longrightarrow> is_ascii_digit (hd s)"
  by (auto simp: read_separator_def split: option.splits dest: read_number_10_digit)

lemma read_port_bound: "read_port s = Some (p, t) \<Longrightarrow> p \<le> 65535 \<and> hd s = CHR '':''"
  by (cases s) (auto simp: read_port_def read_given_char_def split: if_splits option.splits
      dest: read_number_le)

lemma parse_socket_addr_first:
  assumes "parse_socket_addr s = Some a"
  shows "is_ascii_digit (hd s) \<or> hd s = CHR ''[''"
proof (cases "read_socket_v4 s")
  case (Some r)
  then obtain vs t where "read_octets 0 4 s = Some (vs, t)"
    by (auto simp: read_socket_v4_def read_ipv4_def split: option.splits)
  then have "is_ascii_digit (hd s)" using read_octets_first [of 3 s vs t] by (simp add: eval_nat_numeral)
  then show ?thesis by simp
next
  case None
  with assms obtain r where "read_socket_v6 s = Some r"
    by (auto simp: parse_socket_addr_def split: option.splits)
  then show ?thesis
    by (cases s) (auto simp: read_socket_v6_def read_given_char_def split: if_splits option.splits)
qed

text \<open>Writing an IPv4 address and port in decimal, and reading it back.\<close>

definition show_v4 :: "nat \<Rightarrow> nat \<Rightarrow> nat \<Rightarrow> nat \<Rightarrow> nat \<Rightarrow> string" where
  "show_v4 a b c d p = show_nat a @ ''.'' @ show_nat b @ ''.'' @ show_nat c @ ''.'' @ show_nat d
     @ '':'' @ show_nat p"

lemma to_digit_10: "to_digit 10 c = (if is_ascii_digit c then Some (scalar c - 48) else None)"
  by (auto simp: to_digit_def hex_value_def char_class_defs)

lemma foldl_digits:
  assumes "list_all is_ascii_digit ds"
  shows "foldl (\<lambda>acc c. acc * 10 + the (to_digit 10 c)) n ds
    = foldl (\<lambda>acc c. acc * 10 + (scalar c - 48)) n ds"
  using assms by (induction ds arbitrary: n) (auto simp: to_digit_10)

lemma show_nat_head: "show_nat n = CHR ''0'' # ds \<Longrightarrow> ds = []"
proof (induction n arbitrary: ds rule: show_nat.induct)
  case (1 n)
  show ?case
  proof (cases "n < 10")
    case True
    then show ?thesis using 1(2) by (simp add: show_nat.simps [of n])
  next
    case False
    then obtain es where es: "show_nat (n div 10) = CHR ''0'' # es"
      using 1(2) show_nat_not_Nil [of "n div 10"]
      by (cases "show_nat (n div 10)") (auto simp: show_nat.simps [of n])
    then have "show_nat (n div 10) = ''0''" using 1(1) False by simp
    then have "n div 10 = 0" using digits_value_show_nat [of "n div 10"]
      by (simp add: digits_value_def scalar_def)
    with False show ?thesis by simp
  qed
qed

lemma takeWhile_show_nat_stop:
  assumes "t = [] \<or> \<not> is_ascii_digit (hd t)"
  shows "takeWhile is_ascii_digit (show_nat n @ t) = show_nat n"
proof -
  have "takeWhile is_ascii_digit t = []" using assms by (cases t) auto
  then show ?thesis using show_nat_digits [of n] by (auto simp: takeWhile_append2 list_all_iff)
qed

lemma read_number_show_nat:
  assumes "t = [] \<or> \<not> is_ascii_digit (hd t)" and "n \<le> b"
    and "\<And>k. m = Some k \<Longrightarrow> length (show_nat n) \<le> k"
  shows "read_number 10 m z b (show_nat n @ t) = Some (n, t)"
proof -
  have tw: "takeWhile (\<lambda>c. to_digit 10 c \<noteq> None) (show_nat n @ t) = show_nat n"
    using takeWhile_show_nat_stop [OF assms(1)] by (simp add: to_digit_10)
  have v: "foldl (\<lambda>acc c. acc * 10 + the (to_digit 10 c)) 0 (show_nat n) = n"
    using foldl_digits [OF show_nat_digits] digits_value_show_nat by (simp add: digits_value_def)
  have z: "\<not> (hd (show_nat n) = CHR ''0'' \<and> 1 < length (show_nat n))"
    using show_nat_head [of n] by (cases "show_nat n") auto
  show ?thesis
    using tw v z assms(2,3) by (auto simp: read_number_def Let_def split: option.splits)
qed

lemma length_show_nat_255: "n \<le> 255 \<Longrightarrow> length (show_nat n) \<le> 3"
  by (simp add: show_nat.simps [of n] show_nat.simps [of "n div 10"] show_nat.simps [of "n div 10 div 10"])

lemma read_octets_4:
  "read_octets 0 4 s = read_octets 0 (Suc (Suc (Suc (Suc 0)))) s"
  by (simp add: numeral_eq_Suc)

lemma read_octet_show_nat:
  assumes "\<not> is_ascii_digit c" and "n \<le> 255"
  shows "read_number 10 (Some 3) False 255 (show_nat n @ c # t) = Some (n, c # t)"
  using assms by (intro read_number_show_nat) (auto simp: length_show_nat_255)

lemma parse_show_v4:
  assumes "a \<le> 255" "b \<le> 255" "c \<le> 255" "d \<le> 255" "p \<le> 65535"
  shows "parse_socket_addr (show_v4 a b c d p) = Some (V4 [a, b, c, d] p)"
proof -
  have stop: "\<not> is_ascii_digit CHR ''.''" "\<not> is_ascii_digit CHR '':''"
    by (simp_all add: char_class_defs)
  have port: "read_port (CHR '':'' # show_nat p) = Some (p, [])"
    using read_number_show_nat [of "[]" p 65535 None] assms(5)
    by (simp add: read_port_def read_given_char_def)
  have "read_octets 0 4 (show_v4 a b c d p) = Some ([a, b, c, d], CHR '':'' # show_nat p)"
    using assms(1-4) stop unfolding read_octets_4
    by (simp add: show_v4_def read_separator_def read_given_char_def read_octet_show_nat)
  then show ?thesis
    using port by (simp add: parse_socket_addr_def read_socket_v4_def read_ipv4_def)
qed

end
