(* ===== verification/UnitFile.thy ===== *)
theory UnitFile
  imports Values Exec Schedule Address
begin

text \<open>
  The unit model and the validation of one unit file: \<open>crates/oxinit-unit/src/unit.rs\<close> and
  the \<open>UnitError\<close> type of \<open>error.rs\<close>.  The TOML reader (\<open>basic_toml::from_str\<close> with the
  \<open>serde\<close> derivations, third-party code) is the parameter \<open>toml\<close> of \<open>parse_in\<close>: it maps the
  text of a file to an error message or to the raw shape of the file.  Everything after it
  is modelled branch by branch.
\<close>

section \<open>The model\<close>

datatype service_type = Simple | Forking | Oneshot | Notify

datatype restart = NoRestart | Always | OnFailure | OnAbnormal

datatype destination = Console | LogPipe | NullDev

datatype socket_type = SockStream | Datagram | Seqpacket

datatype listen = Inet socket_addr | UnixPath string

record resources =
  memory_max :: "size_value option"
  tasks_max :: "nat option"

record service =
  sv_ty :: service_type
  sv_exec :: "string list"
  sv_restart :: restart
  sv_restart_sec :: duration
  sv_start_sec :: duration
  sv_stop_sec :: duration
  sv_watchdog_sec :: "duration option"
  sv_user :: string
  sv_tty :: bool
  sv_output :: destination
  sv_resources :: resources

record socket =
  so_listen :: "listen list"
  so_service :: string
  so_ty :: socket_type
  so_backlog :: nat

record timer =
  ti_schedule :: schedule
  ti_service :: string

datatype kind = Service service | Target | Socket socket | Timer timer

record deps =
  requires :: "string list"
  wants :: "string list"
  after :: "string list"
  before :: "string list"
  conflicts :: "string list"

record oxunit =
  u_name :: string
  u_description :: string
  u_deps :: deps
  u_kind :: kind

definition full_name :: "oxunit \<Rightarrow> string" where
  "full_name u = u_name u @ ''.'' @
     (case u_kind u of Service _ \<Rightarrow> ''service'' | Target \<Rightarrow> ''target''
      | Socket _ \<Rightarrow> ''socket'' | Timer _ \<Rightarrow> ''timer'')"

definition unit_timer :: "oxunit \<Rightarrow> timer option" where
  "unit_timer u = (case u_kind u of Timer t \<Rightarrow> Some t | _ \<Rightarrow> None)"

definition unit_service :: "oxunit \<Rightarrow> service option" where
  "unit_service u = (case u_kind u of Service s \<Rightarrow> Some s | _ \<Rightarrow> None)"

definition unit_socket :: "oxunit \<Rightarrow> socket option" where
  "unit_socket u = (case u_kind u of Socket s \<Rightarrow> Some s | _ \<Rightarrow> None)"

definition DEFAULT_RESTART_SEC :: duration where "DEFAULT_RESTART_SEC = from_millis 100"
definition DEFAULT_START_SEC :: duration where "DEFAULT_START_SEC = from_secs 90"
definition DEFAULT_STOP_SEC :: duration where "DEFAULT_STOP_SEC = from_secs 30"
definition DEFAULT_BACKLOG :: nat where "DEFAULT_BACKLOG = 128"

section \<open>The raw shape and the errors\<close>

record raw_unit =
  rw_description :: "string option"
  rw_requires :: "string list"
  rw_wants :: "string list"
  rw_after :: "string list"
  rw_before :: "string list"
  rw_conflicts :: "string list"

record raw_service =
  rs_ty :: "service_type option"
  rs_exec :: string
  rs_restart :: "restart option"
  rs_restart_sec :: "duration option"
  rs_start_sec :: "duration option"
  rs_stop_sec :: "duration option"
  rs_watchdog_sec :: "duration option"
  rs_user :: "string option"
  rs_tty :: "bool option"
  rs_output :: "destination option"

record raw_socket =
  rk_listen :: "string list"
  rk_service :: string
  rk_ty :: "socket_type option"
  rk_backlog :: "nat option"

record raw_timer =
  rt_service :: string
  rt_on_boot :: "duration option"
  rt_interval :: "duration option"
  rt_on_calendar :: "string option"

record raw_resources =
  rr_memory_max :: "size_value option"
  rr_tasks_max :: "nat option"

record raw_file =
  rf_unit :: "raw_unit option"
  rf_service :: "raw_service option"
  rf_target :: bool
  rf_socket :: "raw_socket option"
  rf_timer :: "raw_timer option"
  rf_resources :: "raw_resources option"

datatype unit_error =
    UE_Toml string string
  | UE_Exec string exec_error
  | UE_NoKind string
  | UE_MultipleKinds string
  | UE_EmptyListen string
  | UE_EmptySchedule string
  | UE_Calendar string calendar_error
  | UE_ListenAddress string string
  | UE_BacklogOnDatagram string
  | UE_WatchdogWithoutNotify string
  | UE_ResourcesOnNonService string
  | UE_RequiresAndConflicts string string
  | UE_Name string
  | UE_UserInUserUnit string
  | UE_TtyInUserUnit string
  | UE_Read string string
  | UE_Directory string string

datatype scope = SystemScope | UserScope string

section \<open>Validation\<close>

definition raw_unit_default :: raw_unit where
  "raw_unit_default = \<lparr>rw_description = None, rw_requires = [], rw_wants = [], rw_after = [],
     rw_before = [], rw_conflicts = []\<rparr>"

definition resources_default :: resources where
  "resources_default = \<lparr>memory_max = None, tasks_max = None\<rparr>"

definition name_char :: "char \<Rightarrow> bool" where
  "name_char c \<longleftrightarrow> is_ascii_alphanumeric c \<or> c = CHR ''_'' \<or> c = CHR ''.'' \<or> c = CHR ''-''"

definition validate_name :: "string \<Rightarrow> unit_error + unit" where
  "validate_name name =
     (if name \<noteq> [] \<and> list_all name_char name then Inr () else Inl (UE_Name name))"

definition parse_listen :: "string \<Rightarrow> listen option" where
  "parse_listen address =
     (if address \<noteq> [] \<and> hd address = CHR ''/'' then Some (UnixPath address)
      else map_option Inet (parse_socket_addr address))"

text \<open>\<open>collect::<Result<Vec<_>, _>>()\<close>: the first error, or all the values.\<close>

fun parse_listens :: "string \<Rightarrow> string list \<Rightarrow> unit_error + listen list" where
  "parse_listens name [] = Inr []"
| "parse_listens name (a # as) =
     (case parse_listen a of
        None \<Rightarrow> Inl (UE_ListenAddress name a)
      | Some l \<Rightarrow> (case parse_listens name as of Inl e \<Rightarrow> Inl e | Inr ls \<Rightarrow> Inr (l # ls)))"

definition option_or :: "'a option \<Rightarrow> 'a \<Rightarrow> 'a" where
  "option_or v d = (case v of None \<Rightarrow> d | Some x \<Rightarrow> x)"

definition service_user :: "string \<Rightarrow> scope \<Rightarrow> raw_service \<Rightarrow> unit_error + string" where
  "service_user name scope s =
     (case scope of
        SystemScope \<Rightarrow> Inr (option_or (rs_user s) ''root'')
      | UserScope owner \<Rightarrow>
          if rs_user s \<noteq> None then Inl (UE_UserInUserUnit name)
          else if rs_tty s = Some True then Inl (UE_TtyInUserUnit name)
          else Inr owner)"

definition parse_service ::
    "string \<Rightarrow> string \<Rightarrow> scope \<Rightarrow> raw_service \<Rightarrow> raw_resources option \<Rightarrow> unit_error + kind" where
  "parse_service name hostname scope s res =
     (case service_user name scope s of
        Inl e \<Rightarrow> Inl e
      | Inr user \<Rightarrow>
          let ty = option_or (rs_ty s) Simple;
              sp = \<lparr>sp_name = name, sp_full_name = name @ ''.service'', sp_hostname = hostname,
                    sp_user = user\<rparr> in
          (case parse_exec (rs_exec s) sp of
             Inl e \<Rightarrow> Inl (UE_Exec name e)
           | Inr exec \<Rightarrow>
               if rs_watchdog_sec s \<noteq> None \<and> ty \<noteq> Notify then Inl (UE_WatchdogWithoutNotify name)
               else Inr (Service
                 \<lparr>sv_ty = ty, sv_exec = exec,
                  sv_restart = option_or (rs_restart s) NoRestart,
                  sv_restart_sec = option_or (rs_restart_sec s) DEFAULT_RESTART_SEC,
                  sv_start_sec = option_or (rs_start_sec s) DEFAULT_START_SEC,
                  sv_stop_sec = option_or (rs_stop_sec s) DEFAULT_STOP_SEC,
                  sv_watchdog_sec = rs_watchdog_sec s,
                  sv_user = user,
                  sv_tty = option_or (rs_tty s) False,
                  sv_output = option_or (rs_output s) Console,
                  sv_resources = (case res of
                      Some r \<Rightarrow> \<lparr>memory_max = rr_memory_max r, tasks_max = rr_tasks_max r\<rparr>
                    | None \<Rightarrow> resources_default)\<rparr>)))"

definition parse_socket :: "string \<Rightarrow> raw_socket \<Rightarrow> unit_error + kind" where
  "parse_socket name s =
     (let ty = option_or (rk_ty s) SockStream in
      if rk_listen s = [] then Inl (UE_EmptyListen name)
      else if rk_backlog s \<noteq> None \<and> ty = Datagram then Inl (UE_BacklogOnDatagram name)
      else case parse_listens name (rk_listen s) of
        Inl e \<Rightarrow> Inl e
      | Inr ls \<Rightarrow> Inr (Socket \<lparr>so_listen = ls, so_service = rk_service s, so_ty = ty,
                        so_backlog = option_or (rk_backlog s) DEFAULT_BACKLOG\<rparr>))"

definition parse_timer :: "string \<Rightarrow> raw_timer \<Rightarrow> unit_error + kind" where
  "parse_timer name t =
     (case (case rt_on_calendar t of
              None \<Rightarrow> Inr None
            | Some text \<Rightarrow> (case calendar_parse text of
                Inl e \<Rightarrow> Inl (UE_Calendar name e) | Inr c \<Rightarrow> Inr (Some c))) of
        Inl e \<Rightarrow> Inl e
      | Inr cal \<Rightarrow>
          let sched = \<lparr>on_boot = rt_on_boot t, interval = rt_interval t, calendar = cal\<rparr> in
          if schedule_is_empty sched then Inl (UE_EmptySchedule name)
          else Inr (Timer \<lparr>ti_schedule = sched, ti_service = rt_service t\<rparr>))"

definition count_sections :: "raw_file \<Rightarrow> nat" where
  "count_sections raw =
     of_bool (rf_service raw \<noteq> None) + of_bool (rf_target raw)
     + of_bool (rf_socket raw \<noteq> None) + of_bool (rf_timer raw \<noteq> None)"

definition parse_kind :: "string \<Rightarrow> string \<Rightarrow> scope \<Rightarrow> raw_file \<Rightarrow> unit_error + kind" where
  "parse_kind name hostname scope raw =
     (case (rf_service raw, rf_socket raw, rf_timer raw) of
        (Some s, None, None) \<Rightarrow> parse_service name hostname scope s (rf_resources raw)
      | (None, Some s, None) \<Rightarrow> parse_socket name s
      | (None, None, Some t) \<Rightarrow> parse_timer name t
      | _ \<Rightarrow> Inr Target)"

definition raw_deps :: "raw_unit \<Rightarrow> deps" where
  "raw_deps m = \<lparr>requires = rw_requires m, wants = rw_wants m, after = rw_after m,
     before = rw_before m, conflicts = rw_conflicts m\<rparr>"

definition parse_raw :: "string \<Rightarrow> string \<Rightarrow> scope \<Rightarrow> raw_file \<Rightarrow> unit_error + oxunit" where
  "parse_raw name hostname scope raw =
     (let m = option_or (rf_unit raw) raw_unit_default;
          ds = raw_deps m in
      case find (\<lambda>r. r \<in> set (conflicts ds)) (requires ds) of
        Some other \<Rightarrow> Inl (UE_RequiresAndConflicts name other)
      | None \<Rightarrow>
          if count_sections raw = 0 then Inl (UE_NoKind name)
          else if count_sections raw > 1 then Inl (UE_MultipleKinds name)
          else if rf_service raw = None \<and> rf_resources raw \<noteq> None
            then Inl (UE_ResourcesOnNonService name)
          else (case parse_kind name hostname scope raw of
             Inl e \<Rightarrow> Inl e
           | Inr k \<Rightarrow> Inr \<lparr>u_name = name, u_description = option_or (rw_description m) name,
                           u_deps = ds, u_kind = k\<rparr>))"

definition parse_in ::
    "(string \<Rightarrow> string + raw_file) \<Rightarrow> string \<Rightarrow> string \<Rightarrow> string \<Rightarrow> scope \<Rightarrow> unit_error + oxunit" where
  "parse_in toml name text hostname scope =
     (case validate_name name of
        Inl e \<Rightarrow> Inl e
      | Inr _ \<Rightarrow>
          (case toml text of
             Inl message \<Rightarrow> Inl (UE_Toml name message)
           | Inr raw \<Rightarrow> parse_raw name hostname scope raw))"

definition parse_unit :: "(string \<Rightarrow> string + raw_file) \<Rightarrow> string \<Rightarrow> string \<Rightarrow> string \<Rightarrow> unit_error + oxunit" where
  "parse_unit toml name text hostname = parse_in toml name text hostname SystemScope"

section \<open>What an accepted unit satisfies\<close>

definition user_fits :: "scope \<Rightarrow> service \<Rightarrow> bool" where
  "user_fits scope sv =
     (case scope of SystemScope \<Rightarrow> True | UserScope owner \<Rightarrow> sv_user sv = owner \<and> \<not> sv_tty sv)"

definition service_ok :: "service \<Rightarrow> bool" where
  "service_ok sv \<longleftrightarrow> sv_exec sv \<noteq> [] \<and> hd (sv_exec sv) \<noteq> [] \<and> hd (hd (sv_exec sv)) = CHR ''/''
     \<and> (sv_watchdog_sec sv \<noteq> None \<longrightarrow> sv_ty sv = Notify)"

definition listen_ok :: "listen \<Rightarrow> bool" where
  "listen_ok l = (case l of Inet a \<Rightarrow> True | UnixPath p \<Rightarrow> p \<noteq> [] \<and> hd p = CHR ''/'')"

definition kind_ok :: "scope \<Rightarrow> kind \<Rightarrow> bool" where
  "kind_ok scope k =
     (case k of
        Service sv \<Rightarrow> service_ok sv \<and> user_fits scope sv
      | Target \<Rightarrow> True
      | Socket so \<Rightarrow> so_listen so \<noteq> [] \<and> list_all listen_ok (so_listen so)
      | Timer t \<Rightarrow> \<not> schedule_is_empty (ti_schedule t)
          \<and> (\<forall>c. calendar (ti_schedule t) = Some c \<longrightarrow> calendar_ok c))"

definition name_ok :: "string \<Rightarrow> bool" where
  "name_ok n \<longleftrightarrow> n \<noteq> [] \<and> list_all name_char n"

definition unit_ok :: "scope \<Rightarrow> oxunit \<Rightarrow> bool" where
  "unit_ok scope u \<longleftrightarrow> name_ok (u_name u)
     \<and> set (requires (u_deps u)) \<inter> set (conflicts (u_deps u)) = {}
     \<and> kind_ok scope (u_kind u)"

lemmas unit_ok_defs = unit_ok_def kind_ok_def service_ok_def user_fits_def listen_ok_def

lemma option_or_simps [simp]: "option_or None d = d" "option_or (Some x) d = x"
  by (simp_all add: option_or_def)

lemma parse_service_cases:
  assumes "parse_service name hostname scope s res = Inr k"
  obtains sv sp where "k = Service sv" and "parse_exec (rs_exec s) sp = Inr (sv_exec sv)"
    and "service_user name scope s = Inr (sv_user sv)"
    and "sv_tty sv = option_or (rs_tty s) False"
    and "sv_watchdog_sec sv \<noteq> None \<longrightarrow> sv_ty sv = Notify"
  using assms by (fastforce simp: parse_service_def Let_def split: sum.splits if_splits)

lemma parse_service_ok:
  assumes "parse_service name hostname scope s res = Inr k"
  shows "kind_ok scope k"
  using assms
proof (rule parse_service_cases)
  fix sv sp
  assume k: "k = Service sv" and e: "parse_exec (rs_exec s) sp = Inr (sv_exec sv)"
    and u: "service_user name scope s = Inr (sv_user sv)"
    and t: "sv_tty sv = option_or (rs_tty s) False"
    and w: "sv_watchdog_sec sv \<noteq> None \<longrightarrow> sv_ty sv = Notify"
  have "service_ok sv" using parse_exec_absolute [OF e] w by (auto simp: service_ok_def)
  moreover have "user_fits scope sv"
    using u t by (cases "rs_tty s") (auto simp: user_fits_def service_user_def split: scope.splits if_splits)
  ultimately show ?thesis using k by (simp add: kind_ok_def)
qed

lemma parse_listens_ok: "parse_listens name as = Inr ls \<Longrightarrow> length ls = length as \<and> list_all listen_ok ls"
  by (induction as arbitrary: ls)
    (auto simp: listen_ok_def parse_listen_def split: option.splits sum.splits if_splits listen.splits)

lemma parse_socket_ok: "parse_socket name s = Inr k \<Longrightarrow> kind_ok scope k"
  using parse_listens_ok [of name "rk_listen s"]
  by (auto simp: parse_socket_def kind_ok_def Let_def split: if_splits sum.splits)

lemma parse_timer_ok: "parse_timer name t = Inr k \<Longrightarrow> kind_ok scope k"
  by (auto simp: parse_timer_def kind_ok_def Let_def calendar_parse_ok
      split: if_splits sum.splits option.splits)

lemma parse_kind_ok: "parse_kind name hostname scope raw = Inr k \<Longrightarrow> kind_ok scope k"
  by (auto simp: parse_kind_def parse_service_ok parse_socket_ok parse_timer_ok kind_ok_def [of _ Target]
      split: option.splits)

lemma find_None_disjoint: "find (\<lambda>r. r \<in> set cs) rs = None \<longleftrightarrow> set rs \<inter> set cs = {}"
  by (auto simp: find_None_iff)

lemma parse_raw_ok:
  assumes "parse_raw name hostname scope raw = Inr u" and "name_ok name"
  shows "unit_ok scope u"
  using assms parse_kind_ok [of name hostname scope raw]
  by (auto simp: parse_raw_def unit_ok_def Let_def find_None_disjoint
      split: option.splits if_splits sum.splits)

lemma validate_name_Inr: "validate_name name = Inr u \<longleftrightarrow> name_ok name"
  by (auto simp: validate_name_def name_ok_def)

lemma parse_in_ok:
  assumes "parse_in toml name text hostname scope = Inr u"
  shows "unit_ok scope u" and "u_name u = name"
proof -
  from assms obtain raw where "name_ok name" and r: "parse_raw name hostname scope raw = Inr u"
    by (auto simp: parse_in_def validate_name_Inr split: sum.splits)
  then show "unit_ok scope u" by (simp add: parse_raw_ok)
  from r show "u_name u = name"
    by (auto simp: parse_raw_def Let_def split: option.splits if_splits sum.splits)
qed

section \<open>Exactly which files are accepted\<close>

definition raw_service_ok :: "string \<Rightarrow> string \<Rightarrow> scope \<Rightarrow> raw_service \<Rightarrow> bool" where
  "raw_service_ok name hostname scope s \<longleftrightarrow>
     (scope \<noteq> SystemScope \<longrightarrow> rs_user s = None \<and> rs_tty s \<noteq> Some True)
     \<and> (rs_watchdog_sec s \<noteq> None \<longrightarrow> rs_ty s = Some Notify)
     \<and> (\<exists>argv. parse_exec (rs_exec s)
           \<lparr>sp_name = name, sp_full_name = name @ ''.service'', sp_hostname = hostname,
            sp_user = (case scope of SystemScope \<Rightarrow> option_or (rs_user s) ''root''
                       | UserScope owner \<Rightarrow> owner)\<rparr> = Inr argv)"

definition raw_socket_ok :: "raw_socket \<Rightarrow> bool" where
  "raw_socket_ok s \<longleftrightarrow> rk_listen s \<noteq> [] \<and> \<not> (rk_backlog s \<noteq> None \<and> rk_ty s = Some Datagram)
     \<and> (\<forall>a \<in> set (rk_listen s). parse_listen a \<noteq> None)"

definition raw_timer_ok :: "raw_timer \<Rightarrow> bool" where
  "raw_timer_ok t \<longleftrightarrow> (rt_on_boot t \<noteq> None \<or> rt_interval t \<noteq> None \<or> rt_on_calendar t \<noteq> None)
     \<and> (\<forall>text. rt_on_calendar t = Some text \<longrightarrow> (\<exists>c. calendar_parse text = Inr c))"

definition raw_ok :: "string \<Rightarrow> string \<Rightarrow> scope \<Rightarrow> raw_file \<Rightarrow> bool" where
  "raw_ok name hostname scope raw \<longleftrightarrow>
     (\<forall>m. rf_unit raw = Some m \<longrightarrow> set (rw_requires m) \<inter> set (rw_conflicts m) = {})
     \<and> count_sections raw = 1
     \<and> (rf_resources raw \<noteq> None \<longrightarrow> rf_service raw \<noteq> None)
     \<and> (\<forall>s. rf_service raw = Some s \<longrightarrow> raw_service_ok name hostname scope s)
     \<and> (\<forall>s. rf_socket raw = Some s \<longrightarrow> raw_socket_ok s)
     \<and> (\<forall>t. rf_timer raw = Some t \<longrightarrow> raw_timer_ok t)"

lemma parse_service_accepts:
  "(\<exists>k. parse_service name hostname scope s res = Inr k) \<longleftrightarrow> raw_service_ok name hostname scope s"
  by (cases "rs_ty s"; cases scope)
    (auto simp: parse_service_def raw_service_ok_def service_user_def Let_def
      split: sum.splits if_splits option.splits)

lemma parse_listens_accepts:
  "(\<exists>ls. parse_listens name as = Inr ls) \<longleftrightarrow> (\<forall>a \<in> set as. parse_listen a \<noteq> None)"
  by (induction as) (auto split: option.splits sum.splits)

lemma parse_socket_accepts: "(\<exists>k. parse_socket name s = Inr k) \<longleftrightarrow> raw_socket_ok s"
  using parse_listens_accepts [of name "rk_listen s"]
  by (cases "rk_ty s") (auto simp: parse_socket_def raw_socket_ok_def Let_def split: sum.splits if_splits)

lemma parse_timer_accepts: "(\<exists>k. parse_timer name t = Inr k) \<longleftrightarrow> raw_timer_ok t"
  by (cases "rt_on_calendar t")
    (auto simp: parse_timer_def raw_timer_ok_def schedule_is_empty_def Let_def
      split: sum.splits if_splits)

lemma parse_kind_accepts:
  assumes "count_sections raw = 1"
  shows "(\<exists>k. parse_kind name hostname scope raw = Inr k) \<longleftrightarrow>
     (\<forall>s. rf_service raw = Some s \<longrightarrow> raw_service_ok name hostname scope s)
     \<and> (\<forall>s. rf_socket raw = Some s \<longrightarrow> raw_socket_ok s)
     \<and> (\<forall>t. rf_timer raw = Some t \<longrightarrow> raw_timer_ok t)"
  using assms
  by (cases "rf_service raw"; cases "rf_socket raw"; cases "rf_timer raw"; cases "rf_target raw")
    (simp_all add: parse_kind_def count_sections_def parse_service_accepts parse_socket_accepts
      parse_timer_accepts)

lemma parse_raw_accepts:
  "(\<exists>u. parse_raw name hostname scope raw = Inr u) \<longleftrightarrow> raw_ok name hostname scope raw"
proof (cases "count_sections raw = 1")
  case False
  then show ?thesis
    by (auto simp: parse_raw_def raw_ok_def Let_def split: option.splits if_splits sum.splits)
next
  case True
  have d: "find (\<lambda>r. r \<in> set (conflicts (raw_deps m))) (requires (raw_deps m)) = None \<longleftrightarrow>
      set (rw_requires m) \<inter> set (rw_conflicts m) = {}" for m
    by (simp add: find_None_disjoint raw_deps_def)
  have dflt: "set (rw_requires raw_unit_default) \<inter> set (rw_conflicts raw_unit_default) = {}"
    by (simp add: raw_unit_default_def)
  have m: "(\<forall>m. rf_unit raw = Some m \<longrightarrow> set (rw_requires m) \<inter> set (rw_conflicts m) = {}) \<longleftrightarrow>
      find (\<lambda>r. r \<in> set (conflicts (raw_deps (option_or (rf_unit raw) raw_unit_default))))
        (requires (raw_deps (option_or (rf_unit raw) raw_unit_default))) = None"
    unfolding d using dflt by (cases "rf_unit raw") simp_all
  show ?thesis
    using True parse_kind_accepts [OF True, of name hostname scope]
    by (auto simp: parse_raw_def raw_ok_def m Let_def split: option.splits sum.splits if_splits)
qed

lemma parse_in_accepts:
  "(\<exists>u. parse_in toml name text hostname scope = Inr u) \<longleftrightarrow>
     name_ok name \<and> (\<exists>raw. toml text = Inr raw \<and> raw_ok name hostname scope raw)"
  by (auto simp: parse_in_def validate_name_def name_ok_def parse_raw_accepts [symmetric]
      split: sum.splits if_splits)

section \<open>Properties\<close>

text \<open>C5.  Exactly the files that should be accepted are: a valid name, TOML that reads, one
  kind section, no unit both required and conflicted, limits only on a service, and in
  that section a command, addresses or a schedule that parse; a user manager's unit sets
  neither a user nor a terminal.\<close>

theorem unit_accepted_iff:
  "(\<exists>u. parse_in toml name text hostname scope = Inr u) \<longleftrightarrow>
     name_ok name \<and> (\<exists>raw. toml text = Inr raw \<and> raw_ok name hostname scope raw)"
  by (rule parse_in_accepts)

text \<open>C6.  Every accepted unit is well formed: its program is an absolute path, a watchdog
  only goes with \<open>notify\<close>, a socket has addresses and a timer something to fire on with
  its fields in range, and in a user manager every service runs as its owner without a
  terminal.\<close>

theorem accepted_unit_well_formed:
  assumes "parse_in toml name text hostname scope = Inr u"
  shows "unit_ok scope u \<and> u_name u = name"
  using parse_in_ok [OF assms] by simp

definition sample_raw :: raw_file where
  "sample_raw = \<lparr>rf_unit = None,
     rf_service = Some \<lparr>rs_ty = Some Notify, rs_exec = ''/bin/d -f'', rs_restart = Some Always,
       rs_restart_sec = None, rs_start_sec = None, rs_stop_sec = None,
       rs_watchdog_sec = Some (from_secs 10), rs_user = None, rs_tty = None, rs_output = None\<rparr>,
     rf_target = False, rf_socket = None, rf_timer = None, rf_resources = None\<rparr>"

theorem accepted_unit_well_formed_witness:
  "\<exists>u. parse_in (\<lambda>_. Inr sample_raw) ''d'' [] ''h'' (UserScope ''ana'') = Inr u
    \<and> unit_ok (UserScope ''ana'') u"
proof -
  have "parse_exec ''/bin/d -f'' \<lparr>sp_name = ''d'', sp_full_name = ''d.service'', sp_hostname = ''h'',
      sp_user = ''ana''\<rparr> = Inr [''/bin/d'', ''-f'']" by code_simp
  then have "raw_ok ''d'' ''h'' (UserScope ''ana'') sample_raw"
    by (simp add: raw_ok_def sample_raw_def count_sections_def raw_service_ok_def)
  moreover have "name_ok ''d''" by (simp add: name_ok_def name_char_def char_class_defs)
  ultimately have "\<exists>u. parse_in (\<lambda>_. Inr sample_raw) ''d'' [] ''h'' (UserScope ''ana'') = Inr u"
    by (simp add: parse_in_accepts)
  then show ?thesis using accepted_unit_well_formed by blast
qed

end
