(* ===== verification/Loader.thy ===== *)
theory Loader
  imports UnitFile
begin

text \<open>
  Loading units from directories: \<open>crates/oxinit-unit/src/load.rs\<close>.  The file system is a
  parameter: \<open>fs_read_dir\<close> gives the entry names of a directory, any of which may be an
  error, and \<open>fs_read\<close> the text of a file.  The specification says which file a name
  comes from: the last directory that holds an acceptable file of that name.
\<close>

datatype io_error = NotFound string | OtherIo string

definition io_message :: "io_error \<Rightarrow> string" where
  "io_message e = (case e of NotFound m \<Rightarrow> m | OtherIo m \<Rightarrow> m)"

record file_system =
  fs_read_dir :: "string \<Rightarrow> io_error + (io_error + string) list"
  fs_read :: "string \<Rightarrow> io_error + string"

definition VENDOR_DIR :: string where "VENDOR_DIR = ''/usr/lib/oxinit/units''"
definition ETC_DIR :: string where "ETC_DIR = ''/etc/oxinit/units''"
definition USER_VENDOR_DIR :: string where "USER_VENDOR_DIR = ''/usr/lib/oxinit/user-units''"
definition USER_ETC_DIR :: string where "USER_ETC_DIR = ''/etc/oxinit/user-units''"
definition USER_CONFIG_SUBDIR :: string where "USER_CONFIG_SUBDIR = ''oxinit/user-units''"

section \<open>Paths\<close>

text \<open>\<open>Path::file_stem\<close> and \<open>Path::extension\<close> of a file name: split at the last dot, unless
  that dot is the first character or the name is two dots.\<close>

definition stem_ext :: "string \<Rightarrow> string \<times> string option" where
  "stem_ext name =
     (if name = ''..'' then (name, None)
      else case split_once CHR ''.'' (rev name) of
        None \<Rightarrow> (name, None)
      | Some (e, s) \<Rightarrow> if s = [] then (name, None) else (rev s, Some (rev e)))"

definition user_dirs :: "string \<Rightarrow> string list" where
  "user_dirs config_home =
     [USER_VENDOR_DIR, USER_ETC_DIR, path_join config_home USER_CONFIG_SUBDIR]"

section \<open>Loading\<close>

record loaded =
  l_units :: "(string, oxunit) bmap"
  l_errors :: "unit_error list"

text \<open>The loop of \<open>unit_files\<close>: an entry that cannot be read ends it with an error.\<close>

fun collect_units :: "string \<Rightarrow> (io_error + string) list \<Rightarrow> io_error + (string \<times> string) list" where
  "collect_units dir [] = Inr []"
| "collect_units dir (Inl e # entries) = Inl e"
| "collect_units dir (Inr file # entries) =
     (case collect_units dir entries of
        Inl e \<Rightarrow> Inl e
      | Inr found \<Rightarrow>
          (case stem_ext file of
             (stem, ext) \<Rightarrow>
               if ext \<noteq> Some ''toml'' then Inr found
               else Inr ((stem, path_join dir file) # found)))"

definition unit_files :: "file_system \<Rightarrow> string \<Rightarrow> io_error + (string \<times> string) list" where
  "unit_files fs dir =
     (case fs_read_dir fs dir of
        Inl e \<Rightarrow> Inl e
      | Inr entries \<Rightarrow>
          (case collect_units dir entries of
             Inl e \<Rightarrow> Inl e
           | Inr found \<Rightarrow> Inr (sort_key fst found)))"

definition read_and_parse ::
    "(string \<Rightarrow> string + raw_file) \<Rightarrow> file_system \<Rightarrow> string \<Rightarrow> scope \<Rightarrow> string \<Rightarrow> string
      \<Rightarrow> unit_error + oxunit" where
  "read_and_parse toml fs hostname scope name path =
     (case fs_read fs path of
        Inl e \<Rightarrow> Inl (UE_Read path (io_message e))
      | Inr text \<Rightarrow> parse_in toml name text hostname scope)"

definition load_file ::
    "(string \<Rightarrow> string + raw_file) \<Rightarrow> file_system \<Rightarrow> string \<Rightarrow> scope \<Rightarrow> string \<times> string
      \<Rightarrow> loaded \<Rightarrow> loaded" where
  "load_file toml fs hostname scope np l =
     (case read_and_parse toml fs hostname scope (fst np) (snd np) of
        Inr u \<Rightarrow> l\<lparr>l_units := binsert (fst np) u (l_units l)\<rparr>
      | Inl e \<Rightarrow> l\<lparr>l_errors := l_errors l @ [e]\<rparr>)"

definition load_dir ::
    "(string \<Rightarrow> string + raw_file) \<Rightarrow> file_system \<Rightarrow> string \<Rightarrow> scope \<Rightarrow> string \<Rightarrow> loaded \<Rightarrow> loaded" where
  "load_dir toml fs hostname scope dir l =
     (case unit_files fs dir of
        Inr files \<Rightarrow> fold (load_file toml fs hostname scope) files l
      | Inl (NotFound _) \<Rightarrow> l
      | Inl (OtherIo m) \<Rightarrow> l\<lparr>l_errors := l_errors l @ [UE_Directory dir m]\<rparr>)"

definition load_dirs_in ::
    "(string \<Rightarrow> string + raw_file) \<Rightarrow> file_system \<Rightarrow> string list \<Rightarrow> string \<Rightarrow> scope \<Rightarrow> loaded" where
  "load_dirs_in toml fs dirs hostname scope =
     fold (load_dir toml fs hostname scope) dirs \<lparr>l_units = [], l_errors = []\<rparr>"

definition load_dirs ::
    "(string \<Rightarrow> string + raw_file) \<Rightarrow> file_system \<Rightarrow> string list \<Rightarrow> string \<Rightarrow> loaded" where
  "load_dirs toml fs dirs hostname = load_dirs_in toml fs dirs hostname SystemScope"

definition load_default ::
    "(string \<Rightarrow> string + raw_file) \<Rightarrow> file_system \<Rightarrow> string \<Rightarrow> loaded" where
  "load_default toml fs hostname = load_dirs toml fs [VENDOR_DIR, ETC_DIR] hostname"

section \<open>Specification: what each directory contributes\<close>

text \<open>The outcome of every unit file of a directory, in the order they are read.\<close>

definition dir_results ::
    "(string \<Rightarrow> string + raw_file) \<Rightarrow> file_system \<Rightarrow> string \<Rightarrow> scope \<Rightarrow> string
      \<Rightarrow> (string \<times> (unit_error + oxunit)) list" where
  "dir_results toml fs hostname scope dir =
     (case unit_files fs dir of
        Inl e \<Rightarrow> []
      | Inr files \<Rightarrow> map (\<lambda>(n, p). (n, read_and_parse toml fs hostname scope n p)) files)"

definition dir_errors ::
    "(string \<Rightarrow> string + raw_file) \<Rightarrow> file_system \<Rightarrow> string \<Rightarrow> scope \<Rightarrow> string \<Rightarrow> unit_error list" where
  "dir_errors toml fs hostname scope dir =
     (case unit_files fs dir of
        Inl (NotFound _) \<Rightarrow> []
      | Inl (OtherIo m) \<Rightarrow> [UE_Directory dir m]
      | Inr _ \<Rightarrow> concat (map (\<lambda>(n, r). case r of Inl e \<Rightarrow> [e] | Inr u \<Rightarrow> [])
                      (dir_results toml fs hostname scope dir)))"

definition accepted :: "(string \<times> (unit_error + oxunit)) list \<Rightarrow> (string \<times> oxunit) list" where
  "accepted rs = concat (map (\<lambda>(n, r). case r of Inl e \<Rightarrow> [] | Inr u \<Rightarrow> [(n, u)]) rs)"

text \<open>The unit a directory defines for a name, if it has an acceptable file for it.\<close>

definition dir_defines ::
    "(string \<Rightarrow> string + raw_file) \<Rightarrow> file_system \<Rightarrow> string \<Rightarrow> scope \<Rightarrow> string \<Rightarrow> string \<Rightarrow> oxunit option" where
  "dir_defines toml fs hostname scope dir n =
     map_of (rev (accepted (dir_results toml fs hostname scope dir))) n"

lemma load_files_fold:
  "fold (load_file toml fs h sc) files l =
     \<lparr>l_units = fold (\<lambda>(k, v). binsert k v)
        (accepted (map (\<lambda>(n, p). (n, read_and_parse toml fs h sc n p)) files)) (l_units l),
      l_errors = l_errors l @ concat (map (\<lambda>(n, r). case r of Inl e \<Rightarrow> [e] | Inr u \<Rightarrow> [])
        (map (\<lambda>(n, p). (n, read_and_parse toml fs h sc n p)) files))\<rparr>"
proof (induction files arbitrary: l)
  case Nil
  then show ?case by (simp add: accepted_def)
next
  case (Cons np files)
  then show ?case
    by (cases np) (auto simp: load_file_def accepted_def split: sum.splits)
qed

lemma load_dir_fold:
  "load_dir toml fs h sc dir l =
     \<lparr>l_units = fold (\<lambda>(k, v). binsert k v) (accepted (dir_results toml fs h sc dir)) (l_units l),
      l_errors = l_errors l @ dir_errors toml fs h sc dir\<rparr>"
proof (cases "unit_files fs dir")
  case (Inl e)
  then show ?thesis
    by (cases e) (simp_all add: load_dir_def dir_results_def dir_errors_def accepted_def)
next
  case (Inr files)
  then show ?thesis by (simp add: load_dir_def dir_results_def dir_errors_def load_files_fold)
qed

lemma load_dirs_snoc:
  "load_dirs_in toml fs (dirs @ [d]) h sc = load_dir toml fs h sc d (load_dirs_in toml fs dirs h sc)"
  by (simp add: load_dirs_in_def)

lemma load_dirs_Nil [simp]: "load_dirs_in toml fs [] h sc = \<lparr>l_units = [], l_errors = []\<rparr>"
  by (simp add: load_dirs_in_def)

text \<open>The facts about folds of insertions come from the interface of ordered maps.\<close>

lemma load_lookup_snoc:
  "bget (l_units (load_dirs_in toml fs (dirs @ [d]) h sc)) n =
     (case dir_defines toml fs h sc d n of
        Some u \<Rightarrow> Some u
      | None \<Rightarrow> bget (l_units (load_dirs_in toml fs dirs h sc)) n)"
  by (simp add: load_dirs_snoc load_dir_fold dir_defines_def bm.lookup_fold_insert)

lemma load_errors: "l_errors (load_dirs_in toml fs dirs h sc) = concat (map (dir_errors toml fs h sc) dirs)"
  by (induction dirs rule: rev_induct) (simp_all add: load_dirs_snoc load_dir_fold)

lemma load_units_ordered: "bmap_ok (l_units (load_dirs_in toml fs dirs h sc))"
  by (induction dirs rule: rev_induct)
    (simp_all add: load_dirs_snoc load_dir_fold bm.inv_fold_insert)

lemma dir_defines_ok:
  assumes "dir_defines toml fs h sc dir n = Some u"
  shows "unit_ok sc u" and "u_name u = n"
proof -
  from assms have "(n, u) \<in> set (accepted (dir_results toml fs h sc dir))"
    by (auto simp: dir_defines_def dest: map_of_SomeD)
  then obtain p where "read_and_parse toml fs h sc n p = Inr u"
    by (auto simp: accepted_def dir_results_def split: sum.splits)
  then obtain body where "parse_in toml n body h sc = Inr u"
    by (auto simp: read_and_parse_def split: sum.splits)
  then show "unit_ok sc u" "u_name u = n" by (rule parse_in_ok)+
qed

lemma load_units_ok:
  "bget (l_units (load_dirs_in toml fs dirs h sc)) n = Some u \<Longrightarrow> unit_ok sc u \<and> u_name u = n"
proof (induction dirs rule: rev_induct)
  case (snoc d dirs)
  then show ?case
    by (auto simp: load_lookup_snoc dir_defines_ok split: option.splits)
qed simp

section \<open>Properties\<close>

text \<open>C7.  A later directory replaces a file of the same name wholly and touches nothing else:
  after loading one more directory, a name is bound to what that directory defines for it,
  and otherwise to what it was bound to before.\<close>

theorem later_directory_wins:
  "bget (l_units (load_dirs_in toml fs (dirs @ [d]) h sc)) n =
     (case dir_defines toml fs h sc d n of
        Some u \<Rightarrow> Some u
      | None \<Rightarrow> bget (l_units (load_dirs_in toml fs dirs h sc)) n)"
  by (rule load_lookup_snoc)

text \<open>What is loaded is sorted by name, well formed and filed under its own name, and
  every file or directory that failed is reported, in order, without losing the others.\<close>

theorem loaded_set_well_formed:
  "bmap_ok (l_units (load_dirs_in toml fs dirs h sc))
   \<and> (\<forall>n u. bget (l_units (load_dirs_in toml fs dirs h sc)) n = Some u \<longrightarrow> unit_ok sc u \<and> u_name u = n)
   \<and> l_errors (load_dirs_in toml fs dirs h sc) = concat (map (dir_errors toml fs h sc) dirs)"
  using load_units_ordered load_units_ok load_errors by blast

theorem loaded_set_well_formed_witness:
  "l_errors (load_dirs_in (\<lambda>_. Inl ''bad'')
     \<lparr>fs_read_dir = \<lambda>_. Inr [Inr ''a.toml'', Inr ''notes''], fs_read = \<lambda>_. Inr []\<rparr> [''d''] ''h'' SystemScope)
   = [UE_Toml ''a'' ''bad'']"
proof -
  let ?fs = "\<lparr>fs_read_dir = \<lambda>_. Inr [Inr ''a.toml'', Inr ''notes''], fs_read = \<lambda>_. Inr []\<rparr>"
  have "dir_errors (\<lambda>_. Inl ''bad'') ?fs ''h'' SystemScope ''d'' = [UE_Toml ''a'' ''bad'']"
    by code_simp
  then show ?thesis
    using loaded_set_well_formed [of "\<lambda>_. Inl ''bad''" ?fs "[''d'']" "''h''" SystemScope] by simp
qed

end
