(* ===== verification/Graph.thy ===== *)
theory Graph
  imports UnitFile
begin

text \<open>
  Dependency resolution and start order: \<open>crates/oxinit-graph/src/lib.rs\<close>.  A
  \<open>BTreeSet<String>\<close> is a strictly ascending list and a \<open>VecDeque\<close> a list whose head is
  the front.  The worklist of \<open>reachable\<close> and the walk of \<open>find_cycle\<close> have termination
  proofs; the loop of Kahn's algorithm, which would not end on degrees that disagree with
  the edges, is a partial function, and returning is proved where it is called.

  The specification: the start set is what \<open>requires\<close> and \<open>wants\<close> reach, and an order is
  right when it lists that set once each with every predecessor before its successor.
\<close>

section \<open>Types\<close>

type_synonym units = "(string, oxunit) bmap"

definition DEFAULT_UNIT :: string where "DEFAULT_UNIT = ''default''"

datatype warning =
    MissingWants string string
  | MissingOrdering string string

datatype graph_error =
    MissingRequires string string
  | NoDefault
  | Cycle "string list"
  | ConflictingRequired string string
  | MissingSocketService string string
  | SocketServiceNotAService string string

record plan =
  p_order :: "string list"
  p_warnings :: "warning list"

section \<open>What gets started\<close>

fun push_requires :: "units \<Rightarrow> string \<Rightarrow> string list \<Rightarrow> string list \<Rightarrow> graph_error + string list" where
  "push_requires units name [] queue = Inr queue"
| "push_requires units name (dep # ds) queue =
     (if bget units dep = None then Inl (MissingRequires name dep)
      else push_requires units name ds (queue @ [dep]))"

fun push_wants ::
    "units \<Rightarrow> string \<Rightarrow> string list \<Rightarrow> string list \<Rightarrow> warning list \<Rightarrow> string list \<times> warning list" where
  "push_wants units name [] queue warnings = (queue, warnings)"
| "push_wants units name (dep # ds) queue warnings =
     (if bget units dep \<noteq> None then push_wants units name ds (queue @ [dep]) warnings
      else push_wants units name ds queue (warnings @ [MissingWants name dep]))"

function reach_loop ::
    "units \<Rightarrow> string list \<Rightarrow> string list \<Rightarrow> warning list
      \<Rightarrow> graph_error + (string list \<times> warning list)" where
  "reach_loop units seen [] warnings = Inr (seen, warnings)"
| "reach_loop units seen (name # queue) warnings =
     (if name \<in> set seen then reach_loop units seen queue warnings
      else
        let seen' = sinsert name seen in
        case bget units name of
          None \<Rightarrow> reach_loop units seen' queue warnings
        | Some u \<Rightarrow>
            (case push_requires units name (requires (u_deps u)) queue of
               Inl e \<Rightarrow> Inl e
             | Inr queue1 \<Rightarrow>
                 let (queue2, warnings') = push_wants units name (wants (u_deps u)) queue1 warnings in
                 reach_loop units seen' queue2 warnings'))"
  by pat_completeness auto
termination
proof (relation "measures [\<lambda>(units, seen, queue, _). card (fst ` set units - set seen),
                           \<lambda>(_, _, queue, _). length queue]", goal_cases)
  case (3 units seen name queue warnings s)
  then have "fst ` set units - set s = fst ` set units - set seen"
    by (auto simp: bget_None_iff)
  then show ?case by simp
next
  case (4 units seen name queue warnings s u q x q2 w)
  have "name \<in> fst ` set units" using 4 bget_in_keys [of units name u] by simp
  then have "fst ` set units - set s \<subset> fst ` set units - set seen" using 4 by auto
  then have "card (fst ` set units - set s) < card (fst ` set units - set seen)"
    by (intro psubset_card_mono) auto
  then show ?case by simp
qed auto

definition reachable ::
    "units \<Rightarrow> string \<Rightarrow> warning list \<Rightarrow> graph_error + (string list \<times> warning list)" where
  "reachable units root warnings = reach_loop units [] [root] warnings"

section \<open>Checks\<close>

fun check_conflicts :: "units \<Rightarrow> string list \<Rightarrow> string list \<Rightarrow> graph_error + unit" where
  "check_conflicts units wanted [] = Inr ()"
| "check_conflicts units wanted (name # names) =
     (case bget units name of
        None \<Rightarrow> check_conflicts units wanted names
      | Some u \<Rightarrow>
          (case find (\<lambda>other. other \<in> set wanted) (conflicts (u_deps u)) of
             Some other \<Rightarrow> Inl (ConflictingRequired name other)
           | None \<Rightarrow> check_conflicts units wanted names))"

fun check_sockets :: "units \<Rightarrow> string list \<Rightarrow> graph_error + unit" where
  "check_sockets units [] = Inr ()"
| "check_sockets units (name # names) =
     (case Option.bind (bget units name) unit_socket of
        None \<Rightarrow> check_sockets units names
      | Some s \<Rightarrow>
          (case bget units (so_service s) of
             None \<Rightarrow> Inl (MissingSocketService name (so_service s))
           | Some u \<Rightarrow>
               if unit_service u = None then Inl (SocketServiceNotAService name (so_service s))
               else check_sockets units names))"

section \<open>Edges\<close>

record edges =
  g_succ :: "(string, string list) bmap"
  g_deg :: "(string, nat) bmap"
  g_warn :: "warning list"

definition add_edge :: "string list \<Rightarrow> string \<Rightarrow> string \<Rightarrow> edges \<Rightarrow> edges" where
  "add_edge wanted from to g =
     (if from \<in> set wanted \<and> to \<in> set wanted then
        let s = option_or (bget (g_succ g) from) [];
            g' = g\<lparr>g_succ := binsert from (sinsert to s) (g_succ g)\<rparr> in
        if to \<in> set s then g'
        else g'\<lparr>g_deg := binsert to (option_or (bget (g_deg g) to) 0 + 1) (g_deg g)\<rparr>
      else g)"

definition edge_after :: "units \<Rightarrow> string list \<Rightarrow> string \<Rightarrow> string \<Rightarrow> edges \<Rightarrow> edges" where
  "edge_after units wanted name dep g =
     (if bget units dep = None then g\<lparr>g_warn := g_warn g @ [MissingOrdering name dep]\<rparr>
      else add_edge wanted dep name g)"

definition edge_before :: "units \<Rightarrow> string list \<Rightarrow> string \<Rightarrow> string \<Rightarrow> edges \<Rightarrow> edges" where
  "edge_before units wanted name dep g =
     (if bget units dep = None then g\<lparr>g_warn := g_warn g @ [MissingOrdering name dep]\<rparr>
      else add_edge wanted name dep g)"

definition unit_edges :: "units \<Rightarrow> string list \<Rightarrow> string \<Rightarrow> edges \<Rightarrow> edges" where
  "unit_edges units wanted name g =
     (case bget units name of
        None \<Rightarrow> g
      | Some u \<Rightarrow>
          let g1 = fold (edge_after units wanted name) (after (u_deps u)) g;
              g2 = fold (edge_before units wanted name) (before (u_deps u)) g1 in
          (case unit_socket u of
             None \<Rightarrow> g2
           | Some s \<Rightarrow> add_edge wanted name (so_service s) g2))"

definition build_edges :: "units \<Rightarrow> string list \<Rightarrow> warning list \<Rightarrow> edges" where
  "build_edges units wanted warnings =
     fold (unit_edges units wanted) wanted
       \<lparr>g_succ = [], g_deg = map (\<lambda>n. (n, 0)) wanted, g_warn = warnings\<rparr>"

section \<open>Kahn's algorithm\<close>

definition relax :: "string \<Rightarrow> (string, nat) bmap \<times> string list \<Rightarrow> (string, nat) bmap \<times> string list" where
  "relax nxt st =
     (case st of (remaining, ready) \<Rightarrow>
        (case bget remaining nxt of
           None \<Rightarrow> (remaining, ready)
         | Some d \<Rightarrow>
             let d' = d - 1; remaining' = bupdate nxt (\<lambda>_. d') remaining in
             if d' = 0 then (remaining', ready @ [nxt]) else (remaining', ready)))"

partial_function (option) kahn ::
    "(string, string list) bmap \<Rightarrow> string list \<Rightarrow> (string, nat) bmap \<Rightarrow> string list
      \<Rightarrow> (string list \<times> (string, nat) bmap) option" where
  "kahn succ ready remaining order =
     (if ready = [] then Some (order, remaining)
      else
        let name = hd ready;
            st = fold relax (option_or (bget succ name) []) (remaining, tl ready) in
        kahn succ (snd st) (fst st) (order @ [name]))"

declare kahn.simps [code]

definition next_blocked ::
    "(string, string list) bmap \<Rightarrow> (string, nat) bmap \<Rightarrow> string \<Rightarrow> string option" where
  "next_blocked succ remaining current =
     find (\<lambda>n. case bget remaining n of None \<Rightarrow> False | Some d \<Rightarrow> d > 0)
       (option_or (bget succ current) [])"

lemma next_blocked_key: "next_blocked succ remaining c = Some n \<Longrightarrow> n \<in> fst ` set remaining"
  by (auto simp: next_blocked_def find_Some_iff split: option.splits dest!: bget_in_keys)

text \<open>The walk of \<open>find_cycle\<close>: \<open>path\<close> so far, and the unit it stands on.\<close>

function cycle_walk ::
    "(string, string list) bmap \<Rightarrow> (string, nat) bmap \<Rightarrow> string list \<Rightarrow> string \<Rightarrow> string list" where
  "cycle_walk succ remaining path current =
     (if current \<in> set path then dropWhile (\<lambda>x. x \<noteq> current) path @ [current]
      else
        case next_blocked succ remaining current of
          None \<Rightarrow> path @ [current]
        | Some nxt \<Rightarrow> cycle_walk succ remaining (path @ [current]) nxt)"
  by pat_completeness auto
termination
proof (relation "measure (\<lambda>(succ, remaining, path, current).
    card (insert current (fst ` set remaining) - set path))", goal_cases)
  case (2 succ remaining path current nxt)
  have "nxt \<in> fst ` set remaining" using 2(2) by (rule next_blocked_key)
  then have "insert nxt (fst ` set remaining) - set (path @ [current])
      \<subset> insert current (fst ` set remaining) - set path" using 2(1) by auto
  then show ?case by (auto intro: psubset_card_mono)
qed simp

declare cycle_walk.simps [simp del]

definition find_cycle :: "(string, string list) bmap \<Rightarrow> (string, nat) bmap \<Rightarrow> string list" where
  "find_cycle succ remaining =
     (case find (\<lambda>(n, d). d > 0) remaining of
        None \<Rightarrow> []
      | Some (start, _) \<Rightarrow> cycle_walk succ remaining [] start)"

definition topological_order ::
    "units \<Rightarrow> string list \<Rightarrow> warning list \<Rightarrow> (graph_error + (string list \<times> warning list)) option" where
  "topological_order units wanted warnings =
     (let g = build_edges units wanted warnings;
          ready = map fst (filter (\<lambda>(n, d). d = 0) (g_deg g)) in
      case kahn (g_succ g) ready (g_deg g) [] of
        None \<Rightarrow> None
      | Some (order, remaining) \<Rightarrow>
          if length order \<noteq> length wanted
          then Some (Inl (Cycle (find_cycle (g_succ g) remaining)))
          else Some (Inr (order, g_warn g)))"

definition resolve_from :: "units \<Rightarrow> string \<Rightarrow> (graph_error + plan) option" where
  "resolve_from units root =
     (if bget units root = None then Some (Inl NoDefault)
      else case reachable units root [] of
        Inl e \<Rightarrow> Some (Inl e)
      | Inr (wanted, warnings) \<Rightarrow>
          (case check_conflicts units wanted wanted of
             Inl e \<Rightarrow> Some (Inl e)
           | Inr _ \<Rightarrow>
               (case check_sockets units wanted of
                  Inl e \<Rightarrow> Some (Inl e)
                | Inr _ \<Rightarrow>
                    (case topological_order units wanted warnings of
                       None \<Rightarrow> None
                     | Some (Inl e) \<Rightarrow> Some (Inl e)
                     | Some (Inr (order, warnings')) \<Rightarrow>
                         Some (Inr \<lparr>p_order = order, p_warnings = warnings'\<rparr>)))))"

definition resolve :: "units \<Rightarrow> (graph_error + plan) option" where
  "resolve units = resolve_from units DEFAULT_UNIT"

section \<open>The start set is the closure of requires and wants\<close>

text \<open>Starting \<open>a\<close> starts \<open>b\<close>: a name \<open>a\<close> lists, of a unit that exists.\<close>

definition pulls :: "units \<Rightarrow> string \<Rightarrow> string \<Rightarrow> bool" where
  "pulls units a b \<longleftrightarrow> bget units b \<noteq> None \<and>
     (\<exists>u. bget units a = Some u \<and> (b \<in> set (requires (u_deps u)) \<or> b \<in> set (wants (u_deps u))))"

definition pulled :: "units \<Rightarrow> string \<Rightarrow> string set" where
  "pulled units root = {x. (pulls units)\<^sup>*\<^sup>* root x}"

lemma push_requires_Inr:
  "push_requires units name ds q = Inr q' \<longleftrightarrow> (\<forall>d \<in> set ds. bget units d \<noteq> None) \<and> q' = q @ ds"
  by (induction units name ds q rule: push_requires.induct) auto

lemma push_requires_Inl:
  "push_requires units name ds q = Inl e \<Longrightarrow>
     \<exists>d \<in> set ds. bget units d = None \<and> e = MissingRequires name d"
  by (induction units name ds q rule: push_requires.induct) (auto split: if_splits)

lemma push_wants_queue:
  "push_wants units name ds q w =
     (q @ filter (\<lambda>d. bget units d \<noteq> None) ds,
      w @ map (MissingWants name) (filter (\<lambda>d. bget units d = None) ds))"
  by (induction units name ds q w rule: push_wants.induct) auto

definition requires_met :: "units \<Rightarrow> string \<Rightarrow> bool" where
  "requires_met units a \<longleftrightarrow>
     (\<forall>u. bget units a = Some u \<longrightarrow> (\<forall>d \<in> set (requires (u_deps u)). bget units d \<noteq> None))"

text \<open>The loop invariant: what a unit already seen pulls is seen or queued.\<close>

definition reach_inv :: "units \<Rightarrow> string list \<Rightarrow> string list \<Rightarrow> bool" where
  "reach_inv units seen queue \<longleftrightarrow> sset_ok seen \<and>
     (\<forall>a \<in> set seen. requires_met units a \<and> (\<forall>b. pulls units a b \<longrightarrow> b \<in> set seen \<union> set queue))"

lemma reach_inv_skip:
  "name \<in> set seen \<Longrightarrow> reach_inv units seen (name # queue) \<Longrightarrow> reach_inv units seen queue"
  by (auto simp: reach_inv_def)

lemma reach_inv_absent:
  "bget units name = None \<Longrightarrow> reach_inv units seen (name # queue)
     \<Longrightarrow> reach_inv units (sinsert name seen) queue"
  by (auto simp: reach_inv_def pulls_def requires_met_def)

lemma reach_inv_visit:
  assumes "bget units name = Some u" and "reach_inv units seen (name # queue)"
    and "\<forall>d \<in> set (requires (u_deps u)). bget units d \<noteq> None"
  shows "reach_inv units (sinsert name seen)
     ((queue @ requires (u_deps u)) @ filter (\<lambda>d. bget units d \<noteq> None) (wants (u_deps u)))"
proof -
  have "requires_met units name" using assms(1,3) by (simp add: requires_met_def)
  moreover have "pulls units name b \<Longrightarrow> b \<in> set (requires (u_deps u)) \<union>
      set (filter (\<lambda>d. bget units d \<noteq> None) (wants (u_deps u)))" for b
    using assms(1) by (auto simp: pulls_def)
  ultimately show ?thesis using assms(2) by (auto simp: reach_inv_def)
qed

lemma reach_loop_inv:
  "reach_loop units seen queue w = Inr (wanted, w') \<Longrightarrow> reach_inv units seen queue \<Longrightarrow>
     reach_inv units wanted [] \<and> set seen \<union> set queue \<subseteq> set wanted"
proof (induction units seen queue w rule: reach_loop.induct)
  case (1 units seen w)
  then show ?case by simp
next
  case (2 units seen name queue w)
  show ?case
  proof (cases "name \<in> set seen")
    case True
    then show ?thesis using 2(1) [OF True] 2(4) reach_inv_skip [OF True 2(5)] by auto
  next
    case False
    show ?thesis
    proof (cases "bget units name")
      case None
      then show ?thesis
        using 2(2) [OF False refl None] 2(4) False reach_inv_absent [OF None 2(5)] by simp
    next
      case (Some u)
      let ?q = "queue @ requires (u_deps u)"
      have r: "push_requires units name (requires (u_deps u)) queue = Inr ?q"
        using 2(4) False Some by (auto simp: push_requires_Inr split: sum.splits)
      have v: "reach_inv units (sinsert name seen)
          (?q @ filter (\<lambda>d. bget units d \<noteq> None) (wants (u_deps u)))"
        using r Some 2(5) by (intro reach_inv_visit) (auto simp: push_requires_Inr)
      show ?thesis
        using 2(3) [OF False refl Some r refl push_wants_queue [symmetric] _ v] 2(4) False Some r
        by (simp add: push_wants_queue)
    qed
  qed
qed

lemma reach_loop_bound:
  "reach_loop units seen queue w = Inr (wanted, w') \<Longrightarrow>
     set seen \<subseteq> R \<Longrightarrow> set queue \<subseteq> R \<Longrightarrow> (\<And>a b. a \<in> R \<Longrightarrow> pulls units a b \<Longrightarrow> b \<in> R) \<Longrightarrow> set wanted \<subseteq> R"
proof (induction units seen queue w rule: reach_loop.induct)
  case (1 units seen w)
  then show ?case by simp
next
  case (2 units seen name queue w)
  show ?case
  proof (cases "name \<in> set seen")
    case True
    then show ?thesis using 2 by simp
  next
    case False
    show ?thesis
    proof (cases "bget units name")
      case None
      then show ?thesis using 2(2) [OF False refl None] 2(4-) False by simp
    next
      case (Some u)
      let ?q = "queue @ requires (u_deps u)"
      have r: "push_requires units name (requires (u_deps u)) queue = Inr ?q"
        using 2(4) False Some by (auto simp: push_requires_Inr split: sum.splits)
      then have "\<forall>d \<in> set (requires (u_deps u)). pulls units name d"
        using Some by (auto simp: push_requires_Inr pulls_def)
      moreover have "\<forall>d \<in> set (filter (\<lambda>d. bget units d \<noteq> None) (wants (u_deps u))). pulls units name d"
        using Some by (auto simp: pulls_def)
      ultimately have "set (?q @ filter (\<lambda>d. bget units d \<noteq> None) (wants (u_deps u))) \<subseteq> R"
        using 2(6,7) by auto
      then show ?thesis
        using 2(3) [OF False refl Some r refl push_wants_queue [symmetric]] 2(4-7) False Some r
        by (simp add: push_wants_queue)
    qed
  qed
qed

lemma pulled_closed: "a \<in> pulled units root \<Longrightarrow> pulls units a b \<Longrightarrow> b \<in> pulled units root"
  by (auto simp: pulled_def)

lemma reachable_set:
  assumes "reachable units root w = Inr (wanted, w')"
  shows "set wanted = pulled units root" and "sset_ok wanted"
    and "\<forall>a \<in> set wanted. requires_met units a"
proof -
  have l: "reach_loop units [] [root] w = Inr (wanted, w')" using assms by (simp add: reachable_def)
  have inv: "reach_inv units wanted []" and root: "root \<in> set wanted"
    using reach_loop_inv [OF l] by (simp_all add: reach_inv_def)
  have "x \<in> set wanted" if "(pulls units)\<^sup>*\<^sup>* root x" for x
    using that by induction (use root inv in \<open>auto simp: reach_inv_def\<close>)
  then have "pulled units root \<subseteq> set wanted" by (auto simp: pulled_def)
  moreover have "set wanted \<subseteq> pulled units root"
    by (rule reach_loop_bound [OF l]) (use pulled_closed in \<open>auto simp: pulled_def\<close>)
  ultimately show "set wanted = pulled units root" by blast
  show "sset_ok wanted" "\<forall>a \<in> set wanted. requires_met units a"
    using inv by (simp_all add: reach_inv_def)
qed

lemma reach_loop_error:
  "reach_loop units seen queue w = Inl e \<Longrightarrow> set queue \<subseteq> R \<Longrightarrow>
     (\<And>a b. a \<in> R \<Longrightarrow> pulls units a b \<Longrightarrow> b \<in> R) \<Longrightarrow>
     \<exists>a u d. a \<in> R \<and> bget units a = Some u \<and> d \<in> set (requires (u_deps u)) \<and> bget units d = None
       \<and> e = MissingRequires a d"
proof (induction units seen queue w rule: reach_loop.induct)
  case (1 units seen w)
  then show ?case by simp
next
  case (2 units seen name queue w)
  show ?case
  proof (cases "name \<in> set seen")
    case True
    then show ?thesis using 2 by simp
  next
    case False
    show ?thesis
    proof (cases "bget units name")
      case None
      then show ?thesis using 2(2) [OF False refl None] 2(4-) False by simp
    next
      case (Some u)
      show ?thesis
      proof (cases "push_requires units name (requires (u_deps u)) queue")
        case (Inl e')
        then have "e = e'" using 2(4) False Some by simp
        then show ?thesis using push_requires_Inl [OF Inl] 2(5) Some by auto
      next
        case (Inr q)
        then have ds: "\<forall>d \<in> set (requires (u_deps u)). pulls units name d"
          and q: "q = queue @ requires (u_deps u)"
          using Some by (auto simp: push_requires_Inr pulls_def)
        have "\<forall>d \<in> set (filter (\<lambda>d. bget units d \<noteq> None) (wants (u_deps u))). pulls units name d"
          using Some by (auto simp: pulls_def)
        then have "set (q @ filter (\<lambda>d. bget units d \<noteq> None) (wants (u_deps u))) \<subseteq> R"
          using ds q 2(5,6) by auto
        then show ?thesis
          using 2(3) [OF False refl Some Inr refl push_wants_queue [symmetric]] 2(4-6) False Some Inr
          by (simp add: push_wants_queue)
      qed
    qed
  qed
qed

lemma reachable_error:
  assumes "reachable units root w = Inl e"
  shows "\<exists>a \<in> pulled units root. \<not> requires_met units a \<and> (\<exists>d. e = MissingRequires a d)"
  using reach_loop_error [OF assms [unfolded reachable_def], of "pulled units root"] pulled_closed
  by (fastforce simp: pulled_def requires_met_def)

section \<open>The checks\<close>

lemma check_conflicts_Inr:
  "check_conflicts units wanted names = Inr () \<longleftrightarrow>
     (\<forall>a \<in> set names. \<forall>u. bget units a = Some u \<longrightarrow> set (conflicts (u_deps u)) \<inter> set wanted = {})"
proof (induction units wanted names rule: check_conflicts.induct)
  case (2 units wanted name names)
  show ?case
  proof (cases "bget units name")
    case None
    then show ?thesis using 2(1) by simp
  next
    case (Some u)
    show ?thesis
    proof (cases "find (\<lambda>other. other \<in> set wanted) (conflicts (u_deps u))")
      case None
      then have "set (conflicts (u_deps u)) \<inter> set wanted = {}" by (simp only: find_None_disjoint)
      then show ?thesis using 2(2) [OF Some None] Some None by simp
    next
      case (Some other)
      then have "set (conflicts (u_deps u)) \<inter> set wanted \<noteq> {}"
        by (auto simp: find_Some_iff dest: nth_mem)
      then show ?thesis using Some \<open>bget units name = Some u\<close> by auto
    qed
  qed
qed simp

lemma check_conflicts_Inl:
  "check_conflicts units wanted names = Inl e \<Longrightarrow> \<exists>a b. e = ConflictingRequired a b"
  by (induction units wanted names rule: check_conflicts.induct) (auto split: option.splits)

lemma check_sockets_Inl:
  "check_sockets units names = Inl e \<Longrightarrow>
     \<exists>a b. e = MissingSocketService a b \<or> e = SocketServiceNotAService a b"
  by (induction units names rule: check_sockets.induct) (auto split: option.splits if_splits)

lemma check_sockets_Inr:
  "check_sockets units names = Inr () \<longleftrightarrow>
     (\<forall>a \<in> set names. \<forall>u s. bget units a = Some u \<longrightarrow> unit_socket u = Some s \<longrightarrow>
        (\<exists>v. bget units (so_service s) = Some v \<and> unit_service v \<noteq> None))"
proof (induction units names rule: check_sockets.induct)
  case (2 units name names)
  then show ?case by (cases "bget units name") (auto split: option.splits)
qed simp

section \<open>The edges built are the declared ones\<close>

text \<open>\<open>a\<close> is declared to start before \<open>b\<close>.\<close>

definition precedes :: "units \<Rightarrow> string \<Rightarrow> string \<Rightarrow> bool" where
  "precedes units a b \<longleftrightarrow>
     (\<exists>u. bget units b = Some u \<and> a \<in> set (after (u_deps u)) \<and> bget units a \<noteq> None)
     \<or> (\<exists>u. bget units a = Some u \<and> b \<in> set (before (u_deps u)) \<and> bget units b \<noteq> None)
     \<or> (\<exists>u s. bget units a = Some u \<and> unit_socket u = Some s \<and> so_service s = b)"

definition order_edges :: "units \<Rightarrow> string set \<Rightarrow> (string \<times> string) set" where
  "order_edges units W = {(a, b). a \<in> W \<and> b \<in> W \<and> precedes units a b}"

definition edge_set :: "(string, string list) bmap \<Rightarrow> (string \<times> string) set" where
  "edge_set succ = {(a, b). \<exists>s. bget succ a = Some s \<and> b \<in> set s}"

definition edges_inv :: "string list \<Rightarrow> edges \<Rightarrow> bool" where
  "edges_inv wanted g \<longleftrightarrow>
     edge_set (g_succ g) \<subseteq> set wanted \<times> set wanted
     \<and> (\<forall>a s. bget (g_succ g) a = Some s \<longrightarrow> sset_ok s)
     \<and> bmap_ok (g_deg g) \<and> fst ` set (g_deg g) = set wanted
     \<and> (\<forall>b \<in> set wanted. bget (g_deg g) b = Some (card {a. (a, b) \<in> edge_set (g_succ g)}))"

lemma edges_inv_warn [simp]: "edges_inv wanted (g\<lparr>g_warn := w\<rparr>) = edges_inv wanted g"
  by (simp add: edges_inv_def)

lemma edge_set_insert:
  "edge_set (binsert from (sinsert to (option_or (bget succ from) [])) succ)
     = insert (from, to) (edge_set succ)"
  by (auto simp: edge_set_def option_or_def split: option.splits if_splits)

lemma edge_set_member: "to \<in> set (option_or (bget succ from) []) \<longleftrightarrow> (from, to) \<in> edge_set succ"
  by (cases "bget succ from") (auto simp: edge_set_def)

lemma edge_set_finite:
  assumes "edge_set succ \<subseteq> set wanted \<times> set wanted" shows "finite {a. (a, b) \<in> edge_set succ}"
  by (rule finite_subset [of _ "set wanted"]) (use assms in auto)

lemma add_edge_set:
  "edge_set (g_succ (add_edge wanted from to g)) = edge_set (g_succ g) \<union>
     (if from \<in> set wanted \<and> to \<in> set wanted then {(from, to)} else {})"
  by (simp add: add_edge_def Let_def edge_set_insert)

lemma add_edge_inv:
  assumes inv: "edges_inv wanted g" shows "edges_inv wanted (add_edge wanted from to g)"
proof (cases "from \<in> set wanted \<and> to \<in> set wanted")
  case False
  then have "add_edge wanted from to g = g" unfolding add_edge_def by (rule if_not_P)
  then show ?thesis using inv by simp
next
  case True
  let ?g = "add_edge wanted from to g"
  let ?E = "edge_set (g_succ g)"
  have E: "edge_set (g_succ ?g) = insert (from, to) ?E" using True by (simp add: add_edge_set)
  have sub: "edge_set (g_succ ?g) \<subseteq> set wanted \<times> set wanted"
    using E inv True by (auto simp: edges_inv_def)
  have ss: "bget (g_succ ?g) a = Some s \<Longrightarrow> sset_ok s" for a s
    using inv True by (auto simp: add_edge_def Let_def edges_inv_def option_or_def
        split: if_splits option.splits)
  have keys: "fst ` set (g_deg ?g) = set wanted" and ok: "bmap_ok (g_deg ?g)"
    using inv True by (auto simp: add_edge_def Let_def edges_inv_def)
  have deg: "bget (g_deg ?g) b = Some (card {a. (a, b) \<in> edge_set (g_succ ?g)})"
    if "b \<in> set wanted" for b
  proof (cases "(from, to) \<in> ?E \<or> b \<noteq> to")
    case True
    then have "{a. (a, b) \<in> edge_set (g_succ ?g)} = {a. (a, b) \<in> ?E}" using E by auto
    moreover have "bget (g_deg ?g) b = bget (g_deg g) b"
      using True by (auto simp: add_edge_def Let_def edge_set_member)
    ultimately show ?thesis using inv that by (simp add: edges_inv_def)
  next
    case False
    then have "{a. (a, b) \<in> edge_set (g_succ ?g)} = insert from {a. (a, b) \<in> ?E}" using E by auto
    moreover have "finite {a. (a, b) \<in> ?E}"
      using inv edge_set_finite [of "g_succ g" wanted b] by (simp add: edges_inv_def)
    moreover have "bget (g_deg g) to = Some (card {a. (a, to) \<in> ?E})"
      using inv True by (simp add: edges_inv_def)
    moreover have "bget (g_deg ?g) to = Some (option_or (bget (g_deg g) to) 0 + 1)"
      using False True by (simp add: add_edge_def Let_def edge_set_member)
    ultimately show ?thesis using False by simp
  qed
  show ?thesis using sub ss keys ok deg unfolding edges_inv_def by blast
qed

lemma fold_edge_after:
  "edges_inv wanted g \<Longrightarrow> edges_inv wanted (fold (edge_after units wanted name) ds g) \<and>
     edge_set (g_succ (fold (edge_after units wanted name) ds g)) = edge_set (g_succ g) \<union>
       {(a, b). b = name \<and> a \<in> set ds \<and> bget units a \<noteq> None \<and> a \<in> set wanted \<and> b \<in> set wanted}"
proof (induction ds arbitrary: g)
  case (Cons d ds)
  have "edges_inv wanted (edge_after units wanted name d g)"
    using Cons.prems by (simp add: edge_after_def add_edge_inv)
  from Cons.IH [OF this] show ?case by (auto simp: edge_after_def add_edge_set)
qed simp

lemma fold_edge_before:
  "edges_inv wanted g \<Longrightarrow> edges_inv wanted (fold (edge_before units wanted name) ds g) \<and>
     edge_set (g_succ (fold (edge_before units wanted name) ds g)) = edge_set (g_succ g) \<union>
       {(a, b). a = name \<and> b \<in> set ds \<and> bget units b \<noteq> None \<and> a \<in> set wanted \<and> b \<in> set wanted}"
proof (induction ds arbitrary: g)
  case (Cons d ds)
  have "edges_inv wanted (edge_before units wanted name d g)"
    using Cons.prems by (simp add: edge_before_def add_edge_inv)
  from Cons.IH [OF this] show ?case by (auto simp: edge_before_def add_edge_set)
qed simp

text \<open>The edges that one unit declares.\<close>

definition declared :: "units \<Rightarrow> string list \<Rightarrow> string \<Rightarrow> (string \<times> string) set" where
  "declared units wanted name = {(a, b). a \<in> set wanted \<and> b \<in> set wanted \<and>
     (\<exists>u. bget units name = Some u \<and>
       ((b = name \<and> a \<in> set (after (u_deps u)) \<and> bget units a \<noteq> None)
        \<or> (a = name \<and> b \<in> set (before (u_deps u)) \<and> bget units b \<noteq> None)
        \<or> (a = name \<and> (\<exists>s. unit_socket u = Some s \<and> so_service s = b))))}"

lemma unit_edges_step:
  assumes inv: "edges_inv wanted g"
  shows "edges_inv wanted (unit_edges units wanted name g)"
    and "edge_set (g_succ (unit_edges units wanted name g))
      = edge_set (g_succ g) \<union> declared units wanted name"
proof -
  have "edges_inv wanted (unit_edges units wanted name g) \<and>
    edge_set (g_succ (unit_edges units wanted name g)) = edge_set (g_succ g) \<union> declared units wanted name"
  proof (cases "bget units name")
    case None
    then show ?thesis using inv by (simp add: unit_edges_def declared_def)
  next
    case (Some u)
    define g1 where "g1 = fold (edge_after units wanted name) (after (u_deps u)) g"
    define g2 where "g2 = fold (edge_before units wanted name) (before (u_deps u)) g1"
    note f1 = fold_edge_after [OF inv, of units name "after (u_deps u)", folded g1_def]
    note f2 = fold_edge_before [OF conjunct1 [OF f1], of units name "before (u_deps u)", folded g2_def]
    show ?thesis
      using Some f1 f2
      by (auto simp: unit_edges_def Let_def g1_def [symmetric] g2_def [symmetric] declared_def
          add_edge_inv add_edge_set split: option.splits)
  qed
  then show "edges_inv wanted (unit_edges units wanted name g)"
    "edge_set (g_succ (unit_edges units wanted name g))
      = edge_set (g_succ g) \<union> declared units wanted name" by blast+
qed

lemma fold_unit_edges:
  "edges_inv wanted g \<Longrightarrow> edges_inv wanted (fold (unit_edges units wanted) names g) \<and>
     edge_set (g_succ (fold (unit_edges units wanted) names g))
       = edge_set (g_succ g) \<union> (\<Union>n \<in> set names. declared units wanted n)"
proof (induction names arbitrary: g)
  case (Cons n names)
  from Cons.IH [OF unit_edges_step(1) [OF Cons.prems]] show ?case
    by (auto simp: unit_edges_step(2) [OF Cons.prems])
qed simp

lemma declared_union: "(\<Union>n \<in> set wanted. declared units wanted n) = order_edges units (set wanted)"
  by (auto simp: declared_def order_edges_def precedes_def)

lemma build_edges_correct:
  assumes "sset_ok wanted"
  shows "edges_inv wanted (build_edges units wanted w)"
    and "edge_set (g_succ (build_edges units wanted w)) = order_edges units (set wanted)"
proof -
  let ?g = "\<lparr>g_succ = [], g_deg = map (\<lambda>n. (n, 0)) wanted, g_warn = w\<rparr>"
  have "edges_inv wanted ?g"
    using assms by (auto simp: edges_inv_def edge_set_def bmap_ok_def comp_def image_iff map_of_map_restrict)
  from fold_unit_edges [OF this, of units wanted]
  show "edges_inv wanted (build_edges units wanted w)"
    "edge_set (g_succ (build_edges units wanted w)) = order_edges units (set wanted)"
    by (simp_all add: build_edges_def declared_union edge_set_def)
qed

section \<open>Kahn's algorithm returns a topological order, or there is a cycle\<close>

text \<open>\<open>xs\<close> lists every predecessor of a unit before the unit.\<close>

definition topological :: "(string \<times> string) set \<Rightarrow> string list \<Rightarrow> bool" where
  "topological E xs \<longleftrightarrow>
     (\<forall>i < length xs. \<forall>a. (a, xs ! i) \<in> E \<longrightarrow> a \<in> set (take i xs))"

lemma topological_snoc:
  "topological E (xs @ [x]) \<longleftrightarrow> topological E xs \<and> (\<forall>a. (a, x) \<in> E \<longrightarrow> a \<in> set xs)"
  unfolding topological_def by (auto simp: less_Suc_eq nth_append)

lemma topological_acyclic:
  assumes "topological E xs" and "E \<subseteq> set xs \<times> set xs" and "distinct xs"
  shows "acyclic E"
proof -
  define pos where "pos a = (LEAST i. i < length xs \<and> xs ! i = a)" for a
  have pos: "pos (xs ! i) = i" if "i < length xs" for i
    unfolding pos_def using that assms(3) by (intro Least_equality) (auto simp: nth_eq_iff_index_eq)
  have "pos a < pos b" if e: "(a, b) \<in> E" for a b
  proof -
    have "b \<in> set xs" using e assms(2) by auto
    then obtain j where j: "j < length xs" "xs ! j = b" by (metis in_set_conv_nth)
    then have "a \<in> set (take j xs)" using e assms(1) by (auto simp: topological_def)
    then obtain i where "i < j" "xs ! i = a" using j by (auto simp: in_set_conv_nth)
    then show ?thesis using j pos by auto
  qed
  then have "E \<subseteq> measure pos" by auto
  then have "wf E" by (rule wf_subset [OF wf_measure])
  then show ?thesis by (rule wf_acyclic)
qed

text \<open>The invariant of the loop: the degrees left count the predecessors not yet listed,
  and the ready units are the unlisted ones with none.\<close>

definition preds_left :: "(string \<times> string) set \<Rightarrow> string list \<Rightarrow> string \<Rightarrow> string set" where
  "preds_left E order b = {a. (a, b) \<in> E \<and> a \<notin> set order}"

definition kahn_inv ::
    "(string \<times> string) set \<Rightarrow> string set \<Rightarrow> string list \<Rightarrow> (string, nat) bmap \<Rightarrow> string list \<Rightarrow> bool" where
  "kahn_inv E W ready remaining order \<longleftrightarrow>
     distinct (order @ ready)
     \<and> fst ` set remaining = W
     \<and> (\<forall>b \<in> W. bget remaining b = Some (card (preds_left E order b)))
     \<and> (\<forall>b. b \<in> set (order @ ready) \<longleftrightarrow> b \<in> W \<and> preds_left E order b = {})
     \<and> topological E order"

lemma relax_Some:
  "bget remaining n = Some d \<Longrightarrow>
     relax n (remaining, ready) =
       (bupdate n (\<lambda>_. d - 1) remaining, ready @ (if d \<le> 1 then [n] else []))"
  by (auto simp: relax_def Let_def)

lemma fst_set_bupdate [simp]: "fst ` set (bupdate k f m) = fst ` set m"
  using bkeys_bupdate [of k f m] by (metis list.set_map)

lemma fold_relax:
  "distinct ns \<Longrightarrow> (\<forall>n \<in> set ns. \<exists>d. bget remaining n = Some (Suc d)) \<Longrightarrow>
     fst ` set (fst (fold relax ns (remaining, ready))) = fst ` set remaining
     \<and> snd (fold relax ns (remaining, ready)) = ready @ filter (\<lambda>n. bget remaining n = Some 1) ns
     \<and> (\<forall>b. bget (fst (fold relax ns (remaining, ready))) b
          = (if b \<in> set ns then map_option (\<lambda>d. d - 1) (bget remaining b) else bget remaining b))"
proof (induction ns arbitrary: remaining ready)
  case (Cons n ns)
  from Cons.prems obtain d where d: "bget remaining n = Some (Suc d)" by auto
  let ?r = "bupdate n (\<lambda>_. d) remaining"
  have r: "relax n (remaining, ready) = (?r, ready @ (if Suc d \<le> 1 then [n] else []))"
    using relax_Some [OF d] by simp
  have prem: "\<forall>m \<in> set ns. \<exists>d. bget ?r m = Some (Suc d)" using Cons.prems by auto
  have same: "filter (\<lambda>m. bget ?r m = Some 1) ns = filter (\<lambda>m. bget remaining m = Some 1) ns"
    using Cons.prems(1) by (intro filter_cong) auto
  let ?q = "ready @ (if Suc d \<le> 1 then [n] else [])"
  have F: "fold relax (n # ns) (remaining, ready) = fold relax ns (?r, ?q)" by (simp add: r)
  have dns: "distinct ns" and nn: "n \<notin> set ns" using Cons.prems(1) by simp_all
  note IH = Cons.IH [OF dns prem, of ?q]
  have "?q @ filter (\<lambda>m. bget ?r m = Some 1) ns = ready @ filter (\<lambda>m. bget remaining m = Some 1) (n # ns)"
    unfolding same using d by simp
  then have "snd (fold relax ns (?r, ?q)) = ready @ filter (\<lambda>m. bget remaining m = Some 1) (n # ns)"
    using IH by argo
  moreover have "fst ` set (fst (fold relax ns (?r, ?q))) = fst ` set remaining" using IH by simp
  moreover have "bget (fst (fold relax ns (?r, ?q))) b
      = (if b \<in> set (n # ns) then map_option (\<lambda>d. d - 1) (bget remaining b) else bget remaining b)" for b
    using IH d nn by auto
  ultimately show ?case unfolding F by blast
qed simp

lemma preds_left_snoc:
  "preds_left E (order @ [x]) b = preds_left E order b - (if (x, b) \<in> E then {x} else {})"
  by (auto simp: preds_left_def)

lemma preds_left_finite:
  assumes "E \<subseteq> W \<times> W" and "finite W" shows "finite (preds_left E order b)"
  by (rule finite_subset [of _ W]) (use assms in \<open>auto simp: preds_left_def\<close>)

text \<open>One round of relaxing: the units it adds, and the numbers that are left.\<close>

lemma kahn_relaxed:
  fixes ready :: "string list"
  assumes inv: "kahn_inv E W (name # ready) remaining order"
    and E: "E = edge_set succ" "E \<subseteq> W \<times> W" "finite W"
    and ss: "\<forall>a s. bget succ a = Some s \<longrightarrow> sset_ok s"
  defines "st \<equiv> fold relax (option_or (bget succ name) []) (remaining, ready)"
    and "P' \<equiv> preds_left E (order @ [name])"
  shows "\<exists>ps. snd st = ready @ ps \<and> distinct ps \<and> (\<forall>n. n \<in> set ps \<longleftrightarrow> (name, n) \<in> E \<and> P' n = {})"
    and "fst ` set (fst st) = W" and "\<forall>b \<in> W. bget (fst st) b = Some (card (P' b))"
proof -
  let ?ns = "option_or (bget succ name) []"
  let ?P = "preds_left E order"
  have ns: "n \<in> set ?ns \<longleftrightarrow> (name, n) \<in> E" for n using E edge_set_member by simp
  have dns: "distinct ?ns"
    using ss by (auto simp: option_or_def split: option.splits intro: sset_ok_distinct)
  have nord: "name \<notin> set order"
    using inv by (auto simp: kahn_inv_def)
  have fin: "finite (?P b)" for b using E by (intro preds_left_finite)
  have card1: "card (?P b) = Suc (card (P' b))" if "(name, b) \<in> E" for b
  proof -
    have "name \<in> ?P b" using that nord by (simp add: preds_left_def)
    moreover have "P' b = ?P b - {name}" using that by (simp add: P'_def preds_left_snoc)
    ultimately show ?thesis using fin by (simp only: card_Suc_Diff1)
  qed
  have same: "P' b = ?P b" if "(name, b) \<notin> E" for b using that by (simp add: P'_def preds_left_snoc)
  have deg: "bget remaining b = Some (card (?P b))" if "b \<in> W" for b
    using inv that by (simp add: kahn_inv_def)
  have EW: "(name, b) \<in> E \<Longrightarrow> b \<in> W" for b using E by auto
  have pos: "\<forall>n \<in> set ?ns. \<exists>d. bget remaining n = Some (Suc d)"
  proof
    fix n assume "n \<in> set ?ns"
    then have "(name, n) \<in> E" using ns by blast
    then show "\<exists>d. bget remaining n = Some (Suc d)" using deg [OF EW] card1 by simp
  qed
  note f = fold_relax [OF dns pos, of ready, folded st_def]
  define ps where "ps = filter (\<lambda>n. bget remaining n = Some 1) ?ns"
  have snd_st: "snd st = ready @ ps" using f by (simp add: ps_def)
  have dps: "distinct ps" using dns by (simp add: ps_def)
  have new: "n \<in> set ps \<longleftrightarrow> (name, n) \<in> E \<and> P' n = {}" for n
  proof -
    have "finite (P' n)" unfolding P'_def using E by (intro preds_left_finite)
    then have "P' n = {} \<longleftrightarrow> card (P' n) = 0" by simp
    then show ?thesis
      using ns [of n] deg [OF EW, of n] card1 [of n] unfolding ps_def
      by (cases "(name, n) \<in> E") simp_all
  qed
  show "\<exists>ps. snd st = ready @ ps \<and> distinct ps \<and> (\<forall>n. n \<in> set ps \<longleftrightarrow> (name, n) \<in> E \<and> P' n = {})"
    using snd_st dps new by blast
  show "fst ` set (fst st) = W" using f inv by (simp add: kahn_inv_def)
  show "\<forall>b \<in> W. bget (fst st) b = Some (card (P' b))"
  proof
    fix b assume "b \<in> W"
    then show "bget (fst st) b = Some (card (P' b))"
      using f deg [of b] card1 [of b] same [of b] ns [of b] by (cases "(name, b) \<in> E") simp_all
  qed
qed

lemma kahn_inv_step:
  assumes inv: "kahn_inv E W (name # ready) remaining order"
    and E: "E = edge_set succ" "E \<subseteq> W \<times> W" "finite W"
    and ss: "\<And>a s. bget succ a = Some s \<Longrightarrow> sset_ok s"
  defines "st \<equiv> fold relax (option_or (bget succ name) []) (remaining, ready)"
  shows "kahn_inv E W (snd st) (fst st) (order @ [name])"
proof -
  let ?P = "preds_left E order"
  let ?P' = "preds_left E (order @ [name])"
  have "\<forall>a s. bget succ a = Some s \<longrightarrow> sset_ok s" using ss by blast
  note relaxed = kahn_relaxed [OF inv E this, folded st_def]
  obtain ps where snd_st: "snd st = ready @ ps" and dps: "distinct ps"
      and new: "n \<in> set ps \<longleftrightarrow> (name, n) \<in> E \<and> ?P' n = {}" for n
    using relaxed(1) by blast
  have nW: "name \<in> W" and nP: "?P name = {}" and nord: "name \<notin> set order" and nready: "name \<notin> set ready"
    using inv by (auto simp: kahn_inv_def)
  have same: "?P' b = ?P b" if "(name, b) \<notin> E" for b using that by (simp add: preds_left_snoc)
  have EW: "(name, b) \<in> E \<Longrightarrow> b \<in> W" for b using E by auto
  have old: "b \<in> set order \<or> b = name \<or> b \<in> set ready \<longleftrightarrow> b \<in> W \<and> ?P b = {}" for b
  proof -
    have "b \<in> set (order @ name # ready) \<longleftrightarrow> b \<in> W \<and> ?P b = {}"
      using inv unfolding kahn_inv_def by blast
    then show ?thesis by auto
  qed
  have noE: "?P b = {} \<Longrightarrow> (name, b) \<notin> E" for b using nord by (auto simp: preds_left_def)
  have "distinct ((order @ [name]) @ snd st)"
  proof -
    have "x \<notin> set order \<and> x \<noteq> name \<and> x \<notin> set ready" if "x \<in> set ps" for x
      using that new [of x] old [of x] noE [of x] by blast
    moreover have "distinct (order @ name # ready)" using inv by (simp add: kahn_inv_def)
    ultimately show ?thesis using dps unfolding snd_st by auto
  qed
  moreover note relaxed(2,3)
  moreover have "\<forall>b. b \<in> set ((order @ [name]) @ snd st) \<longleftrightarrow> b \<in> W \<and> ?P' b = {}"
  proof
    fix b
    have "b \<in> set ((order @ [name]) @ snd st) \<longleftrightarrow>
        (b \<in> set order \<or> b = name \<or> b \<in> set ready) \<or> b \<in> set ps"
      unfolding snd_st by auto
    then have "b \<in> set ((order @ [name]) @ snd st) \<longleftrightarrow>
        (b \<in> W \<and> ?P b = {}) \<or> ((name, b) \<in> E \<and> ?P' b = {})"
      unfolding old new .
    then show "b \<in> set ((order @ [name]) @ snd st) \<longleftrightarrow> b \<in> W \<and> ?P' b = {}"
      using same [of b] EW [of b] noE [of b] by blast
  qed
  moreover have "topological E (order @ [name])"
    using inv nP by (auto simp: topological_snoc kahn_inv_def preds_left_def)
  ultimately show ?thesis unfolding kahn_inv_def by blast
qed

text \<open>Enough: each round lists one more of the finitely many units.\<close>

lemma kahn_returns:
  assumes "kahn_inv E W ready remaining order"
    and "E = edge_set succ" and "E \<subseteq> W \<times> W" and "finite W"
    and "\<forall>a s. bget succ a = Some s \<longrightarrow> sset_ok s"
  shows "\<exists>order' remaining'. kahn succ ready remaining order = Some (order', remaining')
    \<and> kahn_inv E W [] remaining' order'"
  using assms
proof (induction "card W - length order" arbitrary: ready remaining order rule: less_induct)
  case less
  show ?case
  proof (cases ready)
    case Nil
    then show ?thesis using less.prems(1) by (subst kahn.simps) simp
  next
    case (Cons name rest)
    let ?st = "fold relax (option_or (bget succ name) []) (remaining, rest)"
    have inv': "kahn_inv E W (snd ?st) (fst ?st) (order @ [name])"
      using kahn_inv_step [of E W name rest remaining order succ] less.prems Cons by simp
    have "set (order @ [name]) \<subseteq> W" and "distinct (order @ [name])"
      using inv' by (auto simp: kahn_inv_def)
    then have "length (order @ [name]) \<le> card W"
      using \<open>finite W\<close> by (metis card_mono distinct_card)
    then have "card W - length (order @ [name]) < card W - length order" by simp
    from less.hyps [OF this inv' less.prems(2-5)] show ?thesis
      using Cons by (subst kahn.simps) (simp add: Let_def)
  qed
qed

lemma kahn_inv_start:
  assumes "edges_inv wanted g" and "E = edge_set (g_succ g)"
  shows "kahn_inv E (set wanted) (map fst (filter (\<lambda>(n, d). d = 0) (g_deg g))) (g_deg g) []"
proof -
  have ok: "bmap_ok (g_deg g)" and keys: "fst ` set (g_deg g) = set wanted"
    and deg: "b \<in> set wanted \<Longrightarrow> bget (g_deg g) b = Some (card {a. (a, b) \<in> E})" for b
    using assms by (auto simp: edges_inv_def)
  have fin: "finite {a. (a, b) \<in> E}" for b
    using assms edge_set_finite [of "g_succ g" wanted b] by (simp add: edges_inv_def)
  have "distinct (map fst (filter (\<lambda>(n, d). d = 0) (g_deg g)))"
    using bmap_ok_distinct [OF bmap_ok_filter [OF ok]] by simp
  moreover have "b \<in> fst ` set (filter (\<lambda>(n, d). d = 0) (g_deg g))
      \<longleftrightarrow> b \<in> set wanted \<and> {a. (a, b) \<in> E} = {}" for b
  proof -
    have "b \<in> fst ` set (filter (\<lambda>(n, d). d = 0) (g_deg g)) \<longleftrightarrow> bget (g_deg g) b = Some 0"
      using bget_Some_set [OF ok, of b 0] by force
    also have "\<dots> \<longleftrightarrow> b \<in> set wanted \<and> card {a. (a, b) \<in> E} = 0"
      using deg [of b] keys bget_in_keys [of "g_deg g" b 0] by auto
    finally show ?thesis using fin by simp
  qed
  ultimately show ?thesis
    using keys deg by (simp add: kahn_inv_def preds_left_def topological_def)
qed

lemma kahn_inv_end:
  assumes inv: "kahn_inv E W [] remaining order" and "finite W" and E: "E \<subseteq> W \<times> W"
  shows "length order = card W \<longleftrightarrow> acyclic E"
proof
  assume len: "length order = card W"
  have "set order \<subseteq> W" and "distinct order" using inv by (auto simp: kahn_inv_def)
  then have "set order = W" using len \<open>finite W\<close> by (metis card_subset_eq distinct_card)
  then show "acyclic E"
    using topological_acyclic [of E order] inv E by (simp add: kahn_inv_def)
next
  assume "acyclic E"
  have "finite E" using finite_subset [OF E] \<open>finite W\<close> by simp
  then have "wf E" using \<open>acyclic E\<close> by (rule finite_acyclic_wf)
  have "b \<in> W \<Longrightarrow> b \<in> set order" for b
  proof (induction b rule: wf_induct_rule [OF \<open>wf E\<close>])
    case (1 b)
    have "a \<in> set order" if "(a, b) \<in> E" for a using 1 that E by auto
    then have "preds_left E order b = {}" by (auto simp: preds_left_def)
    then show ?case using inv 1(2) by (simp add: kahn_inv_def)
  qed
  moreover have "set order \<subseteq> W" "distinct order" using inv by (auto simp: kahn_inv_def)
  ultimately have "set order = W" by blast
  then show "length order = card W" using distinct_card [OF \<open>distinct order\<close>] by simp
qed

section \<open>The whole ordering\<close>

lemma order_edges_sub: "order_edges units W \<subseteq> W \<times> W"
  by (auto simp: order_edges_def)

lemma sset_card: "sset_ok wanted \<Longrightarrow> card (set wanted) = length wanted"
  by (simp add: distinct_card sset_ok_distinct)

lemma kahn_on_edges:
  fixes units :: units and w :: "warning list"
  assumes "sset_ok wanted" and g: "g = build_edges units wanted w"
  shows "\<exists>order remaining.
    kahn (g_succ g) (map fst (filter (\<lambda>(n, d). d = 0) (g_deg g))) (g_deg g) [] = Some (order, remaining)
    \<and> kahn_inv (order_edges units (set wanted)) (set wanted) [] remaining order"
proof -
  let ?E = "order_edges units (set wanted)"
  have inv: "edges_inv wanted g" and E: "?E = edge_set (g_succ g)"
    using build_edges_correct [OF assms(1)] by (simp_all add: g)
  have ss: "\<forall>a s. bget (g_succ g) a = Some s \<longrightarrow> sset_ok s"
    using inv unfolding edges_inv_def by blast
  show ?thesis by (rule kahn_returns [OF kahn_inv_start [OF inv E] E order_edges_sub finite_set ss])
qed

lemma topological_order_cases:
  assumes "sset_ok wanted"
  obtains order remaining
  where "kahn_inv (order_edges units (set wanted)) (set wanted) [] remaining order"
    and "topological_order units wanted w =
      (if acyclic (order_edges units (set wanted))
       then Some (Inr (order, g_warn (build_edges units wanted w)))
       else Some (Inl (Cycle (find_cycle (g_succ (build_edges units wanted w)) remaining))))"
proof -
  from kahn_on_edges [OF assms refl, of units w] obtain order remaining
    where k: "kahn (g_succ (build_edges units wanted w))
        (map fst (filter (\<lambda>(n, d). d = 0) (g_deg (build_edges units wanted w))))
        (g_deg (build_edges units wanted w)) [] = Some (order, remaining)"
      and inv: "kahn_inv (order_edges units (set wanted)) (set wanted) [] remaining order"
    by blast
  have "length order = length wanted \<longleftrightarrow> acyclic (order_edges units (set wanted))"
    using kahn_inv_end [OF inv finite_set order_edges_sub] sset_card [OF assms] by simp
  then show ?thesis using k by (intro that [OF inv]) (simp add: topological_order_def Let_def)
qed

lemma kahn_inv_all:
  assumes inv: "kahn_inv E W [] remaining order" and "finite W" and "E \<subseteq> W \<times> W" and "acyclic E"
  shows "distinct order" and "set order = W" and "topological E order"
proof -
  show d: "distinct order" and "topological E order" using inv by (simp_all add: kahn_inv_def)
  have "set order \<subseteq> W" using inv by (auto simp: kahn_inv_def)
  moreover have "card (set order) = card W"
    using kahn_inv_end [OF assms(1-3)] assms(4) d by (simp add: distinct_card)
  ultimately show "set order = W" using \<open>finite W\<close> by (simp add: card_subset_eq)
qed

lemma topological_order_total: "sset_ok wanted \<Longrightarrow> \<exists>r. topological_order units wanted w = Some r"
  using topological_order_cases [of wanted units w] by (metis (full_types))

lemma topological_order_Inr:
  assumes "sset_ok wanted" and "topological_order units wanted w = Some (Inr (order, w'))"
  shows "acyclic (order_edges units (set wanted))" and "distinct order" and "set order = set wanted"
    and "topological (order_edges units (set wanted)) order"
proof -
  from topological_order_cases [OF assms(1), of units w] obtain order' remaining where
    inv: "kahn_inv (order_edges units (set wanted)) (set wanted) [] remaining order'" and
    t: "topological_order units wanted w =
      (if acyclic (order_edges units (set wanted))
       then Some (Inr (order', g_warn (build_edges units wanted w)))
       else Some (Inl (Cycle (find_cycle (g_succ (build_edges units wanted w)) remaining))))"
    by blast
  show a: "acyclic (order_edges units (set wanted))" using t assms(2) by (auto split: if_splits)
  then have "order' = order" using t assms(2) by simp
  with kahn_inv_all [OF inv finite_set order_edges_sub a]
  show "distinct order" "set order = set wanted"
    "topological (order_edges units (set wanted)) order" by simp_all
qed

section \<open>The cycle that is reported\<close>

text \<open>A unit is stuck when it is on a cycle or ordered, however far, after one.\<close>

definition on_cycle :: "(string \<times> string) set \<Rightarrow> string \<Rightarrow> bool" where
  "on_cycle E b \<longleftrightarrow> (b, b) \<in> E\<^sup>+"

definition stuck :: "(string \<times> string) set \<Rightarrow> string \<Rightarrow> bool" where
  "stuck E b \<longleftrightarrow> (\<exists>a. on_cycle E a \<and> (a, b) \<in> E\<^sup>*)"

lemma order_pred_closed:
  assumes "kahn_inv E W [] remaining order"
  shows "(a, b) \<in> E\<^sup>* \<Longrightarrow> b \<in> set order \<Longrightarrow> a \<in> set order"
proof (induction rule: converse_rtrancl_induct)
  case (step a c)
  then have "c \<in> set order" by simp
  then have "preds_left E order c = {}" using assms by (simp add: kahn_inv_def)
  then show ?case using step(1) by (auto simp: preds_left_def)
qed

lemma order_not_on_cycle:
  assumes inv: "kahn_inv E W [] remaining order" and "a \<in> set order"
  shows "\<not> on_cycle E a"
proof
  let ?E = "E \<inter> set order \<times> set order"
  assume "on_cycle E a"
  then have "(a, a) \<in> E\<^sup>+" by (simp add: on_cycle_def)
  have "(c, a) \<in> ?E\<^sup>+" if "(c, a) \<in> E\<^sup>+" for c
    using that
  proof (induction rule: converse_trancl_induct)
    case (base y)
    then have "y \<in> set order" using order_pred_closed [OF inv] assms(2) by blast
    then show ?case using base assms(2) by auto
  next
    case (step y z)
    then have "z \<in> set order" using order_pred_closed [OF inv, of z a] assms(2) by (simp add: trancl_into_rtrancl)
    then have "(y, z) \<in> ?E" using step(1) order_pred_closed [OF inv, of y z] by auto
    then show ?case using step(3) by (rule trancl_into_trancl2)
  qed
  then have "(a, a) \<in> ?E\<^sup>+" using \<open>(a, a) \<in> E\<^sup>+\<close> .
  moreover have "topological ?E order" and "distinct order"
    using inv by (auto simp: kahn_inv_def topological_def)
  then have "acyclic ?E" by (rule topological_acyclic [OF _ Int_lower2])
  ultimately show False by (simp add: acyclic_def)
qed

lemma order_iff_not_stuck:
  assumes inv: "kahn_inv E W [] remaining order" and E: "E \<subseteq> W \<times> W" "finite W" and "b \<in> W"
  shows "b \<in> set order \<longleftrightarrow> \<not> stuck E b"
proof
  assume "b \<in> set order"
  then show "\<not> stuck E b"
    using order_pred_closed [OF inv] order_not_on_cycle [OF inv] by (auto simp: stuck_def)
next
  assume ns: "\<not> stuck E b"
  let ?R = "{(x, y). (x, y) \<in> E \<and> (y, b) \<in> E\<^sup>*}"
  have "finite ?R" by (rule finite_subset [of _ E]) (use E in \<open>auto intro: finite_subset\<close>)
  moreover have "acyclic ?R"
  proof (unfold acyclic_def, intro allI notI)
    fix x assume x: "(x, x) \<in> ?R\<^sup>+"
    have sub: "?R \<subseteq> E" by auto
    then have "(x, x) \<in> E\<^sup>+" using x trancl_mono by blast
    moreover from x obtain y where "(y, x) \<in> ?R" by (blast elim: tranclE)
    then have "(x, b) \<in> E\<^sup>*" by simp
    ultimately show False using ns by (auto simp: stuck_def on_cycle_def)
  qed
  ultimately have "wf ?R" by (rule finite_acyclic_wf)
  have "x \<in> W \<Longrightarrow> (x, b) \<in> E\<^sup>* \<Longrightarrow> x \<in> set order" for x
  proof (induction x rule: wf_induct_rule [OF \<open>wf ?R\<close>])
    case (1 x)
    have "a \<in> set order" if "(a, x) \<in> E" for a
      using 1(1) [of a] 1(3) that E(1) converse_rtrancl_into_rtrancl [of a x E b] by auto
    then have "preds_left E order x = {}" by (auto simp: preds_left_def)
    then show ?case using inv 1(2) by (simp add: kahn_inv_def)
  qed
  then show "b \<in> set order" using \<open>b \<in> W\<close> by simp
qed

lemma blocked_iff_stuck:
  assumes inv: "kahn_inv E W [] remaining order" and E: "E \<subseteq> W \<times> W" "finite W"
  shows "(\<exists>d > 0. bget remaining b = Some d) \<longleftrightarrow> b \<in> W \<and> stuck E b"
proof (cases "b \<in> W")
  case True
  have "bget remaining b = Some (card (preds_left E order b))" using inv True by (simp add: kahn_inv_def)
  moreover have "finite (preds_left E order b)" using E by (rule preds_left_finite)
  moreover have "preds_left E order b = {} \<longleftrightarrow> b \<in> set order" using inv True by (simp add: kahn_inv_def)
  ultimately show ?thesis using order_iff_not_stuck [OF inv E True] True by (auto simp: card_gt_0_iff)
next
  case False
  then show ?thesis using inv bget_in_keys [of remaining b] by (auto simp: kahn_inv_def)
qed

lemma next_blocked_Some:
  assumes "next_blocked succ remaining c = Some n"
  shows "(c, n) \<in> edge_set succ" and "\<exists>d > 0. bget remaining n = Some d"
  using assms edge_set_member [of n succ c] nth_mem
  by (fastforce simp: next_blocked_def find_Some_iff split: option.splits)+

lemma next_blocked_None:
  assumes "next_blocked succ remaining c = None" and "(c, n) \<in> edge_set succ"
  shows "\<not> (\<exists>d > 0. bget remaining n = Some d)"
  using assms edge_set_member [of n succ c] by (fastforce simp: next_blocked_def find_None_iff)

definition walk :: "(string \<times> string) set \<Rightarrow> string list \<Rightarrow> bool" where
  "walk E p \<longleftrightarrow> p \<noteq> [] \<and> successively (\<lambda>a b. (a, b) \<in> E) p"

lemma walk_snoc: "walk E (p @ [a, b]) \<longleftrightarrow> walk E (p @ [a]) \<and> (a, b) \<in> E"
  by (auto simp: walk_def successively_append_iff)

lemma walk_suffix: "walk E (p @ q) \<Longrightarrow> q \<noteq> [] \<Longrightarrow> walk E q"
  by (auto simp: walk_def successively_append_iff)

lemma cycle_walk_result:
  assumes "walk (edge_set succ) (path @ [current])"
  shows "walk (edge_set succ) (cycle_walk succ remaining path current)
    \<and> (let p = cycle_walk succ remaining path current in
        (2 \<le> length p \<and> hd p = last p) \<or> next_blocked succ remaining (last p) = None)"
  using assms
proof (induction succ remaining path current rule: cycle_walk.induct)
  case (1 succ remaining path current)
  show ?case
  proof (cases "current \<in> set path")
    case True
    let ?d = "dropWhile (\<lambda>x. x \<noteq> current) path"
    have d: "?d \<noteq> []" using True by (simp add: dropWhile_eq_Nil_conv)
    have "hd ?d = current" using hd_dropWhile [OF d] by blast
    moreover have "path @ [current] = takeWhile (\<lambda>x. x \<noteq> current) path @ (?d @ [current])" by simp
    then have "walk (edge_set succ) (?d @ [current])"
      using 1(2) walk_suffix by (metis append_is_Nil_conv d)
    moreover have "cycle_walk succ remaining path current = ?d @ [current]"
      using True by (simp add: cycle_walk.simps)
    moreover have "2 \<le> length (?d @ [current])" using d by (cases ?d) auto
    ultimately show ?thesis using d by (auto simp: Let_def)
  next
    case False
    show ?thesis
    proof (cases "next_blocked succ remaining current")
      case None
      then have "cycle_walk succ remaining path current = path @ [current]"
        using False by (simp add: cycle_walk.simps)
      then show ?thesis using None 1(2) by simp
    next
      case (Some n)
      then have "walk (edge_set succ) ((path @ [current]) @ [n])"
        using 1(2) next_blocked_Some(1) [OF Some] by (simp add: walk_snoc)
      moreover have "cycle_walk succ remaining path current
          = cycle_walk succ remaining (path @ [current]) n"
        using False Some by (simp add: cycle_walk.simps [of succ remaining path])
      ultimately show ?thesis using 1(1) [OF False Some] by simp
    qed
  qed
qed

lemma cycle_walk_blocked:
  "(\<exists>d > 0. bget remaining current = Some d) \<Longrightarrow> (\<forall>x \<in> set path. \<exists>d > 0. bget remaining x = Some d) \<Longrightarrow>
     \<forall>x \<in> set (cycle_walk succ remaining path current). \<exists>d > 0. bget remaining x = Some d"
proof (induction succ remaining path current rule: cycle_walk.induct)
  case (1 succ remaining path current)
  show ?case
  proof (cases "current \<in> set path")
    case True
    then have "cycle_walk succ remaining path current = dropWhile (\<lambda>x. x \<noteq> current) path @ [current]"
      by (simp add: cycle_walk.simps)
    then show ?thesis using 1(2,3) by (auto dest: set_dropWhileD)
  next
    case False
    show ?thesis
    proof (cases "next_blocked succ remaining current")
      case None
      then show ?thesis using 1(2,3) False by (simp add: cycle_walk.simps)
    next
      case (Some n)
      then show ?thesis
        using 1(1) [OF False Some] 1(2,3) next_blocked_Some(2) [OF Some] False
        by (simp add: cycle_walk.simps [of succ remaining path])
    qed
  qed
qed

text \<open>What is reported: a walk along the edges through stuck units that either closes, or
  ends at a unit that nothing stuck is ordered after.\<close>

lemma find_cycle_result:
  assumes inv: "kahn_inv E W [] remaining order" and E: "E \<subseteq> W \<times> W" "finite W" "E = edge_set succ"
    and cyc: "\<not> acyclic E" and ok: "bmap_ok remaining"
  defines "p \<equiv> find_cycle succ remaining"
  shows "walk E p" and "\<forall>x \<in> set p. stuck E x"
    and "(2 \<le> length p \<and> hd p = last p) \<or> (\<forall>b. (last p, b) \<in> E \<longrightarrow> \<not> stuck E b)"
proof -
  note blocked = blocked_iff_stuck [OF inv E(1,2)]
  from cyc obtain a where a: "(a, a) \<in> E\<^sup>+" unfolding acyclic_def by blast
  then have "a \<in> W" using trancl_subset_Sigma [OF E(1)] by auto
  moreover have "stuck E a" unfolding stuck_def on_cycle_def using a rtrancl_refl by (intro exI conjI)
  ultimately obtain d0 where "d0 > 0" "bget remaining a = Some d0"
    using iffD2 [OF blocked conjI] by metis
  then have "(a, d0) \<in> set remaining" by (blast dest: map_of_SomeD)
  then have "find (\<lambda>(n, d). d > 0) remaining \<noteq> None" using \<open>d0 > 0\<close> unfolding find_None_iff by blast
  then obtain start d where f: "find (\<lambda>(n, d). d > 0) remaining = Some (start, d)" by fast
  then have "(start, d) \<in> set remaining" "d > 0" using find_Some_mem [OF f] by simp_all
  then have b: "\<exists>d > 0. bget remaining start = Some d" using bget_Some_set [OF ok] by blast
  have p: "p = cycle_walk succ remaining [] start" using f by (simp add: p_def find_cycle_def)
  have bl: "\<forall>x \<in> set p. \<exists>d > 0. bget remaining x = Some d"
    unfolding p by (rule cycle_walk_blocked [OF b]) simp
  show "\<forall>x \<in> set p. stuck E x"
  proof
    fix x assume "x \<in> set p"
    then have "\<exists>d > 0. bget remaining x = Some d" using bl by simp
    then show "stuck E x" using iffD1 [OF blocked] by simp
  qed
  have "walk (edge_set succ) ([] @ [start])" by (simp add: walk_def)
  from cycle_walk_result [OF this, of remaining]
  have r: "walk E p \<and> ((2 \<le> length p \<and> hd p = last p) \<or> next_blocked succ remaining (last p) = None)"
    unfolding Let_def p [symmetric] E(3) [symmetric] .
  then show "walk E p" by (rule conjunct1)
  have "\<not> stuck E b" if n: "next_blocked succ remaining (last p) = None" and e: "(last p, b) \<in> E" for b
  proof -
    have "b \<in> W" using e E(1) by blast
    moreover have "\<not> (\<exists>d > 0. bget remaining b = Some d)"
      by (rule next_blocked_None [OF n]) (use e E(3) in simp)
    ultimately show ?thesis using blocked [of b] by simp
  qed
  then show "(2 \<le> length p \<and> hd p = last p) \<or> (\<forall>b. (last p, b) \<in> E \<longrightarrow> \<not> stuck E b)"
    using r by blast
qed

lemma bmap_ok_relax: "bmap_ok (fst st) \<Longrightarrow> bmap_ok (fst (relax n st))"
  by (cases st) (auto simp: relax_def Let_def split: option.splits)

lemma bmap_ok_fold_relax: "bmap_ok (fst st) \<Longrightarrow> bmap_ok (fst (fold relax ns st))"
  by (induction ns arbitrary: st) (simp_all add: bmap_ok_relax)

lemma kahn_ok: "kahn succ ready remaining order = Some (order', remaining') \<Longrightarrow>
    bmap_ok remaining \<longrightarrow> bmap_ok remaining'"
  by (rule kahn.raw_induct
      [of "\<lambda>succ ready remaining order r. bmap_ok remaining \<longrightarrow> bmap_ok (snd r)" succ ready remaining
        order "(order', remaining')", simplified])
    (auto simp: Let_def bmap_ok_fold_relax split: if_splits)

lemma topological_order_Inl:
  assumes ok: "sset_ok wanted" and t: "topological_order units wanted w = Some (Inl e)"
  defines "E \<equiv> order_edges units (set wanted)"
  obtains p where "e = Cycle p" and "\<not> acyclic E" and "walk E p" and "\<forall>x \<in> set p. stuck E x"
    and "(2 \<le> length p \<and> hd p = last p) \<or> (\<forall>b. (last p, b) \<in> E \<longrightarrow> \<not> stuck E b)"
proof -
  let ?g = "build_edges units wanted w"
  from kahn_on_edges [OF ok refl, of units w] obtain order remaining
    where k: "kahn (g_succ ?g) (map fst (filter (\<lambda>(n, d). d = 0) (g_deg ?g))) (g_deg ?g) []
        = Some (order, remaining)" and inv: "kahn_inv E (set wanted) [] remaining order"
    unfolding E_def by blast
  have "length order \<noteq> length wanted" and e: "e = Cycle (find_cycle (g_succ ?g) remaining)"
    using t k by (auto simp: topological_order_def Let_def split: if_splits)
  have sub: "E \<subseteq> set wanted \<times> set wanted" unfolding E_def by (rule order_edges_sub)
  have cyc: "\<not> acyclic E"
    using \<open>length order \<noteq> length wanted\<close> kahn_inv_end [OF inv finite_set sub] sset_card [OF ok] by simp
  have "bmap_ok (g_deg ?g)" using build_edges_correct(1) [OF ok] by (simp add: edges_inv_def)
  then have "bmap_ok remaining" using kahn_ok [OF k] by simp
  moreover have "E = edge_set (g_succ ?g)" using build_edges_correct(2) [OF ok] by (simp add: E_def)
  ultimately show ?thesis
    using that [OF e cyc] find_cycle_result [OF inv sub finite_set _ cyc] by blast
qed

section \<open>Resolution\<close>

lemma resolve_from_Inr:
  assumes "resolve_from units root = Some (Inr p)"
  obtains wanted w w' where "bget units root \<noteq> None" and "reachable units root [] = Inr (wanted, w)"
    and "check_conflicts units wanted wanted = Inr ()" and "check_sockets units wanted = Inr ()"
    and "topological_order units wanted w = Some (Inr (p_order p, p_warnings p))"
  using assms by (auto simp: resolve_from_def split: if_splits sum.splits option.splits prod.splits)

text \<open>What it takes for the units that \<open>root\<close> pulls in to have a start plan.\<close>

definition startable :: "units \<Rightarrow> string \<Rightarrow> bool" where
  "startable units root \<longleftrightarrow> bget units root \<noteq> None
     \<and> (\<forall>a \<in> pulled units root. requires_met units a)
     \<and> (\<forall>a \<in> pulled units root. \<forall>u. bget units a = Some u \<longrightarrow>
          set (conflicts (u_deps u)) \<inter> pulled units root = {})
     \<and> (\<forall>a \<in> pulled units root. \<forall>u s. bget units a = Some u \<longrightarrow> unit_socket u = Some s \<longrightarrow>
          (\<exists>v. bget units (so_service s) = Some v \<and> unit_service v \<noteq> None))
     \<and> acyclic (order_edges units (pulled units root))"

lemma unit_sum_cases: "r = Inr () \<or> (\<exists>e. r = Inl e)" for r :: "'e + unit"
  by (cases r) auto

lemma resolve_reachable_error:
  assumes "reachable units root [] = Inl e"
  shows "\<not> startable units root" and "\<nexists>p. resolve_from units root = Some (Inr p)"
  using reachable_error [OF assms] assms by (auto simp: startable_def resolve_from_def)

lemma resolve_on_wanted:
  assumes r: "reachable units root [] = Inr (wanted, w)" and root: "bget units root \<noteq> None"
  shows "startable units root \<longleftrightarrow> check_conflicts units wanted wanted = Inr ()
      \<and> check_sockets units wanted = Inr () \<and> acyclic (order_edges units (set wanted))"
    and "(\<exists>p. resolve_from units root = Some (Inr p)) \<longleftrightarrow> check_conflicts units wanted wanted = Inr ()
      \<and> check_sockets units wanted = Inr () \<and> (\<exists>x. topological_order units wanted w = Some (Inr x))"
proof -
  note wanted = reachable_set [OF r]
  show "startable units root \<longleftrightarrow> check_conflicts units wanted wanted = Inr ()
      \<and> check_sockets units wanted = Inr () \<and> acyclic (order_edges units (set wanted))"
    using wanted root by (simp add: startable_def check_conflicts_Inr check_sockets_Inr)
  show "(\<exists>p. resolve_from units root = Some (Inr p)) \<longleftrightarrow> check_conflicts units wanted wanted = Inr ()
      \<and> check_sockets units wanted = Inr () \<and> (\<exists>x. topological_order units wanted w = Some (Inr x))"
    using r root
    by (auto simp: resolve_from_def split: option.splits sum.splits)
qed

lemma resolve_from_accepts: "(\<exists>p. resolve_from units root = Some (Inr p)) \<longleftrightarrow> startable units root"
proof (cases "reachable units root []")
  case (Inl e)
  then show ?thesis using resolve_reachable_error by blast
next
  case (Inr ww)
  then obtain wanted w where r: "reachable units root [] = Inr (wanted, w)" by (cases ww) auto
  show ?thesis
  proof (cases "bget units root")
    case None
    then show ?thesis by (simp add: resolve_from_def startable_def)
  next
    case (Some u)
    then have root: "bget units root \<noteq> None" by simp
    have ok: "sset_ok wanted" by (rule reachable_set(2) [OF r])
    have "(\<exists>x. topological_order units wanted w = Some (Inr x)) \<longleftrightarrow>
        acyclic (order_edges units (set wanted))"
      using topological_order_cases [OF ok, of units w] by (metis option.inject sum.distinct(1))
    then show ?thesis using resolve_on_wanted [OF r root] by blast
  qed
qed

section \<open>Concrete unit sets\<close>

definition sample_target :: "string \<Rightarrow> string list \<Rightarrow> string list \<Rightarrow> oxunit" where
  "sample_target name ws afters =
     \<lparr>u_name = name, u_description = name,
      u_deps = \<lparr>requires = [], wants = ws, after = afters, before = [], conflicts = []\<rparr>,
      u_kind = Target\<rparr>"

definition sample_ordered :: units where
  "sample_ordered =
     [(''a'', sample_target ''a'' [] [''b'']),
      (''b'', sample_target ''b'' [''x''] []),
      (''default'', sample_target ''default'' [''a'', ''b''] [''a''])]"

definition sample_downstream :: units where
  "sample_downstream =
     [(''a'', sample_target ''a'' [] [''b'']),
      (''b'', sample_target ''b'' [] [''c'']),
      (''c'', sample_target ''c'' [] [''b'']),
      (''default'', sample_target ''default'' [''a'', ''b'', ''c''] [])]"

lemmas sample_defs = sample_target_def sample_ordered_def sample_downstream_def DEFAULT_UNIT_def

lemma sample_ordered_resolve:
  "resolve_from sample_ordered ''default'' =
     Some (Inr \<lparr>p_order = [''b'', ''a'', ''default''], p_warnings = [MissingWants ''b'' ''x'']\<rparr>)"
  by code_simp

lemma sample_downstream_resolve:
  "resolve_from sample_downstream ''default'' = Some (Inl (Cycle [''a'']))"
  by code_simp

section \<open>Properties\<close>

text \<open>C3.  Resolution from any root returns: neither the worklist, nor Kahn's loop, nor the
  recovery of a cycle runs forever, whatever the units declare.\<close>

theorem resolve_returns: "resolve_from units root \<noteq> None"
proof (cases "reachable units root []")
  case (Inl e)
  then show ?thesis by (simp add: resolve_from_def)
next
  case (Inr ww)
  then obtain wanted w where r: "reachable units root [] = Inr (wanted, w)" by (cases ww) auto
  obtain t where "topological_order units wanted w = Some t"
    using topological_order_total [OF reachable_set(2) [OF r]] by blast
  then show ?thesis using r by (simp add: resolve_from_def split: sum.splits)
qed

text \<open>C1.  A start plan lists exactly the units that \<open>requires\<close> and \<open>wants\<close> pull in from
  the root, each once, with every unit after all those declared to start before it: by its
  own \<open>after\<close>, by their \<open>before\<close>, or as the service of a socket.\<close>

theorem resolve_plan_correct:
  assumes "resolve_from units root = Some (Inr p)"
  shows "distinct (p_order p) \<and> set (p_order p) = pulled units root
    \<and> topological (order_edges units (pulled units root)) (p_order p)"
  using assms
proof (rule resolve_from_Inr)
  fix wanted w
  assume r: "reachable units root [] = Inr (wanted, w)"
    and t: "topological_order units wanted w = Some (Inr (p_order p, p_warnings p))"
  note wanted = reachable_set [OF r]
  from topological_order_Inr [OF wanted(2) t] show ?thesis using wanted(1) by simp
qed

theorem resolve_plan_correct_witness:
  "distinct [''b'', ''a'', ''default''] \<and> {''b'', ''a'', ''default''} = pulled sample_ordered ''default''
    \<and> topological (order_edges sample_ordered (pulled sample_ordered ''default'')) [''b'', ''a'', ''default'']"
  using resolve_plan_correct [OF sample_ordered_resolve] by simp

text \<open>C2.  A plan exists exactly when the root exists, no pulled unit requires a unit that
  does not exist, no two pulled units conflict, every pulled socket names a service, and
  the declared order among the pulled units has no cycle.\<close>

theorem resolve_succeeds_iff: "(\<exists>p. resolve_from units root = Some (Inr p)) \<longleftrightarrow> startable units root"
  by (rule resolve_from_accepts)

text \<open>C4.  The cycle error is reported only when the order has a cycle; its path follows
  declared edges through stuck units, and either comes back to its first unit or ends at a
  unit that no stuck unit is ordered after.\<close>

theorem resolve_cycle_sound:
  assumes "resolve_from units root = Some (Inl (Cycle path))"
  defines "E \<equiv> order_edges units (pulled units root)"
  shows "\<not> acyclic E \<and> walk E path \<and> (\<forall>x \<in> set path. stuck E x)
    \<and> ((2 \<le> length path \<and> hd path = last path) \<or> (\<forall>b. (last path, b) \<in> E \<longrightarrow> \<not> stuck E b))"
proof -
  from assms(1) obtain wanted w where r: "reachable units root [] = Inr (wanted, w)"
    and t: "topological_order units wanted w = Some (Inl (Cycle path))"
    by (auto simp: resolve_from_def split: if_splits sum.splits option.splits prod.splits
        dest!: reachable_error check_conflicts_Inl check_sockets_Inl)
  note wanted = reachable_set [OF r]
  show ?thesis
    by (rule topological_order_Inl [OF wanted(2) t]) (use wanted(1) in \<open>simp add: E_def\<close>)
qed

theorem resolve_cycle_sound_witness:
  "\<not> acyclic (order_edges sample_downstream (pulled sample_downstream ''default''))
    \<and> stuck (order_edges sample_downstream (pulled sample_downstream ''default'')) ''a''"
  using resolve_cycle_sound [OF sample_downstream_resolve] by simp

text \<open>The reported path need not contain a cycle at all: when the first blocked unit is
  only ordered after one, the error names that unit alone.  Here \<open>b\<close> and \<open>c\<close> are each after
  the other and \<open>a\<close> is after \<open>b\<close>; the error is \<open>dependency cycle: a\<close>.\<close>

theorem resolve_cycle_names_bystander:
  "resolve sample_downstream = Some (Inl (Cycle [''a'']))
    \<and> \<not> on_cycle (order_edges sample_downstream (pulled sample_downstream ''default'')) ''a''
    \<and> on_cycle (order_edges sample_downstream (set (bkeys sample_downstream))) ''b''"
proof -
  let ?U = sample_downstream
  have "\<not> precedes ?U ''a'' x" for x
    by (auto simp: precedes_def sample_defs unit_socket_def split: if_splits)
  then have "\<not> on_cycle (order_edges ?U (pulled ?U ''default'')) ''a''"
    unfolding on_cycle_def order_edges_def by (auto dest: tranclD)
  moreover have "(''b'', ''c'') \<in> order_edges ?U (set (bkeys ?U))"
    "(''c'', ''b'') \<in> order_edges ?U (set (bkeys ?U))"
    by (simp_all add: order_edges_def precedes_def sample_defs)
  then have "on_cycle (order_edges ?U (set (bkeys ?U))) ''b''"
    unfolding on_cycle_def by (rule trancl_into_trancl [OF r_into_trancl])
  ultimately show ?thesis using sample_downstream_resolve by (simp add: resolve_def DEFAULT_UNIT_def)
qed

end
