(* ===== verification/Service.thy ===== *)
theory Service
  imports UnitFile
begin

text \<open>
  The state machine of one unit and its restart policy: \<open>crates/oxinit-service/src/lib.rs\<close>.
  An operation that reads the clock takes the moment as an argument; a child process is the
  process id that \<open>Child::id\<close> reports.  The step relation collects the operations in any
  order, which is more than the supervisor ever does, so its invariants hold however the
  operations are called.
\<close>

definition MAX_BACKOFF :: duration where "MAX_BACKOFF = from_secs 300"

datatype state = Inactive | Activating | Active | Deactivating | Failed | Restarting

datatype exit_kind = CleanExit | CodeExit int | AbnormalExit

datatype stop_cause = Requested | WatchdogMissed

fun show_state :: "state \<Rightarrow> string" where
  "show_state Inactive = ''inactive''"
| "show_state Activating = ''activating''"
| "show_state Active = ''active''"
| "show_state Deactivating = ''deactivating''"
| "show_state Failed = ''failed''"
| "show_state Restarting = ''restarting''"

definition from_status :: "int option \<Rightarrow> int option \<Rightarrow> exit_kind" where
  "from_status code signal =
     (case code of
        Some c \<Rightarrow> if c = 0 then CleanExit else CodeExit c
      | None \<Rightarrow> AbnormalExit)"

section \<open>Instances\<close>

record inst =
  in_unit :: oxunit
  in_state :: state
  in_child :: "nat option"
  in_restarts :: nat
  in_backoff :: duration
  in_active_since :: "instant option"
  in_status :: "string option"
  in_last_ping :: "instant option"
  in_stop_cause :: "stop_cause option"
  in_killed :: bool
  in_reached :: bool

definition unit_backoff :: "oxunit \<Rightarrow> duration" where
  "unit_backoff u = (case unit_service u of None \<Rightarrow> from_millis 100 | Some s \<Rightarrow> sv_restart_sec s)"

definition inst_new :: "oxunit \<Rightarrow> inst" where
  "inst_new u =
     \<lparr>in_unit = u, in_state = Inactive, in_child = None, in_restarts = 0,
      in_backoff = unit_backoff u, in_active_since = None, in_status = None,
      in_last_ping = None, in_stop_cause = None, in_killed = False, in_reached = False\<rparr>"

definition base_backoff :: "inst \<Rightarrow> duration" where
  "base_backoff i = unit_backoff (in_unit i)"

definition entered_activating :: "nat \<Rightarrow> inst \<Rightarrow> inst" where
  "entered_activating child i = i\<lparr>in_child := Some child, in_state := Activating\<rparr>"

definition failed_to_start :: "inst \<Rightarrow> inst" where
  "failed_to_start i = i\<lparr>in_child := None, in_active_since := None, in_state := Failed\<rparr>"

definition entered_active :: "instant \<Rightarrow> inst \<Rightarrow> inst" where
  "entered_active now i =
     i\<lparr>in_reached := True, in_state := Active, in_active_since := Some now, in_last_ping := Some now\<rparr>"

definition forked_away :: "instant \<Rightarrow> inst \<Rightarrow> inst" where
  "forked_away now i = entered_active now (i\<lparr>in_child := None\<rparr>)"

definition pinged :: "instant \<Rightarrow> inst \<Rightarrow> inst" where
  "pinged now i = i\<lparr>in_last_ping := Some now\<rparr>"

definition watchdog_expired :: "instant \<Rightarrow> duration \<Rightarrow> inst \<Rightarrow> bool" where
  "watchdog_expired now limit i \<longleftrightarrow> in_state i = Active \<and>
     (case in_last_ping i of None \<Rightarrow> False | Some t \<Rightarrow> elapsed now t > limit)"

definition entered_deactivating :: "stop_cause \<Rightarrow> inst \<Rightarrow> inst" where
  "entered_deactivating cause i =
     i\<lparr>in_stop_cause := Some cause, in_killed := False, in_state := Deactivating\<rparr>"

definition stop_timed_out :: "inst \<Rightarrow> inst" where
  "stop_timed_out i = i\<lparr>in_killed := True\<rparr>"

definition cancel_restart :: "inst \<Rightarrow> inst" where
  "cancel_restart i =
     (if in_state i = Restarting
      then i\<lparr>in_child := None, in_active_since := None, in_state := Inactive\<rparr> else i)"

section \<open>The restart policy\<close>

fun should_restart :: "restart \<Rightarrow> exit_kind \<Rightarrow> bool" where
  "should_restart NoRestart ex = False"
| "should_restart Always ex = True"
| "should_restart OnFailure ex = (ex \<noteq> CleanExit)"
| "should_restart OnAbnormal ex = (ex = AbnormalExit)"

definition restart_policy :: "inst \<Rightarrow> restart" where
  "restart_policy i =
     (case unit_service (in_unit i) of None \<Rightarrow> NoRestart | Some s \<Rightarrow> sv_restart s)"

definition forget_failures :: "instant \<Rightarrow> inst \<Rightarrow> inst" where
  "forget_failures now i =
     (let j = (case in_active_since i of
                 None \<Rightarrow> i
               | Some since \<Rightarrow>
                   if elapsed now since > in_backoff i
                   then i\<lparr>in_restarts := 0, in_backoff := base_backoff i\<rparr> else i)
      in j\<lparr>in_active_since := None\<rparr>)"

definition schedule_restart :: "instant \<Rightarrow> exit_kind \<Rightarrow> inst \<Rightarrow> inst \<times> duration option" where
  "schedule_restart now ex i0 =
     (let i = forget_failures now i0 in
      if \<not> should_restart (restart_policy i) ex
      then (i\<lparr>in_state := if ex = CleanExit then Inactive else Failed\<rparr>, None)
      else (i\<lparr>in_restarts := saturating_add32 (in_restarts i) 1,
              in_backoff := min (dur_saturating_mul (in_backoff i) 2) MAX_BACKOFF,
              in_state := Restarting\<rparr>,
            Some (in_backoff i)))"

definition deactivated :: "instant \<Rightarrow> inst \<Rightarrow> inst \<times> duration option" where
  "deactivated now i0 =
     (let killed = in_killed i0;
          cause = in_stop_cause i0;
          i = i0\<lparr>in_child := None, in_killed := False, in_stop_cause := None\<rparr> in
      case cause of
        Some WatchdogMissed \<Rightarrow> schedule_restart now AbnormalExit i
      | _ \<Rightarrow> (i\<lparr>in_active_since := None, in_status := None,
                in_state := if killed then Failed else Inactive\<rparr>, None))"

definition on_exit :: "instant \<Rightarrow> exit_kind \<Rightarrow> inst \<Rightarrow> inst \<times> duration option" where
  "on_exit now ex i0 =
     (let i = i0\<lparr>in_child := None\<rparr> in
      if in_state i = Deactivating then (i, None)
      else
        let oneshot = (case unit_service (in_unit i) of None \<Rightarrow> False | Some s \<Rightarrow> sv_ty s = Oneshot);
            j = (if oneshot \<and> in_state i = Activating \<and> ex = CleanExit
                 then i\<lparr>in_reached := True\<rparr> else i) in
        schedule_restart now ex j)"

section \<open>The step relation\<close>

inductive inst_step :: "inst \<Rightarrow> inst \<Rightarrow> bool" where
  step_activating: "inst_step i (entered_activating child i)"
| step_failed: "inst_step i (failed_to_start i)"
| step_active: "inst_step i (entered_active now i)"
| step_forked: "inst_step i (forked_away now i)"
| step_ping: "inst_step i (pinged now i)"
| step_status: "inst_step i (i\<lparr>in_status := s\<rparr>)"
| step_stop: "inst_step i (entered_deactivating cause i)"
| step_timed_out: "inst_step i (stop_timed_out i)"
| step_cancel: "inst_step i (cancel_restart i)"
| step_exit: "inst_step i (fst (on_exit now ex i))"
| step_deactivated: "inst_step i (fst (deactivated now i))"

inductive_cases inst_stepE: "inst_step i j"

lemmas inst_op_defs = entered_activating_def failed_to_start_def entered_active_def
  forked_away_def pinged_def entered_deactivating_def stop_timed_out_def cancel_restart_def

lemma forget_failures_fields [simp]:
  "in_unit (forget_failures now i) = in_unit i"
  "in_state (forget_failures now i) = in_state i"
  "in_child (forget_failures now i) = in_child i"
  "in_status (forget_failures now i) = in_status i"
  "in_stop_cause (forget_failures now i) = in_stop_cause i"
  "in_killed (forget_failures now i) = in_killed i"
  "in_reached (forget_failures now i) = in_reached i"
  "in_active_since (forget_failures now i) = None"
  "restart_policy (forget_failures now i) = restart_policy i"
  by (auto simp: forget_failures_def restart_policy_def Let_def split: option.splits)

lemma schedule_restart_fields [simp]:
  "in_unit (fst (schedule_restart now ex i)) = in_unit i"
  "in_child (fst (schedule_restart now ex i)) = in_child i"
  "in_status (fst (schedule_restart now ex i)) = in_status i"
  "in_stop_cause (fst (schedule_restart now ex i)) = in_stop_cause i"
  "in_killed (fst (schedule_restart now ex i)) = in_killed i"
  "in_reached (fst (schedule_restart now ex i)) = in_reached i"
  by (auto simp: schedule_restart_def Let_def)

lemma schedule_restart_state:
  "in_state (fst (schedule_restart now ex i)) =
     (if should_restart (restart_policy i) ex then Restarting
      else if ex = CleanExit then Inactive else Failed)"
  by (auto simp: schedule_restart_def Let_def)

lemma schedule_restart_delay:
  "snd (schedule_restart now ex i) =
     (if should_restart (restart_policy i) ex then Some (in_backoff (forget_failures now i)) else None)"
  by (auto simp: schedule_restart_def Let_def)

text \<open>The invariant of the bookkeeping: the next delay lies between the declared one and the
  cap (or is the declared one where that exceeds the cap), and the count fits 32 bits.\<close>

definition inst_ok :: "inst \<Rightarrow> bool" where
  "inst_ok i \<longleftrightarrow> in_restarts i \<le> u32_max
     \<and> in_backoff i \<le> max (base_backoff i) MAX_BACKOFF
     \<and> min (base_backoff i) MAX_BACKOFF \<le> in_backoff i"

lemma inst_ok_new: "inst_ok (inst_new u)"
  by (simp add: inst_ok_def inst_new_def base_backoff_def)

lemma inst_ok_cong:
  "in_unit j = in_unit i \<Longrightarrow> in_restarts j = in_restarts i \<Longrightarrow> in_backoff j = in_backoff i \<Longrightarrow>
     inst_ok j = inst_ok i"
  by (simp add: inst_ok_def base_backoff_def)

lemma inst_ok_forget: "inst_ok i \<Longrightarrow> inst_ok (forget_failures now i)"
  by (auto simp: inst_ok_def forget_failures_def base_backoff_def Let_def split: option.splits)

lemma base_backoff_forget [simp]: "base_backoff (forget_failures now i) = base_backoff i"
  by (simp add: base_backoff_def)

lemma doubled_backoff_bounds:
  "min (base::nat) cap \<le> b \<Longrightarrow> cap \<le> m \<Longrightarrow> min base cap \<le> min (min (b * 2) m) cap"
  by auto

lemma MAX_BACKOFF_le_dur_max: "MAX_BACKOFF \<le> dur_max"
  by (simp add: MAX_BACKOFF_def dur_max_def from_secs_def nanos_per_sec_def u64_max_def)

lemma inst_ok_schedule:
  assumes "inst_ok i" shows "inst_ok (fst (schedule_restart now ex i))"
proof -
  let ?j = "forget_failures now i"
  have j: "inst_ok ?j" using assms by (rule inst_ok_forget)
  have low: "min (base_backoff i) MAX_BACKOFF \<le> min (dur_saturating_mul (in_backoff ?j) 2) MAX_BACKOFF"
    using j MAX_BACKOFF_le_dur_max unfolding dur_saturating_mul_def inst_ok_def
    by (intro doubled_backoff_bounds) simp_all
  show ?thesis
  proof (cases "should_restart (restart_policy i) ex")
    case False
    then have "fst (schedule_restart now ex i) = ?j\<lparr>in_state := if ex = CleanExit then Inactive else Failed\<rparr>"
      by (simp add: schedule_restart_def Let_def)
    then show ?thesis using j inst_ok_cong [of "fst (schedule_restart now ex i)" ?j] by simp
  next
    case True
    then show ?thesis using low
      by (simp add: schedule_restart_def Let_def inst_ok_def saturating_add32_def base_backoff_def)
  qed
qed

lemma inst_ok_on_exit: "inst_ok i \<Longrightarrow> inst_ok (fst (on_exit now ex i))"
  by (auto simp: on_exit_def Let_def intro!: inst_ok_schedule)
    (simp_all add: inst_ok_def base_backoff_def)

lemma inst_ok_deactivated: "inst_ok i \<Longrightarrow> inst_ok (fst (deactivated now i))"
  by (auto simp: deactivated_def Let_def intro!: inst_ok_schedule split: option.splits stop_cause.splits)
    (simp_all add: inst_ok_def base_backoff_def)

lemma inst_step_ok:
  assumes "inst_step i j" and "inst_ok i" shows "inst_ok j"
  using assms
proof (cases rule: inst_step.cases)
  case (step_exit now ex)
  then show ?thesis using assms(2) by (simp add: inst_ok_on_exit)
next
  case (step_deactivated now)
  then show ?thesis using assms(2) by (simp add: inst_ok_deactivated)
qed (use assms(2) in \<open>auto simp: inst_op_defs inst_ok_def base_backoff_def\<close>)

lemma deactivated_reached [simp]: "in_reached (fst (deactivated now i)) = in_reached i"
  by (auto simp: deactivated_def Let_def split: option.splits stop_cause.splits)

lemma on_exit_reached: "in_reached i \<Longrightarrow> in_reached (fst (on_exit now ex i))"
  by (auto simp: on_exit_def Let_def)

lemma inst_step_reached: "inst_step i j \<Longrightarrow> in_reached i \<Longrightarrow> in_reached j"
  by (erule inst_stepE) (auto simp: inst_op_defs on_exit_reached)

lemma on_exit_unit [simp]: "in_unit (fst (on_exit now ex i)) = in_unit i"
  by (auto simp: on_exit_def Let_def)

lemma deactivated_unit [simp]: "in_unit (fst (deactivated now i)) = in_unit i"
  by (auto simp: deactivated_def Let_def split: option.splits stop_cause.splits)

lemma inst_step_unit: "inst_step i j \<Longrightarrow> in_unit j = in_unit i"
  by (erule inst_stepE) (auto simp: inst_op_defs)

lemma inst_steps_invariant:
  "inst_step\<^sup>*\<^sup>* i j \<Longrightarrow> inst_ok i \<Longrightarrow> inst_ok j \<and> in_unit j = in_unit i \<and> (in_reached i \<longrightarrow> in_reached j)"
proof (induction rule: rtranclp_induct)
  case (step j k)
  then show ?case by (metis inst_step_ok inst_step_unit inst_step_reached)
qed simp

lemma exit_cases:
  "in_state i = Deactivating \<Longrightarrow> snd (on_exit now ex i) = None \<and> in_state (fst (on_exit now ex i)) = Deactivating"
  "in_state i \<noteq> Deactivating \<Longrightarrow> should_restart (restart_policy i) ex \<Longrightarrow>
     snd (on_exit now ex i) \<noteq> None \<and> in_state (fst (on_exit now ex i)) = Restarting"
  "in_state i \<noteq> Deactivating \<Longrightarrow> \<not> should_restart (restart_policy i) ex \<Longrightarrow>
     snd (on_exit now ex i) = None \<and> in_state (fst (on_exit now ex i)) = (if ex = CleanExit then Inactive else Failed)"
  by (auto simp: on_exit_def Let_def schedule_restart_state schedule_restart_delay restart_policy_def)

section \<open>Runs of failures\<close>

text \<open>
  One life of a unit, from the spawn to the end of its main process: it may come up on the
  way (\<open>ReadyAt\<close>), or leave its parent (\<open>ForkedAt\<close>); it ends by an exit, or because a start
  timeout or a watchdog had it stopped.
\<close>

datatype came_up = NeverUp | ReadyAt instant | ForkedAt instant

datatype life_end = Ended instant exit_kind | TimedOut instant exit_kind

datatype life = Life (life_pid: nat) (life_up: came_up) (life_end: life_end)

fun live_up :: "came_up \<Rightarrow> inst \<Rightarrow> inst" where
  "live_up NeverUp i = i"
| "live_up (ReadyAt t) i = entered_active t i"
| "live_up (ForkedAt t) i = forked_away t i"

fun live_end :: "life_end \<Rightarrow> inst \<Rightarrow> inst \<times> duration option" where
  "live_end (Ended now ex) i = on_exit now ex i"
| "live_end (TimedOut now ex) i =
     deactivated now (fst (on_exit now ex (entered_deactivating WatchdogMissed i)))"

definition live :: "life \<Rightarrow> inst \<Rightarrow> inst \<times> duration option" where
  "live l i = live_end (life_end l) (live_up (life_up l) (entered_activating (life_pid l) i))"

definition lives :: "life list \<Rightarrow> inst \<Rightarrow> inst" where
  "lives ls i = fold (\<lambda>l i. fst (live l i)) ls i"

fun end_time :: "life_end \<Rightarrow> instant" where
  "end_time (Ended now ex) = now"
| "end_time (TimedOut now ex) = now"

text \<open>What the policy is asked about.\<close>

fun end_kind :: "life_end \<Rightarrow> exit_kind" where
  "end_kind (Ended now ex) = ex"
| "end_kind (TimedOut now ex) = AbnormalExit"

fun up_time :: "came_up \<Rightarrow> instant option" where
  "up_time NeverUp = None"
| "up_time (ReadyAt t) = Some t"
| "up_time (ForkedAt t) = Some t"

text \<open>The life lasted longer than \<open>d\<close>, counted from when the unit came up.\<close>

definition outlived :: "duration \<Rightarrow> life \<Rightarrow> bool" where
  "outlived d l = (case up_time (life_up l) of None \<Rightarrow> False | Some t \<Rightarrow> elapsed (end_time (life_end l)) t > d)"

text \<open>The reference: the delay after \<open>n\<close> failures in a row, and how many failures in a row a
  run of lives leaves, a life that outlasts the delay in force starting a new row.\<close>

definition backoff_after :: "duration \<Rightarrow> nat \<Rightarrow> duration" where
  "backoff_after base n = (if n = 0 then base else min (base * 2 ^ n) MAX_BACKOFF)"

definition row :: "duration \<Rightarrow> life \<Rightarrow> nat \<Rightarrow> nat" where
  "row base l n = (if outlived (backoff_after base n) l then 0 else n)"

definition failed_lives :: "duration \<Rightarrow> life list \<Rightarrow> nat" where
  "failed_lives base ls = fold (\<lambda>l n. Suc (row base l n)) ls 0"

lemma backoff_after_Suc:
  "min (dur_saturating_mul (backoff_after base n) 2) MAX_BACKOFF = backoff_after base (Suc n)"
proof -
  have "min (dur_saturating_mul b 2) MAX_BACKOFF = min (b * 2) MAX_BACKOFF" for b
    using MAX_BACKOFF_le_dur_max by (simp add: dur_saturating_mul_def min_def)
  moreover have "min (min (b * 2 ^ n) m * 2) m = min (b * 2 ^ Suc n) m" for b m :: nat
    by (auto simp: min_def)
  ultimately show ?thesis by (simp add: backoff_after_def)
qed

text \<open>An instance after \<open>n\<close> failures in a row.\<close>

definition failing :: "oxunit \<Rightarrow> nat \<Rightarrow> inst \<Rightarrow> bool" where
  "failing u n i \<longleftrightarrow> in_unit i = u \<and> in_active_since i = None \<and> in_state i \<noteq> Deactivating
     \<and> in_backoff i = backoff_after (unit_backoff u) n \<and> in_restarts i = min n u32_max"

lemma failing_new: "failing u 0 (inst_new u)"
  by (simp add: failing_def inst_new_def backoff_after_def)

lemma failing_policy: "failing u n i \<Longrightarrow> restart_policy i = restart_policy (inst_new u)"
  by (simp add: failing_def restart_policy_def inst_new_def)

text \<open>How one life ends, in terms of the restart it schedules.\<close>

lemma live_schedules:
  assumes "in_state i \<noteq> Deactivating"
  shows "\<exists>j. in_unit j = in_unit i \<and> in_backoff j = in_backoff i \<and> in_restarts j = in_restarts i
    \<and> in_active_since j = (case up_time (life_up l) of None \<Rightarrow> in_active_since i | Some t \<Rightarrow> Some t)
    \<and> live l i = schedule_restart (end_time (life_end l)) (end_kind (life_end l)) j"
proof -
  let ?i = "live_up (life_up l) (entered_activating (life_pid l) i)"
  have up: "in_unit ?i = in_unit i" "in_backoff ?i = in_backoff i" "in_restarts ?i = in_restarts i"
    "in_active_since ?i = (case up_time (life_up l) of None \<Rightarrow> in_active_since i | Some t \<Rightarrow> Some t)"
    "in_state ?i \<noteq> Deactivating"
    by (cases "life_up l"; simp add: inst_op_defs)+
  show ?thesis
  proof (cases "life_end l")
    case (Ended now ex)
    have "\<exists>j. in_unit j = in_unit ?i \<and> in_backoff j = in_backoff ?i \<and> in_restarts j = in_restarts ?i
        \<and> in_active_since j = in_active_since ?i \<and> on_exit now ex ?i = schedule_restart now ex j"
      using up(5) unfolding on_exit_def Let_def by (intro exI conjI) (auto split: if_splits)
    then show ?thesis using up by (simp add: live_def Ended)
  next
    case (TimedOut now ex)
    have "\<exists>j. in_unit j = in_unit ?i \<and> in_backoff j = in_backoff ?i \<and> in_restarts j = in_restarts ?i
        \<and> in_active_since j = in_active_since ?i
        \<and> deactivated now (fst (on_exit now ex (entered_deactivating WatchdogMissed ?i)))
          = schedule_restart now AbnormalExit j"
      by (intro exI conjI)
        (auto simp: deactivated_def on_exit_def entered_deactivating_def Let_def)
    then show ?thesis using up by (simp add: live_def TimedOut)
  qed
qed

lemma failing_live:
  assumes f: "failing u n i" and p: "should_restart (restart_policy i) (end_kind (life_end l))"
  defines "k \<equiv> row (unit_backoff u) l n"
  shows "failing u (Suc k) (fst (live l i))"
    and "snd (live l i) = Some (backoff_after (unit_backoff u) k)"
    and "in_state (fst (live l i)) = Restarting"
    and "in_restarts (fst (live l i)) = min (Suc k) u32_max"
proof -
  have "in_state i \<noteq> Deactivating" using f by (simp add: failing_def)
  from live_schedules [OF this, of l] obtain j where j: "in_unit j = u"
    "in_backoff j = backoff_after (unit_backoff u) n" "in_restarts j = min n u32_max"
    "in_active_since j = up_time (life_up l)"
    "live l i = schedule_restart (end_time (life_end l)) (end_kind (life_end l)) j"
    using f by (auto simp: failing_def split: option.splits)
  let ?f = "forget_failures (end_time (life_end l)) j"
  have "in_backoff ?f = backoff_after (unit_backoff u) k \<and> in_restarts ?f = min k u32_max"
    using j(1-4) by (auto simp: forget_failures_def k_def row_def outlived_def backoff_after_def base_backoff_def
        Let_def split: option.splits)
  moreover have "should_restart (restart_policy ?f) (end_kind (life_end l))"
    using p j(1) f by (simp add: failing_def restart_policy_def)
  ultimately show "failing u (Suc k) (fst (live l i))" "snd (live l i) = Some (backoff_after (unit_backoff u) k)"
    "in_state (fst (live l i)) = Restarting" "in_restarts (fst (live l i)) = min (Suc k) u32_max"
    using j(1) backoff_after_Suc [of "unit_backoff u" k]
    by (simp_all add: j(5) schedule_restart_def failing_def saturating_add32_def Let_def)
qed

lemma failing_lives:
  "failing u n i \<Longrightarrow> (\<forall>l \<in> set ls. should_restart (restart_policy i) (end_kind (life_end l))) \<Longrightarrow>
     failing u (fold (\<lambda>l n. Suc (row (unit_backoff u) l n)) ls n) (lives ls i)"
proof (induction ls arbitrary: i n)
  case Nil
  then show ?case by (simp add: lives_def)
next
  case (Cons l ls)
  note f = failing_live(1) [OF Cons.prems(1), of l]
  have "restart_policy (fst (live l i)) = restart_policy i"
    using Cons.prems f by (simp add: failing_def restart_policy_def)
  then show ?case using Cons.IH [OF f] Cons.prems by (simp add: lives_def)
qed

section \<open>Properties\<close>

text \<open>C11.  However the operations on a unit are interleaved, its bookkeeping stays in
  bounds: the restart count fits 32 bits, the next delay is never below the smaller nor
  above the larger of the declared delay and the five-minute cap, the unit's declaration
  never changes, and having come up once is never forgotten.\<close>

theorem instance_invariant:
  assumes "inst_step\<^sup>*\<^sup>* (inst_new u) i"
  shows "inst_ok i \<and> in_unit i = u \<and> (\<forall>j. inst_step i j \<longrightarrow> in_reached i \<longrightarrow> in_reached j)"
  using inst_steps_invariant [OF assms inst_ok_new] inst_step_reached by (auto simp: inst_new_def)

definition sample_service :: oxunit where
  "sample_service = \<lparr>u_name = ''s'', u_description = ''s'',
     u_deps = \<lparr>requires = [], wants = [], after = [], before = [], conflicts = []\<rparr>,
     u_kind = Service \<lparr>sv_ty = Simple, sv_exec = [''/bin/s''], sv_restart = Always,
       sv_restart_sec = from_secs 1, sv_start_sec = from_secs 90, sv_stop_sec = from_secs 30,
       sv_watchdog_sec = None, sv_user = ''root'', sv_tty = False, sv_output = Console,
       sv_resources = resources_default\<rparr>\<rparr>"

theorem instance_invariant_witness:
  "inst_ok (entered_active 7 (inst_new sample_service))"
proof -
  have "inst_step\<^sup>*\<^sup>* (inst_new sample_service) (entered_active 7 (inst_new sample_service))"
    by (rule r_into_rtranclp) (rule step_active)
  then show ?thesis using instance_invariant by blast
qed

text \<open>C12.  The delays of failures in a row double from the declared one up to the cap of five
  minutes, over any lives: whether the unit came up or not, whether its process ended or a
  timeout had it stopped.  With \<open>k\<close> failures in a row before it, an end waits the declared
  delay where \<open>k\<close> is 0 and \<open>base * 2 ^ k\<close> or the cap otherwise, and the restart count is
  \<open>k + 1\<close>; a life that was up for longer than the delay in force starts a new row.  The very
  first delay is the declared one even where that exceeds the cap.\<close>

theorem backoff_doubles_to_cap:
  fixes u l ls
  assumes "\<forall>x \<in> set (ls @ [l]). should_restart (restart_policy (inst_new u)) (end_kind (life_end x))"
  defines "n \<equiv> failed_lives (unit_backoff u) ls"
  defines "k \<equiv> (if outlived (backoff_after (unit_backoff u) n) l then 0 else n)"
  defines "r \<equiv> live l (lives ls (inst_new u))"
  shows "snd r = Some (if k = 0 then unit_backoff u else min (unit_backoff u * 2 ^ k) MAX_BACKOFF)
    \<and> in_state (fst r) = Restarting
    \<and> in_restarts (fst r) = min (Suc k) u32_max
    \<and> failed_lives (unit_backoff u) (ls @ [l]) = Suc k"
proof -
  have f: "failing u n (lives ls (inst_new u))"
    using failing_lives [OF failing_new] assms(1) by (simp add: n_def failed_lives_def)
  have "should_restart (restart_policy (lives ls (inst_new u))) (end_kind (life_end l))"
    using assms(1) by (simp add: failing_policy [OF f])
  from failing_live(2-4) [OF f this] show ?thesis
    by (simp add: r_def k_def n_def failed_lives_def row_def backoff_after_def)
qed

text \<open>Two failures, a life that lasts an hour, and a missed start: the row begins again.\<close>

definition sample_lives :: "life list" where
  "sample_lives = [Life 1 NeverUp (Ended 1 (CodeExit 1)), Life 2 (ReadyAt 2) (Ended 3 CleanExit),
     Life 3 (ReadyAt 5) (Ended (from_secs 3600) AbnormalExit)]"

theorem backoff_doubles_to_cap_witness:
  "snd (live (Life 4 NeverUp (TimedOut 9 CleanExit)) (lives (take 2 sample_lives) (inst_new sample_service)))
     = Some (from_secs 4)
   \<and> snd (live (Life 4 NeverUp (TimedOut 9 CleanExit)) (lives sample_lives (inst_new sample_service)))
     = Some (from_secs 2)"
proof -
  let ?l = "Life 4 NeverUp (TimedOut 9 CleanExit)"
  have p: "restart_policy (inst_new sample_service) = Always"
    by (simp add: restart_policy_def inst_new_def sample_service_def unit_service_def)
  have b: "unit_backoff sample_service = from_secs 1"
    by (simp add: unit_backoff_def sample_service_def unit_service_def)
  have f: "failed_lives (from_secs 1) (take 2 sample_lives) = 2" "failed_lives (from_secs 1) sample_lives = 1"
    by (simp_all add: failed_lives_def sample_lives_def row_def outlived_def backoff_after_def elapsed_def
        from_secs_def nanos_per_sec_def MAX_BACKOFF_def)
  have all: "\<forall>x \<in> set (ls @ [?l]). should_restart (restart_policy (inst_new sample_service)) (end_kind (life_end x))" for ls
    by (simp add: p)
  have "snd (live ?l (lives (take 2 sample_lives) (inst_new sample_service)))
      = Some (min (from_secs 1 * 2 ^ 2) MAX_BACKOFF)"
    using backoff_doubles_to_cap [OF all, of "take 2 sample_lives"] by (simp only: b f) (simp add: outlived_def)
  moreover have "snd (live ?l (lives sample_lives (inst_new sample_service)))
      = Some (min (from_secs 1 * 2 ^ 1) MAX_BACKOFF)"
    using backoff_doubles_to_cap [OF all, of sample_lives] by (simp only: b f) (simp add: outlived_def)
  ultimately show ?thesis by (simp add: MAX_BACKOFF_def from_secs_def nanos_per_sec_def)
qed

text \<open>An exit outside a stop follows the policy table: a delay is returned, and the unit
  is waiting to restart, exactly when the policy restarts after that exit; otherwise a
  clean exit leaves it inactive and any other failed.  Inside a stop an exit decides
  nothing.\<close>

theorem exit_follows_policy:
  "(if in_state i = Deactivating
    then snd (on_exit now ex i) = None \<and> in_state (fst (on_exit now ex i)) = Deactivating
    else if should_restart (restart_policy i) ex
    then snd (on_exit now ex i) \<noteq> None \<and> in_state (fst (on_exit now ex i)) = Restarting
    else snd (on_exit now ex i) = None
      \<and> in_state (fst (on_exit now ex i)) = (if ex = CleanExit then Inactive else Failed))"
  by (auto simp: exit_cases)

end
