(* ===== verification/NotifyMsg.thy ===== *)
theory NotifyMsg
  imports Text
begin

text \<open>
  The readiness protocol's datagrams: \<open>crates/oxinit-service/src/notify.rs\<close>.  A body is a
  list of bytes.  A \<open>str\<close> taken from it is the same list of bytes, known to be UTF-8: the
  keys and separators the parser looks for are ASCII, and the bound on the status counts
  characters, which is where the decoding matters.
\<close>

section \<open>UTF-8\<close>

definition byte_in :: "nat \<Rightarrow> nat \<Rightarrow> char \<Rightarrow> bool" where
  "byte_in lo hi c \<longleftrightarrow> lo \<le> scalar c \<and> scalar c \<le> hi"

abbreviation continuation :: "char \<Rightarrow> bool" where "continuation \<equiv> byte_in 128 191"

text \<open>How many bytes the first character takes, if they are well formed.\<close>

definition utf8_width :: "string \<Rightarrow> nat option" where
  "utf8_width s =
     (case s of
        [] \<Rightarrow> None
      | a # s1 \<Rightarrow>
          if scalar a < 128 then Some 1
          else (case s1 of
            [] \<Rightarrow> None
          | b # s2 \<Rightarrow>
              if byte_in 194 223 a then (if continuation b then Some 2 else None)
              else (case s2 of
                [] \<Rightarrow> None
              | c # s3 \<Rightarrow>
                  if (scalar a = 224 \<and> byte_in 160 191 b \<or> byte_in 225 236 a \<and> continuation b
                      \<or> scalar a = 237 \<and> byte_in 128 159 b \<or> byte_in 238 239 a \<and> continuation b)
                     \<and> continuation c then Some 3
                  else (case s3 of
                    [] \<Rightarrow> None
                  | d # _ \<Rightarrow>
                      if (scalar a = 240 \<and> byte_in 144 191 b \<or> byte_in 241 243 a \<and> continuation b
                          \<or> scalar a = 244 \<and> byte_in 128 143 b)
                         \<and> continuation c \<and> continuation d then Some 4
                      else None))))"

lemma utf8_width_range: "utf8_width s = Some w \<Longrightarrow> 1 \<le> w \<and> w \<le> 4 \<and> w \<le> length s"
  by (auto simp: utf8_width_def split: list.splits if_splits)

function utf8_chars :: "string \<Rightarrow> string list option" where
  "utf8_chars s =
     (if s = [] then Some []
      else case utf8_width s of
        None \<Rightarrow> None
      | Some w \<Rightarrow> map_option (\<lambda>cs. take w s # cs) (utf8_chars (drop w s)))"
  by pat_completeness auto
termination
proof (relation "measure length", goal_cases)
  case (2 s w)
  then have "1 \<le> w" using utf8_width_range by blast
  then show ?case using 2(1) by (cases s) auto
qed simp

declare utf8_chars.simps [simp del]

definition utf8_valid :: "string \<Rightarrow> bool" where
  "utf8_valid s \<longleftrightarrow> utf8_chars s \<noteq> None"

text \<open>\<open>s.chars().take(n).collect()\<close>.\<close>

definition take_chars :: "nat \<Rightarrow> string \<Rightarrow> string" where
  "take_chars n s = (case utf8_chars s of None \<Rightarrow> [] | Some cs \<Rightarrow> concat (take n cs))"

section \<open>Messages\<close>

record message =
  m_pid :: nat
  m_ready :: bool
  m_watchdog :: bool
  m_status :: "string option"

definition parse_line :: "string \<Rightarrow> message \<Rightarrow> message" where
  "parse_line line m =
     (case split_once CHR ''='' line of
        None \<Rightarrow> m
      | Some (key, v) \<Rightarrow>
          if key = ''READY'' \<and> v = ''1'' then m\<lparr>m_ready := True\<rparr>
          else if key = ''WATCHDOG'' \<and> v = ''1'' then m\<lparr>m_watchdog := True\<rparr>
          else if key = ''STATUS'' then m\<lparr>m_status := Some (take_chars 256 v)\<rparr>
          else m)"

definition parse_message :: "nat \<Rightarrow> string \<Rightarrow> message option" where
  "parse_message pid body =
     (if \<not> utf8_valid body then None
      else Some (fold parse_line (text_lines body)
             \<lparr>m_pid = pid, m_ready = False, m_watchdog = False, m_status = None\<rparr>))"

section \<open>Lemmas\<close>

lemma utf8_chars_concat: "utf8_chars s = Some cs \<Longrightarrow> concat cs = s"
proof (induction s arbitrary: cs rule: utf8_chars.induct)
  case (1 s)
  show ?case
  proof (cases "s = []")
    case True
    then show ?thesis using 1(2) by (simp add: utf8_chars.simps)
  next
    case False
    then obtain w cs' where w: "utf8_width s = Some w" and c: "utf8_chars (drop w s) = Some cs'"
      and cs: "cs = take w s # cs'"
      using 1(2) by (auto simp: utf8_chars.simps [of s] split: option.splits)
    from 1(1) [OF False w c] cs show ?thesis by simp
  qed
qed

lemma utf8_chars_width: "utf8_chars s = Some cs \<Longrightarrow> c \<in> set cs \<Longrightarrow> 1 \<le> length c \<and> length c \<le> 4"
proof (induction s arbitrary: cs rule: utf8_chars.induct)
  case (1 s)
  show ?case
  proof (cases "s = []")
    case True
    then show ?thesis using 1(2,3) by (simp add: utf8_chars.simps)
  next
    case False
    then obtain w cs' where w: "utf8_width s = Some w" and c: "utf8_chars (drop w s) = Some cs'"
      and cs: "cs = take w s # cs'"
      using 1(2) by (auto simp: utf8_chars.simps [of s] split: option.splits)
    then show ?thesis using 1(1) [OF False w c] 1(3) utf8_width_range [OF w] by auto
  qed
qed

lemma sum_list_bounded: "(\<forall>x \<in> set xs. f x \<le> b) \<Longrightarrow> sum_list (map f xs) \<le> b * length xs" for b :: nat
  by (induction xs) auto

lemma take_chars_length: "length (take_chars n s) \<le> 4 * n"
proof (cases "utf8_chars s")
  case (Some cs)
  have "sum_list (map length (take n cs)) \<le> 4 * length (take n cs)"
    by (rule sum_list_bounded) (use utf8_chars_width [OF Some] in \<open>auto dest: in_set_takeD\<close>)
  also have "\<dots> \<le> 4 * n" by simp
  finally show ?thesis using Some by (simp add: take_chars_def length_concat)
qed (simp add: take_chars_def)

lemma take_chars_prefix: "\<exists>t. utf8_valid s \<longrightarrow> s = take_chars n s @ t"
proof (cases "utf8_chars s")
  case (Some cs)
  have "s = concat (take n cs) @ concat (drop n cs)"
    using utf8_chars_concat [OF Some] by (metis append_take_drop_id concat_append)
  then show ?thesis using Some by (auto simp: take_chars_def)
qed (simp add: utf8_valid_def)

lemma parse_line_fields:
  "m_pid (parse_line l m) = m_pid m"
  "m_ready (parse_line l m) \<longleftrightarrow> m_ready m \<or> l = ''READY=1''"
  "m_watchdog (parse_line l m) \<longleftrightarrow> m_watchdog m \<or> l = ''WATCHDOG=1''"
proof -
  have r: "l = ''READY=1'' \<longleftrightarrow> split_once CHR ''='' l = Some (''READY'', ''1'')"
    and w: "l = ''WATCHDOG=1'' \<longleftrightarrow> split_once CHR ''='' l = Some (''WATCHDOG'', ''1'')"
    by (simp_all add: split_once_Some)
  show "m_pid (parse_line l m) = m_pid m"
    by (auto simp: parse_line_def split: option.splits)
  show "m_ready (parse_line l m) \<longleftrightarrow> m_ready m \<or> l = ''READY=1''"
    unfolding r by (cases "split_once CHR ''='' l") (auto simp: parse_line_def split: if_splits)
  show "m_watchdog (parse_line l m) \<longleftrightarrow> m_watchdog m \<or> l = ''WATCHDOG=1''"
    unfolding w by (cases "split_once CHR ''='' l") (auto simp: parse_line_def split: if_splits)
qed

lemma fold_parse_line:
  "m_pid (fold parse_line ls m) = m_pid m"
  "m_ready (fold parse_line ls m) \<longleftrightarrow> m_ready m \<or> ''READY=1'' \<in> set ls"
  "m_watchdog (fold parse_line ls m) \<longleftrightarrow> m_watchdog m \<or> ''WATCHDOG=1'' \<in> set ls"
  by (induction ls arbitrary: m) (auto simp: parse_line_fields)

definition status_ok :: "string option \<Rightarrow> bool" where
  "status_ok st = (case st of None \<Rightarrow> True | Some s \<Rightarrow> (\<exists>v. s = take_chars 256 v) \<and> length s \<le> 1024)"

lemma fold_parse_line_status: "status_ok (m_status m) \<Longrightarrow> status_ok (m_status (fold parse_line ls m))"
proof (induction ls arbitrary: m)
  case (Cons l ls)
  have "length (take_chars 256 v) \<le> 1024" for v using take_chars_length [of 256 v] by simp
  then have "status_ok (m_status (parse_line l m))"
    using Cons.prems by (auto simp: parse_line_def status_ok_def split: option.splits)
  then show ?case using Cons.IH by simp
qed simp

section \<open>Properties\<close>

text \<open>A datagram is refused exactly when it is not UTF-8.  A message carries the sender's
  process id, is a readiness signal exactly when a whole line is \<open>READY=1\<close> and a ping
  exactly when one is \<open>WATCHDOG=1\<close>, and its status, which PID 1 keeps, is cut to 256
  characters and at most 1024 bytes.\<close>

theorem message_meaning:
  "(parse_message pid body = None \<longleftrightarrow> \<not> utf8_valid body)
   \<and> (utf8_valid body \<longrightarrow> (\<exists>m. parse_message pid body = Some m \<and> m_pid m = pid
        \<and> (m_ready m \<longleftrightarrow> ''READY=1'' \<in> set (text_lines body))
        \<and> (m_watchdog m \<longleftrightarrow> ''WATCHDOG=1'' \<in> set (text_lines body))
        \<and> status_ok (m_status m)))"
  by (simp add: parse_message_def fold_parse_line fold_parse_line_status status_ok_def [of None])

theorem message_meaning_witness:
  "\<exists>m. parse_message 42 ''READY=1'' = Some m \<and> m_ready m \<and> \<not> m_watchdog m"
proof -
  have "utf8_valid ''READY=1''" by code_simp
  moreover have "text_lines ''READY=1'' = [''READY=1'']" by code_simp
  ultimately show ?thesis using message_meaning [of 42 "''READY=1''"] by auto
qed

end
