(* ===== verification/Deadlines.thy ===== *)
theory Deadlines
  imports Service "HOL-Library.Multiset"
begin

text \<open>
  The deadlines of the supervisor: \<open>crates/oxinit/src/timer.rs\<close>.  Two heaps, one on the
  monotonic clock and one on the wall clock, each with a timerfd pointed at its earliest
  entry.  A heap is a list in ascending order of its keys; entries with equal keys come out
  in the order they went in, where the order of Rust's \<open>BinaryHeap\<close> is unspecified, and
  nothing proved here depends on it.  Whether the kernel accepts a \<open>timerfd_settime\<close> is an
  argument; what it was last set to is part of the state.
\<close>

datatype alarm =
    AlarmRestart string
  | WatchdogCheck string
  | StopTimeout string
  | TimerElapsed string
  | StartTimeout string

section \<open>The interface of a queue of deadlines\<close>

locale deadline_queue =
  fixes push :: "'k::linorder \<times> 'a \<Rightarrow> 'q \<Rightarrow> 'q"
    and peek :: "'q \<Rightarrow> ('k \<times> 'a) option"
    and pop :: "'q \<Rightarrow> 'q"
    and entries :: "'q \<Rightarrow> ('k \<times> 'a) multiset"
    and qinv :: "'q \<Rightarrow> bool"
  assumes inv_push: "qinv q \<Longrightarrow> qinv (push e q)"
    and inv_pop: "qinv q \<Longrightarrow> peek q \<noteq> None \<Longrightarrow> qinv (pop q)"
    and entries_push: "qinv q \<Longrightarrow> entries (push e q) = add_mset e (entries q)"
    and peek_None: "qinv q \<Longrightarrow> peek q = None \<longleftrightarrow> entries q = {#}"
    and peek_Some: "qinv q \<Longrightarrow> peek q = Some e \<Longrightarrow> e \<in># entries q \<and> (\<forall>x \<in># entries q. fst e \<le> fst x)"
    and entries_pop: "qinv q \<Longrightarrow> peek q = Some e \<Longrightarrow> entries (pop q) = entries q - {#e#}"
begin

text \<open>Popping while the earliest entry is due: \<open>n\<close> entries popped, in this order.\<close>

fun drained :: "nat \<Rightarrow> 'k \<Rightarrow> 'q \<Rightarrow> ('k \<times> 'a) list \<times> 'q" where
  "drained 0 now q = ([], q)"
| "drained (Suc n) now q =
     (case peek q of
        None \<Rightarrow> ([], q)
      | Some e \<Rightarrow>
          if fst e > now then ([], q)
          else (let (es, q') = drained n now (pop q) in (e # es, q')))"

lemma drained_spec:
  assumes "qinv q" and "size (entries q) \<le> n"
  shows "qinv (snd (drained n now q))
    \<and> mset (fst (drained n now q)) = filter_mset (\<lambda>e. fst e \<le> now) (entries q)
    \<and> entries (snd (drained n now q)) = filter_mset (\<lambda>e. now < fst e) (entries q)
    \<and> sorted (map fst (fst (drained n now q)))"
  using assms
proof (induction n arbitrary: q)
  case 0
  then show ?case by simp
next
  case (Suc n)
  show ?case
  proof (cases "peek q")
    case None
    then have "entries q = {#}" using Suc.prems(1) peek_None by simp
    then show ?thesis using Suc.prems(1) None by simp
  next
    case (Some e)
    note e = peek_Some [OF Suc.prems(1) Some]
    show ?thesis
    proof (cases "fst e > now")
      case True
      then have late: "\<forall>x \<in># entries q. now < fst x" using e by auto
      then have "filter_mset (\<lambda>e. fst e \<le> now) (entries q) = filter_mset (\<lambda>e. False) (entries q)"
        by (intro filter_mset_cong) auto
      then have "filter_mset (\<lambda>e. fst e \<le> now) (entries q) = {#}" by simp
      moreover have "filter_mset (\<lambda>e. now < fst e) (entries q) = entries q"
        using late by (simp add: filter_mset_eq_conv)
      ultimately show ?thesis using Some True Suc.prems by simp
    next
      case False
      have q': "qinv (pop q)" using inv_pop [OF Suc.prems(1)] Some by simp
      have en: "entries q = add_mset e (entries (pop q))"
        using e entries_pop [OF Suc.prems(1) Some] by simp
      have "size (entries (pop q)) \<le> n" using en Suc.prems(2) by simp
      note IH = Suc.IH [OF q' this]
      obtain es r where d: "drained n now (pop q) = (es, r)" by (cases "drained n now (pop q)")
      have "x \<in> set es \<Longrightarrow> fst e \<le> fst x" for x
      proof -
        assume "x \<in> set es"
        then have "x \<in># entries (pop q)" using IH d by (metis fst_conv filter_mset_eq_conv in_multiset_in_set mset_subset_eqD multiset_filter_subset set_mset_mset)
        then show "fst e \<le> fst x" using e en by auto
      qed
      then show ?thesis using IH d Some False en by (auto simp: not_less)
    qed
  qed
qed

end

section \<open>The heaps\<close>

type_synonym ('k, 'a) heap = "('k \<times> 'a) list"

fun heap_push :: "'k::linorder \<times> 'a \<Rightarrow> ('k, 'a) heap \<Rightarrow> ('k, 'a) heap" where
  "heap_push e [] = [e]"
| "heap_push e (x # h) = (if fst e < fst x then e # x # h else x # heap_push e h)"

definition heap_peek :: "('k, 'a) heap \<Rightarrow> ('k \<times> 'a) option" where
  "heap_peek h = (case h of [] \<Rightarrow> None | e # _ \<Rightarrow> Some e)"

text \<open>The \<open>while let\<close> loop of \<open>expired\<close> and \<open>wall_expired\<close>.\<close>

fun pop_due :: "'k::linorder \<Rightarrow> ('k, 'a) heap \<Rightarrow> 'a list \<times> ('k, 'a) heap" where
  "pop_due now [] = ([], [])"
| "pop_due now (e # h) =
     (if fst e > now then ([], e # h)
      else (let (fired, h') = pop_due now h in (snd e # fired, h')))"

definition heap_ok :: "('k::linorder, 'a) heap \<Rightarrow> bool" where
  "heap_ok h \<longleftrightarrow> sorted (map fst h)"

lemma set_heap_push [simp]: "set (heap_push e h) = insert e (set h)"
  by (induction e h rule: heap_push.induct) auto

lemma mset_heap_push: "mset (heap_push e h) = add_mset e (mset h)"
  by (induction e h rule: heap_push.induct) auto

lemma heap_ok_push: "heap_ok h \<Longrightarrow> heap_ok (heap_push e h)"
  unfolding heap_ok_def by (induction e h rule: heap_push.induct) auto

lemma heap_peek_simps [simp]: "heap_peek [] = None" "heap_peek (e # h) = Some e"
  by (simp_all add: heap_peek_def)

lemma heap_peek_min:
  "heap_ok h \<Longrightarrow> heap_peek h = Some e \<Longrightarrow> e \<in> set h \<and> (\<forall>x \<in> set h. fst e \<le> fst x)"
  by (cases h) (auto simp: heap_ok_def)

lemma heap_peek_None: "heap_peek h = None \<longleftrightarrow> mset h = {#}"
  by (cases h) simp_all

lemma heap_ok_tl: "heap_ok h \<Longrightarrow> heap_ok (tl h)"
  by (cases h) (simp_all add: heap_ok_def)

lemma mset_tl: "heap_peek h = Some e \<Longrightarrow> mset (tl h) = mset h - {#e#}"
  by (cases h) simp_all

interpretation dq: deadline_queue heap_push heap_peek tl mset heap_ok
  by unfold_locales
    (use heap_peek_min in \<open>force simp: heap_ok_push heap_ok_tl mset_heap_push heap_peek_None mset_tl\<close>)+

lemma pop_due_drained:
  "length h \<le> n \<Longrightarrow> pop_due now h = (map snd (fst (dq.drained n now h)), snd (dq.drained n now h))"
proof (induction now h arbitrary: n rule: pop_due.induct)
  case (1 now)
  then show ?case by (cases n) simp_all
next
  case (2 now e h)
  then obtain m where m: "n = Suc m" by (cases n) auto
  show ?case
  proof (cases "fst e > now")
    case True
    then show ?thesis by (simp add: m)
  next
    case False
    then have "pop_due now h = (map snd (fst (dq.drained m now h)), snd (dq.drained m now h))"
      using 2 m by simp
    then show ?thesis using False by (simp add: m split: prod.splits)
  qed
qed

lemma pop_due_spec:
  assumes "heap_ok h"
  shows "heap_ok (snd (pop_due now h))"
    and "mset (snd (pop_due now h)) = filter_mset (\<lambda>e. now < fst e) (mset h)"
    and "\<exists>es. mset es = filter_mset (\<lambda>e. fst e \<le> now) (mset h) \<and> sorted (map fst es)
          \<and> fst (pop_due now h) = map snd es"
  using dq.drained_spec [OF assms, of "length h" now] pop_due_drained [of h "length h" now] by auto

section \<open>The timers\<close>

record timers =
  tm_heap :: "(instant, alarm) heap"
  tm_fd :: "duration option"
  tm_wall :: "(unix, alarm) heap"
  tm_wall_fd :: "int option"

definition timers_new :: timers where
  "timers_new = \<lparr>tm_heap = [], tm_fd = None, tm_wall = [], tm_wall_fd = None\<rparr>"

text \<open>\<open>arm\<close>: the timerfd set to the time left, at least one nanosecond, or disarmed; the
  flag is whether the kernel took it.\<close>

definition arm_fd :: "bool \<Rightarrow> instant \<Rightarrow> timers \<Rightarrow> timers \<times> bool" where
  "arm_fd ok now t =
     (let left = (case heap_peek (tm_heap t) of Some (at, _) \<Rightarrow> at - now | None \<Rightarrow> 0);
          spec = (if tm_heap t = [] then 0 else max left 1) in
      if ok then (t\<lparr>tm_fd := if spec = 0 then None else Some spec\<rparr>, True) else (t, False))"

definition arm_wall :: "bool \<Rightarrow> timers \<Rightarrow> timers \<times> bool" where
  "arm_wall ok t =
     (if \<not> ok then (t, False)
      else case heap_peek (tm_wall t) of
        None \<Rightarrow> (t\<lparr>tm_wall_fd := None\<rparr>, True)
      | Some (at, _) \<Rightarrow> (t\<lparr>tm_wall_fd := if at = 0 then None else Some (sint at)\<rparr>, True))"

definition timer_schedule :: "bool \<Rightarrow> instant \<Rightarrow> duration \<Rightarrow> alarm \<Rightarrow> timers \<Rightarrow> timers \<times> bool" where
  "timer_schedule ok now delay a t = arm_fd ok now (t\<lparr>tm_heap := heap_push (now + delay, a) (tm_heap t)\<rparr>)"

definition timer_schedule_at :: "bool \<Rightarrow> unix \<Rightarrow> alarm \<Rightarrow> timers \<Rightarrow> timers \<times> bool" where
  "timer_schedule_at ok at a t = arm_wall ok (t\<lparr>tm_wall := heap_push (at, a) (tm_wall t)\<rparr>)"

definition timer_expired :: "bool \<Rightarrow> instant \<Rightarrow> timers \<Rightarrow> timers \<times> alarm list option" where
  "timer_expired ok now t =
     (let (fired, h) = pop_due now (tm_heap t);
          (t', armed) = arm_fd ok now (t\<lparr>tm_heap := h\<rparr>) in
      (t', if armed then Some fired else None))"

text \<open>\<open>stepped\<close> is whether the read of the descriptor said that the clock was set.\<close>

definition wall_expired :: "bool \<Rightarrow> bool \<Rightarrow> unix \<Rightarrow> timers \<Rightarrow> timers \<times> alarm list option" where
  "wall_expired ok stepped now t =
     (if stepped then
        (let (t', armed) = arm_wall ok t in (t', if armed then Some [] else None))
      else
        let (fired, h) = pop_due now (tm_wall t);
            (t', armed) = arm_wall ok (t\<lparr>tm_wall := h\<rparr>) in
        (t', if armed then Some fired else None))"

definition timers_ok :: "timers \<Rightarrow> bool" where
  "timers_ok t \<longleftrightarrow> heap_ok (tm_heap t) \<and> heap_ok (tm_wall t)"

definition pending_alarms :: "timers \<Rightarrow> alarm set" where
  "pending_alarms t = snd ` set (tm_heap t)"

lemma arm_fd_heaps [simp]:
  "tm_heap (fst (arm_fd ok now t)) = tm_heap t" "tm_wall (fst (arm_fd ok now t)) = tm_wall t"
  "snd (arm_fd ok now t) = ok"
  by (auto simp: arm_fd_def Let_def)

lemma arm_wall_heaps [simp]:
  "tm_heap (fst (arm_wall ok t)) = tm_heap t" "tm_wall (fst (arm_wall ok t)) = tm_wall t"
  "snd (arm_wall ok t) = ok"
  by (auto simp: arm_wall_def split: option.splits)

lemma timer_schedule_alarms [simp]:
  "pending_alarms (fst (timer_schedule ok now d a t)) = insert a (pending_alarms t)"
  by (simp add: timer_schedule_def pending_alarms_def)

lemma timer_schedule_at_alarms [simp]:
  "pending_alarms (fst (timer_schedule_at ok at a t)) = pending_alarms t"
  by (simp add: timer_schedule_at_def pending_alarms_def)

lemma timers_ok_schedule:
  "timers_ok t \<Longrightarrow> timers_ok (fst (timer_schedule ok now d a t))"
  "timers_ok t \<Longrightarrow> timers_ok (fst (timer_schedule_at ok at a t))"
  by (simp_all add: timers_ok_def timer_schedule_def timer_schedule_at_def heap_ok_push)

lemma timer_expired_unfold:
  "timer_expired ok now t =
     (fst (arm_fd ok now (t\<lparr>tm_heap := snd (pop_due now (tm_heap t))\<rparr>)),
      if ok then Some (fst (pop_due now (tm_heap t))) else None)"
proof -
  let ?t = "t\<lparr>tm_heap := snd (pop_due now (tm_heap t))\<rparr>"
  have "snd (arm_fd ok now ?t) = ok" by simp
  then show ?thesis by (simp add: timer_expired_def Let_def split_beta)
qed

lemma wall_expired_unfold:
  "wall_expired ok stepped now t =
     (if stepped then (fst (arm_wall ok t), if ok then Some [] else None)
      else (fst (arm_wall ok (t\<lparr>tm_wall := snd (pop_due now (tm_wall t))\<rparr>)),
            if ok then Some (fst (pop_due now (tm_wall t))) else None))"
proof -
  have "snd (arm_wall ok t') = ok" for t' by simp
  then show ?thesis by (simp add: wall_expired_def Let_def split_beta)
qed

lemma timers_ok_expired:
  "timers_ok t \<Longrightarrow> timers_ok (fst (timer_expired ok now t))"
  "timers_ok t \<Longrightarrow> timers_ok (fst (wall_expired ok stepped wnow t))"
  by (auto simp: timers_ok_def timer_expired_unfold wall_expired_unfold pop_due_spec)

lemma pop_due_set: "snd ` set h = set (fst (pop_due now h)) \<union> snd ` set (snd (pop_due now h))"
  by (induction now h rule: pop_due.induct) (auto split: prod.splits)

lemma timer_expired_alarms:
  "timer_expired True now t = (t', Some fired) \<Longrightarrow>
     pending_alarms t = set fired \<union> pending_alarms t'"
  using pop_due_set [of "tm_heap t" now] by (auto simp: timer_expired_unfold pending_alarms_def)

lemma wall_expired_alarms [simp]:
  "pending_alarms (fst (wall_expired ok stepped now t)) = pending_alarms t"
  by (auto simp: wall_expired_unfold pending_alarms_def)

section \<open>Properties\<close>

text \<open>Draining the monotonic heap fires exactly the alarms whose deadline has passed, in
  the order of their deadlines, keeps exactly the others, and leaves the timerfd armed
  whenever one is left, for the time until the earliest.\<close>

theorem expired_fires_exactly_the_due:
  assumes "timers_ok t" and "timer_expired True now t = (t', Some fired)"
  shows "mset (tm_heap t') = filter_mset (\<lambda>e. now < fst e) (mset (tm_heap t))
    \<and> (\<exists>es. mset es = filter_mset (\<lambda>e. fst e \<le> now) (mset (tm_heap t)) \<and> sorted (map fst es)
          \<and> fired = map snd es)
    \<and> (case heap_peek (tm_heap t') of
         None \<Rightarrow> tm_fd t' = None
       | Some (at, _) \<Rightarrow> tm_fd t' = Some (at - now) \<and> now < at)"
proof -
  have ok: "heap_ok (tm_heap t)" using assms(1) by (simp add: timers_ok_def)
  have h: "tm_heap t' = snd (pop_due now (tm_heap t))" and f: "fired = fst (pop_due now (tm_heap t))"
    and fd: "t' = fst (arm_fd True now (t\<lparr>tm_heap := snd (pop_due now (tm_heap t))\<rparr>))"
    using assms(2) by (auto simp: timer_expired_unfold)
  have m: "mset (tm_heap t') = filter_mset (\<lambda>e. now < fst e) (mset (tm_heap t))"
    unfolding h by (rule pop_due_spec(2) [OF ok])
  have late: "now < fst e" if "e \<in> set (tm_heap t')" for e
    using that m by (metis (mono_tags, lifting) filter_mset_eq_conv set_mset_mset)
  have "case heap_peek (tm_heap t') of None \<Rightarrow> tm_fd t' = None
      | Some (at, _) \<Rightarrow> tm_fd t' = Some (at - now) \<and> now < at"
  proof (cases "tm_heap t'")
    case Nil
    then show ?thesis using fd h by (simp add: arm_fd_def)
  next
    case (Cons e rest)
    then have "now < fst e" using late by simp
    then have "max (fst e - now) 1 = fst e - now" by simp
    then show ?thesis
      using fd h Cons \<open>now < fst e\<close> by (cases e) (simp add: arm_fd_def Let_def)
  qed
  then show ?thesis using m pop_due_spec(3) [OF ok] f by blast
qed

theorem expired_fires_exactly_the_due_witness:
  "timer_expired True 5 (timers_new\<lparr>tm_heap := [(3, StopTimeout ''a''), (9, AlarmRestart ''b'')]\<rparr>)
    = (timers_new\<lparr>tm_heap := [(9, AlarmRestart ''b'')], tm_fd := Some 4\<rparr>, Some [StopTimeout ''a''])
   \<and> mset (tm_heap (fst (timer_expired True 5
        (timers_new\<lparr>tm_heap := [(3, StopTimeout ''a''), (9, AlarmRestart ''b'')]\<rparr>)))) = {#(9, AlarmRestart ''b'')#}"
proof -
  let ?t = "timers_new\<lparr>tm_heap := [(3, StopTimeout ''a''), (9, AlarmRestart ''b'')]\<rparr>"
  have r: "timer_expired True 5 ?t
      = (timers_new\<lparr>tm_heap := [(9, AlarmRestart ''b'')], tm_fd := Some 4\<rparr>, Some [StopTimeout ''a''])"
    by (simp add: timer_expired_def arm_fd_def timers_new_def)
  have ok: "timers_ok ?t" by (simp add: timers_ok_def heap_ok_def timers_new_def)
  show ?thesis using expired_fires_exactly_the_due [OF ok r] r by simp
qed

end
