(* ===== verification/Token.thy ===== *)
theory Token
  imports Text "HOL-Library.Word"
begin

unbundle bit_operations_syntax

text \<open>
  The 64-bit token that epoll carries for each registered descriptor:
  \<open>Source::token\<close> and \<open>Source::from_token\<close> of \<open>crates/oxinit/src/event.rs\<close>.  The high half
  is the kind and the low half the id, both computed on words as the source computes them.
\<close>

datatype event_source =
    Signals
  | MonoTimer
  | WallTimer
  | NotifySocket
  | CgroupEvent "32 word"
  | SocketReady "32 word"
  | Control
  | Client "32 word"
  | LogSocket
  | LogShipper

definition KIND_SHIFT :: nat where "KIND_SHIFT = 32"
definition KIND_FIXED :: "64 word" where "KIND_FIXED = 0"
definition KIND_CGROUP :: "64 word" where "KIND_CGROUP = 1"
definition KIND_SOCKET :: "64 word" where "KIND_SOCKET = 2"
definition KIND_CLIENT :: "64 word" where "KIND_CLIENT = 3"

lemmas kind_defs = KIND_SHIFT_def KIND_FIXED_def KIND_CGROUP_def KIND_SOCKET_def KIND_CLIENT_def

definition kind_and_id :: "event_source \<Rightarrow> 64 word \<times> 32 word" where
  "kind_and_id s =
     (case s of
        Signals \<Rightarrow> (KIND_FIXED, 0)
      | MonoTimer \<Rightarrow> (KIND_FIXED, 1)
      | NotifySocket \<Rightarrow> (KIND_FIXED, 2)
      | Control \<Rightarrow> (KIND_FIXED, 3)
      | LogSocket \<Rightarrow> (KIND_FIXED, 4)
      | LogShipper \<Rightarrow> (KIND_FIXED, 5)
      | WallTimer \<Rightarrow> (KIND_FIXED, 6)
      | CgroupEvent i \<Rightarrow> (KIND_CGROUP, i)
      | SocketReady i \<Rightarrow> (KIND_SOCKET, i)
      | Client i \<Rightarrow> (KIND_CLIENT, i))"

definition token :: "event_source \<Rightarrow> 64 word" where
  "token s = (case kind_and_id s of (kind, i) \<Rightarrow> push_bit KIND_SHIFT kind OR ucast i)"

definition from_token :: "64 word \<Rightarrow> event_source option" where
  "from_token t =
     (let i = (ucast t :: 32 word); kind = drop_bit KIND_SHIFT t in
      if kind = KIND_FIXED then
        (if i = 0 then Some Signals
         else if i = 1 then Some MonoTimer
         else if i = 2 then Some NotifySocket
         else if i = 3 then Some Control
         else if i = 4 then Some LogSocket
         else if i = 5 then Some LogShipper
         else if i = 6 then Some WallTimer
         else None)
      else if kind = KIND_CGROUP then Some (CgroupEvent i)
      else if kind = KIND_SOCKET then Some (SocketReady i)
      else if kind = KIND_CLIENT then Some (Client i)
      else None)"

lemma low_half: "ucast (push_bit 32 k OR ucast i :: 64 word) = (i :: 32 word)"
  by (rule bit_word_eqI) (simp add: bit_simps)

lemma high_half:
  assumes "take_bit 32 k = k"
  shows "drop_bit 32 (push_bit 32 k OR ucast (i :: 32 word)) = (k :: 64 word)"
proof (rule bit_word_eqI)
  fix n assume n: "n < LENGTH(64)"
  have "bit k n \<Longrightarrow> n < 32" for n using assms by (metis bit_take_bit_iff)
  then show "bit (drop_bit 32 (push_bit 32 k OR ucast i)) n = bit k n"
    using n by (auto simp: bit_simps dest: bit_imp_le_length)
qed

lemma token_halves:
  "ucast (token s) = snd (kind_and_id s)" "drop_bit KIND_SHIFT (token s) = fst (kind_and_id s)"
proof -
  have k: "take_bit 32 (fst (kind_and_id s)) = fst (kind_and_id s)" by (cases s) (simp_all add: kind_and_id_def kind_defs)
  have t: "token s = push_bit 32 (fst (kind_and_id s)) OR ucast (snd (kind_and_id s))"
    by (simp add: token_def KIND_SHIFT_def case_prod_beta)
  show "ucast (token s) = snd (kind_and_id s)" unfolding t by (rule low_half)
  show "drop_bit KIND_SHIFT (token s) = fst (kind_and_id s)"
    unfolding t KIND_SHIFT_def by (rule high_half [OF k])
qed

lemma from_token_token: "from_token (token s) = Some s"
  unfolding from_token_def Let_def token_halves
  by (cases s) (simp_all add: kind_and_id_def kind_defs)

interpretation token_code: codec token from_token "\<lambda>_. True"
  by unfold_locales (rule from_token_token)

lemma split_token: "(t :: 64 word) = push_bit 32 (drop_bit 32 t) OR ucast (ucast t :: 32 word)"
  by (rule bit_word_eqI) (auto simp: bit_simps)

lemma token_from_token:
  assumes "from_token t = Some s" shows "token s = t"
proof -
  have "kind_and_id s = (drop_bit KIND_SHIFT t, ucast t)"
    using assms unfolding from_token_def Let_def
    by (auto simp: kind_and_id_def split: if_splits)
  then show ?thesis using split_token [of t] by (simp add: token_def KIND_SHIFT_def)
qed

section \<open>Properties\<close>

text \<open>The token decodes to exactly the source it was made from, and a token decodes only
  if it is one that some source has: no two descriptors can be confused.\<close>

theorem token_decodes_exactly: "from_token t = Some s \<longleftrightarrow> t = token s"
  using from_token_token token_from_token by blast

end
