(* ===== verification/Supervisor.thy ===== *)
theory Supervisor
  imports Loader Graph Deadlines NotifyMsg
begin

text \<open>
  The supervisor: \<open>crates/oxinit/src/supervisor.rs\<close>, with the parts of \<open>shutdown.rs\<close>,
  \<open>cgroup.rs\<close> and \<open>listen.rs\<close> that keep its state and the requests of \<open>oxinit-ipc\<close>.

  A handler is a function of the state and of the answers the kernel gives while it runs
  (\<open>env\<close>): the clocks, whether a descriptor could be armed, what forking returned, which
  processes a cgroup holds.  Within one handler the clock stands still.  Processes started
  and signals sent are appended to a trace.  Log lines are left out, except that the texts
  of control replies are kept.
\<close>

section \<open>State\<close>

datatype action = PowerOff | Reboot | Halt

definition DEADLINE :: duration where "DEADLINE = from_secs 90"

record shutdown =
  sd_action :: action
  sd_started :: instant

record bound =
  bd_unit :: string
  bd_service :: string
  bd_address :: listen
  bd_armed :: bool

record cgroups =
  cg_hierarchy :: bool
  cg_handles :: "string list"

record unit_source =
  us_dirs :: "string list"
  us_scope :: scope
  us_notify :: string

text \<open>What was done to the outside world, oldest first.\<close>

datatype effect =
    Spawned string nat
  | Terminated string nat
  | CgroupKilled string
  | Killed string nat

record sup =
  s_instances :: "(string, inst) bmap"
  s_hostname :: string
  s_source :: unit_source
  s_order :: "string list"
  s_timers :: timers
  s_cgroups :: cgroups
  s_sockets :: "bound list"
  s_pending :: "string list"
  s_pending_restart :: "string list"
  s_next_elapse :: "(string, next_fire) bmap"
  s_shutdown :: "shutdown option"
  s_trace :: "effect list"

record spawn_request =
  sr_unit :: string
  sr_exec :: "string list"
  sr_env :: "(string \<times> string) list"
  sr_identity :: "string option"
  sr_session :: bool
  sr_listen :: "string list"
  sr_cgroup :: bool

record env =
  e_now :: instant
  e_unix :: unix
  e_settime :: bool
  e_wall_stepped :: bool
  e_user :: "string \<Rightarrow> bool"
  e_procs :: "string \<Rightarrow> bool"
  e_dup :: "string list \<Rightarrow> bool"
  e_fork :: "spawn_request \<Rightarrow> nat option"
  e_apply :: "string \<Rightarrow> bool"
  e_log_pipe :: "string \<Rightarrow> bool"
  e_dev_null :: bool
  e_populated :: "string \<Rightarrow> bool"
  e_events :: "nat \<Rightarrow> bool option"
  e_pids :: "string \<Rightarrow> nat list"
  e_left :: "string \<Rightarrow> nat \<Rightarrow> bool"
  e_term :: "nat \<Rightarrow> bool"
  e_cgroup_kill :: "string \<Rightarrow> bool"
  e_cgroup_add :: "string \<Rightarrow> bool"
  e_epoll :: "nat \<Rightarrow> bool"
  e_bind :: "string \<Rightarrow> listen \<Rightarrow> bool"
  e_memory :: "string \<Rightarrow> nat option"
  e_tasks :: "string \<Rightarrow> nat option"

section \<open>Small operations\<close>

definition shutdown_new :: "env \<Rightarrow> action \<Rightarrow> shutdown" where
  "shutdown_new env a = \<lparr>sd_action = a, sd_started = e_now env\<rparr>"

definition shutdown_overdue :: "env \<Rightarrow> shutdown \<Rightarrow> bool" where
  "shutdown_overdue env sd \<longleftrightarrow> elapsed (e_now env) (sd_started sd) > DEADLINE"

definition shutdown_remaining :: "env \<Rightarrow> shutdown \<Rightarrow> duration" where
  "shutdown_remaining env sd = (DEADLINE - elapsed (e_now env) (sd_started sd)) + from_millis 10"

definition exit_status :: "action \<Rightarrow> int" where
  "exit_status a = (case a of PowerOff \<Rightarrow> 0 | Halt \<Rightarrow> 0 | Reboot \<Rightarrow> 133)"

definition is_idle :: "state \<Rightarrow> bool" where
  "is_idle st \<longleftrightarrow> st = Inactive \<or> st = Failed"

definition shutting_down :: "sup \<Rightarrow> bool" where
  "shutting_down s \<longleftrightarrow> s_shutdown s \<noteq> None"

definition wait_bound :: "env \<Rightarrow> sup \<Rightarrow> duration option" where
  "wait_bound env s = map_option (shutdown_remaining env) (s_shutdown s)"

definition get_inst :: "sup \<Rightarrow> string \<Rightarrow> inst option" where
  "get_inst s name = bget (s_instances s) name"

definition upd_inst :: "string \<Rightarrow> (inst \<Rightarrow> inst) \<Rightarrow> sup \<Rightarrow> sup" where
  "upd_inst name f s = s\<lparr>s_instances := bupdate name f (s_instances s)\<rparr>"

definition emit :: "effect list \<Rightarrow> sup \<Rightarrow> sup" where
  "emit es s = s\<lparr>s_trace := s_trace s @ es\<rparr>"

text \<open>\<open>Timers::schedule\<close>; the error of a descriptor that could not be armed is only logged.\<close>

definition sched :: "env \<Rightarrow> duration \<Rightarrow> alarm \<Rightarrow> sup \<Rightarrow> sup" where
  "sched env delay a s =
     s\<lparr>s_timers := fst (timer_schedule (e_settime env) (e_now env) delay a (s_timers s))\<rparr>"

definition has_cgroup :: "sup \<Rightarrow> string \<Rightarrow> bool" where
  "has_cgroup s name \<longleftrightarrow> name \<in> set (cg_handles (s_cgroups s))"

definition cgroup_unit :: "sup \<Rightarrow> nat \<Rightarrow> string option" where
  "cgroup_unit s i =
     (if i < length (cg_handles (s_cgroups s)) then Some (cg_handles (s_cgroups s) ! i) else None)"

definition cgroups_add :: "env \<Rightarrow> string \<Rightarrow> cgroups \<Rightarrow> cgroups" where
  "cgroups_add env name c =
     (if \<not> cg_hierarchy c then c
      else if e_cgroup_add env name then c\<lparr>cg_handles := cg_handles c @ [name]\<rparr> else c)"

definition sockets_bind :: "env \<Rightarrow> string \<Rightarrow> socket \<Rightarrow> bound list \<Rightarrow> bound list" where
  "sockets_bind env u sk bs =
     bs @ map (\<lambda>a. \<lparr>bd_unit = u, bd_service = so_service sk, bd_address = a, bd_armed = False\<rparr>)
            (filter (e_bind env u) (so_listen sk))"

definition for_service :: "bound list \<Rightarrow> string \<Rightarrow> string list" where
  "for_service bs service = map bd_unit (filter (\<lambda>b. bd_service b = service) bs)"

definition unit_for_pid :: "sup \<Rightarrow> nat \<Rightarrow> string option" where
  "unit_for_pid s pid =
     map_option fst (find (\<lambda>(name, i). in_child i = Some pid) (s_instances s))"

section \<open>Spawning\<close>

datatype spawn_error = NotAService | NoSuchUser | NoProcs | EmptyExec | NoDup | NulByte | NoFork

definition service_env :: "string \<Rightarrow> service \<Rightarrow> string list \<Rightarrow> (string \<times> string) list" where
  "service_env notify sv names =
     (if sv_ty sv = Notify then
        (''NOTIFY_SOCKET'', notify) #
        (case sv_watchdog_sec sv of
           None \<Rightarrow> []
         | Some limit \<Rightarrow> [(''WATCHDOG_USEC'', show_nat (as_micros limit))])
      else [])
     @ (if names = [] then []
        else [(''LISTEN_FDS'', show_nat (length names)), (''LISTEN_FDNAMES'', join_with '':'' names)])"

definition has_nul :: "string list \<Rightarrow> (string \<times> string) list \<Rightarrow> bool" where
  "has_nul exec env \<longleftrightarrow>
     (\<exists>a \<in> set exec. CHR 0x00 \<in> set a) \<or> (\<exists>(k, v) \<in> set env. CHR 0x00 \<in> set k \<or> CHR 0x00 \<in> set v)"

definition spawn ::
    "env \<Rightarrow> unit_source \<Rightarrow> oxunit \<Rightarrow> bool \<Rightarrow> string list \<Rightarrow> spawn_error + nat" where
  "spawn env src u cgroup names =
     (case unit_service u of
        None \<Rightarrow> Inl NotAService
      | Some sv \<Rightarrow>
          let identity = (if sv_user sv = ''root'' \<or> us_scope src \<noteq> SystemScope then None
                          else Some (sv_user sv));
              vars = service_env (us_notify src) sv names in
          if (case identity of None \<Rightarrow> False | Some who \<Rightarrow> \<not> e_user env who) then Inl NoSuchUser
          else if cgroup \<and> \<not> e_procs env (u_name u) then Inl NoProcs
          else if sv_exec sv = [] then Inl EmptyExec
          else if \<not> e_dup env names then Inl NoDup
          else if has_nul (sv_exec sv) vars then Inl NulByte
          else (case e_fork env \<lparr>sr_unit = u_name u, sr_exec = sv_exec sv, sr_env = vars,
                      sr_identity = identity, sr_session = sv_tty sv, sr_listen = names,
                      sr_cgroup = cgroup\<rparr> of
                  None \<Rightarrow> Inl NoFork
                | Some pid \<Rightarrow> Inr pid))"

definition apply_resources :: "env \<Rightarrow> sup \<Rightarrow> string \<Rightarrow> service \<Rightarrow> bool" where
  "apply_resources env s name sv \<longleftrightarrow>
     sv_resources sv = resources_default \<or> (has_cgroup s name \<and> e_apply env name)"

definition output_ok :: "env \<Rightarrow> string \<Rightarrow> service \<Rightarrow> bool" where
  "output_ok env name sv =
     (case sv_output sv of Console \<Rightarrow> True | LogPipe \<Rightarrow> e_log_pipe env name | NullDev \<Rightarrow> e_dev_null env)"

section \<open>Stopping\<close>

definition valid_pid :: "nat \<Rightarrow> bool" where
  "valid_pid pid \<longleftrightarrow> 0 < pid \<and> pid < 2 ^ 31"

definition terminate :: "env \<Rightarrow> nat \<Rightarrow> bool" where
  "terminate env pid \<longleftrightarrow> valid_pid pid \<and> e_term env pid"

text \<open>The signals of \<open>stop\<close>: to every process of the cgroup, and to the child where it is
  elsewhere or there is no cgroup.\<close>

definition signal_unit :: "env \<Rightarrow> string \<Rightarrow> nat option \<Rightarrow> sup \<Rightarrow> sup" where
  "signal_unit env name child s =
     (if has_cgroup s name then
        let s1 = emit (map (Terminated name) (filter (terminate env) (e_pids env name))) s in
        (case child of
           None \<Rightarrow> s1
         | Some pid \<Rightarrow>
             if e_left env name pid \<and> terminate env pid then emit [Terminated name pid] s1 else s1)
      else
        (case child of
           None \<Rightarrow> s
         | Some pid \<Rightarrow> if terminate env pid then emit [Terminated name pid] s else s))"

definition sup_stop :: "env \<Rightarrow> string \<Rightarrow> stop_cause \<Rightarrow> sup \<Rightarrow> sup" where
  "sup_stop env name cause s0 =
     (let s = s0\<lparr>s_pending := filter (\<lambda>q. q \<noteq> name) (s_pending s0)\<rparr> in
      case get_inst s name of
        None \<Rightarrow> s
      | Some i \<Rightarrow>
          if in_state i = Restarting then upd_inst name cancel_restart s
          else (case unit_service (in_unit i) of
             None \<Rightarrow> upd_inst name (\<lambda>i. fst (deactivated (e_now env) (entered_deactivating cause i))) s
           | Some sv \<Rightarrow>
               if in_state i = Inactive \<or> in_state i = Failed \<or> in_state i = Deactivating then s
               else sched env (sv_stop_sec sv) (StopTimeout name)
                      (signal_unit env name (in_child i)
                        (upd_inst name (entered_deactivating cause) s))))"

section \<open>Starting\<close>

definition conflicting_with :: "sup \<Rightarrow> string \<Rightarrow> string list" where
  "conflicting_with s name =
     fold (\<lambda>(other, i) names.
             if name \<in> set (conflicts (u_deps (in_unit i))) \<and> other \<notin> set names
             then names @ [other] else names)
       (s_instances s)
       (case get_inst s name of None \<Rightarrow> [] | Some i \<Rightarrow> conflicts (u_deps (in_unit i)))"

definition stop_conflicting :: "env \<Rightarrow> string \<Rightarrow> sup \<Rightarrow> sup" where
  "stop_conflicting env other s =
     (case get_inst s other of
        None \<Rightarrow> s
      | Some i \<Rightarrow> if is_idle (in_state i) then s else sup_stop env other Requested s)"

definition sup_arm :: "env \<Rightarrow> string \<Rightarrow> next_fire option \<Rightarrow> sup \<Rightarrow> sup" where
  "sup_arm env name nxt s =
     (case nxt of
        None \<Rightarrow> s\<lparr>s_next_elapse := bremove name (s_next_elapse s)\<rparr>
      | Some n \<Rightarrow>
          let (t, armed) = (case n of
                After delay \<Rightarrow> timer_schedule (e_settime env) (e_now env) delay (TimerElapsed name) (s_timers s)
              | AtWall at \<Rightarrow> timer_schedule_at (e_settime env) at (TimerElapsed name) (s_timers s)) in
          s\<lparr>s_timers := t,
            s_next_elapse := if armed then binsert name n (s_next_elapse s) else s_next_elapse s\<rparr>)"

definition start_service :: "env \<Rightarrow> string \<Rightarrow> oxunit \<Rightarrow> service \<Rightarrow> sup \<Rightarrow> sup" where
  "start_service env name u sv s =
     (if \<not> apply_resources env s name sv then upd_inst name failed_to_start s
      else if \<not> output_ok env name sv then upd_inst name failed_to_start s
      else case spawn env (s_source s) u (has_cgroup s name) (for_service (s_sockets s) name) of
        Inl e \<Rightarrow> upd_inst name failed_to_start s
      | Inr pid \<Rightarrow>
          let s1 = upd_inst name (entered_activating pid) (emit [Spawned name pid] s) in
          if sv_ty sv = Simple then upd_inst name (entered_active (e_now env)) s1
          else sched env (sv_start_sec sv) (StartTimeout name) s1)"

definition start_unit :: "env \<Rightarrow> string \<Rightarrow> sup \<Rightarrow> sup" where
  "start_unit env name s =
     (case get_inst s name of
        None \<Rightarrow> s
      | Some i \<Rightarrow>
          (case u_kind (in_unit i) of
             Target \<Rightarrow> upd_inst name (entered_active (e_now env)) s
           | Timer t \<Rightarrow>
               sup_arm env name (schedule_first (ti_schedule t) (e_unix env))
                 (upd_inst name (entered_active (e_now env)) s)
           | Socket _ \<Rightarrow> upd_inst name (entered_active (e_now env)) s
           | Service sv \<Rightarrow> start_service env name (in_unit i) sv s))"

definition sup_start :: "env \<Rightarrow> string \<Rightarrow> sup \<Rightarrow> sup" where
  "sup_start env name s =
     (if shutting_down s then s
      else start_unit env name (fold (stop_conflicting env) (conflicting_with s name) s))"

section \<open>The start queue\<close>

definition ordering_satisfied :: "sup \<Rightarrow> string \<Rightarrow> bool" where
  "ordering_satisfied s name =
     (case get_inst s name of
        None \<Rightarrow> False
      | Some i \<Rightarrow> list_all (\<lambda>dep. dep \<notin> set (s_pending s) \<and>
            (case get_inst s dep of None \<Rightarrow> True | Some d \<Rightarrow> in_state d \<noteq> Activating))
          (after (u_deps (in_unit i))))"

definition next_startable :: "sup \<Rightarrow> string option" where
  "next_startable s = find (ordering_satisfied s) (s_pending s)"

definition failed_requirement :: "sup \<Rightarrow> string \<Rightarrow> string option" where
  "failed_requirement s name =
     (case get_inst s name of
        None \<Rightarrow> None
      | Some i \<Rightarrow> find (\<lambda>dep. case get_inst s dep of None \<Rightarrow> False | Some d \<Rightarrow> in_state d = Failed)
                   (requires (u_deps (in_unit i))))"

lemma pending_upd [simp]: "s_pending (upd_inst n f s) = s_pending s"
  by (simp add: upd_inst_def)

lemma pending_sched [simp]: "s_pending (sched env d a s) = s_pending s"
  by (simp add: sched_def)

lemma pending_emit [simp]: "s_pending (emit es s) = s_pending s"
  by (simp add: emit_def)

lemma pending_signal [simp]: "s_pending (signal_unit env n c s) = s_pending s"
  by (auto simp: signal_unit_def Let_def split: option.splits)

lemma pending_stop [simp]: "s_pending (sup_stop env n c s) = filter (\<lambda>q. q \<noteq> n) (s_pending s)"
  by (auto simp: sup_stop_def Let_def split: option.splits)

lemma pending_arm [simp]: "s_pending (sup_arm env n nx s) = s_pending s"
  by (auto simp: sup_arm_def Let_def split: option.splits prod.splits)

lemma pending_start_unit [simp]: "s_pending (start_unit env n s) = s_pending s"
  by (auto simp: start_unit_def start_service_def Let_def split: option.splits kind.splits sum.splits)

lemma pending_stop_conflicting: "length (s_pending (stop_conflicting env n s)) \<le> length (s_pending s)"
  by (auto simp: stop_conflicting_def split: option.splits)

lemma pending_fold_stop: "length (s_pending (fold (stop_conflicting env) ns s)) \<le> length (s_pending s)"
proof (induction ns arbitrary: s)
  case (Cons n ns)
  have "length (s_pending (fold (stop_conflicting env) ns (stop_conflicting env n s)))
      \<le> length (s_pending (stop_conflicting env n s))" by (rule Cons.IH)
  also have "\<dots> \<le> length (s_pending s)" by (rule pending_stop_conflicting)
  finally show ?case by simp
qed simp

lemma pending_start: "length (s_pending (sup_start env n s)) \<le> length (s_pending s)"
  using pending_fold_stop by (simp add: sup_start_def)

definition dequeue :: "string \<Rightarrow> sup \<Rightarrow> sup" where
  "dequeue name s = s\<lparr>s_pending := filter (\<lambda>q. q \<noteq> name) (s_pending s)\<rparr>"

lemma dequeue_shorter:
  assumes "next_startable s = Some n" shows "length (s_pending (dequeue n s)) < length (s_pending s)"
proof -
  have "n \<in> set (s_pending s)" using assms find_Some_mem by (fastforce simp: next_startable_def)
  then show ?thesis by (auto simp: dequeue_def intro: length_filter_less)
qed

text \<open>The \<open>while let\<close> loop of \<open>pump\<close>: each round takes a unit off the queue.\<close>

function pump_loop :: "env \<Rightarrow> sup \<Rightarrow> sup" where
  "pump_loop env s =
     (case next_startable s of
        None \<Rightarrow> s
      | Some name \<Rightarrow>
          if failed_requirement (dequeue name s) name \<noteq> None
          then pump_loop env (upd_inst name failed_to_start (dequeue name s))
          else pump_loop env (sup_start env name (dequeue name s)))"
  by pat_completeness auto
termination
proof (relation "measure (\<lambda>(env, s). length (s_pending s))", goal_cases)
  case (2 env s name)
  then show ?case using dequeue_shorter by simp
next
  case (3 env s name)
  have "length (s_pending (sup_start env name (dequeue name s))) \<le> length (s_pending (dequeue name s))"
    by (rule pending_start)
  then show ?case using dequeue_shorter [OF 3(1)] by simp
qed simp

declare pump_loop.simps [simp del]

definition pump :: "env \<Rightarrow> sup \<Rightarrow> sup" where
  "pump env s = (if shutting_down s then s\<lparr>s_pending := []\<rparr> else pump_loop env s)"

definition start_all :: "env \<Rightarrow> sup \<Rightarrow> sup" where
  "start_all env s = pump env (s\<lparr>s_pending := s_order s\<rparr>)"

section \<open>Shutting down\<close>

definition stop_order :: "sup \<Rightarrow> string list" where
  "stop_order s =
     fold (\<lambda>name names. if name \<in> set names then names else names @ [name])
       (bkeys (s_instances s)) (rev (s_order s))"

definition begin_shutdown :: "env \<Rightarrow> action \<Rightarrow> sup \<Rightarrow> sup" where
  "begin_shutdown env a s =
     (if s_shutdown s \<noteq> None then s
      else
        let s1 = s\<lparr>s_shutdown := Some (shutdown_new env a)\<rparr> in
        fold (\<lambda>name. sup_stop env name Requested) (stop_order s1) s1)"

definition settled :: "env \<Rightarrow> sup \<Rightarrow> action option" where
  "settled env s =
     (case s_shutdown s of
        None \<Rightarrow> None
      | Some sd \<Rightarrow>
          if filter (\<lambda>(name, i). \<not> is_idle (in_state i)) (s_instances s) = [] then Some (sd_action sd)
          else if shutdown_overdue env sd then Some (sd_action sd)
          else None)"

section \<open>Ends of processes\<close>

text \<open>The end of \<open>finish_deactivation\<close>: a start that was asked for while the unit stopped.\<close>

definition start_if_asked :: "env \<Rightarrow> string \<Rightarrow> sup \<Rightarrow> sup" where
  "start_if_asked env name s =
     (if name \<in> set (s_pending_restart s)
      then sup_start env name (s\<lparr>s_pending_restart := filter (\<lambda>n. n \<noteq> name) (s_pending_restart s)\<rparr>)
      else s)"

definition finish_deactivation :: "env \<Rightarrow> string \<Rightarrow> sup \<Rightarrow> sup" where
  "finish_deactivation env name s =
     (case get_inst s name of
        None \<Rightarrow> s
      | Some i \<Rightarrow>
          if in_state i \<noteq> Deactivating then s
          else
            let (j, delay) = deactivated (e_now env) i in
            start_if_asked env name
              (case delay of
                 Some d \<Rightarrow>
                   if shutting_down s then upd_inst name (\<lambda>_. cancel_restart j) s
                   else sched env d (AlarmRestart name) (upd_inst name (\<lambda>_. j) s)
               | None \<Rightarrow> upd_inst name (\<lambda>_. j) s))"

definition forking_parent_exited :: "env \<Rightarrow> string \<Rightarrow> exit_kind \<Rightarrow> sup \<Rightarrow> sup" where
  "forking_parent_exited env name ex s =
     (if \<not> has_cgroup s name then upd_inst name failed_to_start s
      else if ex = CleanExit \<and> e_populated env name then upd_inst name (forked_away (e_now env)) s
      else upd_inst name failed_to_start s)"

definition inst_ty :: "inst \<Rightarrow> service_type option" where
  "inst_ty i = map_option sv_ty (unit_service (in_unit i))"

definition sigchld_one :: "env \<Rightarrow> nat \<times> int option \<times> int option \<Rightarrow> sup \<Rightarrow> sup" where
  "sigchld_one env reaped s =
     (case reaped of (pid, code, signal) \<Rightarrow>
        let ex = from_status code signal in
        case unit_for_pid s pid of
          None \<Rightarrow> s
        | Some name \<Rightarrow>
            (case get_inst s name of
               None \<Rightarrow> s
             | Some i \<Rightarrow>
                 if inst_ty i = Some Forking \<and> in_state i = Activating
                 then forking_parent_exited env name ex s
                 else
                   let deactivating = (in_state i = Deactivating);
                       (j, delay) = on_exit (e_now env) ex i;
                       s1 = upd_inst name (\<lambda>_. j) s in
                   (case delay of
                      Some d \<Rightarrow>
                        if shutting_down s then upd_inst name cancel_restart s1
                        else sched env d (AlarmRestart name) s1
                    | None \<Rightarrow>
                        if deactivating then
                          (if has_cgroup s1 name \<and> e_populated env name then s1
                           else finish_deactivation env name s1)
                        else s1)))"

definition on_sigchld :: "env \<Rightarrow> (nat \<times> int option \<times> int option) list \<Rightarrow> sup \<Rightarrow> sup" where
  "on_sigchld env reaped s = fold (sigchld_one env) reaped s"

definition unit_vanished :: "env \<Rightarrow> string \<Rightarrow> sup \<Rightarrow> sup" where
  "unit_vanished env name s =
     (case get_inst s name of
        None \<Rightarrow> s
      | Some i \<Rightarrow>
          let (j, delay) = on_exit (e_now env) AbnormalExit i; s1 = upd_inst name (\<lambda>_. j) s in
          (case delay of Some d \<Rightarrow> sched env d (AlarmRestart name) s1 | None \<Rightarrow> s1))"

definition on_cgroup :: "env \<Rightarrow> nat \<Rightarrow> sup \<Rightarrow> sup" where
  "on_cgroup env ident s =
     (case cgroup_unit s ident of
        None \<Rightarrow> s
      | Some name \<Rightarrow>
          if e_events env ident \<noteq> Some False then s
          else (case get_inst s name of
             None \<Rightarrow> s
           | Some i \<Rightarrow>
               if in_state i = Deactivating then finish_deactivation env name s
               else if in_state i = Active \<and> in_child i = None then unit_vanished env name s
               else s))"

section \<open>Deadlines\<close>

definition start_timed_out :: "env \<Rightarrow> string \<Rightarrow> sup \<Rightarrow> sup" where
  "start_timed_out env name s =
     (case get_inst s name of
        None \<Rightarrow> s
      | Some i \<Rightarrow> if in_state i \<noteq> Activating then s else sup_stop env name WatchdogMissed s)"

definition stop_deadline :: "env \<Rightarrow> string \<Rightarrow> sup \<Rightarrow> sup" where
  "stop_deadline env name s =
     (case get_inst s name of
        None \<Rightarrow> s
      | Some i \<Rightarrow>
          if in_state i \<noteq> Deactivating then s
          else
            let s1 = upd_inst name stop_timed_out s;
                kill_child = (case in_child i of
                    None \<Rightarrow> [] | Some pid \<Rightarrow> if valid_pid pid then [Killed name pid] else []) in
            if has_cgroup s name then
              let s2 = (if e_cgroup_kill env name then emit [CgroupKilled name] s1 else s1) in
              if \<not> e_cgroup_kill env name \<or> (case in_child i of None \<Rightarrow> False | Some pid \<Rightarrow> e_left env name pid)
              then emit kill_child s2 else s2
            else emit kill_child s1)"

definition arm_watchdog :: "env \<Rightarrow> string \<Rightarrow> duration \<Rightarrow> sup \<Rightarrow> sup" where
  "arm_watchdog env name limit s = sched env limit (WatchdogCheck name) s"

definition check_watchdog :: "env \<Rightarrow> string \<Rightarrow> sup \<Rightarrow> sup" where
  "check_watchdog env name s =
     (case get_inst s name of
        None \<Rightarrow> s
      | Some i \<Rightarrow>
          (case Option.bind (unit_service (in_unit i)) sv_watchdog_sec of
             None \<Rightarrow> s
           | Some limit \<Rightarrow>
               if in_state i \<noteq> Active then s
               else if \<not> watchdog_expired (e_now env) limit i then arm_watchdog env name limit s
               else sup_stop env name WatchdogMissed s))"

definition timer_elapsed :: "env \<Rightarrow> string \<Rightarrow> sup \<Rightarrow> sup" where
  "timer_elapsed env name s =
     (case Option.bind (get_inst s name) (\<lambda>i. unit_timer (in_unit i)) of
        None \<Rightarrow> s
      | Some t \<Rightarrow>
          if shutting_down s then s
          else
            let s1 = sup_arm env name (schedule_next (ti_schedule t) (e_unix env)) s in
            (case get_inst s1 (ti_service t) of
               None \<Rightarrow> s1
             | Some i \<Rightarrow> if \<not> is_idle (in_state i) then s1 else sup_start env (ti_service t) s1))"

definition dispatch :: "env \<Rightarrow> alarm \<Rightarrow> sup \<Rightarrow> sup" where
  "dispatch env a s =
     (case a of
        AlarmRestart u \<Rightarrow>
          (case get_inst s u of
             None \<Rightarrow> s
           | Some i \<Rightarrow> if in_state i = Restarting then sup_start env u s else s)
      | WatchdogCheck u \<Rightarrow> check_watchdog env u s
      | StopTimeout u \<Rightarrow> stop_deadline env u s
      | TimerElapsed u \<Rightarrow> timer_elapsed env u s
      | StartTimeout u \<Rightarrow> start_timed_out env u s)"

definition on_timer :: "env \<Rightarrow> sup \<Rightarrow> sup" where
  "on_timer env s =
     (case timer_expired (e_settime env) (e_now env) (s_timers s) of
        (t, None) \<Rightarrow> s\<lparr>s_timers := t\<rparr>
      | (t, Some fired) \<Rightarrow> fold (dispatch env) fired (s\<lparr>s_timers := t\<rparr>))"

definition on_wall_timer :: "env \<Rightarrow> sup \<Rightarrow> sup" where
  "on_wall_timer env s =
     (case wall_expired (e_settime env) (e_wall_stepped env) (e_unix env) (s_timers s) of
        (t, None) \<Rightarrow> s\<lparr>s_timers := t\<rparr>
      | (t, Some fired) \<Rightarrow>
          fold (\<lambda>a s. case a of TimerElapsed u \<Rightarrow> timer_elapsed env u s | _ \<Rightarrow> s) fired (s\<lparr>s_timers := t\<rparr>))"

section \<open>Messages, connections and sockets\<close>

definition notify_one :: "env \<Rightarrow> message \<Rightarrow> sup \<Rightarrow> sup" where
  "notify_one env m s =
     (case unit_for_pid s (m_pid m) of
        None \<Rightarrow> s
      | Some name \<Rightarrow>
          (case get_inst s name of
             None \<Rightarrow> s
           | Some i \<Rightarrow>
               let i1 = (case m_status m of None \<Rightarrow> i | Some st \<Rightarrow> i\<lparr>in_status := Some st\<rparr>);
                   i2 = (if m_watchdog m then pinged (e_now env) i1 else i1) in
               if m_ready m \<and> in_state i2 = Activating then
                 let s1 = upd_inst name (\<lambda>_. entered_active (e_now env) i2) s in
                 (case Option.bind (unit_service (in_unit i2)) sv_watchdog_sec of
                    None \<Rightarrow> s1 | Some limit \<Rightarrow> arm_watchdog env name limit s1)
               else upd_inst name (\<lambda>_. i2) s))"

definition on_notify :: "env \<Rightarrow> message list \<Rightarrow> sup \<Rightarrow> sup" where
  "on_notify env ms s = fold (notify_one env) ms s"

definition on_socket :: "env \<Rightarrow> nat \<Rightarrow> sup \<Rightarrow> sup" where
  "on_socket env ident s =
     (if ident < length (s_sockets s) then
        let service = bd_service (s_sockets s ! ident) in
        (case get_inst s service of
           None \<Rightarrow> s
         | Some i \<Rightarrow> if is_idle (in_state i) then sup_start env service s else s)
      else s)"

text \<open>\<open>sync_sockets\<close>: what each descriptor's registration becomes; \<open>e_epoll\<close> is whether the
  call for that descriptor succeeds.\<close>

definition want_armed :: "sup \<Rightarrow> string \<Rightarrow> bool" where
  "want_armed s service =
     (case get_inst s service of None \<Rightarrow> False | Some i \<Rightarrow> is_idle (in_state i))"

definition sync_sockets :: "env \<Rightarrow> sup \<Rightarrow> sup" where
  "sync_sockets env s =
     s\<lparr>s_sockets := map (\<lambda>(ident, b).
          if want_armed s (bd_service b) = bd_armed b then b
          else if e_epoll env ident then b\<lparr>bd_armed := want_armed s (bd_service b)\<rparr> else b)
        (zip [0..<length (s_sockets s)] (s_sockets s))\<rparr>"

section \<open>Requests\<close>

datatype request =
    RList
  | RStatus string
  | RStart string
  | RStop string
  | RRestart string
  | RReload

record unit_status =
  st_name :: string
  st_kind :: string
  st_description :: string
  st_state :: string
  st_pid :: "nat option"
  st_restarts :: nat
  st_status :: "string option"
  st_next_elapse :: "nat option"
  st_memory :: "nat option"
  st_tasks :: "nat option"

datatype response =
    Units "unit_status list"
  | Accepted string
  | RError string

fun kind_name :: "kind \<Rightarrow> string" where
  "kind_name (Service _) = ''service''"
| "kind_name Target = ''target''"
| "kind_name (Socket _) = ''socket''"
| "kind_name (Timer _) = ''timer''"

definition describe :: "env \<Rightarrow> sup \<Rightarrow> inst \<Rightarrow> unit_status" where
  "describe env s i =
     (let name = u_name (in_unit i); cg = has_cgroup s name in
      \<lparr>st_name = name, st_kind = kind_name (u_kind (in_unit i)),
       st_description = u_description (in_unit i), st_state = show_state (in_state i),
       st_pid = in_child i, st_restarts = in_restarts i, st_status = in_status i,
       st_next_elapse = map_option (\<lambda>n. max (next_in_seconds n (e_unix env)) 1)
          (bget (s_next_elapse s) name),
       st_memory = (if cg then e_memory env name else None),
       st_tasks = (if cg then e_tasks env name else None)\<rparr>)"

definition unknown_unit :: "string \<Rightarrow> response" where
  "unknown_unit u = RError (''no unit named `'' @ u @ ''`'')"

definition refused :: "string \<Rightarrow> response" where
  "refused why = RError why"

definition restart_when_stopped :: "env \<Rightarrow> string \<Rightarrow> sup \<Rightarrow> sup" where
  "restart_when_stopped env name s =
     (case get_inst s name of
        None \<Rightarrow> s
      | Some i \<Rightarrow>
          if is_idle (in_state i) then sup_start env name s
          else s\<lparr>s_pending_restart := sinsert name (s_pending_restart s)\<rparr>)"

text \<open>\<open>reload\<close> in two passes over what was loaded (\<open>loaded\<close>): units changed or new, with the
  names changed and the names skipped; then the instances whose file is gone.\<close>

definition reload_one :: "env \<Rightarrow> string \<times> oxunit \<Rightarrow> sup \<times> string list \<times> string list
    \<Rightarrow> sup \<times> string list \<times> string list" where
  "reload_one env nu st =
     (case (nu, st) of ((name, u), (s, changed, skipped)) \<Rightarrow>
        let replace = (let c = (case u_kind u of Service _ \<Rightarrow> cgroups_add env name (s_cgroups s) | _ \<Rightarrow> s_cgroups s) in
              (s\<lparr>s_cgroups := c, s_instances := binsert name (inst_new u) (s_instances s)\<rparr>,
               changed @ [name], skipped)) in
        (case get_inst s name of
           None \<Rightarrow> replace
         | Some i \<Rightarrow>
             if in_unit i = u then st
             else if \<not> is_idle (in_state i) then (s, changed, skipped @ [name])
             else replace))"

definition retained :: "(string, oxunit) bmap \<Rightarrow> string \<times> inst \<Rightarrow> bool" where
  "retained units ni \<longleftrightarrow> bget units (fst ni) \<noteq> None \<or> \<not> is_idle (in_state (snd ni))"

definition reload :: "env \<Rightarrow> loaded \<Rightarrow> (unit_error list \<Rightarrow> string) \<Rightarrow> sup \<Rightarrow> sup \<times> response" where
  "reload env l texts s =
     (if l_errors l \<noteq> [] then (s, RError (texts (l_errors l)))
      else
        let (s1, changed, skipped) = fold (reload_one env) (l_units l) (s, [], []);
            gone = filter (\<lambda>(n, i). bget (l_units l) n = None \<and> \<not> is_idle (in_state i)) (s_instances s1);
            skipped' = skipped @ map fst gone;
            s2 = s1\<lparr>s_instances := filter (retained (l_units l)) (s_instances s1)\<rparr> in
        (s2, Accepted (show_nat (length changed) @ '' unit(s) reloaded'' @
           (if skipped' = [] then []
            else ''; '' @ show_nat (length skipped') @ '' left alone because they are running: ''
              @ join_with '', '' skipped'))))"

definition handle ::
    "env \<Rightarrow> loaded \<Rightarrow> (unit_error list \<Rightarrow> string) \<Rightarrow> request \<Rightarrow> sup \<Rightarrow> sup \<times> response" where
  "handle env l texts req s =
     (case req of
        RList \<Rightarrow> (s, Units (map (describe env s \<circ> snd) (s_instances s)))
      | RStatus u \<Rightarrow>
          (case get_inst s u of
             Some i \<Rightarrow> (s, Units [describe env s i])
           | None \<Rightarrow> (s, unknown_unit u))
      | RStart u \<Rightarrow>
          if get_inst s u = None then (s, unknown_unit u)
          else if shutting_down s then (s, refused ''the machine is shutting down'')
          else (sup_start env u s, Accepted (''started '' @ u))
      | RStop u \<Rightarrow>
          if get_inst s u = None then (s, unknown_unit u)
          else (sup_stop env u Requested s, Accepted (''stopping '' @ u))
      | RRestart u \<Rightarrow>
          if get_inst s u = None then (s, unknown_unit u)
          else if shutting_down s then (s, refused ''the machine is shutting down'')
          else (restart_when_stopped env u (sup_stop env u Requested s), Accepted (''restarting '' @ u))
      | RReload \<Rightarrow> reload env l texts s)"

section \<open>Loading\<close>

definition add_instance :: "env \<Rightarrow> string \<times> oxunit \<Rightarrow> sup \<Rightarrow> sup" where
  "add_instance env nu s =
     (case nu of (name, u) \<Rightarrow>
        s\<lparr>s_cgroups := (case u_kind u of Service _ \<Rightarrow> cgroups_add env name (s_cgroups s) | _ \<Rightarrow> s_cgroups s),
          s_instances := binsert name (inst_new u) (s_instances s)\<rparr>)"

definition bind_unit :: "env \<Rightarrow> units \<Rightarrow> string \<Rightarrow> sup \<Rightarrow> sup" where
  "bind_unit env us name s =
     (case Option.bind (bget us name) unit_socket of
        None \<Rightarrow> s | Some sk \<Rightarrow> s\<lparr>s_sockets := sockets_bind env name sk (s_sockets s)\<rparr>)"

definition sup_load :: "env \<Rightarrow> loaded \<Rightarrow> string \<Rightarrow> unit_source \<Rightarrow> timers \<Rightarrow> cgroups \<Rightarrow> sup" where
  "sup_load env l hostname src ts cg =
     (let order = (case resolve (l_units l) of Some (Inr p) \<Rightarrow> p_order p | _ \<Rightarrow> []);
          blank = \<lparr>s_instances = [], s_hostname = hostname, s_source = src,
             s_order = (if l_units l = [] then [] else order), s_timers = ts, s_cgroups = cg,
             s_sockets = [], s_pending = [], s_pending_restart = [], s_next_elapse = [],
             s_shutdown = None, s_trace = []\<rparr> in
      if l_units l = [] then blank
      else fold (bind_unit env (l_units l)) order (fold (add_instance env) (l_units l) blank))"

definition source_load ::
    "(string \<Rightarrow> string + raw_file) \<Rightarrow> file_system \<Rightarrow> unit_source \<Rightarrow> string \<Rightarrow> loaded" where
  "source_load toml fs src hostname = load_dirs_in toml fs (us_dirs src) hostname (us_scope src)"

definition knows :: "sup \<Rightarrow> string \<Rightarrow> bool" where
  "knows s name \<longleftrightarrow> get_inst s name \<noteq> None"

definition has_reached :: "sup \<Rightarrow> string \<Rightarrow> bool" where
  "has_reached s name = (case get_inst s name of None \<Rightarrow> False | Some i \<Rightarrow> in_reached i)"

end
