(* ===== verification/SupervisorSamples.thy ===== *)
theory SupervisorSamples
  imports Supervisor
begin

text \<open>
  A small machine for the concrete instances of the supervisor's theorems: one service \<open>s\<close>,
  a kernel that grants everything and forks process 7.
\<close>

definition sample_env :: env where
  "sample_env = \<lparr>e_now = 10, e_unix = 0, e_settime = True, e_wall_stepped = False, e_user = (\<lambda>_. True),
     e_procs = (\<lambda>_. True), e_dup = (\<lambda>_. True), e_fork = (\<lambda>_. Some 7), e_apply = (\<lambda>_. True),
     e_log_pipe = (\<lambda>_. True), e_dev_null = True, e_populated = (\<lambda>_. False), e_events = (\<lambda>_. Some False),
     e_pids = (\<lambda>_. []), e_left = (\<lambda>_ _. True), e_term = (\<lambda>_. True), e_cgroup_kill = (\<lambda>_. True),
     e_cgroup_add = (\<lambda>_. True), e_epoll = (\<lambda>_. True), e_bind = (\<lambda>_ _. True), e_memory = (\<lambda>_. None),
     e_tasks = (\<lambda>_. None)\<rparr>"

definition sample_unit :: "service_type \<Rightarrow> restart \<Rightarrow> oxunit" where
  "sample_unit ty rs = \<lparr>u_name = ''s'', u_description = ''s'',
     u_deps = \<lparr>requires = [], wants = [], after = [], before = [], conflicts = []\<rparr>,
     u_kind = Service \<lparr>sv_ty = ty, sv_exec = [''/bin/s''], sv_restart = rs,
       sv_restart_sec = from_secs 1, sv_start_sec = from_secs 90, sv_stop_sec = from_secs 30,
       sv_watchdog_sec = None, sv_user = ''root'', sv_tty = False, sv_output = Console,
       sv_resources = resources_default\<rparr>\<rparr>"

definition sample_loaded :: "service_type \<Rightarrow> restart \<Rightarrow> loaded" where
  "sample_loaded ty rs = \<lparr>l_units = [(''s'', sample_unit ty rs)], l_errors = []\<rparr>"

definition sample_source :: unit_source where
  "sample_source = \<lparr>us_dirs = [], us_scope = SystemScope, us_notify = ''/run/n''\<rparr>"

definition sample_sup :: "inst \<Rightarrow> sup" where
  "sample_sup i = \<lparr>s_instances = [(''s'', i)], s_hostname = ''h'', s_source = sample_source,
     s_order = [''s''], s_timers = timers_new, s_cgroups = \<lparr>cg_hierarchy = False, cg_handles = []\<rparr>,
     s_sockets = [], s_pending = [], s_pending_restart = [], s_next_elapse = [], s_shutdown = None,
     s_trace = []\<rparr>"

definition sample_empty :: sup where
  "sample_empty = sup_load sample_env \<lparr>l_units = [], l_errors = []\<rparr> ''h'' sample_source timers_new
     \<lparr>cg_hierarchy = False, cg_handles = []\<rparr>"

definition sample_running :: "service_type \<Rightarrow> restart \<Rightarrow> inst" where
  "sample_running ty rs = entered_active 5 (entered_activating 7 (inst_new (sample_unit ty rs)))"

lemma sample_empty_eq: "sample_empty = (sample_sup i)\<lparr>s_instances := [], s_order := []\<rparr>"
  by (simp add: sample_empty_def sample_sup_def sup_load_def Let_def)

lemma sample_reloaded:
  "fst (handle sample_env (sample_loaded ty rs) texts RReload sample_empty)
     = (sample_sup (inst_new (sample_unit ty rs)))\<lparr>s_order := []\<rparr>"
  by (simp add: sample_empty_eq [of "inst_new (sample_unit ty rs)"] handle_def reload_def reload_one_def
      sample_loaded_def sample_sup_def get_inst_def cgroups_add_def sample_unit_def retained_def Let_def)

text \<open>Starting the service when it is started already, or not.\<close>

lemma sample_start:
  assumes "in_unit i = sample_unit ty rs" and "ty \<noteq> Notify"
  shows "sup_start sample_env ''s'' ((sample_sup i)\<lparr>s_order := ord'\<rparr>) =
     (if ty = Simple
      then (sample_sup (entered_active 10 (entered_activating 7 i)))\<lparr>s_order := ord', s_trace := [Spawned ''s'' 7]\<rparr>
      else sched sample_env (from_secs 90) (StartTimeout ''s'')
        ((sample_sup (entered_activating 7 i))\<lparr>s_order := ord', s_trace := [Spawned ''s'' 7]\<rparr>))"
  using assms
  by (simp add: sup_start_def shutting_down_def sample_sup_def conflicting_with_def get_inst_def start_unit_def
      start_service_def sample_unit_def apply_resources_def output_ok_def spawn_def unit_service_def
      sample_source_def has_cgroup_def for_service_def service_env_def has_nul_def sample_env_def
      Let_def upd_inst_def bupdate_def emit_def)

end
