(* ===== verification/SupervisorSafety.thy ===== *)
theory SupervisorSafety
  imports SupervisorSamples
begin

text \<open>
  The supervisor against every event, in any order.  A shutdown is final: once it has begun
  nothing is spawned and every unit is inactive, failed or on its way down, whatever happens.
  And nothing waits without a deadline: a unit that is activating, deactivating or waiting
  to restart has an alarm that will move it on.
\<close>

section \<open>Events\<close>

datatype event =
    EvSigchld "(nat \<times> int option \<times> int option) list"
  | EvCgroup nat
  | EvTimer
  | EvWallTimer
  | EvNotify "message list"
  | EvSocket nat
  | EvRequest loaded request
  | EvShutdown action
  | EvPump
  | EvSync

definition handle_event :: "env \<Rightarrow> event \<Rightarrow> sup \<Rightarrow> sup" where
  "handle_event env ev s =
     (case ev of
        EvSigchld reaped \<Rightarrow> on_sigchld env reaped s
      | EvCgroup ident \<Rightarrow> on_cgroup env ident s
      | EvTimer \<Rightarrow> on_timer env s
      | EvWallTimer \<Rightarrow> on_wall_timer env s
      | EvNotify ms \<Rightarrow> on_notify env ms s
      | EvSocket ident \<Rightarrow> on_socket env ident s
      | EvRequest l r \<Rightarrow> fst (handle env l (\<lambda>_. []) r s)
      | EvShutdown a \<Rightarrow> begin_shutdown env a s
      | EvPump \<Rightarrow> pump env s
      | EvSync \<Rightarrow> sync_sockets env s)"

definition run_events :: "(env \<times> event) list \<Rightarrow> sup \<Rightarrow> sup" where
  "run_events evs s = fold (\<lambda>(env, ev). handle_event env ev) evs s"

text \<open>What any property of the state needs to survive a run.\<close>

locale event_system =
  fixes handler :: "'e \<Rightarrow> 'v \<Rightarrow> 's \<Rightarrow> 's"
    and allowed :: "'e \<Rightarrow> bool"
    and inv :: "'s \<Rightarrow> bool"
  assumes preserved: "allowed e \<Longrightarrow> inv s \<Longrightarrow> inv (handler e v s)"
begin

lemma run_inv: "list_all (\<lambda>(e, v). allowed e) evs \<Longrightarrow> inv s \<Longrightarrow> inv (fold (\<lambda>(e, v). handler e v) evs s)"
  by (induction evs arbitrary: s) (auto simp: preserved)

end

section \<open>What each operation leaves alone\<close>

definition alarms :: "sup \<Rightarrow> alarm set" where
  "alarms s = pending_alarms (s_timers s)"

definition spawns :: "sup \<Rightarrow> effect list" where
  "spawns s = filter (\<lambda>e. case e of Spawned _ _ \<Rightarrow> True | _ \<Rightarrow> False) (s_trace s)"

lemma get_upd [simp]:
  "get_inst (upd_inst n f s) m = (if m = n then map_option f (get_inst s n) else get_inst s m)"
  by (simp add: get_inst_def upd_inst_def)

lemma upd_fields [simp]:
  "s_shutdown (upd_inst n f s) = s_shutdown s" "alarms (upd_inst n f s) = alarms s"
  "spawns (upd_inst n f s) = spawns s" "s_timers (upd_inst n f s) = s_timers s"
  "has_cgroup (upd_inst n f s) = has_cgroup s" "s_pending_restart (upd_inst n f s) = s_pending_restart s"
  by (simp_all add: upd_inst_def alarms_def spawns_def has_cgroup_def fun_eq_iff)

lemma sched_fields [simp]:
  "get_inst (sched env d a s) = get_inst s" "s_shutdown (sched env d a s) = s_shutdown s"
  "alarms (sched env d a s) = insert a (alarms s)" "spawns (sched env d a s) = spawns s"
  "s_pending_restart (sched env d a s) = s_pending_restart s"
  by (simp_all add: sched_def alarms_def spawns_def get_inst_def fun_eq_iff)

lemma emit_fields [simp]:
  "get_inst (emit es s) = get_inst s" "s_shutdown (emit es s) = s_shutdown s" "alarms (emit es s) = alarms s"
  by (simp_all add: emit_def get_inst_def alarms_def fun_eq_iff)

lemma spawns_emit [simp]:
  "spawns (emit (map (Terminated n) ps) s) = spawns s" "spawns (emit [Terminated n p] s) = spawns s"
  "spawns (emit [CgroupKilled n] s) = spawns s" "spawns (emit [Killed n p] s) = spawns s"
  "spawns (emit [] s) = spawns s"
  by (auto simp: emit_def spawns_def filter_empty_conv)

lemma signal_fields [simp]:
  "get_inst (signal_unit env n c s) = get_inst s" "s_shutdown (signal_unit env n c s) = s_shutdown s"
  "alarms (signal_unit env n c s) = alarms s" "spawns (signal_unit env n c s) = spawns s"
  by (auto simp: signal_unit_def Let_def split: option.splits)

lemma pending_field_fields [simp]:
  "get_inst (s\<lparr>s_pending := p\<rparr>) = get_inst s" "s_shutdown (s\<lparr>s_pending := p\<rparr>) = s_shutdown s"
  "alarms (s\<lparr>s_pending := p\<rparr>) = alarms s" "spawns (s\<lparr>s_pending := p\<rparr>) = spawns s"
  by (simp_all add: get_inst_def alarms_def spawns_def fun_eq_iff)

lemma pending_restart_field_fields [simp]:
  "get_inst (s\<lparr>s_pending_restart := q\<rparr>) = get_inst s" "s_shutdown (s\<lparr>s_pending_restart := q\<rparr>) = s_shutdown s"
  "alarms (s\<lparr>s_pending_restart := q\<rparr>) = alarms s" "spawns (s\<lparr>s_pending_restart := q\<rparr>) = spawns s"
  by (simp_all add: get_inst_def alarms_def spawns_def fun_eq_iff)

lemma dequeue_fields [simp]:
  "get_inst (dequeue n s) = get_inst s" "s_shutdown (dequeue n s) = s_shutdown s"
  "alarms (dequeue n s) = alarms s" "spawns (dequeue n s) = spawns s"
  by (simp_all add: dequeue_def)

lemma arm_fields [simp]:
  "get_inst (sup_arm env n nx s) = get_inst s" "s_shutdown (sup_arm env n nx s) = s_shutdown s"
  "spawns (sup_arm env n nx s) = spawns s"
  by (auto simp: sup_arm_def get_inst_def spawns_def fun_eq_iff split: option.splits prod.splits)

lemma arm_alarms: "alarms s \<subseteq> alarms (sup_arm env n nx s)"
proof (cases nx)
  case (Some f)
  show ?thesis
  proof (cases f)
    case (After d)
    have "pending_alarms (s_timers s) \<subseteq>
        pending_alarms (fst (timer_schedule (e_settime env) (e_now env) d (TimerElapsed n) (s_timers s)))"
      by auto
    then show ?thesis using Some After by (simp add: sup_arm_def alarms_def split_beta)
  next
    case (AtWall a)
    then show ?thesis using Some by (simp add: sup_arm_def alarms_def split_beta)
  qed
qed (simp add: sup_arm_def alarms_def)

section \<open>Stopping a unit\<close>

lemma stop_shutdown [simp]: "s_shutdown (sup_stop env n c s) = s_shutdown s"
  by (auto simp: sup_stop_def Let_def split: option.splits)

lemma stop_spawns [simp]: "spawns (sup_stop env n c s) = spawns s"
  by (auto simp: sup_stop_def Let_def split: option.splits)

lemma stop_other [simp]: "m \<noteq> n \<Longrightarrow> get_inst (sup_stop env n c s) m = get_inst s m"
  by (auto simp: sup_stop_def Let_def split: option.splits)

lemma stop_alarms: "alarms s \<subseteq> alarms (sup_stop env n c s)"
  by (auto simp: sup_stop_def Let_def split: option.splits)

text \<open>What the unit itself becomes.\<close>

definition stopped_inst :: "env \<Rightarrow> stop_cause \<Rightarrow> inst \<Rightarrow> inst" where
  "stopped_inst env cause i =
     (if in_state i = Restarting then cancel_restart i
      else if unit_service (in_unit i) = None
        then fst (deactivated (e_now env) (entered_deactivating cause i))
      else if in_state i = Inactive \<or> in_state i = Failed \<or> in_state i = Deactivating then i
      else entered_deactivating cause i)"

lemma stop_self: "get_inst (sup_stop env n c s) n = map_option (stopped_inst env c) (get_inst s n)"
  by (auto simp: sup_stop_def stopped_inst_def Let_def split: option.splits)

lemma stop_arms:
  assumes "get_inst s n = Some i" and "unit_service (in_unit i) \<noteq> None"
    and "in_state i = Active \<or> in_state i = Activating"
  shows "StopTimeout n \<in> alarms (sup_stop env n c s)"
  using assms by (auto simp: sup_stop_def Let_def)

lemma restart_policy_None: "unit_service (in_unit i) = None \<Longrightarrow> restart_policy i = NoRestart"
  by (simp add: restart_policy_def)

lemma nonservice_deactivated:
  assumes "unit_service (in_unit i) = None"
  shows "is_idle (in_state (fst (deactivated now (entered_deactivating c i))))"
  using assms
  by (cases c) (auto simp: deactivated_def entered_deactivating_def Let_def schedule_restart_state
      restart_policy_def is_idle_def)

definition down_state :: "state \<Rightarrow> bool" where
  "down_state st \<longleftrightarrow> st = Inactive \<or> st = Failed \<or> st = Deactivating"

lemma stopped_down: "down_state (in_state (stopped_inst env c i))"
proof (cases "in_state i = Restarting \<or> unit_service (in_unit i) \<noteq> None")
  case True
  then show ?thesis
    by (auto simp: stopped_inst_def down_state_def cancel_restart_def entered_deactivating_def)
next
  case False
  then show ?thesis
    using nonservice_deactivated [of i "e_now env" c] by (auto simp: stopped_inst_def down_state_def is_idle_def)
qed

section \<open>Nothing starts once a shutdown has begun\<close>

lemma start_shutting_down [simp]: "shutting_down s \<Longrightarrow> sup_start env n s = s"
  by (simp add: sup_start_def)

lemma stop_conflicting_fields [simp]:
  "s_shutdown (stop_conflicting env n s) = s_shutdown s" "spawns (stop_conflicting env n s) = spawns s"
  by (auto simp: stop_conflicting_def split: option.splits)

lemma fold_stop_conflicting_fields [simp]:
  "s_shutdown (fold (stop_conflicting env) ns s) = s_shutdown s"
  "spawns (fold (stop_conflicting env) ns s) = spawns s"
  by (induction ns arbitrary: s) simp_all

lemma start_service_shutdown [simp]: "s_shutdown (start_service env n u sv s) = s_shutdown s"
  by (auto simp: start_service_def Let_def split: sum.splits)

lemma start_unit_shutdown [simp]: "s_shutdown (start_unit env n s) = s_shutdown s"
  by (auto simp: start_unit_def split: option.splits kind.splits)

lemma start_shutdown [simp]: "s_shutdown (sup_start env n s) = s_shutdown s"
  by (simp add: sup_start_def)

lemma shutting_down_cong: "s_shutdown t = s_shutdown s \<Longrightarrow> shutting_down t = shutting_down s"
  by (simp add: shutting_down_def)

lemma asked_shutdown [simp]: "s_shutdown (start_if_asked env n s) = s_shutdown s"
  by (simp add: start_if_asked_def)

lemma finish_shutdown [simp]: "s_shutdown (finish_deactivation env n s) = s_shutdown s"
  by (auto simp: finish_deactivation_def Let_def split: option.splits prod.splits)

lemma forking_shutdown [simp]: "s_shutdown (forking_parent_exited env n ex s) = s_shutdown s"
  by (simp add: forking_parent_exited_def)

lemma sigchld_shutdown [simp]: "s_shutdown (sigchld_one env r s) = s_shutdown s"
  by (auto simp: sigchld_one_def Let_def split: option.splits prod.splits)

lemma vanished_shutdown [simp]: "s_shutdown (unit_vanished env n s) = s_shutdown s"
  by (auto simp: unit_vanished_def Let_def split: option.splits prod.splits)

lemma on_cgroup_shutdown [simp]: "s_shutdown (on_cgroup env ident s) = s_shutdown s"
  by (auto simp: on_cgroup_def split: option.splits)

lemma notify_shutdown [simp]: "s_shutdown (notify_one env m s) = s_shutdown s"
  by (auto simp: notify_one_def arm_watchdog_def Let_def split: option.splits)

lemma stop_deadline_shutdown [simp]: "s_shutdown (stop_deadline env n s) = s_shutdown s"
  by (auto simp: stop_deadline_def Let_def split: option.splits)

lemma start_timed_out_shutdown [simp]: "s_shutdown (start_timed_out env n s) = s_shutdown s"
  by (auto simp: start_timed_out_def split: option.splits)

lemma check_watchdog_shutdown [simp]: "s_shutdown (check_watchdog env n s) = s_shutdown s"
  by (auto simp: check_watchdog_def arm_watchdog_def split: option.splits)

lemma timer_elapsed_shutdown [simp]: "s_shutdown (timer_elapsed env n s) = s_shutdown s"
  by (auto simp: timer_elapsed_def Let_def split: option.splits)

lemma dispatch_shutdown [simp]: "s_shutdown (dispatch env a s) = s_shutdown s"
  by (auto simp: dispatch_def split: alarm.splits option.splits)

lemma timers_field_fields [simp]:
  "get_inst (s\<lparr>s_timers := t\<rparr>) = get_inst s" "s_shutdown (s\<lparr>s_timers := t\<rparr>) = s_shutdown s"
  "spawns (s\<lparr>s_timers := t\<rparr>) = spawns s" "alarms (s\<lparr>s_timers := t\<rparr>) = pending_alarms t"
  by (simp_all add: get_inst_def spawns_def alarms_def fun_eq_iff)

lemma start_spawns_down [simp]: "shutting_down s \<Longrightarrow> spawns (sup_start env n s) = spawns s"
  by simp

text \<open>Each handler, during a shutdown, leaves the processes started as they are.\<close>

lemma asked_frame:
  assumes "shutting_down s"
  shows "spawns (start_if_asked env n s) = spawns s" "get_inst (start_if_asked env n s) = get_inst s"
    "alarms (start_if_asked env n s) = alarms s"
proof -
  have "shutting_down (s\<lparr>s_pending_restart := q\<rparr>)" for q using assms by (simp add: shutting_down_def)
  then show "spawns (start_if_asked env n s) = spawns s" "get_inst (start_if_asked env n s) = get_inst s"
    "alarms (start_if_asked env n s) = alarms s"
    by (simp_all add: start_if_asked_def)
qed

lemma shutting_down_upd [simp]: "shutting_down (upd_inst n f s) = shutting_down s"
  by (simp add: shutting_down_def)

lemma shutting_down_sched [simp]: "shutting_down (sched env d a s) = shutting_down s"
  by (simp add: shutting_down_def)

lemma finish_spawns: "shutting_down s \<Longrightarrow> spawns (finish_deactivation env n s) = spawns s"
  by (auto simp: finish_deactivation_def asked_frame split: option.splits prod.splits)

lemma forking_spawns [simp]: "spawns (forking_parent_exited env n ex s) = spawns s"
  by (simp add: forking_parent_exited_def)

lemma sigchld_spawns:
  assumes "shutting_down s" shows "spawns (sigchld_one env r s) = spawns s"
proof -
  have "spawns (finish_deactivation env n (upd_inst n (\<lambda>_. j) s)) = spawns s" for n j
    using finish_spawns [of "upd_inst n (\<lambda>_. j) s"] assms by (simp add: shutting_down_def)
  then show ?thesis
    by (auto simp: sigchld_one_def Let_def split: option.splits prod.splits)
qed

lemma vanished_spawns [simp]: "spawns (unit_vanished env n s) = spawns s"
  by (auto simp: unit_vanished_def Let_def split: option.splits prod.splits)

lemma on_cgroup_spawns: "shutting_down s \<Longrightarrow> spawns (on_cgroup env ident s) = spawns s"
  by (auto simp: on_cgroup_def finish_spawns split: option.splits)

lemma notify_spawns [simp]: "spawns (notify_one env m s) = spawns s"
  by (auto simp: notify_one_def arm_watchdog_def Let_def split: option.splits)

lemma stop_deadline_spawns [simp]: "spawns (stop_deadline env n s) = spawns s"
  by (auto simp: stop_deadline_def Let_def split: option.splits)

lemma timer_elapsed_spawns: "shutting_down s \<Longrightarrow> spawns (timer_elapsed env n s) = spawns s"
  by (auto simp: timer_elapsed_def split: option.splits)

lemma dispatch_spawns: "shutting_down s \<Longrightarrow> spawns (dispatch env a s) = spawns s"
  by (auto simp: dispatch_def timer_elapsed_spawns check_watchdog_def arm_watchdog_def
      start_timed_out_def split: alarm.splits option.splits)

lemma fold_spawns:
  assumes "\<And>x s. shutting_down s \<Longrightarrow> spawns (f x s) = spawns s" and "\<And>x s. s_shutdown (f x s) = s_shutdown s"
  shows "shutting_down s \<Longrightarrow> spawns (fold f xs s) = spawns s \<and> s_shutdown (fold f xs s) = s_shutdown s"
proof (induction xs arbitrary: s)
  case (Cons x xs)
  have "shutting_down (f x s)" using Cons.prems assms(2) by (simp add: shutting_down_def)
  from Cons.IH [OF this] show ?case using assms Cons.prems by simp
qed simp

lemma on_timer_frame:
  assumes "shutting_down s"
  shows "spawns (on_timer env s) = spawns s \<and> s_shutdown (on_timer env s) = s_shutdown s"
proof -
  have "shutting_down (s\<lparr>s_timers := t\<rparr>)" for t using assms by (simp add: shutting_down_def)
  then show ?thesis
    using fold_spawns [of "dispatch env", OF dispatch_spawns dispatch_shutdown]
    by (auto simp: on_timer_def split: prod.splits option.splits)
qed

lemma on_wall_timer_frame:
  assumes "shutting_down s"
  shows "spawns (on_wall_timer env s) = spawns s \<and> s_shutdown (on_wall_timer env s) = s_shutdown s"
proof -
  let ?f = "\<lambda>a s. case a of TimerElapsed u \<Rightarrow> timer_elapsed env u s | _ \<Rightarrow> s"
  have "shutting_down (s\<lparr>s_timers := t\<rparr>)" for t using assms by (simp add: shutting_down_def)
  moreover have "shutting_down s \<Longrightarrow> spawns (?f a s) = spawns s" and "s_shutdown (?f a s) = s_shutdown s" for a s
    by (auto simp: timer_elapsed_spawns split: alarm.splits)
  ultimately show ?thesis
    using fold_spawns [of ?f] by (auto simp: on_wall_timer_def split: prod.splits option.splits)
qed

lemma reload_one_frame:
  "s_shutdown (fst (reload_one env nu st)) = s_shutdown (fst st)"
  "spawns (fst (reload_one env nu st)) = spawns (fst st)"
  "alarms (fst (reload_one env nu st)) = alarms (fst st)"
  by (auto simp: reload_one_def Let_def spawns_def alarms_def split: prod.splits option.splits)

lemma fold_reload_frame:
  "s_shutdown (fst (fold (reload_one env) us st)) = s_shutdown (fst st)"
  "spawns (fst (fold (reload_one env) us st)) = spawns (fst st)"
  "alarms (fst (fold (reload_one env) us st)) = alarms (fst st)"
  by (induction us arbitrary: st) (simp_all add: reload_one_frame)

lemma reload_state:
  "fst (reload env l texts s) =
     (if l_errors l \<noteq> [] then s
      else let s1 = fst (fold (reload_one env) (l_units l) (s, [], [])) in
           s1\<lparr>s_instances := filter (retained (l_units l)) (s_instances s1)\<rparr>)"
  by (auto simp: reload_def Let_def split: prod.splits)

lemma instances_field_frame [simp]:
  "s_shutdown (s\<lparr>s_instances := i\<rparr>) = s_shutdown s" "spawns (s\<lparr>s_instances := i\<rparr>) = spawns s"
  "alarms (s\<lparr>s_instances := i\<rparr>) = alarms s"
  by (simp_all add: spawns_def alarms_def)

lemma reload_frame [simp]:
  "s_shutdown (fst (reload env l texts s)) = s_shutdown s" "spawns (fst (reload env l texts s)) = spawns s"
  "alarms (fst (reload env l texts s)) = alarms s"
  by (simp_all add: reload_state Let_def fold_reload_frame)

lemma handle_frame:
  assumes "shutting_down s"
  shows "spawns (fst (handle env l texts r s)) = spawns s \<and> s_shutdown (fst (handle env l texts r s)) = s_shutdown s"
  using assms by (cases r) (auto simp: handle_def split: option.splits)

lemma handle_event_frame:
  assumes "shutting_down s"
  shows "spawns (handle_event env ev s) = spawns s \<and> s_shutdown (handle_event env ev s) = s_shutdown s"
proof (cases ev)
  case (EvSigchld reaped)
  then show ?thesis
    using fold_spawns [of "sigchld_one env", OF sigchld_spawns sigchld_shutdown] assms
    by (simp add: handle_event_def on_sigchld_def)
next
  case (EvCgroup ident)
  then show ?thesis using assms by (simp add: handle_event_def on_cgroup_spawns)
next
  case EvTimer
  then show ?thesis using on_timer_frame [OF assms] by (simp add: handle_event_def)
next
  case EvWallTimer
  then show ?thesis using on_wall_timer_frame [OF assms] by (simp add: handle_event_def)
next
  case (EvNotify ms)
  then show ?thesis
    using fold_spawns [of "notify_one env" s ms] assms by (simp add: handle_event_def on_notify_def)
next
  case (EvSocket ident)
  then show ?thesis using assms by (auto simp: handle_event_def on_socket_def Let_def split: option.splits)
next
  case (EvRequest l r)
  then show ?thesis using handle_frame [OF assms] by (simp add: handle_event_def)
next
  case (EvShutdown a)
  then show ?thesis using assms by (simp add: handle_event_def begin_shutdown_def shutting_down_def)
next
  case EvPump
  then show ?thesis using assms by (simp add: handle_event_def pump_def)
next
  case EvSync
  then show ?thesis by (simp add: handle_event_def sync_sockets_def spawns_def)
qed

lemma run_events_frame:
  "shutting_down s \<Longrightarrow> spawns (run_events evs s) = spawns s \<and> s_shutdown (run_events evs s) = s_shutdown s"
proof (induction evs arbitrary: s)
  case Nil
  then show ?case by (simp add: run_events_def)
next
  case (Cons e evs)
  obtain env ev where e: "e = (env, ev)" by (cases e)
  have "shutting_down (handle_event env ev s)"
    using handle_event_frame [OF Cons.prems] Cons.prems by (simp add: shutting_down_def)
  from Cons.IH [OF this] show ?case
    using handle_event_frame [OF Cons.prems, of env ev] by (simp add: run_events_def e)
qed

section \<open>During a shutdown every unit is down or on its way\<close>

definition down_all :: "sup \<Rightarrow> bool" where
  "down_all s \<longleftrightarrow> (\<forall>n i. get_inst s n = Some i \<longrightarrow> down_state (in_state i))"

definition winding_down :: "sup \<Rightarrow> bool" where
  "winding_down s \<longleftrightarrow> shutting_down s \<and> down_all s"

lemma down_allD: "down_all s \<Longrightarrow> get_inst s n = Some i \<Longrightarrow> down_state (in_state i)"
  by (simp add: down_all_def)

lemma down_all_cong: "get_inst t = get_inst s \<Longrightarrow> down_all t = down_all s"
  by (simp add: down_all_def)

lemma down_all_upd:
  assumes "down_all s" and "\<And>i. get_inst s n = Some i \<Longrightarrow> down_state (in_state (f i))"
  shows "down_all (upd_inst n f s)"
  using assms by (auto simp: down_all_def split: if_splits)

lemma down_all_stop: "down_all s \<Longrightarrow> down_all (sup_stop env n c s)"
  unfolding down_all_def by (metis stop_other stop_self stopped_down map_option_eq_Some)

lemma down_not [simp]:
  "\<not> down_state Activating" "\<not> down_state Active" "\<not> down_state Restarting"
  by (simp_all add: down_state_def)

lemma deactivated_down:
  "down_state (in_state (if snd (deactivated now i) = None then fst (deactivated now i)
     else cancel_restart (fst (deactivated now i))))"
  by (auto simp: deactivated_def Let_def cancel_restart_def down_state_def schedule_restart_state
      schedule_restart_delay split: option.splits stop_cause.splits)

lemma on_exit_down:
  assumes "down_state (in_state i)"
  shows "down_state (in_state (if snd (on_exit now ex i) = None then fst (on_exit now ex i)
     else cancel_restart (fst (on_exit now ex i))))"
  by (cases "in_state i = Deactivating"; cases "should_restart (restart_policy i) ex")
    (auto simp: exit_cases cancel_restart_def down_state_def)

lemma winding_finish:
  assumes "winding_down s" shows "down_all (finish_deactivation env n s)"
proof (cases "get_inst s n")
  case None
  then show ?thesis using assms by (simp add: finish_deactivation_def winding_down_def)
next
  case (Some i)
  have sd: "shutting_down s" and da: "down_all s" using assms by (simp_all add: winding_down_def)
  obtain j d where j: "deactivated (e_now env) i = (j, d)" by (cases "deactivated (e_now env) i")
  have "down_state (in_state (if d = None then j else cancel_restart j))"
    using deactivated_down [of "e_now env" i] by (simp only: j fst_conv snd_conv)
  then have "down_all (upd_inst n (\<lambda>_. if d = None then j else cancel_restart j) s)"
    using da by (intro down_all_upd)
  then have r: "down_all (start_if_asked env n (upd_inst n (\<lambda>_. if d = None then j else cancel_restart j) s))"
    using down_all_cong [OF asked_frame(2)] sd by simp
  show ?thesis
  proof (cases "in_state i = Deactivating")
    case True
    then show ?thesis using Some j r sd by (cases d) (simp_all add: finish_deactivation_def)
  next
    case False
    then show ?thesis using Some da by (simp add: finish_deactivation_def)
  qed
qed

lemma winding_sigchld:
  assumes "winding_down s" shows "down_all (sigchld_one env r s)"
proof -
  have sd: "shutting_down s" and da: "down_all s" using assms by (simp_all add: winding_down_def)
  obtain pid code signal where r: "r = (pid, code, signal)" by (cases r)
  let ?ex = "from_status code signal"
  show ?thesis
  proof (cases "Option.bind (unit_for_pid s pid) (\<lambda>n. map_option (Pair n) (get_inst s n))")
    case None
    then show ?thesis using da by (auto simp: sigchld_one_def r Let_def split: option.splits)
  next
    case (Some ni)
    then obtain n i where n: "unit_for_pid s pid = Some n" "get_inst s n = Some i"
      by (auto simp: bind_eq_Some_conv)
    have st: "down_state (in_state i)" using da n(2) by (rule down_allD)
    then have nact: "in_state i \<noteq> Activating" by auto
    obtain j d where j: "on_exit (e_now env) ?ex i = (j, d)" by (cases "on_exit (e_now env) ?ex i")
    have down: "down_state (in_state (if d = None then j else cancel_restart j))"
      using on_exit_down [OF st, of "e_now env" ?ex] by (simp only: j fst_conv snd_conv)
    show ?thesis
    proof (cases d)
      case None
      then have du: "down_all (upd_inst n (\<lambda>_. j) s)" using down da by (intro down_all_upd) simp_all
      then have "winding_down (upd_inst n (\<lambda>_. j) s)" using sd by (simp add: winding_down_def)
      then show ?thesis
        using n j nact None du winding_finish by (simp add: sigchld_one_def r Let_def)
    next
      case (Some d')
      have "upd_inst n cancel_restart (upd_inst n (\<lambda>_. j) s) = upd_inst n (\<lambda>_. cancel_restart j) s"
        by (simp add: upd_inst_def bupdate_def comp_def split_beta cong: if_cong)
      moreover have "down_all (upd_inst n (\<lambda>_. cancel_restart j) s)"
        using down Some da by (intro down_all_upd) simp_all
      ultimately show ?thesis using n j nact Some sd by (simp add: sigchld_one_def r Let_def)
    qed
  qed
qed

lemma winding_on_cgroup:
  assumes "winding_down s" shows "down_all (on_cgroup env ident s)"
proof -
  have da: "down_all s" using assms by (simp add: winding_down_def)
  then have "get_inst s n = Some i \<Longrightarrow> in_state i \<noteq> Active" for n i using down_allD by fastforce
  then show ?thesis
    using da winding_finish [OF assms] by (auto simp: on_cgroup_def split: option.splits)
qed

lemma winding_notify:
  assumes "winding_down s" shows "down_all (notify_one env m s)"
proof -
  have da: "down_all s" using assms by (simp add: winding_down_def)
  let ?i1 = "\<lambda>i. case m_status m of None \<Rightarrow> i | Some st \<Rightarrow> i\<lparr>in_status := Some st\<rparr>"
  let ?i2 = "\<lambda>i. if m_watchdog m then pinged (e_now env) (?i1 i) else ?i1 i"
  have st: "in_state (?i2 i) = in_state i" for i by (simp add: pinged_def split: option.splits)
  show ?thesis
  proof (cases "Option.bind (unit_for_pid s (m_pid m)) (\<lambda>n. map_option (Pair n) (get_inst s n))")
    case None
    then show ?thesis using da by (auto simp: notify_one_def Let_def split: option.splits)
  next
    case (Some ni)
    then obtain n i where n: "unit_for_pid s (m_pid m) = Some n" "get_inst s n = Some i"
      by (auto simp: bind_eq_Some_conv)
    have d: "down_state (in_state (?i2 i))" using down_allD [OF da n(2)] st by simp
    then have "in_state (?i2 i) \<noteq> Activating" by auto
    then have "notify_one env m s = upd_inst n (\<lambda>_. ?i2 i) s"
      using n unfolding notify_one_def Let_def by simp
    then show ?thesis using da d by (simp add: down_all_upd)
  qed
qed

lemma winding_stop_deadline: "down_all s \<Longrightarrow> down_all (stop_deadline env n s)"
proof -
  assume da: "down_all s"
  have "down_all (upd_inst n stop_timed_out s)"
    by (rule down_all_upd [OF da]) (use da in \<open>auto simp: stop_timed_out_def down_all_def\<close>)
  moreover have "get_inst (stop_deadline env n s) = get_inst s \<or>
      get_inst (stop_deadline env n s) = get_inst (upd_inst n stop_timed_out s)"
    by (auto simp: stop_deadline_def Let_def split: option.splits)
  ultimately show ?thesis using da down_all_cong by metis
qed

lemma winding_dispatch:
  assumes "winding_down s" shows "down_all (dispatch env a s)"
proof -
  have sd: "shutting_down s" and da: "down_all s" using assms by (simp_all add: winding_down_def)
  have "timer_elapsed env n s = s" for n
    using sd by (auto simp: timer_elapsed_def split: option.splits)
  then show ?thesis
    using sd da
    by (auto simp: dispatch_def check_watchdog_def arm_watchdog_def start_timed_out_def
        winding_stop_deadline down_all_stop down_all_cong [OF sched_fields(1)]
        split: alarm.splits option.splits)
qed

lemma fold_winding:
  assumes "\<And>x s. winding_down s \<Longrightarrow> down_all (f x s)" and "\<And>x s. s_shutdown (f x s) = s_shutdown s"
  shows "winding_down s \<Longrightarrow> winding_down (fold f xs s)"
proof (induction xs arbitrary: s)
  case (Cons x xs)
  have "winding_down (f x s)"
    using Cons.prems assms by (simp add: winding_down_def shutting_down_def)
  then show ?case using Cons.IH by simp
qed simp

lemma winding_timers_field: "winding_down (s\<lparr>s_timers := t\<rparr>) = winding_down s"
  by (simp add: winding_down_def shutting_down_def down_all_def)

lemma winding_on_timer: "winding_down s \<Longrightarrow> winding_down (on_timer env s)"
  using fold_winding [of "dispatch env", OF winding_dispatch dispatch_shutdown]
  by (auto simp: on_timer_def winding_timers_field split: prod.splits option.splits)

lemma winding_on_wall_timer: "winding_down s \<Longrightarrow> winding_down (on_wall_timer env s)"
proof -
  let ?f = "\<lambda>a s. case a of TimerElapsed u \<Rightarrow> timer_elapsed env u s | _ \<Rightarrow> s"
  have "winding_down s \<Longrightarrow> down_all (?f a s)" for a s
    by (auto simp: winding_down_def timer_elapsed_def split: alarm.splits option.splits)
  moreover have "s_shutdown (?f a s) = s_shutdown s" for a s by (auto split: alarm.splits)
  ultimately show "winding_down s \<Longrightarrow> winding_down (on_wall_timer env s)"
    using fold_winding [of ?f] by (auto simp: on_wall_timer_def winding_timers_field split: prod.splits option.splits)
qed

lemma get_binsert: "get_inst (s\<lparr>s_cgroups := c, s_instances := binsert n j (s_instances s)\<rparr>) m
    = (if m = n then Some j else get_inst s m)"
  by (simp add: get_inst_def)

lemma get_reload_one:
  "get_inst (fst (reload_one env nu st)) m = get_inst (fst st) m
   \<or> (\<exists>u. get_inst (fst (reload_one env nu st)) m = Some (inst_new u))"
  by (auto simp: reload_one_def Let_def get_binsert split: prod.splits option.splits)

lemma get_fold_reload:
  "get_inst (fst (fold (reload_one env) us st)) m = get_inst (fst st) m
   \<or> (\<exists>u. get_inst (fst (fold (reload_one env) us st)) m = Some (inst_new u))"
proof (induction us arbitrary: st)
  case (Cons nu us)
  then show ?case using get_reload_one [of env nu st m] by (metis fold_simps(2))
qed simp

text \<open>The units known change only in a reload.\<close>

definition ikeys :: "sup \<Rightarrow> string list" where
  "ikeys s = bkeys (s_instances s)"

lemma ikeys_basic [simp]:
  "ikeys (upd_inst n f s) = ikeys s" "ikeys (sched env d a s) = ikeys s" "ikeys (emit es s) = ikeys s"
  "ikeys (signal_unit env n c s) = ikeys s" "ikeys (s\<lparr>s_pending := p\<rparr>) = ikeys s"
  "ikeys (s\<lparr>s_pending_restart := p\<rparr>) = ikeys s" "ikeys (dequeue n s) = ikeys s"
  "ikeys (sup_arm env n nx s) = ikeys s" "ikeys (s\<lparr>s_timers := t\<rparr>) = ikeys s"
  "ikeys (s\<lparr>s_shutdown := sd\<rparr>) = ikeys s" "ikeys (sync_sockets env s) = ikeys s"
  by (auto simp: ikeys_def upd_inst_def sched_def emit_def signal_unit_def dequeue_def sup_arm_def
      sync_sockets_def Let_def split: option.splits prod.splits)

lemma ikeys_stop [simp]: "ikeys (sup_stop env n c s) = ikeys s"
  by (auto simp: sup_stop_def Let_def split: option.splits)

lemma ikeys_stop_conflicting [simp]:
  "ikeys (stop_conflicting env n s) = ikeys s" "ikeys (fold (stop_conflicting env) ns s) = ikeys s"
proof -
  show one: "ikeys (stop_conflicting env n s) = ikeys s" for n s
    by (auto simp: stop_conflicting_def split: option.splits)
  show "ikeys (fold (stop_conflicting env) ns s) = ikeys s" by (induction ns arbitrary: s) (simp_all add: one)
qed

lemma ikeys_start [simp]: "ikeys (sup_start env n s) = ikeys s"
  by (auto simp: sup_start_def start_unit_def start_service_def Let_def
      split: option.splits kind.splits sum.splits)

lemma ikeys_finish [simp]: "ikeys (finish_deactivation env n s) = ikeys s"
  by (auto simp: finish_deactivation_def start_if_asked_def Let_def split: option.splits prod.splits)

lemma ikeys_handlers [simp]:
  "ikeys (sigchld_one env r s) = ikeys s" "ikeys (on_cgroup env ident s) = ikeys s"
  "ikeys (notify_one env m s) = ikeys s" "ikeys (timer_elapsed env n s) = ikeys s"
  "ikeys (stop_deadline env n s) = ikeys s" "ikeys (start_timed_out env n s) = ikeys s"
  "ikeys (check_watchdog env n s) = ikeys s" "ikeys (on_socket env ident s) = ikeys s"
  "ikeys (restart_when_stopped env n s) = ikeys s"
  by (auto simp: sigchld_one_def forking_parent_exited_def on_cgroup_def unit_vanished_def notify_one_def
      arm_watchdog_def timer_elapsed_def stop_deadline_def start_timed_out_def check_watchdog_def
      on_socket_def restart_when_stopped_def Let_def split: option.splits prod.splits)

lemma ikeys_dispatch [simp]: "ikeys (dispatch env a s) = ikeys s"
  by (auto simp: dispatch_def split: alarm.splits option.splits)

lemma ikeys_fold: "(\<And>x s. ikeys (f x s) = ikeys s) \<Longrightarrow> ikeys (fold f xs s) = ikeys s"
  by (induction xs arbitrary: s) simp_all

lemma ikeys_pump_loop [simp]: "ikeys (pump_loop env s) = ikeys s"
proof (induction env s rule: pump_loop.induct)
  case (1 env s)
  then show ?case by (subst pump_loop.simps) (auto split: option.splits)
qed

lemma bmap_ok_reload_one:
  "bmap_ok (s_instances (fst st)) \<Longrightarrow> bmap_ok (s_instances (fst (reload_one env nu st)))"
  by (auto simp: reload_one_def Let_def split: prod.splits option.splits)

lemma bmap_ok_fold_reload:
  "bmap_ok (s_instances (fst st)) \<Longrightarrow> bmap_ok (s_instances (fst (fold (reload_one env) us st)))"
  by (induction us arbitrary: st) (simp_all add: bmap_ok_reload_one)

definition well_keyed :: "sup \<Rightarrow> bool" where
  "well_keyed s \<longleftrightarrow> bmap_ok (s_instances s)"

lemma well_keyed_ikeys: "ikeys t = ikeys s \<Longrightarrow> well_keyed t = well_keyed s"
  by (simp add: well_keyed_def ikeys_def bmap_ok_def)

lemma reload_well_keyed: "well_keyed s \<Longrightarrow> well_keyed (fst (reload env l texts s))"
  using bmap_ok_fold_reload [of "(s, [], [])" env "l_units l"]
  by (simp add: reload_state well_keyed_def Let_def bmap_ok_filter)

lemma reload_get:
  assumes "well_keyed s" and "get_inst (fst (reload env l texts s)) m = Some i"
  shows "get_inst s m = Some i \<or> (\<exists>u. i = inst_new u)"
proof (cases "l_errors l = []")
  case True
  let ?s1 = "fst (fold (reload_one env) (l_units l) (s, [], []))"
  have "bmap_ok (s_instances ?s1)" using assms(1) bmap_ok_fold_reload by (simp add: well_keyed_def)
  then have "get_inst ?s1 m = Some i"
    using assms(2) True by (auto simp: reload_state Let_def get_inst_def bget_Some_set bmap_ok_filter)
  then show ?thesis using get_fold_reload [of env "l_units l" "(s, [], [])" m] by auto
qed (use assms in \<open>simp add: reload_state\<close>)

lemma ikeys_request: "r \<noteq> RReload \<Longrightarrow> ikeys (fst (handle env l t r s)) = ikeys s"
  by (cases r) (simp_all add: handle_def split: option.splits)

lemma ikeys_begin_shutdown [simp]: "ikeys (begin_shutdown env a s) = ikeys s"
  by (simp add: begin_shutdown_def Let_def ikeys_fold)

lemma ikeys_on_timer [simp]: "ikeys (on_timer env s) = ikeys s"
  by (simp add: on_timer_def ikeys_fold split: prod.splits option.splits)

lemma ikeys_on_wall_timer [simp]: "ikeys (on_wall_timer env s) = ikeys s"
proof -
  have "ikeys (case a of TimerElapsed u \<Rightarrow> timer_elapsed env u s | _ \<Rightarrow> s) = ikeys s" for a s
    by (cases a) simp_all
  from ikeys_fold [of "\<lambda>a s. case a of TimerElapsed u \<Rightarrow> timer_elapsed env u s | _ \<Rightarrow> s", OF this]
  show ?thesis by (simp add: on_wall_timer_def split: prod.splits option.splits)
qed

lemma ikeys_pump [simp]: "ikeys (pump env s) = ikeys s"
  by (simp add: pump_def)

lemma ikeys_batches [simp]:
  "ikeys (on_sigchld env reaped s) = ikeys s" "ikeys (on_notify env ms s) = ikeys s"
  by (simp_all add: on_sigchld_def on_notify_def ikeys_fold)

lemma ikeys_event: "(\<And>l. ev \<noteq> EvRequest l RReload) \<Longrightarrow> ikeys (handle_event env ev s) = ikeys s"
  by (cases ev) (simp_all add: handle_event_def ikeys_request)

lemma handle_event_well_keyed:
  assumes "well_keyed s" shows "well_keyed (handle_event env ev s)"
proof (cases "\<exists>l. ev = EvRequest l RReload")
  case True
  then show ?thesis using assms by (auto simp: handle_event_def handle_def reload_well_keyed)
next
  case False
  then show ?thesis using ikeys_event [of ev env s] well_keyed_ikeys assms by blast
qed

text \<open>Stopping everything, at the start of a shutdown.\<close>

lemma stop_order_fold:
  "set (fold (\<lambda>n ns. if n \<in> set ns then ns else ns @ [n]) ks acc) = set ks \<union> set acc"
  by (induction ks arbitrary: acc) auto

lemma stop_order_set: "set (stop_order s) = set (ikeys s) \<union> set (s_order s)"
  by (auto simp: stop_order_def ikeys_def stop_order_fold)

lemma stop_down_self: "get_inst (sup_stop env n c s) n = Some i \<Longrightarrow> down_state (in_state i)"
  using stopped_down by (auto simp: stop_self)

lemma fold_stop_down:
  "(\<forall>m i. get_inst s m = Some i \<longrightarrow> m \<in> set ns \<or> down_state (in_state i)) \<Longrightarrow>
   down_all (fold (\<lambda>n. sup_stop env n c) ns s)"
proof (induction ns arbitrary: s)
  case Nil
  then show ?case by (simp add: down_all_def)
next
  case (Cons n ns)
  have "m \<in> set ns \<or> down_state (in_state i)" if "get_inst (sup_stop env n c s) m = Some i" for m i
  proof (cases "m = n")
    case True
    then show ?thesis using that stop_down_self by blast
  next
    case False
    then show ?thesis using that Cons.prems by auto
  qed
  then show ?case using Cons.IH by simp
qed

lemma fold_stop_shutdown [simp]: "s_shutdown (fold (\<lambda>n. sup_stop env n c) ns s) = s_shutdown s"
  by (induction ns arbitrary: s) simp_all

lemma get_inst_ikeys: "get_inst s m = Some i \<Longrightarrow> m \<in> set (ikeys s)"
  by (force simp: get_inst_def ikeys_def dest: map_of_SomeD)

lemma begin_shutdown_winding:
  assumes "s_shutdown s = None" shows "winding_down (begin_shutdown env a s)"
proof -
  let ?s = "s\<lparr>s_shutdown := Some (shutdown_new env a)\<rparr>"
  have "set (ikeys ?s) \<subseteq> set (stop_order ?s)" by (simp add: stop_order_set)
  then have "down_all (fold (\<lambda>n. sup_stop env n Requested) (stop_order ?s) ?s)"
    using get_inst_ikeys by (intro fold_stop_down) blast
  then show ?thesis using assms by (simp add: begin_shutdown_def winding_down_def shutting_down_def Let_def)
qed

lemma down_inst_new [simp]: "down_state (in_state (inst_new u))"
  by (simp add: inst_new_def down_state_def)

lemma winding_reload:
  assumes "well_keyed s" and "down_all s" shows "down_all (fst (reload env l texts s))"
  unfolding down_all_def using reload_get [OF assms(1)] down_allD [OF assms(2)] down_inst_new by blast

lemma winding_request:
  assumes "well_keyed s" and "winding_down s" shows "winding_down (fst (handle env l texts r s))"
proof -
  have "down_all (fst (handle env l texts r s))"
    using assms by (cases r) (auto simp: handle_def winding_down_def down_all_stop winding_reload split: option.splits)
  then show ?thesis
    using handle_frame [of s env l texts r] assms(2) by (simp add: winding_down_def shutting_down_def)
qed

lemma winding_event:
  assumes "well_keyed s" and "winding_down s" shows "winding_down (handle_event env ev s)"
proof (cases ev)
  case (EvSigchld reaped)
  then show ?thesis
    using fold_winding [of "sigchld_one env", OF winding_sigchld sigchld_shutdown] assms
    by (simp add: handle_event_def on_sigchld_def)
next
  case (EvCgroup ident)
  then show ?thesis
    using winding_on_cgroup [OF assms(2), of env ident] assms(2)
    by (simp add: handle_event_def winding_down_def shutting_down_def)
next
  case (EvNotify ms)
  then show ?thesis
    using fold_winding [of "notify_one env", OF winding_notify notify_shutdown] assms
    by (simp add: handle_event_def on_notify_def)
next
  case (EvRequest l r)
  then show ?thesis using winding_request [OF assms] by (simp add: handle_event_def)
next
  case EvTimer
  then show ?thesis using assms by (simp add: handle_event_def winding_on_timer)
next
  case EvWallTimer
  then show ?thesis using assms by (simp add: handle_event_def winding_on_wall_timer)
qed (use assms in \<open>auto simp: handle_event_def on_socket_def Let_def
       begin_shutdown_def pump_def sync_sockets_def winding_down_def shutting_down_def down_all_def
       get_inst_def split: option.splits\<close>)

interpretation winding: event_system handle_event "\<lambda>_. True" "\<lambda>s. well_keyed s \<and> winding_down s"
  by unfold_locales (simp add: handle_event_well_keyed winding_event)

lemma run_winding:
  "well_keyed s \<Longrightarrow> winding_down s \<Longrightarrow> winding_down (run_events evs s)"
  using winding.run_inv [of evs s] by (simp add: run_events_def list_all_iff split_beta)

lemma fold_stop_spawns [simp]: "spawns (fold (\<lambda>n. sup_stop env n c) ns s) = spawns s"
  by (induction ns arbitrary: s) simp_all

lemma begin_shutdown_frame:
  assumes "s_shutdown s = None"
  shows "spawns (begin_shutdown env a s) = spawns s"
    and "s_shutdown (begin_shutdown env a s) = Some (shutdown_new env a)"
  using assms by (simp_all add: begin_shutdown_def Let_def) (simp add: spawns_def)

text \<open>While it lasts, the shutdown is settled exactly when nothing is still deactivating, or
  when its deadline has passed.\<close>

lemma winding_settled:
  assumes "well_keyed s" and "winding_down s" and "s_shutdown s = Some sd"
  shows "settled env s = (if (\<exists>n i. get_inst s n = Some i \<and> in_state i = Deactivating) \<and>
      \<not> shutdown_overdue env sd then None else Some (sd_action sd))"
proof -
  have mem: "(n, i) \<in> set (s_instances s) \<longleftrightarrow> get_inst s n = Some i" for n i
    using assms(1) bget_Some_set [of "s_instances s" n i] by (simp add: well_keyed_def get_inst_def)
  have idle: "\<not> is_idle (in_state i) \<longleftrightarrow> in_state i = Deactivating" if "get_inst s n = Some i" for n i
    using assms(2) down_allD [OF _ that] by (auto simp: winding_down_def down_state_def is_idle_def)
  have "filter (\<lambda>(n, i). \<not> is_idle (in_state i)) (s_instances s) = [] \<longleftrightarrow>
      \<not> (\<exists>n i. get_inst s n = Some i \<and> in_state i = Deactivating)"
    using mem idle by (fastforce simp: filter_empty_conv)
  then show ?thesis using assms(3) by (simp add: settled_def)
qed

lemma stop_order_append:
  "distinct ks \<Longrightarrow> fold (\<lambda>n ns. if n \<in> set ns then ns else ns @ [n]) ks acc
     = acc @ filter (\<lambda>n. n \<notin> set acc) ks"
proof (induction ks arbitrary: acc)
  case (Cons k ks)
  have "filter (\<lambda>n. n \<notin> set (acc @ [k])) ks = filter (\<lambda>n. n \<notin> set acc) ks"
    using Cons.prems by (intro filter_cong) auto
  then show ?case using Cons by simp
qed simp

section \<open>Properties\<close>

text \<open>C15.  A shutdown is final.  From the moment it begins, and whatever happens afterwards, no
  process is started, the action first asked for stands, and every unit is inactive, failed
  or deactivating.\<close>

theorem shutdown_is_final:
  fixes env a evs
  assumes "well_keyed s" and "s_shutdown s = None"
  defines "t \<equiv> run_events evs (begin_shutdown env a s)"
  shows "spawns t = spawns s \<and> s_shutdown t = Some (shutdown_new env a)
    \<and> (\<forall>n i. get_inst t n = Some i \<longrightarrow> in_state i \<in> {Inactive, Failed, Deactivating})"
proof -
  let ?b = "begin_shutdown env a s"
  have k: "well_keyed ?b" using assms(1) by (simp add: well_keyed_ikeys [OF ikeys_begin_shutdown])
  note w = begin_shutdown_winding [OF assms(2), of env a]
  have "winding_down t" unfolding t_def by (rule run_winding [OF k w])
  then have "\<forall>n i. get_inst t n = Some i \<longrightarrow> in_state i \<in> {Inactive, Failed, Deactivating}"
    by (auto simp: winding_down_def down_all_def down_state_def)
  moreover have "spawns t = spawns s \<and> s_shutdown t = Some (shutdown_new env a)"
    using run_events_frame [of ?b evs] begin_shutdown_frame [OF assms(2), of env a] w
    by (simp add: t_def winding_down_def)
  ultimately show ?thesis by blast
qed

theorem shutdown_is_final_witness:
  "spawns (run_events [(sample_env, EvRequest (sample_loaded Simple Always) (RStart ''s'')), (sample_env, EvPump)]
      (begin_shutdown sample_env Reboot (sample_sup (sample_running Simple Always)))) = []"
  using shutdown_is_final [of "sample_sup (sample_running Simple Always)"
      "[(sample_env, EvRequest (sample_loaded Simple Always) (RStart ''s'')), (sample_env, EvPump)]"
      sample_env Reboot]
  by (simp add: sample_sup_def well_keyed_def spawns_def bmap_ok_Cons)

text \<open>A shutdown is settled, with the action first asked for, exactly when no unit is
  deactivating any more or the deadline of 90 seconds has passed.\<close>

theorem shutdown_settles:
  fixes env a evs
  assumes "well_keyed s" and "s_shutdown s = None"
  defines "t \<equiv> run_events evs (begin_shutdown env a s)"
  shows "settled env' t =
    (if (\<exists>n i. get_inst t n = Some i \<and> in_state i = Deactivating) \<and> elapsed (e_now env') (e_now env) \<le> from_secs 90
     then None else Some a)"
proof -
  let ?b = "begin_shutdown env a s"
  note w = begin_shutdown_winding [OF assms(2), of env a]
  have k: "well_keyed ?b" using assms(1) by (simp add: well_keyed_ikeys [OF ikeys_begin_shutdown])
  have kt: "well_keyed t"
    unfolding t_def run_events_def using k by (induction evs arbitrary: s rule: rev_induct)
      (auto simp: handle_event_well_keyed)
  have "s_shutdown t = Some (shutdown_new env a)"
    using run_events_frame [of ?b evs] begin_shutdown_frame [OF assms(2), of env a] w
    by (simp add: t_def winding_down_def)
  from winding_settled [OF kt _ this] run_winding [OF k w, of evs] show ?thesis
    by (auto simp: t_def shutdown_new_def shutdown_overdue_def DEADLINE_def not_less)
qed

theorem shutdown_settles_witness:
  "settled sample_env (run_events [] (begin_shutdown sample_env Reboot (sample_sup (inst_new (sample_unit Simple Always)))))
     = Some Reboot"
proof -
  let ?s = "sample_sup (inst_new (sample_unit Simple Always))"
  have w: "well_keyed ?s" "s_shutdown ?s = None" by (simp_all add: sample_sup_def well_keyed_def bmap_ok_Cons)
  have "get_inst (begin_shutdown sample_env Reboot ?s) n = Some i \<Longrightarrow> in_state i \<noteq> Deactivating" for n i
    by (auto simp: begin_shutdown_def stop_order_def sup_stop_def sample_sup_def get_inst_def inst_new_def Let_def
        sample_unit_def unit_service_def split: if_splits)
  then show ?thesis
    using shutdown_settles [OF w, of sample_env "[]" sample_env Reboot] by (auto simp: run_events_def)
qed

text \<open>Units are stopped in the reverse of the order they were started in, then the units
  that were never part of it, in name order; each exactly once.\<close>

theorem stop_order_reverses_start:
  assumes "well_keyed s" and "distinct (s_order s)"
  shows "stop_order s = rev (s_order s) @ filter (\<lambda>n. n \<notin> set (s_order s)) (bkeys (s_instances s))
    \<and> distinct (stop_order s)"
proof -
  have d: "distinct (bkeys (s_instances s))" using assms(1) bmap_ok_distinct by (simp add: well_keyed_def)
  have "stop_order s = rev (s_order s) @ filter (\<lambda>n. n \<notin> set (s_order s)) (bkeys (s_instances s))"
    using stop_order_append [OF d, of "rev (s_order s)"] by (simp add: stop_order_def)
  then show ?thesis using assms(2) d by auto
qed

theorem stop_order_reverses_start_witness:
  "stop_order (sample_sup (inst_new (sample_unit Simple Always))) = [''s'']"
  using stop_order_reverses_start [of "sample_sup (inst_new (sample_unit Simple Always))"]
  by (simp add: sample_sup_def well_keyed_def bmap_ok_Cons)

end
