(* ===== verification/SupervisorDeadlines.thy ===== *)
theory SupervisorDeadlines
  imports SupervisorSafety
begin

text \<open>
  Nothing waits without a deadline.  A unit that waits to restart has a restart alarm, one
  that is activating a start timeout, one that is deactivating a stop timeout (or has been
  killed already), and an active service with a watchdog a check; every handler keeps that,
  as long as the timer descriptor can be armed.
\<close>

section \<open>The invariant\<close>

definition watched :: "inst \<Rightarrow> bool" where
  "watched i \<longleftrightarrow> inst_ty i = Some Notify \<and> Option.bind (unit_service (in_unit i)) sv_watchdog_sec \<noteq> None"

definition covered :: "alarm set \<Rightarrow> string \<Rightarrow> inst \<Rightarrow> bool" where
  "covered A n i =
     (case in_state i of
        Restarting \<Rightarrow> AlarmRestart n \<in> A
      | Activating \<Rightarrow> StartTimeout n \<in> A
      | Deactivating \<Rightarrow> in_killed i \<or> StopTimeout n \<in> A
      | Active \<Rightarrow> watched i \<longrightarrow> WatchdogCheck n \<in> A
      | _ \<Rightarrow> True)"

text \<open>\<open>X\<close> holds the alarms popped and not yet handled; \<open>cov_but\<close> leaves one unit out.\<close>

definition cov_but :: "string set \<Rightarrow> alarm set \<Rightarrow> sup \<Rightarrow> bool" where
  "cov_but N X s \<longleftrightarrow> (\<forall>n i. n \<notin> N \<longrightarrow> get_inst s n = Some i \<longrightarrow> covered (alarms s \<union> X) n i)"

abbreviation cov :: "alarm set \<Rightarrow> sup \<Rightarrow> bool" where
  "cov \<equiv> cov_but {}"

lemma covered_mono: "covered A n i \<Longrightarrow> A \<subseteq> B \<Longrightarrow> covered B n i"
  by (auto simp: covered_def split: state.splits)

lemma covered_idle: "is_idle (in_state i) \<Longrightarrow> covered A n i"
  by (auto simp: covered_def is_idle_def)

text \<open>An operation that changes one unit and loses no alarm.\<close>

lemma cov_step:
  assumes "cov_but N X s" and "alarms s \<subseteq> alarms t" and "\<And>m. m \<noteq> n \<Longrightarrow> get_inst t m = get_inst s m"
    and "\<And>j. get_inst t n = Some j \<Longrightarrow> covered (alarms t \<union> X) n j"
  shows "cov_but (N - {n}) X t"
proof -
  have "covered (alarms t \<union> X) m j" if "m \<notin> N - {n}" "get_inst t m = Some j" for m j
  proof (cases "m = n")
    case True
    then show ?thesis using that(2) assms(4) by simp
  next
    case False
    then have "covered (alarms s \<union> X) m j" using assms(1,3) that by (auto simp: cov_but_def)
    then show ?thesis using assms(2) by (auto intro: covered_mono)
  qed
  then show ?thesis by (simp add: cov_but_def)
qed

lemma cov_keep:
  assumes "cov_but N X s" and "alarms s \<subseteq> alarms t" and "\<And>m. m \<noteq> n \<Longrightarrow> get_inst t m = get_inst s m"
    and "\<And>i j. n \<notin> N \<Longrightarrow> get_inst s n = Some i \<Longrightarrow> get_inst t n = Some j \<Longrightarrow>
      covered (alarms s \<union> X) n i \<Longrightarrow> covered (alarms t \<union> X) n j"
    and "get_inst s n = None \<Longrightarrow> get_inst t n = None"
  shows "cov_but N X t"
proof -
  have "covered (alarms t \<union> X) m j" if "m \<notin> N" "get_inst t m = Some j" for m j
  proof (cases "m = n")
    case True
    then have "get_inst s n \<noteq> None" using assms(5) that by auto
    then show ?thesis using True assms(1,4) that by (auto simp: cov_but_def)
  next
    case False
    then have "covered (alarms s \<union> X) m j" using assms(1,3) that by (auto simp: cov_but_def)
    then show ?thesis using assms(2) by (auto intro: covered_mono)
  qed
  then show ?thesis by (simp add: cov_but_def)
qed

lemma cov_cong: "get_inst t = get_inst s \<Longrightarrow> alarms t = alarms s \<Longrightarrow> cov_but N X t = cov_but N X s"
  by (simp add: cov_but_def)

lemma cov_mono: "cov_but N X s \<Longrightarrow> N \<subseteq> M \<Longrightarrow> X \<subseteq> Y \<Longrightarrow> cov_but M Y s"
  unfolding cov_but_def by (meson covered_mono subset_iff Un_mono subset_refl)

lemma cov_upd:
  assumes "cov_but N X s"
    and "\<And>i. get_inst s n = Some i \<Longrightarrow> covered (alarms s \<union> X) n (f i)"
  shows "cov_but (N - {n}) X (upd_inst n f s)"
  by (rule cov_step [OF assms(1)]) (auto simp: assms(2))

section \<open>Stopping and starting\<close>

lemma stopped_covered:
  assumes "unit_service (in_unit i) = None \<or> in_state i \<noteq> Active \<and> in_state i \<noteq> Activating \<or> StopTimeout n \<in> A"
    and "in_state i = Deactivating \<Longrightarrow> covered A n i"
  shows "covered A n (stopped_inst env c i)"
proof (cases "unit_service (in_unit i) = None \<and> in_state i \<noteq> Restarting")
  case True
  then show ?thesis
    using nonservice_deactivated [of i "e_now env" c] by (auto simp: stopped_inst_def covered_idle)
next
  case False
  then show ?thesis
    using assms
    by (cases "in_state i")
      (auto simp: stopped_inst_def cancel_restart_def entered_deactivating_def covered_def)
qed

lemma cov_stop: "cov_but N X s \<Longrightarrow> cov_but N X (sup_stop env n c s)"
proof (rule cov_keep [of N X s _ n])
  fix i j
  assume i: "get_inst s n = Some i" and j: "get_inst (sup_stop env n c s) n = Some j"
    and c: "covered (alarms s \<union> X) n i"
  have "covered (alarms (sup_stop env n c s) \<union> X) n i" using c stop_alarms by (blast intro: covered_mono)
  moreover have "unit_service (in_unit i) = None \<or> in_state i \<noteq> Active \<and> in_state i \<noteq> Activating
      \<or> StopTimeout n \<in> alarms (sup_stop env n c s) \<union> X"
    using stop_arms [OF i] by blast
  ultimately show "covered (alarms (sup_stop env n c s) \<union> X) n j"
    using i j stopped_covered by (auto simp: stop_self)
qed (simp_all add: stop_alarms stop_self)

lemma stop_conflicting_cov: "cov_but N X s \<Longrightarrow> cov_but N X (stop_conflicting env n s)"
  by (auto simp: stop_conflicting_def cov_stop split: option.splits)

lemma fold_stop_cov: "cov_but N X s \<Longrightarrow> cov_but N X (fold (\<lambda>n. sup_stop env n c) ns s)"
  by (induction ns arbitrary: s) (simp_all add: cov_stop)

lemma fold_conflicting_cov: "cov_but N X s \<Longrightarrow> cov_but N X (fold (stop_conflicting env) ns s)"
  by (induction ns arbitrary: s) (simp_all add: stop_conflicting_cov)

lemma inst_op_units [simp]:
  "in_unit (entered_active now i) = in_unit i" "in_unit (entered_activating p i) = in_unit i"
  "in_unit (failed_to_start i) = in_unit i" "in_state (entered_active now i) = Active"
  "in_state (entered_activating p i) = Activating" "in_state (failed_to_start i) = Failed"
  by (simp_all add: inst_op_defs)

text \<open>After a start the unit is failed, active or activating with its timeout.\<close>

lemma start_service_self:
  assumes "get_inst s n = Some i" and "unit_service (in_unit i) = Some sv"
    and "get_inst (start_service env n u sv s) n = Some j"
  shows "covered (alarms (start_service env n u sv s) \<union> X) n j"
  using assms
  by (auto simp: start_service_def Let_def covered_def watched_def inst_ty_def split: if_splits sum.splits)

lemma start_service_other [simp]:
  "m \<noteq> n \<Longrightarrow> get_inst (start_service env n u sv s) m = get_inst s m"
  by (auto simp: start_service_def Let_def split: sum.splits)

lemma start_service_alarms: "alarms s \<subseteq> alarms (start_service env n u sv s)"
  by (auto simp: start_service_def Let_def split: sum.splits)

lemma cov_start_unit:
  assumes "cov_but N X s" shows "cov_but (N - {n}) X (start_unit env n s)"
proof (rule cov_step [OF assms])
  show "alarms s \<subseteq> alarms (start_unit env n s)"
    using start_service_alarms arm_alarms [of "upd_inst n f s" for f]
    by (auto simp: start_unit_def split: option.splits kind.splits)
  show "m \<noteq> n \<Longrightarrow> get_inst (start_unit env n s) m = get_inst s m" for m
    by (auto simp: start_unit_def split: option.splits kind.splits)
  fix j
  assume j: "get_inst (start_unit env n s) n = Some j"
  show "covered (alarms (start_unit env n s) \<union> X) n j"
  proof (cases "get_inst s n")
    case None
    then show ?thesis using j by (simp add: start_unit_def)
  next
    case (Some i)
    show ?thesis
    proof (cases "u_kind (in_unit i)")
      case (Service sv)
      then have "unit_service (in_unit i) = Some sv" by (simp add: unit_service_def)
      then show ?thesis
        using start_service_self [OF Some] Service Some j by (simp add: start_unit_def)
    qed (use Some j in \<open>auto simp: start_unit_def covered_def watched_def inst_ty_def unit_service_def\<close>)
  qed
qed

lemma cov_start:
  assumes "cov_but N X s" and "\<not> shutting_down s"
  shows "cov_but (N - {n}) X (sup_start env n s)"
  using assms cov_start_unit [OF fold_conflicting_cov [OF assms(1)]] by (simp add: sup_start_def)

lemma cov_start_plain: "cov X s \<Longrightarrow> cov X (sup_start env n s)"
  using cov_start [of "{}" X s n env] by (cases "shutting_down s") simp_all

lemma cov_asked:
  assumes "cov X s" shows "cov X (start_if_asked env n s)"
proof -
  have "cov X (s\<lparr>s_pending_restart := q\<rparr>)" for q using assms by (simp add: cov_but_def)
  then show ?thesis using assms cov_start_plain by (simp add: start_if_asked_def)
qed

section \<open>Ends of processes\<close>

text \<open>A unit put into a state that a new restart alarm covers, or that needs none.\<close>

lemma cov_upd_plain:
  "cov_but N X s \<Longrightarrow> covered (alarms s \<union> X) n j \<Longrightarrow> cov_but (N - {n}) X (upd_inst n (\<lambda>_. j) s)"
  by (rule cov_upd) simp_all

lemma cov_sched: "cov_but N X s \<Longrightarrow> cov_but N X (sched env d a s)"
  by (rule cov_keep [of N X s _ undefined]) (auto intro: covered_mono)

lemma cov_upd_restart:
  assumes "cov X s" and "in_state j = Restarting"
  shows "cov X (sched env d (AlarmRestart n) (upd_inst n (\<lambda>_. j) s))"
  by (rule cov_step [of "{}" X s _ n, simplified]) (use assms in \<open>auto simp: covered_def split: if_splits\<close>)

lemma deactivated_outcome:
  assumes "deactivated now i = (j, d)"
  shows "if d = None then is_idle (in_state j) else in_state j = Restarting"
  using assms by (auto simp: deactivated_def Let_def is_idle_def schedule_restart_def
      split: option.splits stop_cause.splits if_splits)

lemma cancel_restart_idle: "in_state j = Restarting \<Longrightarrow> is_idle (in_state (cancel_restart j))"
  by (simp add: cancel_restart_def is_idle_def)

lemma cov_finish:
  assumes "cov X s" shows "cov X (finish_deactivation env n s)"
proof (cases "get_inst s n")
  case None
  then show ?thesis using assms by (simp add: finish_deactivation_def)
next
  case (Some i)
  obtain j d where j: "deactivated (e_now env) i = (j, d)" by (cases "deactivated (e_now env) i")
  note out = deactivated_outcome [OF j]
  have plain: "is_idle (in_state k) \<Longrightarrow> cov X (upd_inst n (\<lambda>_. k) s)" for k
    using cov_upd_plain [OF assms] covered_idle by simp
  show ?thesis
  proof (cases d)
    case None
    then show ?thesis using Some j out plain assms by (simp add: finish_deactivation_def cov_asked)
  next
    case (Some d')
    then have r: "in_state j = Restarting" using out by simp
    then show ?thesis
      using Some j plain [OF cancel_restart_idle [OF r]] cov_upd_restart [OF assms r] assms \<open>get_inst s n = Some i\<close>
      by (simp add: finish_deactivation_def cov_asked)
  qed
qed

lemma on_exit_outcome:
  assumes "on_exit now ex i = (j, d)"
  shows "if d = None then is_idle (in_state j) \<or> in_state i = Deactivating \<and> in_state j = Deactivating
      \<and> in_killed j = in_killed i
    else in_state i \<noteq> Deactivating \<and> in_state j = Restarting"
  using assms by (auto simp: on_exit_def Let_def is_idle_def schedule_restart_def split: if_splits)

lemma covered_deactivating:
  "in_state i = Deactivating \<Longrightarrow> covered A n i = (in_killed i \<or> StopTimeout n \<in> A)"
  by (simp add: covered_def)

lemma on_exit_covered:
  assumes "on_exit now ex i = (j, None)" and "covered A n i" shows "covered A n j"
  using on_exit_outcome [OF assms(1)] assms(2) by (auto simp: covered_idle covered_deactivating)

lemma cov_on_exit:
  assumes "cov X s" and "get_inst s n = Some i" and "on_exit now ex i = (j, None)"
  shows "cov X (upd_inst n (\<lambda>_. j) s)"
proof -
  have "covered (alarms s \<union> X) n i" using assms(1,2) by (simp add: cov_but_def)
  then show ?thesis
    using cov_upd_plain [OF assms(1)] on_exit_covered [OF assms(3)] by simp
qed

lemma cov_forking:
  assumes "cov X s" and "get_inst s n = Some i" and "inst_ty i = Some Forking"
  shows "cov X (forking_parent_exited env n ex s)"
proof -
  have "cov X (upd_inst n failed_to_start s)"
    by (rule cov_upd [of "{}", simplified]) (use assms in \<open>simp_all add: covered_def\<close>)
  moreover have "cov X (upd_inst n (forked_away (e_now env)) s)"
    by (rule cov_upd [of "{}", simplified])
      (use assms in \<open>auto simp: covered_def watched_def inst_ty_def forked_away_def\<close>)
  ultimately show ?thesis by (simp add: forking_parent_exited_def)
qed

lemma upd_upd: "upd_inst n f (upd_inst n (\<lambda>_. j) s) = upd_inst n (\<lambda>_. f j) s"
  by (simp add: upd_inst_def bupdate_def comp_def split_beta cong: if_cong)

lemma cov_sigchld:
  assumes "cov X s" shows "cov X (sigchld_one env r s)"
proof -
  obtain pid code signal where r: "r = (pid, code, signal)" by (cases r)
  let ?ex = "from_status code signal"
  show ?thesis
  proof (cases "Option.bind (unit_for_pid s pid) (\<lambda>n. map_option (Pair n) (get_inst s n))")
    case None
    then show ?thesis using assms by (auto simp: sigchld_one_def r Let_def split: option.splits)
  next
    case (Some ni)
    then obtain n i where n: "unit_for_pid s pid = Some n" "get_inst s n = Some i"
      by (auto simp: bind_eq_Some_conv)
    obtain j d where j: "on_exit (e_now env) ?ex i = (j, d)" by (cases "on_exit (e_now env) ?ex i")
    have ended: "cov X (case d of
        Some d \<Rightarrow> if shutting_down s then upd_inst n cancel_restart (upd_inst n (\<lambda>_. j) s)
          else sched env d (AlarmRestart n) (upd_inst n (\<lambda>_. j) s)
      | None \<Rightarrow> if b then (if b' then upd_inst n (\<lambda>_. j) s else finish_deactivation env n (upd_inst n (\<lambda>_. j) s))
          else upd_inst n (\<lambda>_. j) s)" for b b'
    proof (cases d)
      case None
      then show ?thesis using cov_on_exit [OF assms n(2)] j cov_finish by simp
    next
      case (Some d')
      then have rs: "in_state j = Restarting" using on_exit_outcome [OF j] by simp
      then show ?thesis
        using Some cov_upd_restart [OF assms rs] cov_upd_plain [OF assms] covered_idle cancel_restart_idle
        by (simp add: upd_upd)
    qed
    show ?thesis
    proof (cases "inst_ty i = Some Forking \<and> in_state i = Activating")
      case True
      then show ?thesis using n cov_forking [OF assms n(2)] by (simp add: sigchld_one_def r Let_def)
    next
      case False
      then show ?thesis
        using n j ended [of "in_state i = Deactivating" "has_cgroup (upd_inst n (\<lambda>_. j) s) n \<and> e_populated env n"]
        by (auto simp: sigchld_one_def r Let_def)
    qed
  qed
qed

lemma cov_vanished:
  assumes "cov X s" shows "cov X (unit_vanished env n s)"
proof (cases "get_inst s n")
  case (Some i)
  obtain j d where j: "on_exit (e_now env) AbnormalExit i = (j, d)" by (cases "on_exit (e_now env) AbnormalExit i")
  show ?thesis
  proof (cases d)
    case None
    then show ?thesis using Some j cov_on_exit [OF assms Some] by (simp add: unit_vanished_def)
  next
    case (Some d')
    then have "in_state j = Restarting" using on_exit_outcome [OF j] by simp
    then show ?thesis
      using Some \<open>get_inst s n = _\<close> j cov_upd_restart [OF assms] by (simp add: unit_vanished_def)
  qed
qed (use assms in \<open>simp add: unit_vanished_def\<close>)

lemma cov_on_cgroup: "cov X s \<Longrightarrow> cov X (on_cgroup env ident s)"
  by (auto simp: on_cgroup_def cov_finish cov_vanished split: option.splits)


section \<open>Messages and deadlines\<close>

lemma cov_upd_same:
  assumes "cov X s" and "get_inst s n = Some i" and "in_state j = in_state i" and "in_killed i \<longrightarrow> in_killed j"
    and "in_unit j = in_unit i"
  shows "cov X (upd_inst n (\<lambda>_. j) s)"
proof -
  have "covered (alarms s \<union> X) n i" using assms(1,2) by (simp add: cov_but_def)
  then have "covered (alarms s \<union> X) n j"
    using assms(3-5) by (cases "in_state i") (auto simp: covered_def watched_def inst_ty_def)
  then show ?thesis using cov_upd_plain [OF assms(1)] by simp
qed

lemma cov_notify:
  assumes "cov X s" shows "cov X (notify_one env m s)"
proof (cases "Option.bind (unit_for_pid s (m_pid m)) (\<lambda>n. map_option (Pair n) (get_inst s n))")
  case None
  then show ?thesis using assms by (auto simp: notify_one_def Let_def split: option.splits)
next
  case (Some ni)
  then obtain n i where n: "unit_for_pid s (m_pid m) = Some n" "get_inst s n = Some i"
    by (auto simp: bind_eq_Some_conv)
  define i1 where "i1 = (case m_status m of None \<Rightarrow> i | Some st \<Rightarrow> i\<lparr>in_status := Some st\<rparr>)"
  define i2 where "i2 = (if m_watchdog m then pinged (e_now env) i1 else i1)"
  have same: "in_state i2 = in_state i" "in_killed i2 = in_killed i" "in_unit i2 = in_unit i"
    by (simp_all add: i2_def i1_def pinged_def split: option.splits)
  let ?limit = "Option.bind (unit_service (in_unit i2)) sv_watchdog_sec"
  have eq: "notify_one env m s =
     (if m_ready m \<and> in_state i2 = Activating then
        (case ?limit of None \<Rightarrow> upd_inst n (\<lambda>_. entered_active (e_now env) i2) s
          | Some limit \<Rightarrow> arm_watchdog env n limit (upd_inst n (\<lambda>_. entered_active (e_now env) i2) s))
      else upd_inst n (\<lambda>_. i2) s)"
    by (simp only: notify_one_def Let_def n option.case i2_def i1_def)
  have "cov X (case ?limit of None \<Rightarrow> upd_inst n (\<lambda>_. entered_active (e_now env) i2) s
          | Some limit \<Rightarrow> arm_watchdog env n limit (upd_inst n (\<lambda>_. entered_active (e_now env) i2) s))"
    by (rule cov_step [of "{}" X s _ n, simplified, OF assms])
      (auto simp: arm_watchdog_def covered_def watched_def split: option.splits if_splits)
  then show ?thesis using cov_upd_same [OF assms n(2), of i2] same by (simp add: eq)
qed

lemma stop_deadline_cov:
  assumes "cov (insert (StopTimeout n) X) s" shows "cov X (stop_deadline env n s)"
proof (cases "get_inst s n")
  case None
  then have "\<And>m i. get_inst s m = Some i \<Longrightarrow> m \<noteq> n" by auto
  then show ?thesis
    using assms None by (auto simp: stop_deadline_def cov_but_def covered_def split: state.splits)
next
  case (Some i)
  have fields: "get_inst (stop_deadline env n s) =
      (if in_state i = Deactivating then get_inst (upd_inst n stop_timed_out s) else get_inst s)"
    "alarms (stop_deadline env n s) = alarms s"
    using Some by (auto simp: stop_deadline_def Let_def split: option.splits)
  have "covered (alarms s \<union> X) m j" if "get_inst (stop_deadline env n s) m = Some j" for m j
  proof (cases "m = n \<and> in_state i = Deactivating")
    case True
    then show ?thesis using that Some by (auto simp: fields stop_timed_out_def covered_def)
  next
    case False
    then have "get_inst s m = Some j" using that fields by (auto split: if_splits)
    then have "covered (alarms s \<union> insert (StopTimeout n) X) m j" using assms by (simp add: cov_but_def)
    then show ?thesis
      using False Some \<open>get_inst s m = Some j\<close> by (cases "in_state j") (auto simp: covered_def)
  qed
  then show ?thesis by (simp add: cov_but_def fields)
qed

text \<open>Handling an alarm makes up for having taken it off the heap.\<close>

lemma cov_insert_but:
  assumes "cov (insert a X) s" and "\<And>m i. get_inst s m = Some i \<Longrightarrow> m \<notin> N \<Longrightarrow>
      (in_state i = Restarting \<longrightarrow> a \<noteq> AlarmRestart m) \<and> (in_state i = Activating \<longrightarrow> a \<noteq> StartTimeout m)
      \<and> (in_state i = Deactivating \<longrightarrow> a \<noteq> StopTimeout m) \<and> (in_state i = Active \<and> watched i \<longrightarrow> a \<noteq> WatchdogCheck m)"
  shows "cov_but N X s"
proof -
  have "covered (alarms s \<union> X) m i" if "m \<notin> N" "get_inst s m = Some i" for m i
  proof -
    have "covered (alarms s \<union> insert a X) m i" using assms(1) that(2) by (simp add: cov_but_def)
    then show ?thesis using assms(2) [OF that(2,1)] by (cases "in_state i") (auto simp: covered_def)
  qed
  then show ?thesis by (simp add: cov_but_def)
qed

lemma cov_but_join:
  assumes "cov_but {n} X s" and "\<And>j. get_inst s n = Some j \<Longrightarrow> covered (alarms s \<union> X) n j"
  shows "cov X s"
proof -
  have "covered (alarms s \<union> X) m j" if "get_inst s m = Some j" for m j
    using assms that by (cases "m = n") (simp_all add: cov_but_def)
  then show ?thesis by (simp add: cov_but_def)
qed

lemma stop_running_cov:
  assumes "cov_but {n} X s" and i: "get_inst s n = Some i" and "in_state i = Active \<or> in_state i = Activating"
  shows "cov X (sup_stop env n c s)"
proof -
  have "unit_service (in_unit i) \<noteq> None \<Longrightarrow> StopTimeout n \<in> alarms (sup_stop env n c s)"
    using stop_arms [OF i] assms(3) by blast
  then have "covered (alarms (sup_stop env n c s) \<union> X) n (stopped_inst env c i)"
    using assms(3) by (intro stopped_covered) auto
  then have "covered (alarms (sup_stop env n c s) \<union> X) n j" if "get_inst (sup_stop env n c s) n = Some j" for j
    using that i by (auto simp: stop_self)
  with cov_stop [OF assms(1)] show ?thesis by (rule cov_but_join)
qed

lemma start_timed_out_cov:
  assumes "cov (insert (StartTimeout n) X) s" shows "cov X (start_timed_out env n s)"
proof (cases "\<exists>i. get_inst s n = Some i \<and> in_state i = Activating")
  case True
  then obtain i where i: "get_inst s n = Some i" "in_state i = Activating" by blast
  have "cov_but {n} X s" by (rule cov_insert_but [OF assms]) auto
  from stop_running_cov [OF this i(1)] show ?thesis using i by (simp add: start_timed_out_def)
next
  case False
  have "cov X s" by (rule cov_insert_but [OF assms]) (use False in auto)
  then show ?thesis using False by (auto simp: start_timed_out_def split: option.splits)
qed

lemma check_watchdog_cov:
  assumes "cov (insert (WatchdogCheck n) X) s" shows "cov X (check_watchdog env n s)"
proof (cases "\<exists>i limit. get_inst s n = Some i \<and> Option.bind (unit_service (in_unit i)) sv_watchdog_sec = Some limit
    \<and> in_state i = Active")
  case True
  then obtain i limit where i: "get_inst s n = Some i" "in_state i = Active"
    "Option.bind (unit_service (in_unit i)) sv_watchdog_sec = Some limit" by blast
  have but: "cov_but {n} X s" by (rule cov_insert_but [OF assms]) auto
  show ?thesis
  proof (cases "watchdog_expired (e_now env) limit i")
    case False
    have "cov_but ({n} - {n}) X (arm_watchdog env n limit s)"
      by (rule cov_step [OF but]) (use i in \<open>auto simp: arm_watchdog_def covered_def\<close>)
    then show ?thesis using i False by (simp add: check_watchdog_def)
  next
    case True
    from stop_running_cov [OF but i(1)] show ?thesis using i True by (simp add: check_watchdog_def)
  qed
next
  case False
  have "cov X s" by (rule cov_insert_but [OF assms]) (use False in \<open>auto simp: watched_def\<close>)
  then show ?thesis using False by (auto simp: check_watchdog_def split: option.splits)
qed

lemma timer_elapsed_cov:
  assumes "cov X s" shows "cov X (timer_elapsed env n s)"
proof -
  have "cov X (sup_arm env n nx s)" for nx
    by (rule cov_keep [OF assms, of _ n]) (auto simp: arm_alarms dest: covered_mono [OF _ Un_mono [OF arm_alarms subset_refl]])
  then show ?thesis
    using assms by (auto simp: timer_elapsed_def Let_def cov_start_plain split: option.splits)
qed

text \<open>\<open>X\<close> is what is left of the batch.\<close>

definition guarded :: "alarm set \<Rightarrow> sup \<Rightarrow> bool" where
  "guarded X s \<longleftrightarrow> well_keyed s \<and> cov X s \<and> (shutting_down s \<longrightarrow> down_all s)"

lemma dispatch_cov:
  assumes "guarded (insert a X) s" shows "cov X (dispatch env a s)"
proof -
  have c: "cov (insert a X) s" and d: "shutting_down s \<Longrightarrow> down_all s"
    using assms by (simp_all add: guarded_def)
  show ?thesis
  proof (cases a)
    case (AlarmRestart n)
    show ?thesis
    proof (cases "\<exists>i. get_inst s n = Some i \<and> in_state i = Restarting")
      case True
      then have "\<not> shutting_down s" using d down_allD by fastforce
      moreover have "cov_but {n} X s" by (rule cov_insert_but [OF c]) (auto simp: AlarmRestart)
      ultimately have "cov X (sup_start env n s)" using cov_start [of "{n}" X s n env] by simp
      then show ?thesis using True by (auto simp: dispatch_def AlarmRestart)
    next
      case False
      have "cov X s" by (rule cov_insert_but [OF c]) (use False AlarmRestart in auto)
      then show ?thesis using False by (auto simp: dispatch_def AlarmRestart split: option.splits)
    qed
  next
    case (TimerElapsed n)
    have "cov X s" by (rule cov_insert_but [OF c]) (simp add: TimerElapsed)
    then show ?thesis by (simp add: dispatch_def TimerElapsed timer_elapsed_cov)
  qed (use c in \<open>simp_all add: dispatch_def check_watchdog_cov stop_deadline_cov start_timed_out_cov\<close>)
qed

lemma guarded_dispatch: "guarded (insert a X) s \<Longrightarrow> guarded X (dispatch env a s)"
proof -
  assume g: "guarded (insert a X) s"
  have "shutting_down s \<Longrightarrow> down_all (dispatch env a s)"
    using g winding_dispatch by (simp add: guarded_def winding_down_def)
  then show ?thesis
    using g dispatch_cov [OF g]
    by (simp add: guarded_def shutting_down_def well_keyed_ikeys [OF ikeys_dispatch])
qed

lemma guarded_batch: "guarded (set fired) s \<Longrightarrow> guarded {} (fold (dispatch env) fired s)"
proof (induction fired arbitrary: s)
  case (Cons a fired)
  then have "guarded (insert a (set fired)) s" by simp
  from Cons.IH [OF guarded_dispatch [OF this]] show ?case by simp
qed simp

lemma guarded_on_timer:
  assumes "guarded {} s" and "e_settime env" shows "guarded {} (on_timer env s)"
proof -
  obtain t fired where t: "timer_expired True (e_now env) (s_timers s) = (t, Some fired)"
    by (simp add: timer_expired_unfold)
  have "alarms s = set fired \<union> pending_alarms t" using timer_expired_alarms [OF t] by (simp add: alarms_def)
  then have "guarded (set fired) (s\<lparr>s_timers := t\<rparr>)"
    using assms(1)
    by (simp add: guarded_def cov_but_def shutting_down_def down_all_def well_keyed_def Un_commute)
  then show ?thesis using t assms(2) guarded_batch by (simp add: on_timer_def)
qed

section \<open>Every event\<close>

lemma cov_fold: "(\<And>x s. cov X s \<Longrightarrow> cov X (f x s)) \<Longrightarrow> cov X s \<Longrightarrow> cov X (fold f xs s)"
  by (induction xs arbitrary: s) simp_all

lemma cov_pump_loop: "cov X s \<Longrightarrow> cov X (pump_loop env s)"
proof (induction env s rule: pump_loop.induct)
  case (1 env s)
  have deq: "cov X (dequeue n s)" for n using "1.prems" by (simp add: cov_but_def)
  have failed: "cov X (upd_inst n failed_to_start (dequeue n s))" for n
    by (rule cov_upd [of "{}", simplified, OF deq]) (simp add: covered_def)
  show ?case
    by (subst pump_loop.simps) (auto split: option.splits intro!: 1 failed cov_start_plain deq)
qed

lemma cov_on_wall_timer: "cov X s \<Longrightarrow> cov X (on_wall_timer env s)"
proof -
  assume c: "cov X s"
  let ?f = "\<lambda>a s. case a of TimerElapsed u \<Rightarrow> timer_elapsed env u s | _ \<Rightarrow> s"
  have f: "cov X t \<Longrightarrow> cov X (?f a t)" for a t using timer_elapsed_cov by (cases a) simp_all
  obtain t r where t: "wall_expired (e_settime env) (e_wall_stepped env) (e_unix env) (s_timers s) = (t, r)"
    by fastforce
  then have "pending_alarms t = alarms s" using wall_expired_alarms by (metis alarms_def fst_conv)
  then have "cov X (s\<lparr>s_timers := t\<rparr>)" using c by (simp add: cov_but_def)
  then show ?thesis using t cov_fold [of X ?f, OF f] by (simp add: on_wall_timer_def split: option.split)
qed

lemma cov_reload:
  assumes "well_keyed s" and "cov X s" shows "cov X (fst (reload env l texts s))"
proof -
  have "covered (alarms s \<union> X) m i" if "get_inst (fst (reload env l texts s)) m = Some i" for m i
    using reload_get [OF assms(1) that] assms(2)
    by (auto simp: cov_but_def covered_def inst_new_def)
  then show ?thesis by (simp add: cov_but_def)
qed

lemma cov_handle:
  assumes "well_keyed s" and "cov X s" shows "cov X (fst (handle env l texts r s))"
proof -
  have "cov X (restart_when_stopped env n t)" if "cov X t" for n t
  proof -
    have "cov X (t\<lparr>s_pending_restart := q\<rparr>)" for q using that by (simp add: cov_but_def)
    then show ?thesis using that cov_start_plain by (auto simp: restart_when_stopped_def split: option.splits)
  qed
  then show ?thesis
    using assms by (cases r) (simp_all add: handle_def cov_stop cov_start_plain cov_reload split: option.splits)
qed

lemma cov_begin_shutdown: "cov X s \<Longrightarrow> cov X (begin_shutdown env a s)"
proof -
  assume "cov X s"
  then have "cov X (s\<lparr>s_shutdown := d\<rparr>)" for d by (simp add: cov_but_def alarms_def get_inst_def)
  then show ?thesis using \<open>cov X s\<close> by (simp add: begin_shutdown_def Let_def fold_stop_cov)
qed

lemma cov_event:
  assumes "guarded {} s" and "e_settime env" shows "cov {} (handle_event env ev s)"
proof -
  have c: "cov {} s" and k: "well_keyed s" using assms(1) by (simp_all add: guarded_def)
  show ?thesis
  proof (cases ev)
    case (EvSigchld reaped)
    then show ?thesis using cov_fold [of "{}" "sigchld_one env", OF cov_sigchld c]
      by (simp add: handle_event_def on_sigchld_def)
  next
    case EvTimer
    then show ?thesis using guarded_on_timer [OF assms] by (simp add: handle_event_def guarded_def)
  next
    case (EvNotify ms)
    then show ?thesis using cov_fold [of "{}" "notify_one env", OF cov_notify c]
      by (simp add: handle_event_def on_notify_def)
  next
    case (EvSocket ident)
    then show ?thesis
      using c by (auto simp: handle_event_def on_socket_def Let_def cov_start_plain split: option.splits)
  next
    case EvPump
    then show ?thesis using c by (simp add: handle_event_def pump_def cov_pump_loop cov_but_def [of _ _ "_\<lparr>s_pending := _\<rparr>"])
        (simp add: cov_but_def)
  next
    case EvSync
    then show ?thesis using c by (simp add: handle_event_def sync_sockets_def cov_but_def alarms_def get_inst_def)
  qed (use c k in \<open>simp_all add: handle_event_def cov_on_cgroup cov_on_wall_timer cov_handle cov_begin_shutdown\<close>)
qed

lemma shutdown_fold: "(\<And>x s. s_shutdown (f x s) = s_shutdown s) \<Longrightarrow> s_shutdown (fold f xs s) = s_shutdown s"
  by (induction xs arbitrary: s) simp_all

lemma shutdown_pump_loop: "s_shutdown (pump_loop env s) = s_shutdown s"
proof (induction env s rule: pump_loop.induct)
  case (1 env s)
  then show ?case by (subst pump_loop.simps) (auto split: option.splits)
qed

lemma shutdown_wall_timer: "s_shutdown (on_wall_timer env s) = s_shutdown s"
proof -
  let ?f = "\<lambda>a s. case a of TimerElapsed u \<Rightarrow> timer_elapsed env u s | _ \<Rightarrow> s"
  have "s_shutdown (?f a t) = s_shutdown t" for a t by (cases a) simp_all
  from shutdown_fold [of ?f, OF this] show ?thesis
    by (simp add: on_wall_timer_def split: prod.splits option.splits)
qed

lemma shutdown_request: "s_shutdown (fst (handle env l texts r s)) = s_shutdown s"
  by (cases r) (simp_all add: handle_def restart_when_stopped_def split: option.splits)

text \<open>Only the event that asks for it begins a shutdown.\<close>

lemma shutdown_event: "(\<And>a. ev \<noteq> EvShutdown a) \<Longrightarrow> s_shutdown (handle_event env ev s) = s_shutdown s"
  by (cases ev)
    (auto simp: handle_event_def on_sigchld_def on_notify_def shutdown_fold on_timer_def on_socket_def
      sync_sockets_def pump_def shutdown_pump_loop shutdown_wall_timer shutdown_request Let_def
      split: prod.splits option.splits)

lemma guarded_event:
  assumes "e_settime env" and "guarded {} s" shows "guarded {} (handle_event env ev s)"
proof -
  have k: "well_keyed s" using assms(2) by (simp add: guarded_def)
  have "down_all (handle_event env ev s)" if sd: "shutting_down (handle_event env ev s)"
  proof (cases "shutting_down s")
    case True
    then have "winding_down s" using assms(2) by (simp add: guarded_def winding_down_def)
    then show ?thesis using winding_event [OF k] by (simp add: winding_down_def)
  next
    case False
    have "\<exists>a. ev = EvShutdown a"
      using shutdown_event sd False by (metis shutting_down_def)
    then show ?thesis using False begin_shutdown_winding by (auto simp: handle_event_def winding_down_def shutting_down_def)
  qed
  then show ?thesis
    using cov_event [OF assms(2,1)] handle_event_well_keyed [OF k] by (simp add: guarded_def)
qed

interpretation guarding: event_system handle_event e_settime "guarded {}"
  by unfold_locales (rule guarded_event)

lemma run_guarded:
  "list_all (\<lambda>(env, ev). e_settime env) evs \<Longrightarrow> guarded {} s \<Longrightarrow> guarded {} (run_events evs s)"
  unfolding run_events_def by (rule guarding.run_inv)

text \<open>A state just loaded.\<close>

definition fresh :: "sup \<Rightarrow> bool" where
  "fresh s \<longleftrightarrow> well_keyed s \<and> s_shutdown s = None \<and> (\<forall>n i. get_inst s n = Some i \<longrightarrow> (\<exists>u. i = inst_new u))"

lemma fresh_add: "fresh s \<Longrightarrow> fresh (add_instance env nu s)"
  by (auto simp: fresh_def add_instance_def well_keyed_def get_inst_def split: prod.splits)

lemma fresh_bind: "fresh s \<Longrightarrow> fresh (bind_unit env us n s)"
  by (auto simp: fresh_def bind_unit_def well_keyed_def get_inst_def split: option.splits)

lemma fresh_fold: "(\<And>x s. fresh s \<Longrightarrow> fresh (f x s)) \<Longrightarrow> fresh s \<Longrightarrow> fresh (fold f xs s)"
  by (induction xs arbitrary: s) simp_all

lemma fresh_load: "fresh (sup_load env l hostname src ts cg)"
proof -
  have blank: "fresh \<lparr>s_instances = [], s_hostname = hostname, s_source = src, s_order = ord', s_timers = ts,
     s_cgroups = cg, s_sockets = [], s_pending = [], s_pending_restart = [], s_next_elapse = [],
     s_shutdown = None, s_trace = []\<rparr>" for ord'
    by (simp add: fresh_def well_keyed_def get_inst_def)
  show ?thesis
    unfolding sup_load_def Let_def
    using blank by (auto intro!: fresh_fold fresh_add fresh_bind)
qed

lemma covered_new: "covered A n (inst_new u)"
  by (simp add: covered_def inst_new_def)

lemma fresh_guarded: "fresh s \<Longrightarrow> guarded {} s"
  unfolding fresh_def guarded_def cov_but_def shutting_down_def using covered_new by force

text \<open>The alarm each state waits for.\<close>

definition deadline_of :: "string \<Rightarrow> inst \<Rightarrow> alarm option" where
  "deadline_of n i =
     (case in_state i of
        Restarting \<Rightarrow> Some (AlarmRestart n)
      | Activating \<Rightarrow> Some (StartTimeout n)
      | Deactivating \<Rightarrow> if in_killed i then None else Some (StopTimeout n)
      | Active \<Rightarrow> if watched i then Some (WatchdogCheck n) else None
      | _ \<Rightarrow> None)"

lemma covered_deadline: "covered A n i \<longleftrightarrow> (case deadline_of n i of None \<Rightarrow> True | Some a \<Rightarrow> a \<in> A)"
  by (simp add: covered_def deadline_of_def split: state.splits)

lemma start_service_state:
  "get_inst s n = Some i \<Longrightarrow> \<exists>j. get_inst (start_service env n u sv s) n = Some j
     \<and> in_state j \<in> {Failed, Active, Activating}"
  by (auto simp: start_service_def Let_def split: sum.splits)

lemma start_unit_state:
  assumes "get_inst s n = Some i"
  shows "\<exists>j. get_inst (start_unit env n s) n = Some j \<and> in_state j \<in> {Failed, Active, Activating}"
  using assms start_service_state [OF assms] by (auto simp: start_unit_def split: kind.splits)

lemma get_stop_Some: "get_inst s n \<noteq> None \<Longrightarrow> get_inst (sup_stop env m c s) n \<noteq> None"
  by (cases "n = m") (auto simp: stop_self)

lemma get_conflicting_Some: "get_inst s n \<noteq> None \<Longrightarrow> get_inst (fold (stop_conflicting env) ns s) n \<noteq> None"
proof (induction ns arbitrary: s)
  case (Cons m ns)
  have "get_inst (stop_conflicting env m s) n \<noteq> None"
    using get_stop_Some [OF Cons.prems, of env m] Cons.prems
    by (auto simp: stop_conflicting_def split: option.splits)
  from Cons.IH [OF this] show ?case by simp
qed simp

lemma start_state:
  assumes "get_inst s n \<noteq> None" and "\<not> shutting_down s"
  shows "\<exists>j. get_inst (sup_start env n s) n = Some j \<and> in_state j \<in> {Failed, Active, Activating}"
proof -
  obtain i where "get_inst (fold (stop_conflicting env) (conflicting_with s n) s) n = Some i"
    using get_conflicting_Some [OF assms(1)] by blast
  from start_unit_state [OF this] show ?thesis using assms(2) by (simp add: sup_start_def)
qed

lemma stopped_running_state:
  assumes "in_state i = Activating \<or> in_state i = Active"
  shows "in_state (stopped_inst env c i) = Deactivating \<or> is_idle (in_state (stopped_inst env c i))"
  using assms nonservice_deactivated [of i "e_now env" c]
  by (auto simp: stopped_inst_def entered_deactivating_def)

lemma stop_deadline_killed:
  assumes "get_inst s n = Some i" and "in_state i = Deactivating"
  shows "get_inst (stop_deadline env n s) n = Some (stop_timed_out i)"
  using assms by (auto simp: stop_deadline_def Let_def split: option.splits)

text \<open>What the stop deadline does to the processes of a unit it gives up on.\<close>

lemma stop_deadline_trace:
  assumes "get_inst s n = Some i" and "in_state i = Deactivating"
  shows "\<exists>new. s_trace (stop_deadline env n s) = s_trace s @ new \<and>
     set new = (if has_cgroup s n \<and> e_cgroup_kill env n then {CgroupKilled n} else {})
       \<union> {Killed n pid | pid. in_child i = Some pid \<and> valid_pid pid
            \<and> (\<not> has_cgroup s n \<or> \<not> e_cgroup_kill env n \<or> e_left env n pid)}"
proof -
  have upd: "s_trace (upd_inst n stop_timed_out s) = s_trace s" by (simp add: upd_inst_def)
  show ?thesis
  proof (cases "in_child i")
    case None
    then show ?thesis using assms by (auto simp: stop_deadline_def emit_def upd Let_def)
  next
    case (Some pid)
    then show ?thesis using assms by (auto simp: stop_deadline_def emit_def upd Let_def)
  qed
qed

lemma stop_missed:
  assumes i: "get_inst s n = Some i" and st: "in_state i = Active \<or> in_state i = Activating"
    and sv: "unit_service (in_unit i) \<noteq> None"
  shows "get_inst (sup_stop env n c s) n = Some (entered_deactivating c i)
    \<and> StopTimeout n \<in> pending_alarms (s_timers (sup_stop env n c s))"
  using assms stop_arms [OF i sv st, of env c]
  by (auto simp: stop_self stopped_inst_def alarms_def)

section \<open>Properties\<close>

text \<open>Nothing waits without a deadline.  After any events on a machine just loaded, a unit
  that waits to restart, is activating, is deactivating and not yet killed, or is an active
  notify service with a watchdog, has the alarm of that state among the pending ones,
  provided the timer descriptor could always be armed.\<close>

theorem nothing_waits_without_deadline:
  assumes "list_all (\<lambda>(env, ev). e_settime env) evs"
    and "get_inst (run_events evs (sup_load env0 l hostname src ts cg)) n = Some i"
    and "deadline_of n i = Some a"
  shows "a \<in> pending_alarms (s_timers (run_events evs (sup_load env0 l hostname src ts cg)))"
proof -
  let ?t = "run_events evs (sup_load env0 l hostname src ts cg)"
  have "guarded {} ?t" by (rule run_guarded [OF assms(1) fresh_guarded [OF fresh_load]])
  then have "covered (alarms ?t) n i" using assms(2) by (simp add: guarded_def cov_but_def)
  then show ?thesis using assms(3) by (simp add: covered_deadline alarms_def)
qed

theorem nothing_waits_without_deadline_witness:
  "StartTimeout ''s'' \<in> pending_alarms (s_timers (run_events
     [(sample_env, EvRequest (sample_loaded Oneshot Always) RReload),
      (sample_env, EvRequest (sample_loaded Oneshot Always) (RStart ''s''))] sample_empty))"
proof -
  let ?evs = "[(sample_env, EvRequest (sample_loaded Oneshot Always) RReload),
      (sample_env, EvRequest (sample_loaded Oneshot Always) (RStart ''s''))]"
  let ?i = "entered_activating 7 (inst_new (sample_unit Oneshot Always))"
  have u: "in_unit (inst_new (sample_unit Oneshot Always)) = sample_unit Oneshot Always" by (simp add: inst_new_def)
  have "get_inst (run_events ?evs sample_empty) ''s'' = Some ?i"
    using sample_start [OF u, of "[]"]
    by (simp add: run_events_def handle_event_def sample_reloaded)
      (simp add: handle_def sample_sup_def get_inst_def shutting_down_def)
  moreover have "list_all (\<lambda>(env, ev). e_settime env) ?evs" by (simp add: sample_env_def)
  ultimately show ?thesis
    using nothing_waits_without_deadline [of ?evs sample_env "\<lparr>l_units = [], l_errors = []\<rparr>" "''h''"
        sample_source timers_new "\<lparr>cg_hierarchy = False, cg_handles = []\<rparr>" "''s''" ?i "StartTimeout ''s''"]
    by (simp add: sample_empty_def [symmetric] deadline_of_def)
qed

text \<open>C16.  A deadline moves the unit on.  Handling the alarm its state waits for takes a unit
  that waits to restart (which no unit does during a shutdown) to active, activating or
  failed; it starts the stop of a service that is still activating, or active without a sign
  of life for its watchdog's limit, with the stop's own deadline pending, and sets the next
  check of an active one that did report; and it kills what a service that does not stop has
  left: its cgroup, and its main process where there is no cgroup, the kill of the cgroup
  fails or the process has left it.  That last one does not end the state: the service is
  marked as killed and stays deactivating until its end is seen.\<close>

theorem deadline_moves_on:
  fixes a env i n s
  assumes "get_inst s n = Some i" and "deadline_of n i = Some a"
    and "\<not> (in_state i = Restarting \<and> shutting_down s)"
  defines "t \<equiv> dispatch env a s"
  defines "missed \<equiv> \<lambda>j. in_state j = Deactivating \<and> in_stop_cause j = Some WatchdogMissed
      \<and> StopTimeout n \<in> pending_alarms (s_timers t)"
  shows "\<exists>j. get_inst t n = Some j \<and>
    (case in_state i of
       Restarting \<Rightarrow> in_state j \<in> {Active, Activating, Failed}
     | Activating \<Rightarrow> if unit_service (in_unit i) = None then is_idle (in_state j) else missed j
     | Active \<Rightarrow> (case Option.bind (unit_service (in_unit i)) sv_watchdog_sec of
           None \<Rightarrow> False
         | Some limit \<Rightarrow> if watchdog_expired (e_now env) limit i then missed j
             else j = i \<and> WatchdogCheck n \<in> pending_alarms (s_timers t))
     | Deactivating \<Rightarrow> j = stop_timed_out i \<and> (\<exists>new. s_trace t = s_trace s @ new \<and>
         set new = (if has_cgroup s n \<and> e_cgroup_kill env n then {CgroupKilled n} else {})
           \<union> {Killed n pid | pid. in_child i = Some pid \<and> valid_pid pid
                \<and> (\<not> has_cgroup s n \<or> \<not> e_cgroup_kill env n \<or> e_left env n pid)})
     | _ \<Rightarrow> False)"
proof (cases "in_state i")
  case Restarting
  then show ?thesis
    using assms(1-3) start_state [of s n env] by (auto simp: t_def deadline_of_def dispatch_def)
next
  case Activating
  then have t: "t = sup_stop env n WatchdogMissed s"
    using assms(1,2) by (auto simp: t_def deadline_of_def dispatch_def start_timed_out_def)
  show ?thesis
  proof (cases "unit_service (in_unit i) = None")
    case True
    then show ?thesis
      using assms(1) Activating nonservice_deactivated [OF True] by (simp add: t stop_self stopped_inst_def)
  next
    case False
    then show ?thesis
      using stop_missed [OF assms(1) _ False] Activating by (auto simp: t missed_def entered_deactivating_def)
  qed
next
  case Active
  then obtain limit where l: "Option.bind (unit_service (in_unit i)) sv_watchdog_sec = Some limit"
      "a = WatchdogCheck n"
    using assms(2) by (auto simp: deadline_of_def watched_def split: if_splits)
  then have sv: "unit_service (in_unit i) \<noteq> None" by (cases "unit_service (in_unit i)") simp_all
  have t: "t = (if watchdog_expired (e_now env) limit i then sup_stop env n WatchdogMissed s
      else arm_watchdog env n limit s)"
    using assms(1) l Active by (simp add: t_def dispatch_def check_watchdog_def)
  show ?thesis
    using stop_missed [OF assms(1) _ sv, of env WatchdogMissed] Active assms(1) l(1)
    by (auto simp: t missed_def entered_deactivating_def arm_watchdog_def sched_def get_inst_def)
next
  case Deactivating
  then have t: "t = stop_deadline env n s"
    using assms(2) by (auto simp: t_def deadline_of_def dispatch_def split: if_splits)
  show ?thesis
    using Deactivating stop_deadline_killed [OF assms(1), of env] stop_deadline_trace [OF assms(1), of env]
    by (simp add: t)
qed (use assms(2) in \<open>simp_all add: deadline_of_def\<close>)

text \<open>The three kinds of deadline, on a service with no cgroup whose main process is 7.\<close>

theorem deadline_moves_on_witness:
  "\<exists>j. get_inst (dispatch sample_env (StopTimeout ''s'')
      (sample_sup (entered_deactivating Requested (sample_running Simple Always)))) ''s'' = Some j
    \<and> in_killed j \<and> Killed ''s'' 7 \<in> set (s_trace (dispatch sample_env (StopTimeout ''s'')
      (sample_sup (entered_deactivating Requested (sample_running Simple Always)))))"
proof -
  let ?i = "entered_deactivating Requested (sample_running Simple Always)"
  have g: "get_inst (sample_sup ?i) ''s'' = Some ?i" by (simp add: sample_sup_def get_inst_def)
  have c: "\<not> has_cgroup (sample_sup ?i) ''s''" "in_child ?i = Some 7" "in_state ?i = Deactivating"
    by (simp_all add: has_cgroup_def sample_sup_def sample_running_def inst_op_defs)
  have d: "deadline_of ''s'' ?i = Some (StopTimeout ''s'')" "\<not> (in_state ?i = Restarting \<and> shutting_down (sample_sup ?i))"
    by (simp_all add: deadline_of_def entered_deactivating_def)
  let ?t = "dispatch sample_env (StopTimeout ''s'') (sample_sup ?i)"
  from deadline_moves_on [OF g d, of sample_env] obtain new where
    j: "get_inst ?t ''s'' = Some (stop_timed_out ?i)" and new: "s_trace ?t = s_trace (sample_sup ?i) @ new"
      "Killed ''s'' 7 \<in> set new"
    unfolding c(3) state.case using c(1,2) by (auto simp: valid_pid_def)
  then show ?thesis by (simp add: stop_timed_out_def)
qed

end
