(* ===== verification/SupervisorQueue.thy ===== *)
theory SupervisorQueue
  imports SupervisorDeadlines
begin

text \<open>
  The start queue.  What \<open>pump\<close> leaves behind, and what booting a resolved set of units does:
  every unit of the plan is started, has failed, or waits for one that is still activating.
\<close>

section \<open>The units stay\<close>

definition unit_of :: "sup \<Rightarrow> string \<Rightarrow> oxunit option" where
  "unit_of s n = map_option in_unit (get_inst s n)"

lemma unit_of_upd: "(\<And>i. in_unit (f i) = in_unit i) \<Longrightarrow> unit_of (upd_inst n f s) = unit_of s"
  by (auto simp: unit_of_def fun_eq_iff option.map_comp comp_def)

lemma unit_of_cong: "get_inst t = get_inst s \<Longrightarrow> unit_of t = unit_of s"
  by (simp add: unit_of_def fun_eq_iff)

lemma unit_of_upd_simps [simp]:
  "unit_of (upd_inst n failed_to_start s) = unit_of s"
  "unit_of (upd_inst n (entered_active now) s) = unit_of s"
  "unit_of (upd_inst n (entered_activating p) s) = unit_of s"
  by (simp_all add: unit_of_upd)

lemma unit_of_get_simps [simp]:
  "unit_of (sched env d a s) = unit_of s" "unit_of (emit es s) = unit_of s"
  "unit_of (dequeue n s) = unit_of s" "unit_of (sup_arm env n nx s) = unit_of s"
  by (rule unit_of_cong, simp)+

lemma unit_of_start_unit [simp]: "unit_of (start_unit env n s) = unit_of s"
  by (auto simp: start_unit_def start_service_def Let_def split: option.splits kind.splits sum.splits)

section \<open>A plan being started\<close>

text \<open>\<open>ord\<close> is the order of a plan of \<open>us\<close>.\<close>

definition plan_ok :: "units \<Rightarrow> string list \<Rightarrow> bool" where
  "plan_ok us ord \<longleftrightarrow> distinct ord \<and> (\<forall>n \<in> set ord. bget us n \<noteq> None)
    \<and> (\<forall>a \<in> set ord. \<forall>u. bget us a = Some u \<longrightarrow> set (conflicts (u_deps u)) \<inter> set ord = {})
    \<and> topological (order_edges us (set ord)) ord"

lemma resolve_plan_ok:
  assumes "resolve us = Some (Inr p)" shows "plan_ok us (p_order p)"
proof -
  have r: "resolve_from us DEFAULT_UNIT = Some (Inr p)" using assms by (simp add: resolve_def)
  then have st: "startable us DEFAULT_UNIT" using resolve_from_accepts by blast
  from r show ?thesis
  proof (rule resolve_from_Inr)
    fix wanted w
    assume reach: "reachable us DEFAULT_UNIT [] = Inr (wanted, w)"
      and t: "topological_order us wanted w = Some (Inr (p_order p, p_warnings p))"
    note wanted = reachable_set [OF reach]
    note top = topological_order_Inr [OF wanted(2) t]
    have pulled: "set (p_order p) = pulled us DEFAULT_UNIT" using top(3) wanted(1) by simp
    have known: "bget us a \<noteq> None" if "a \<in> pulled us DEFAULT_UNIT" for a
    proof -
      have "(pulls us)\<^sup>*\<^sup>* DEFAULT_UNIT a" using that by (simp add: pulled_def)
      then show ?thesis
        by (cases rule: rtranclp.cases) (use st in \<open>auto simp: startable_def pulls_def\<close>)
    qed
    have "topological (order_edges us (set (p_order p))) (p_order p)"
      using top(4) pulled wanted(1) by simp
    moreover have "\<forall>a \<in> set (p_order p). \<forall>u. bget us a = Some u \<longrightarrow>
        set (conflicts (u_deps u)) \<inter> set (p_order p) = {}"
      using st by (simp add: pulled startable_def)
    ultimately show ?thesis using top(2) known by (simp add: plan_ok_def pulled)
  qed
qed

text \<open>What a unit of the plan is after stands before it.\<close>

lemma plan_after:
  assumes "plan_ok us ord" and "ord = pre @ n # post" and "bget us n = Some u"
    and "d \<in> set (after (u_deps u))" and "d \<in> set ord"
  shows "d \<in> set pre"
proof -
  have "bget us d \<noteq> None" using assms(1,5) by (simp add: plan_ok_def)
  then have "(d, n) \<in> order_edges us (set ord)"
    using assms(2-5) by (auto simp: order_edges_def precedes_def)
  moreover have "ord ! length pre = n" "length pre < length ord" using assms(2) by simp_all
  ultimately have "d \<in> set (take (length pre) ord)" using assms(1) by (auto simp: plan_ok_def topological_def)
  then show ?thesis using assms(2) by simp
qed

definition settled_start :: "state \<Rightarrow> bool" where
  "settled_start st \<longleftrightarrow> st \<in> {Active, Activating, Failed}"

definition booting :: "units \<Rightarrow> string list \<Rightarrow> sup \<Rightarrow> bool" where
  "booting us ord s \<longleftrightarrow> \<not> shutting_down s \<and> (\<forall>n. unit_of s n = bget us n)
    \<and> (\<exists>P. s_pending s = filter P ord)
    \<and> (\<forall>n i. get_inst s n = Some i \<longrightarrow> n \<notin> set ord \<longrightarrow> is_idle (in_state i))
    \<and> (\<forall>n i. get_inst s n = Some i \<longrightarrow> n \<in> set ord \<longrightarrow> n \<in> set (s_pending s) \<or> settled_start (in_state i))"

lemma fold_conflicting_set:
  "set (fold (\<lambda>(m, i) names. if n \<in> set (conflicts (u_deps (in_unit i))) \<and> m \<notin> set names
       then names @ [m] else names) xs names)
     = set names \<union> {m. \<exists>i. (m, i) \<in> set xs \<and> n \<in> set (conflicts (u_deps (in_unit i)))}"
proof (induction xs arbitrary: names)
  case (Cons x xs)
  obtain m i where x: "x = (m, i)" by (cases x)
  show ?case
    by (cases "n \<in> set (conflicts (u_deps (in_unit i))) \<and> m \<notin> set names")
      (auto simp: x Cons)
qed simp

lemma booting_unit:
  assumes "booting us ord s" and "bget us n = Some u"
  shows "\<exists>i. get_inst s n = Some i \<and> in_unit i = u"
proof -
  have "unit_of s n = Some u" using assms by (simp add: booting_def)
  then show ?thesis by (auto simp: unit_of_def)
qed

text \<open>Conflicts are symmetric: those the unit declares and those that declare the unit.\<close>

lemma conflicting_set:
  "set (conflicting_with s n) =
     (case unit_of s n of None \<Rightarrow> {} | Some u \<Rightarrow> set (conflicts (u_deps u)))
     \<union> {m. \<exists>i. (m, i) \<in> set (s_instances s) \<and> n \<in> set (conflicts (u_deps (in_unit i)))}"
  unfolding conflicting_with_def fold_conflicting_set
  by (simp add: unit_of_def split: option.split)

lemma stop_conflicting_idle: "(\<And>i. get_inst s n = Some i \<Longrightarrow> is_idle (in_state i)) \<Longrightarrow> stop_conflicting env n s = s"
  by (auto simp: stop_conflicting_def split: option.splits)

lemma fold_fixed: "(\<And>x. x \<in> set xs \<Longrightarrow> f x s = s) \<Longrightarrow> fold f xs s = s"
  by (induction xs) simp_all

text \<open>Starting a unit of the plan stops nothing.\<close>

lemma booting_start:
  assumes sd: "\<not> shutting_down s" and us: "\<And>m. unit_of s m = bget us m"
    and idle: "\<And>m i. get_inst s m = Some i \<Longrightarrow> m \<notin> set ord \<Longrightarrow> is_idle (in_state i)"
    and p: "plan_ok us ord" and k: "well_keyed s" and n: "n \<in> set ord"
  shows "sup_start env n s = start_unit env n s"
proof -
  have "stop_conflicting env other s = s" if o: "other \<in> set (conflicting_with s n)" for other
  proof (rule stop_conflicting_idle)
    fix i
    assume i: "get_inst s other = Some i"
    have u: "bget us other = Some (in_unit i)" using i us [of other] by (simp add: unit_of_def)
    have free: "\<And>a u. a \<in> set ord \<Longrightarrow> bget us a = Some u \<Longrightarrow> set (conflicts (u_deps u)) \<inter> set ord = {}"
      using p by (simp add: plan_ok_def)
    have "other \<notin> set ord"
    proof (cases "\<exists>j. (other, j) \<in> set (s_instances s) \<and> n \<in> set (conflicts (u_deps (in_unit j)))")
      case True
      then obtain j where j: "(other, j) \<in> set (s_instances s)" "n \<in> set (conflicts (u_deps (in_unit j)))" by blast
      then have "i = j"
        using i k bget_Some_set [of "s_instances s" other j] by (simp add: well_keyed_def get_inst_def)
      then show ?thesis using free [OF _ u] j(2) n by blast
    next
      case False
      then obtain v where v: "unit_of s n = Some v" "other \<in> set (conflicts (u_deps v))"
        using o by (auto simp: conflicting_set split: option.splits)
      have "bget us n = Some v" using v(1) us by simp
      from free [OF n this] v(2) show ?thesis by blast
    qed
    then show "is_idle (in_state i)" using idle [OF i] by blast
  qed
  then have "fold (stop_conflicting env) (conflicting_with s n) s = s" by (rule fold_fixed)
  then show ?thesis using sd by (simp add: sup_start_def)
qed

lemma booting_change:
  assumes b: "booting us ord s" and "n \<in> set ord" and other: "\<And>m. m \<noteq> n \<Longrightarrow> get_inst t m = get_inst s m"
    and self: "\<And>j. get_inst t n = Some j \<Longrightarrow> settled_start (in_state j)"
    and u: "unit_of t = unit_of s" and q: "s_pending t = filter (\<lambda>m. m \<noteq> n) (s_pending s)"
    and sd: "s_shutdown t = s_shutdown s"
  shows "booting us ord t"
  unfolding booting_def
proof (intro conjI allI impI)
  show "\<not> shutting_down t" using b sd by (simp add: booting_def shutting_down_def)
  show "unit_of t m = bget us m" for m using b u by (simp add: booting_def)
  obtain P where "s_pending s = filter P ord" using b by (auto simp: booting_def)
  then have "s_pending t = filter (\<lambda>m. P m \<and> m \<noteq> n) ord" using q by simp
  then show "\<exists>P. s_pending t = filter P ord" by blast
next
  fix m i assume m: "get_inst t m = Some i" "m \<notin> set ord"
  then have "get_inst s m = Some i" using other assms(2) by (cases "m = n") auto
  then show "is_idle (in_state i)" using b m(2) by (simp add: booting_def)
next
  fix m i assume m: "get_inst t m = Some i" "m \<in> set ord"
  show "m \<in> set (s_pending t) \<or> settled_start (in_state i)"
  proof (cases "m = n")
    case True
    then show ?thesis using self m(1) by simp
  next
    case False
    then have "get_inst s m = Some i" using other m(1) by simp
    then show ?thesis using b m(2) False q by (simp add: booting_def)
  qed
qed

lemma start_unit_other [simp]: "m \<noteq> n \<Longrightarrow> get_inst (start_unit env n s) m = get_inst s m"
  by (auto simp: start_unit_def split: option.splits kind.splits)

lemma start_unit_settled:
  assumes "get_inst (start_unit env n s) n = Some j" shows "settled_start (in_state j)"
proof (cases "get_inst s n")
  case None
  then show ?thesis using assms by (simp add: start_unit_def)
next
  case (Some i)
  then show ?thesis using start_unit_state [OF Some, of env] assms by (auto simp: settled_start_def)
qed

lemma well_keyed_cong: "s_instances t = s_instances s \<Longrightarrow> well_keyed t = well_keyed s"
  by (simp add: well_keyed_def)

lemma booting_pump_loop:
  assumes "plan_ok us ord"
  shows "booting us ord s \<Longrightarrow> well_keyed s \<Longrightarrow> booting us ord (pump_loop env s)"
proof (induction env s rule: pump_loop.induct)
  case (1 env s)
  show ?case
  proof (cases "next_startable s")
    case None
    then show ?thesis using "1.prems" by (subst pump_loop.simps) simp
  next
    case (Some n)
    have "n \<in> set (s_pending s)" using Some find_Some_mem by (fastforce simp: next_startable_def)
    then have n: "n \<in> set ord" using "1.prems"(1) by (auto simp: booting_def)
    let ?d = "dequeue n s"
    have pend: "s_pending ?d = filter (\<lambda>m. m \<noteq> n) (s_pending s)" by (simp add: dequeue_def)
    have failed: "booting us ord (upd_inst n failed_to_start ?d)"
      by (rule booting_change [OF "1.prems"(1) n]) (auto simp: settled_start_def pend)
    have started: "booting us ord (start_unit env n ?d)"
      by (rule booting_change [OF "1.prems"(1) n]) (simp_all add: start_unit_settled pend)
    have same: "sup_start env n ?d = start_unit env n ?d"
    proof (rule booting_start [OF _ _ _ assms _ n])
      show "\<not> shutting_down ?d" using "1.prems"(1) by (simp add: booting_def shutting_down_def)
      show "unit_of ?d m = bget us m" for m using "1.prems"(1) by (simp add: booting_def)
      show "is_idle (in_state i)" if "get_inst ?d m = Some i" "m \<notin> set ord" for m i
        using "1.prems"(1) that by (simp add: booting_def)
      show "well_keyed ?d" using "1.prems"(2) by (simp add: well_keyed_ikeys [of ?d s])
    qed
    have k: "well_keyed (upd_inst n failed_to_start ?d)" "well_keyed (sup_start env n ?d)"
      using "1.prems"(2) well_keyed_ikeys [of "upd_inst n failed_to_start ?d" s]
        well_keyed_ikeys [of "sup_start env n ?d" s] by simp_all
    show ?thesis
    proof (cases "failed_requirement ?d n = None")
      case True
      have "booting us ord (pump_loop env (sup_start env n ?d))"
        by (rule "1.IH"(2) [OF Some]) (use True started same k in simp_all)
      then show ?thesis using Some True by (subst pump_loop.simps) simp
    next
      case False
      have "booting us ord (pump_loop env (upd_inst n failed_to_start ?d))"
        by (rule "1.IH"(1) [OF Some False failed k(1)])
      then show ?thesis using Some False by (subst pump_loop.simps) simp
    qed
  qed
qed

lemma pump_loop_done: "next_startable (pump_loop env s) = None"
proof (induction env s rule: pump_loop.induct)
  case (1 env s)
  then show ?case by (subst pump_loop.simps) (auto split: option.split)
qed

text \<open>The queue cannot strand itself: its first unit waits for one that is activating.\<close>

lemma booting_head:
  assumes p: "plan_ok us ord" and b: "booting us ord s" and nxt: "next_startable s = None"
    and q: "s_pending s = n # ns"
  shows "\<exists>u d i. bget us n = Some u \<and> d \<in> set (after (u_deps u)) \<and> get_inst s d = Some i
      \<and> in_state i = Activating"
proof -
  obtain P where P: "s_pending s = filter P ord" using b by (auto simp: booting_def)
  then obtain pre post where o: "ord = pre @ n # post" and pre: "\<forall>x \<in> set pre. \<not> P x"
    using q by (metis Cons_eq_filterD)
  have nord: "n \<in> set ord" using o by simp
  then obtain u where u: "bget us n = Some u" using p by (auto simp: plan_ok_def)
  then obtain i where i: "get_inst s n = Some i" "in_unit i = u" using booting_unit [OF b] by blast
  have "\<not> ordering_satisfied s n" using nxt q by (auto simp: next_startable_def split: if_splits)
  then obtain d where d: "d \<in> set (after (u_deps u))"
    and w: "d \<in> set (s_pending s) \<or> (\<exists>j. get_inst s d = Some j \<and> in_state j = Activating)"
    using i by (auto simp: ordering_satisfied_def list_all_iff split: option.splits)
  have "d \<notin> set (s_pending s)"
  proof
    assume dp: "d \<in> set (s_pending s)"
    then have "d \<in> set ord" "P d" using P by simp_all
    from plan_after [OF p o u d this(1)] pre this(2) show False by blast
  qed
  then show ?thesis using u d w by blast
qed

section \<open>Booting\<close>

lemma fold_add_get:
  assumes "distinct (map fst us)"
  shows "get_inst (fold (add_instance env) us s) n =
     (case map_of us n of None \<Rightarrow> get_inst s n | Some u \<Rightarrow> Some (inst_new u))"
  using assms
proof (induction us arbitrary: s)
  case (Cons nu us)
  obtain m u where nu: "nu = (m, u)" by (cases nu)
  have "get_inst (add_instance env nu s) n = (if n = m then Some (inst_new u) else get_inst s n)"
    by (simp add: add_instance_def nu get_inst_def)
  moreover have "map_of us m = None" using Cons.prems by (simp add: nu map_of_eq_None_iff)
  ultimately show ?case using Cons by (auto simp: nu split: option.splits)
qed simp

lemma add_fields [simp]:
  "s_order (fold (add_instance env) us s) = s_order s" "s_shutdown (fold (add_instance env) us s) = s_shutdown s"
  "s_order (fold (bind_unit env' us') ns s) = s_order s" "s_shutdown (fold (bind_unit env' us') ns s) = s_shutdown s"
  "get_inst (fold (bind_unit env' us') ns s) = get_inst s"
proof -
  show "s_order (fold (add_instance env) us s) = s_order s"
    by (induction us arbitrary: s) (auto simp: add_instance_def split: prod.splits)
  show "s_shutdown (fold (add_instance env) us s) = s_shutdown s"
    by (induction us arbitrary: s) (auto simp: add_instance_def split: prod.splits)
  show "s_order (fold (bind_unit env' us') ns s) = s_order s"
    by (induction ns arbitrary: s) (auto simp: bind_unit_def split: option.splits)
  show "s_shutdown (fold (bind_unit env' us') ns s) = s_shutdown s"
    by (induction ns arbitrary: s) (auto simp: bind_unit_def split: option.splits)
  show "get_inst (fold (bind_unit env' us') ns s) = get_inst s"
    by (induction ns arbitrary: s) (auto simp: bind_unit_def get_inst_def fun_eq_iff split: option.splits)
qed

lemma load_facts:
  assumes "bmap_ok (l_units l)" and "resolve (l_units l) = Some (Inr p)"
  shows "s_order (sup_load env l hostname src ts cg) = p_order p"
    and "get_inst (sup_load env l hostname src ts cg) n = map_option inst_new (bget (l_units l) n)"
proof -
  have ne: "l_units l \<noteq> []"
    using assms(2) resolve_plan_ok [OF assms(2)]
    by (auto simp: resolve_def resolve_from_def)
  have d: "distinct (map fst (l_units l))" using assms(1) by (rule bmap_ok_distinct)
  show "s_order (sup_load env l hostname src ts cg) = p_order p"
    using ne assms(2) by (simp add: sup_load_def Let_def)
  show "get_inst (sup_load env l hostname src ts cg) n = map_option inst_new (bget (l_units l) n)"
    using ne assms(2)
    by (simp add: sup_load_def Let_def fold_add_get [OF d]) (simp add: get_inst_def split: option.split)
qed

lemma booting_load:
  fixes env hostname src ts cg
  assumes ok: "bmap_ok (l_units l)" and r: "resolve (l_units l) = Some (Inr p)"
  defines "s \<equiv> sup_load env l hostname src ts cg"
  shows "booting (l_units l) (p_order p) (s\<lparr>s_pending := s_order s\<rparr>)"
proof -
  have i: "get_inst s n = map_option inst_new (bget (l_units l) n)" for n
    unfolding s_def by (rule load_facts(2) [OF ok r])
  have o: "s_order s = p_order p" unfolding s_def by (rule load_facts(1) [OF ok r])
  have sd: "s_shutdown s = None" using fresh_load by (simp add: s_def fresh_def)
  have "\<exists>P. p_order p = filter P (p_order p)" by (rule exI [of _ "\<lambda>_. True"]) simp
  then show ?thesis
    using i o sd
    by (auto simp: booting_def unit_of_def shutting_down_def inst_new_def is_idle_def option.map_comp comp_def
        option.map_ident)
qed

text \<open>C17.  Booting starts the plan.  After \<open>start_all\<close> on a machine just loaded, every unit of
  the plan is active, activating or failed, or still queued; the first one queued is after
  a unit that is activating, so the queue never strands itself; and no other unit has been
  started.  The plan is that of the units that did load: files that failed to load are
  reported and left out, and make no difference to what is started, although
  \<open>docs/UNIT_FORMAT.md\<close> and \<open>SECURITY.md\<close> say that a load error stops the start.\<close>

theorem boot_starts_the_plan:
  fixes env env0 hostname src ts cg
  assumes "bmap_ok (l_units l)" and "resolve (l_units l) = Some (Inr p)"
  defines "t \<equiv> start_all env (sup_load env0 l hostname src ts cg)"
  shows "(\<forall>n \<in> set (p_order p). n \<in> set (s_pending t) \<or>
      (\<exists>i. get_inst t n = Some i \<and> in_state i \<in> {Active, Activating, Failed}))
    \<and> (\<forall>n ns. s_pending t = n # ns \<longrightarrow> (\<exists>u d i. bget (l_units l) n = Some u \<and> d \<in> set (after (u_deps u))
         \<and> get_inst t d = Some i \<and> in_state i = Activating))
    \<and> (\<forall>n i. n \<notin> set (p_order p) \<longrightarrow> get_inst t n = Some i \<longrightarrow> in_state i \<in> {Inactive, Failed})
    \<and> (\<forall>es. start_all env (sup_load env0 (l\<lparr>l_errors := es\<rparr>) hostname src ts cg) = t)"
proof -
  let ?s = "sup_load env0 l hostname src ts cg"
  let ?q = "?s\<lparr>s_pending := s_order ?s\<rparr>"
  note p = resolve_plan_ok [OF assms(2)]
  note b = booting_load [OF assms(1,2), of env0 hostname src ts cg]
  have k: "well_keyed ?q" using fresh_load [of env0 l hostname src ts cg] by (simp add: fresh_def well_keyed_def)
  have t: "t = pump_loop env ?q" using b by (simp add: t_def start_all_def pump_def booting_def)
  have bt: "booting (l_units l) (p_order p) t" using booting_pump_loop [OF p b k] t by simp
  have "n \<in> set (s_pending t) \<or> (\<exists>i. get_inst t n = Some i \<and> in_state i \<in> {Active, Activating, Failed})"
    if n: "n \<in> set (p_order p)" for n
  proof -
    obtain u where "bget (l_units l) n = Some u" using p n by (auto simp: plan_ok_def)
    then obtain i where i: "get_inst t n = Some i" using booting_unit [OF bt] by blast
    then show ?thesis using bt n by (auto simp: booting_def settled_start_def)
  qed
  moreover have "next_startable t = None" using t pump_loop_done by simp
  from booting_head [OF p bt this]
  have "\<forall>n ns. s_pending t = n # ns \<longrightarrow> (\<exists>u d i. bget (l_units l) n = Some u \<and> d \<in> set (after (u_deps u))
         \<and> get_inst t d = Some i \<and> in_state i = Activating)" by blast
  moreover have "\<forall>n i. n \<notin> set (p_order p) \<longrightarrow> get_inst t n = Some i \<longrightarrow> in_state i \<in> {Inactive, Failed}"
    using bt by (auto simp: booting_def is_idle_def)
  moreover have "\<forall>es. start_all env (sup_load env0 (l\<lparr>l_errors := es\<rparr>) hostname src ts cg) = t"
    by (simp add: t_def sup_load_def Let_def)
  ultimately show ?thesis by blast
qed

theorem boot_starts_the_plan_witness:
  "list_all (\<lambda>n. n \<in> set (s_pending (start_all sample_env (sup_load sample_env
       \<lparr>l_units = sample_ordered, l_errors = []\<rparr> ''h'' sample_source timers_new \<lparr>cg_hierarchy = False, cg_handles = []\<rparr>)))
    \<or> (\<exists>i. get_inst (start_all sample_env (sup_load sample_env
       \<lparr>l_units = sample_ordered, l_errors = []\<rparr> ''h'' sample_source timers_new \<lparr>cg_hierarchy = False, cg_handles = []\<rparr>)) n
         = Some i \<and> in_state i \<in> {Active, Activating, Failed})) [''b'', ''a'', ''default'']"
proof -
  let ?l = "\<lparr>l_units = sample_ordered, l_errors = []\<rparr>"
  have k: "bmap_ok (l_units ?l)" by (simp add: sample_ordered_def bmap_ok_Cons less_list_code)
  have r: "resolve (l_units ?l) =
     Some (Inr \<lparr>p_order = [''b'', ''a'', ''default''], p_warnings = [MissingWants ''b'' ''x'']\<rparr>)"
    using sample_ordered_resolve by (simp add: resolve_def DEFAULT_UNIT_def)
  show ?thesis
    using boot_starts_the_plan [OF k r, of sample_env sample_env "''h''" sample_source timers_new
        "\<lparr>cg_hierarchy = False, cg_handles = []\<rparr>"] by simp
qed

end
