(* ===== verification/Users.thy ===== *)
theory Users
  imports Text
begin

text \<open>
  Accounts: \<open>crates/oxinit-user/src/lib.rs\<close>.  The texts of \<open>/etc/passwd\<close> and \<open>/etc/group\<close> are
  arguments; reading them is the caller's, and may fail.
\<close>

definition ROOT :: string where "ROOT = ''root''"
definition PASSWD_PATH :: string where "PASSWD_PATH = ''/etc/passwd''"
definition GROUP_PATH :: string where "GROUP_PATH = ''/etc/group''"

datatype user_error =
    UnknownUser string
  | MalformedUser string
  | ReadUser string

record identity =
  id_name :: string
  id_uid :: nat
  id_gid :: nat
  id_groups :: "nat list"

definition is_root :: "identity \<Rightarrow> bool" where
  "is_root i \<longleftrightarrow> id_uid i = 0"

definition fields :: "string \<Rightarrow> string list option" where
  "fields raw =
     (let line = trim raw in
      if line = [] \<or> take 1 line = ''#'' then None
      else let fs = split_on (CHR '':'') line in
           if length fs < 4 then None else Some fs)"

definition entries_of :: "string \<Rightarrow> string list list" where
  "entries_of contents = List.map_filter fields (text_lines contents)"

text \<open>\<open>fields.get(i).and_then(|v| v.parse().ok())\<close>.\<close>

definition number_at :: "nat \<Rightarrow> string list \<Rightarrow> nat option" where
  "number_at i fs = (if i < length fs then parse_uint u32_max (fs ! i) else None)"

definition member_of :: "string \<Rightarrow> string list \<Rightarrow> bool" where
  "member_of name fs \<longleftrightarrow> 3 < length fs \<and> name \<in> set (split_on (CHR '','') (fs ! 3))"

text \<open>The loop over the group file.\<close>

fun add_groups :: "string \<Rightarrow> string list list \<Rightarrow> nat list \<Rightarrow> nat list" where
  "add_groups name [] groups = groups"
| "add_groups name (fs # rest) groups =
     (if \<not> member_of name fs then add_groups name rest groups
      else case number_at 2 fs of
        None \<Rightarrow> add_groups name rest groups
      | Some gid \<Rightarrow> add_groups name rest (groups @ [gid]))"

definition resolve_user :: "string \<Rightarrow> string \<Rightarrow> string \<Rightarrow> user_error + identity" where
  "resolve_user name passwd grp =
     (case find (\<lambda>fs. fs \<noteq> [] \<and> hd fs = name) (entries_of passwd) of
        None \<Rightarrow> Inl (UnknownUser name)
      | Some entry \<Rightarrow>
          (case (number_at 2 entry, number_at 3 entry) of
             (Some uid, Some gid) \<Rightarrow>
               Inr \<lparr>id_name = name, id_uid = uid, id_gid = gid,
                    id_groups = remdups_adj (sort (add_groups name (entries_of grp) [gid]))\<rparr>
           | _ \<Rightarrow> Inl (MalformedUser name)))"

text \<open>\<open>resolve_system\<close>: a missing group file counts as empty, a missing passwd file does not.\<close>

definition resolve_system_user :: "(string \<Rightarrow> string option) \<Rightarrow> string \<Rightarrow> user_error + identity" where
  "resolve_system_user rd name =
     (case rd PASSWD_PATH of
        None \<Rightarrow> Inl (ReadUser PASSWD_PATH)
      | Some passwd \<Rightarrow> resolve_user name passwd (case rd GROUP_PATH of None \<Rightarrow> [] | Some g \<Rightarrow> g))"

definition name_of :: "nat \<Rightarrow> string \<Rightarrow> string option" where
  "name_of uid passwd =
     (case find (\<lambda>fs. number_at 2 fs = Some uid) (entries_of passwd) of
        None \<Rightarrow> None
      | Some fs \<Rightarrow> if fs = [] then None else Some (hd fs))"

definition name_of_system :: "(string \<Rightarrow> string option) \<Rightarrow> nat \<Rightarrow> string" where
  "name_of_system rd uid =
     (case name_of uid (case rd PASSWD_PATH of None \<Rightarrow> [] | Some p \<Rightarrow> p) of
        None \<Rightarrow> show_nat uid | Some n \<Rightarrow> n)"

section \<open>The supplementary set\<close>

definition groups_of :: "string \<Rightarrow> string \<Rightarrow> nat set" where
  "groups_of name grp = {gid. \<exists>fs \<in> set (entries_of grp). member_of name fs \<and> number_at 2 fs = Some gid}"

lemma add_groups_set:
  "set (add_groups name es groups) =
     set groups \<union> {gid. \<exists>fs \<in> set es. member_of name fs \<and> number_at 2 fs = Some gid}"
  by (induction name es groups rule: add_groups.induct) (auto split: option.splits)

lemma sorted_dedup_distinct: "sorted (xs :: nat list) \<Longrightarrow> distinct (remdups_adj xs)"
  by (induction xs rule: remdups_adj.induct) (auto simp: order.strict_iff_order)

lemma sort_dedup: "remdups_adj (sort (xs :: nat list)) = sorted_list_of_set (set xs)"
proof (rule sorted_distinct_set_unique)
  show "sorted (remdups_adj (sort xs))" by (simp add: sorted_remdups_adj)
  show "distinct (remdups_adj (sort xs))" by (simp add: sorted_dedup_distinct)
qed simp_all

lemma finite_groups_of: "finite (groups_of name grp)"
proof -
  have "groups_of name grp \<subseteq> set (add_groups name (entries_of grp) [])"
    by (auto simp: groups_of_def add_groups_set)
  then show ?thesis using finite_subset by blast
qed

section \<open>Properties\<close>

text \<open>A user resolves exactly when the first entry of that name in the passwd file has two
  numbers; then its ids are those, and its supplementary set is the primary group and every
  group with a number whose member list holds the whole name, sorted and each once.\<close>

theorem user_resolves_exactly:
  "resolve_user name passwd grp = Inr i \<longleftrightarrow>
     (\<exists>entry uid gid. find (\<lambda>fs. fs \<noteq> [] \<and> hd fs = name) (entries_of passwd) = Some entry
        \<and> number_at 2 entry = Some uid \<and> number_at 3 entry = Some gid
        \<and> i = \<lparr>id_name = name, id_uid = uid, id_gid = gid,
               id_groups = sorted_list_of_set (insert gid (groups_of name grp))\<rparr>)"
  by (auto simp: resolve_user_def sort_dedup add_groups_set groups_of_def split: option.splits)

end
