(* ===== verification/Child.thy ===== *)
theory Child
  imports Users
begin

text \<open>
  What a service's process does between \<open>fork\<close> and \<open>exec\<close>: \<open>crates/oxinit/src/sys/raw.rs\<close>, and
  \<open>duplicate_listen_fds\<close> of \<open>supervisor.rs\<close>, which prepares it.  A descriptor table maps numbers
  to open files with their close-on-exec flag.  Whether the kernel grants a call is a
  parameter that may depend on the state of the process, its privileges low all.
\<close>

section \<open>Descriptors\<close>

record desc =
  ds_object :: string
  ds_cloexec :: bool

type_synonym fdtab = "nat \<Rightarrow> desc option"

definition FIRST_LISTEN_FD :: nat where "FIRST_LISTEN_FD = 3"

text \<open>\<open>dup2\<close>: onto itself it changes nothing, otherwise the copy survives an exec.\<close>

definition dup2 :: "nat \<Rightarrow> nat \<Rightarrow> fdtab \<Rightarrow> fdtab option" where
  "dup2 src dst t =
     (case t src of
        None \<Rightarrow> None
      | Some d \<Rightarrow> Some (if src = dst then t else t(dst \<mapsto> d\<lparr>ds_cloexec := False\<rparr>)))"

text \<open>\<open>fcntl(F_DUPFD_CLOEXEC)\<close>: the lowest free number from \<open>low\<close> on, below the limit.\<close>

definition dupfd_cloexec :: "nat \<Rightarrow> nat \<Rightarrow> nat \<Rightarrow> fdtab \<Rightarrow> (fdtab \<times> nat) option" where
  "dupfd_cloexec limit src low t =
     (case (t src, find (\<lambda>n. t n = None) [low..<limit]) of
        (Some d, Some n) \<Rightarrow> Some (t(n \<mapsto> d\<lparr>ds_cloexec := True\<rparr>), n)
      | _ \<Rightarrow> None)"

fun duplicate_from :: "nat \<Rightarrow> nat \<Rightarrow> nat list \<Rightarrow> fdtab \<Rightarrow> (fdtab \<times> nat list) option" where
  "duplicate_from limit low [] t = Some (t, [])"
| "duplicate_from limit low (fd # fds) t =
     (case dupfd_cloexec limit fd low t of
        None \<Rightarrow> None
      | Some (t1, n) \<Rightarrow>
          (case duplicate_from limit low fds t1 of None \<Rightarrow> None | Some (t2, ns) \<Rightarrow> Some (t2, n # ns)))"

definition duplicate_listen_fds :: "nat \<Rightarrow> nat list \<Rightarrow> fdtab \<Rightarrow> (fdtab \<times> nat list) option" where
  "duplicate_listen_fds limit listen t =
     duplicate_from limit (min (FIRST_LISTEN_FD + length listen) (2 ^ 31 - 1)) listen t"

fun place_from :: "nat \<Rightarrow> nat list \<Rightarrow> fdtab \<Rightarrow> fdtab option" where
  "place_from k [] t = Some t"
| "place_from k (fd # fds) t =
     (case dup2 fd (FIRST_LISTEN_FD + k) t of None \<Rightarrow> None | Some t1 \<Rightarrow> place_from (Suc k) fds t1)"

definition place_descriptors :: "nat list \<Rightarrow> fdtab \<Rightarrow> fdtab option" where
  "place_descriptors fds t = place_from 0 fds t"

definition redirect_output :: "nat \<Rightarrow> fdtab \<Rightarrow> fdtab option" where
  "redirect_output fd t = (case dup2 fd 1 t of None \<Rightarrow> None | Some t1 \<Rightarrow> dup2 fd 2 t1)"

definition after_exec :: "fdtab \<Rightarrow> fdtab" where
  "after_exec t n = (case t n of None \<Rightarrow> None | Some d \<Rightarrow> if ds_cloexec d then None else Some d)"

section \<open>The steps\<close>

record process =
  pr_fds :: fdtab
  pr_blocked :: bool
  pr_session :: bool
  pr_cgroup :: bool
  pr_uid :: nat
  pr_gid :: nat
  pr_groups :: "nat list"

record child_setup =
  cs_procs :: "nat option"
  cs_listen :: "nat list"
  cs_identity :: "identity option"
  cs_output :: "nat option"
  cs_session :: bool

record grants =
  gr_mask :: "process \<Rightarrow> bool"
  gr_session :: "process \<Rightarrow> bool"
  gr_procs :: "process \<Rightarrow> bool"
  gr_setgroups :: "process \<Rightarrow> bool"
  gr_setgid :: "process \<Rightarrow> bool"
  gr_setuid :: "process \<Rightarrow> bool"

definition reset_signal_mask :: "grants \<Rightarrow> process \<Rightarrow> process option" where
  "reset_signal_mask g p = (if gr_mask g p then Some (p\<lparr>pr_blocked := False\<rparr>) else None)"

definition start_session :: "grants \<Rightarrow> process \<Rightarrow> process" where
  "start_session g p = (if gr_session g p then p\<lparr>pr_session := True\<rparr> else p)"

definition join_cgroup :: "grants \<Rightarrow> nat option \<Rightarrow> process \<Rightarrow> process option" where
  "join_cgroup g procs p =
     (case procs of
        None \<Rightarrow> Some p
      | Some fd \<Rightarrow> if pr_fds p fd \<noteq> None \<and> gr_procs g p then Some (p\<lparr>pr_cgroup := True\<rparr>) else None)"

definition drop_privilege :: "grants \<Rightarrow> identity \<Rightarrow> process \<Rightarrow> process option" where
  "drop_privilege g i p =
     (if \<not> gr_setgroups g p then None
      else let p1 = p\<lparr>pr_groups := id_groups i\<rparr> in
        if \<not> gr_setgid g p1 then None
        else let p2 = p1\<lparr>pr_gid := id_gid i\<rparr> in
          if \<not> gr_setuid g p2 then None else Some (p2\<lparr>pr_uid := id_uid i\<rparr>))"

definition with_fds :: "(fdtab \<Rightarrow> fdtab option) \<Rightarrow> process \<Rightarrow> process option" where
  "with_fds f p = map_option (\<lambda>t. p\<lparr>pr_fds := t\<rparr>) (f (pr_fds p))"

text \<open>The hook: each step only if the ones before it succeeded; a session that cannot be started is
  no failure.\<close>

definition setup_child :: "grants \<Rightarrow> child_setup \<Rightarrow> process \<Rightarrow> process option" where
  "setup_child g cs p =
     (case reset_signal_mask g p of None \<Rightarrow> None | Some p1 \<Rightarrow>
      let p2 = (if cs_session cs then start_session g p1 else p1) in
      case join_cgroup g (cs_procs cs) p2 of None \<Rightarrow> None | Some p3 \<Rightarrow>
      case (case cs_output cs of None \<Rightarrow> Some p3 | Some fd \<Rightarrow> with_fds (redirect_output fd) p3) of
        None \<Rightarrow> None | Some p4 \<Rightarrow>
      case with_fds (place_descriptors (cs_listen cs)) p4 of None \<Rightarrow> None | Some p5 \<Rightarrow>
      (case cs_identity cs of None \<Rightarrow> Some p5 | Some i \<Rightarrow> drop_privilege g i p5))"

section \<open>The image\<close>

definition nul :: char where "nul = CHR 0x00"

definition c_string :: "string \<Rightarrow> string option" where
  "c_string bytes = (if nul \<in> set bytes then None else Some (bytes @ [nul]))"

text \<open>What the kernel reads from a C string.\<close>

definition c_read :: "string \<Rightarrow> string" where
  "c_read bytes = takeWhile (\<lambda>c. c \<noteq> nul) bytes"

definition RESERVED :: "string list" where
  "RESERVED = [''LISTEN_FDS'', ''LISTEN_PID'', ''LISTEN_FDNAMES'', ''NOTIFY_SOCKET'', ''WATCHDOG_USEC'']"

definition LISTEN_PID :: string where "LISTEN_PID = ''LISTEN_PID=''"
definition PID_DIGITS :: nat where "PID_DIGITS = 10"

record image =
  im_argv :: "string list"
  im_envp :: "string list"
  im_listen_pid :: "(nat \<times> nat) option"

fun all_some :: "'a option list \<Rightarrow> 'a list option" where
  "all_some [] = Some []"
| "all_some (x # xs) =
     (case x of None \<Rightarrow> None | Some y \<Rightarrow> (case all_some xs of None \<Rightarrow> None | Some ys \<Rightarrow> Some (y # ys)))"

definition kept_vars :: "(string \<times> string) list \<Rightarrow> (string \<times> string) list \<Rightarrow> (string \<times> string) list" where
  "kept_vars own env = filter (\<lambda>(k, v). k \<notin> set RESERVED \<and> k \<notin> fst ` set env) own"

definition entry :: "string \<times> string \<Rightarrow> string" where
  "entry kv = fst kv @ ''='' @ snd kv"

text \<open>\<open>Image::build\<close>; the slot of \<open>LISTEN_PID\<close> is counted from the first variable here.\<close>

definition image_build ::
    "(string \<times> string) list \<Rightarrow> string list \<Rightarrow> (string \<times> string) list \<Rightarrow> bool \<Rightarrow> image option" where
  "image_build own exec env listen =
     (case all_some (map c_string exec) of
        None \<Rightarrow> None
      | Some argv \<Rightarrow>
          if argv = [] then None
          else (case all_some (map (c_string \<circ> entry) (kept_vars own env @ env)) of
                  None \<Rightarrow> None
                | Some vars \<Rightarrow>
                    Some \<lparr>im_argv = argv,
                          im_envp = vars @ (if listen then [LISTEN_PID @ replicate (PID_DIGITS + 1) nul] else []),
                          im_listen_pid = (if listen then Some (length vars, length LISTEN_PID) else None)\<rparr>))"

fun digit_loop :: "nat \<Rightarrow> nat \<Rightarrow> string \<Rightarrow> string \<times> nat" where
  "digit_loop first v digits =
     (if first = 0 then (digits, 0)
      else let f = first - 1; ds = digits[f := digit_char (v mod 10)] in
        if v div 10 = 0 then (ds, f) else digit_loop f (v div 10) ds)"

declare digit_loop.simps [simp del]

fun copy_at :: "nat \<Rightarrow> string \<Rightarrow> string \<Rightarrow> string" where
  "copy_at pos [] e = e[pos := nul]"
| "copy_at pos (b # bs) e = copy_at (Suc pos) bs (e[pos := b])"

text \<open>\<open>write_pid\<close>: a list update past the end changes nothing, as \<open>get_mut\<close> there.\<close>

definition write_pid :: "string \<Rightarrow> nat \<Rightarrow> int \<Rightarrow> string" where
  "write_pid e offset pid =
     (let (digits, first) = digit_loop PID_DIGITS (nat \<bar>pid\<bar>) (replicate PID_DIGITS nul) in
      copy_at offset (drop first digits) e)"

text \<open>What \<open>exec\<close> hands to the kernel in the process with this pid.\<close>

definition image_exec :: "int \<Rightarrow> image \<Rightarrow> string list \<times> string list" where
  "image_exec pid im =
     (let envp = (case im_listen_pid im of
            None \<Rightarrow> im_envp im
          | Some (k, offset) \<Rightarrow> (im_envp im)[k := write_pid (im_envp im ! k) offset pid]) in
      (map c_read (im_argv im), map c_read envp))"

section \<open>The pid in the environment\<close>

lemma length_show_nat: "0 < k \<Longrightarrow> v < 10 ^ k \<Longrightarrow> length (show_nat v) \<le> k"
proof (induction k arbitrary: v)
  case (Suc k)
  show ?case
  proof (cases "v < 10")
    case True
    then show ?thesis by (simp add: show_nat.simps [of v])
  next
    case False
    then have "v div 10 < 10 ^ k" "0 < k"
      using Suc.prems by (auto simp: less_mult_imp_div_less intro: ccontr)
    from Suc.IH [OF this(2,1)] show ?thesis using False by (simp add: show_nat.simps [of v])
  qed
qed simp

lemma digit_loop_writes:
  "length (show_nat v) \<le> first \<Longrightarrow> first \<le> length ds \<Longrightarrow>
     digit_loop first v ds =
       (take (first - length (show_nat v)) ds @ show_nat v @ drop first ds, first - length (show_nat v))"
proof (induction first v ds rule: digit_loop.induct)
  case (1 first v ds)
  have pos: "0 < first" using 1(2) by (cases "show_nat v") auto
  define f where "f = first - 1"
  have f: "first = Suc f" "f < length ds" using pos 1(3) by (auto simp: f_def)
  let ?ds = "ds[f := digit_char (v mod 10)]"
  have dsf: "?ds = take f ds @ digit_char (v mod 10) # drop first ds"
    using f by (simp add: upd_conv_take_nth_drop)
  have dropf: "drop f ?ds = digit_char (v mod 10) # drop first ds" unfolding dsf using f(2) by simp
  have takef: "take m ?ds = take m ds" if "m \<le> f" for m using that by simp
  have step: "digit_loop first v ds = (if v div 10 = 0 then (?ds, f) else digit_loop f (v div 10) ?ds)"
    using pos by (subst digit_loop.simps) (simp add: f_def Let_def)
  show ?case
  proof (cases "v < 10")
    case True
    then have sh: "show_nat v = [digit_char (v mod 10)]" by (simp add: show_nat.simps [of v])
    show ?thesis unfolding step sh using True f(1) dsf by simp
  next
    case False
    then have sh: "show_nat v = show_nat (v div 10) @ [digit_char (v mod 10)]"
      by (simp add: show_nat.simps [of v])
    have "digit_loop f (v div 10) ?ds =
        (take (f - length (show_nat (v div 10))) ?ds @ show_nat (v div 10) @ drop f ?ds,
         f - length (show_nat (v div 10)))"
      using 1(1) [OF _ f_def refl] False pos 1(2) f by (simp add: sh)
    moreover have "v div 10 \<noteq> 0" using False by simp
    ultimately show ?thesis
      unfolding step using takef [of "f - length (show_nat (v div 10))"] dropf f(1) by (simp add: sh)
  qed
qed

lemma copy_at_writes:
  "pos + length bs < length e \<Longrightarrow> copy_at pos bs e = take pos e @ bs @ nul # drop (Suc (pos + length bs)) e"
proof (induction pos bs e rule: copy_at.induct)
  case (1 pos e)
  then show ?case by (simp add: upd_conv_take_nth_drop)
next
  case (2 pos b bs e)
  then show ?case by (simp add: take_Suc_conv_app_nth)
qed

lemma show_nat_no_nul: "nul \<notin> set (show_nat n)"
  using show_nat_set [of nul n] by (auto simp: nul_def char_class_defs)

lemma c_read_append: "nul \<notin> set a \<Longrightarrow> c_read (a @ nul # b) = a"
  by (auto simp: c_read_def takeWhile_append2 takeWhile_tail)

lemma write_pid_reads:
  assumes "0 \<le> pid" and "pid < 2 ^ 31"
  shows "c_read (write_pid (LISTEN_PID @ replicate (PID_DIGITS + 1) nul) (length LISTEN_PID) pid)
    = LISTEN_PID @ show_nat (nat pid)"
proof -
  let ?n = "nat pid" and ?L = "length (show_nat (nat pid))"
  have "?n < 10 ^ 10" using assms by simp
  then have len: "?L \<le> PID_DIGITS" unfolding PID_DIGITS_def by (rule length_show_nat [rotated]) simp
  have "digit_loop PID_DIGITS ?n (replicate PID_DIGITS nul) =
      (replicate (PID_DIGITS - ?L) nul @ show_nat ?n, PID_DIGITS - ?L)"
    using digit_loop_writes [OF len, of "replicate PID_DIGITS nul"] by simp
  then have "write_pid (LISTEN_PID @ replicate (PID_DIGITS + 1) nul) (length LISTEN_PID) pid
      = copy_at (length LISTEN_PID) (show_nat ?n) (LISTEN_PID @ replicate (PID_DIGITS + 1) nul)"
    using assms(1) by (simp add: write_pid_def)
  also have "\<dots> = LISTEN_PID @ show_nat ?n @ nul # replicate (PID_DIGITS - ?L) nul"
    using len by (subst copy_at_writes) simp_all
  finally have w: "write_pid (LISTEN_PID @ replicate (PID_DIGITS + 1) nul) (length LISTEN_PID) pid
      = (LISTEN_PID @ show_nat ?n) @ nul # replicate (PID_DIGITS - ?L) nul" by simp
  have "nul \<notin> set (LISTEN_PID @ show_nat ?n)"
    using show_nat_no_nul by (simp add: LISTEN_PID_def nul_def)
  then show ?thesis unfolding w by (rule c_read_append)
qed

lemma all_some_Some: "all_some xs = Some ys \<Longrightarrow> xs = map Some ys"
  by (induction xs arbitrary: ys) (auto split: option.splits)

lemma c_strings_read: "all_some (map (c_string \<circ> f) xs) = Some ys \<Longrightarrow> map c_read ys = map f xs"
proof (induction xs arbitrary: ys)
  case (Cons x xs)
  then show ?case
    by (auto simp: c_string_def split: option.splits if_splits intro: c_read_append [of _ "[]", simplified])
qed simp

section \<open>Descriptors reach their place\<close>

lemma find_upt_Some: "find P [a..<b] = Some n \<Longrightarrow> a \<le> n \<and> P n"
  by (auto simp: find_Some_iff)

lemma duplicate_from_result:
  "duplicate_from limit low fds t = Some (t', ns) \<Longrightarrow> \<forall>fd \<in> set fds. t fd \<noteq> None \<Longrightarrow>
     (\<forall>n. n \<notin> set ns \<longrightarrow> t' n = t n) \<and>
     list_all2 (\<lambda>fd n. low \<le> n \<and> t n = None \<and> (\<exists>d. t fd = Some d \<and> t' n = Some (d\<lparr>ds_cloexec := True\<rparr>))) fds ns"
proof (induction limit low fds t arbitrary: t' ns rule: duplicate_from.induct)
  case (1 limit low t)
  then show ?case by simp
next
  case (2 limit low fd fds t)
  obtain t1 n where n: "dupfd_cloexec limit fd low t = Some (t1, n)"
    using 2(2) by (auto split: option.splits)
  obtain ms where ms: "duplicate_from limit low fds t1 = Some (t', ms)" "ns = n # ms"
    using 2(2) n by (auto split: option.splits)
  obtain d where d: "t fd = Some d" "t1 = t(n \<mapsto> d\<lparr>ds_cloexec := True\<rparr>)" "low \<le> n" "t n = None"
    using n find_upt_Some [of "\<lambda>n. t n = None" low limit] by (auto simp: dupfd_cloexec_def split: option.splits)
  have "\<forall>f \<in> set fds. t1 f \<noteq> None" using 2(3) d by auto
  from 2(1) [OF n refl ms(1) this] have
    IH: "\<forall>m. m \<notin> set ms \<longrightarrow> t' m = t1 m"
      "list_all2 (\<lambda>f m. low \<le> m \<and> t1 m = None \<and> (\<exists>e. t1 f = Some e \<and> t' m = Some (e\<lparr>ds_cloexec := True\<rparr>))) fds ms"
    by blast+
  have fresh: "n \<notin> set ms" using IH(2) d by (auto simp: list_all2_conv_all_nth in_set_conv_nth)
  have "list_all2 (\<lambda>f m. low \<le> m \<and> t m = None \<and> (\<exists>e. t f = Some e \<and> t' m = Some (e\<lparr>ds_cloexec := True\<rparr>))) fds ms"
    unfolding list_all2_conv_all_nth
  proof (intro conjI allI impI)
    show "length fds = length ms" using IH(2) by (rule list_all2_lengthD)
    fix i assume i: "i < length fds"
    note at = list_all2_nthD [OF IH(2) i]
    have "fds ! i \<noteq> n" using 2(3) d(4) nth_mem [OF i] by auto
    moreover have "ms ! i \<noteq> n" using at d(2) by auto
    ultimately show "low \<le> ms ! i" "t (ms ! i) = None"
      "\<exists>e. t (fds ! i) = Some e \<and> t' (ms ! i) = Some (e\<lparr>ds_cloexec := True\<rparr>)"
      using at d(2) by auto
  qed
  then show ?case using IH(1) fresh d ms(2) by auto
qed

lemma place_from_result:
  "\<forall>n \<in> set ns. FIRST_LISTEN_FD + k + length ns \<le> n \<and> t n \<noteq> None \<Longrightarrow>
     place_from k ns t = Some (\<lambda>m. if FIRST_LISTEN_FD + k \<le> m \<and> m < FIRST_LISTEN_FD + k + length ns
        then map_option (\<lambda>d. d\<lparr>ds_cloexec := False\<rparr>) (t (ns ! (m - (FIRST_LISTEN_FD + k)))) else t m)"
proof (induction k ns t rule: place_from.induct)
  case (1 k t)
  then show ?case by (auto simp: fun_eq_iff)
next
  case (2 k n ns t)
  let ?b = "FIRST_LISTEN_FD + k"
  obtain d where d: "t n = Some d" using 2(2) by auto
  let ?t1 = "t(?b \<mapsto> d\<lparr>ds_cloexec := False\<rparr>)"
  have "n \<noteq> ?b" using 2(2) by auto
  then have dup: "dup2 n ?b t = Some ?t1" using d by (simp add: dup2_def)
  have "\<forall>m \<in> set ns. FIRST_LISTEN_FD + Suc k + length ns \<le> m \<and> ?t1 m \<noteq> None" using 2(2) by auto
  note IH = 2(1) [OF dup this]
  have same: "?t1 (ns ! i) = t (ns ! i)" if "i < length ns" for i
    using 2(2) nth_mem [OF that] by fastforce
  have at: "(if FIRST_LISTEN_FD + Suc k \<le> m \<and> m < FIRST_LISTEN_FD + Suc k + length ns
         then map_option (\<lambda>d. d\<lparr>ds_cloexec := False\<rparr>) (?t1 (ns ! (m - (FIRST_LISTEN_FD + Suc k)))) else ?t1 m)
      = (if ?b \<le> m \<and> m < ?b + length (n # ns)
         then map_option (\<lambda>d. d\<lparr>ds_cloexec := False\<rparr>) (t ((n # ns) ! (m - ?b))) else t m)" for m
  proof (cases "m = ?b")
    case True
    then show ?thesis using d by simp
  next
    case False
    then show ?thesis
    proof (cases "?b < m \<and> m < ?b + 1 + length ns")
      case True
      then have "m - ?b = Suc (m - (?b + 1))" "m - (?b + 1) < length ns" by auto
      then show ?thesis using True same [of "m - (?b + 1)"] by simp
    qed auto
  qed
  have "place_from k (n # ns) t = place_from (Suc k) ns ?t1" using dup by simp
  then show ?case unfolding IH at .
qed

lemma redirect_output_result:
  assumes "t fd = Some d" and "2 < fd"
  shows "redirect_output fd t = Some (t(1 \<mapsto> d\<lparr>ds_cloexec := False\<rparr>, 2 \<mapsto> d\<lparr>ds_cloexec := False\<rparr>))"
  using assms by (auto simp: redirect_output_def dup2_def)

text \<open>The descriptors after a successful hook, and the rest of the process.\<close>

lemma with_fds_eq: "with_fds f p = Some q \<longleftrightarrow> (\<exists>t. f (pr_fds p) = Some t \<and> q = p\<lparr>pr_fds := t\<rparr>)"
  by (auto simp: with_fds_def)

lemma drop_privilege_fds: "drop_privilege g i p = Some q \<Longrightarrow> pr_fds q = pr_fds p"
  by (auto simp: drop_privilege_def Let_def split: if_splits)

lemma setup_child_fds:
  assumes "setup_child g cs p = Some q"
  shows "\<exists>t. (case cs_output cs of None \<Rightarrow> Some (pr_fds p) | Some fd \<Rightarrow> redirect_output fd (pr_fds p)) = Some t
    \<and> place_descriptors (cs_listen cs) t = Some (pr_fds q)"
proof -
  obtain p1 where p1: "reset_signal_mask g p = Some p1" using assms by (auto simp: setup_child_def split: option.splits)
  define p2 where "p2 = (if cs_session cs then start_session g p1 else p1)"
  have rest: "(case join_cgroup g (cs_procs cs) p2 of None \<Rightarrow> None | Some p3 \<Rightarrow>
      case (case cs_output cs of None \<Rightarrow> Some p3 | Some fd \<Rightarrow> with_fds (redirect_output fd) p3) of
        None \<Rightarrow> None | Some p4 \<Rightarrow>
      case with_fds (place_descriptors (cs_listen cs)) p4 of None \<Rightarrow> None | Some p5 \<Rightarrow>
      (case cs_identity cs of None \<Rightarrow> Some p5 | Some i \<Rightarrow> drop_privilege g i p5)) = Some q"
    using assms p1 by (simp add: setup_child_def p2_def Let_def)
  then obtain p3 where p3: "join_cgroup g (cs_procs cs) p2 = Some p3"
    by (cases "join_cgroup g (cs_procs cs) p2") simp_all
  have f: "pr_fds p3 = pr_fds p"
    using p1 p3 by (auto simp: reset_signal_mask_def p2_def start_session_def join_cgroup_def
        split: if_splits option.splits)
  obtain p4 where p4: "(case cs_output cs of None \<Rightarrow> Some p3 | Some fd \<Rightarrow> with_fds (redirect_output fd) p3) = Some p4"
    using rest p3
    by (cases "(case cs_output cs of None \<Rightarrow> Some p3 | Some fd \<Rightarrow> with_fds (redirect_output fd) p3)") simp_all
  obtain p5 where p5: "with_fds (place_descriptors (cs_listen cs)) p4 = Some p5"
    using rest p3 p4 by (cases "with_fds (place_descriptors (cs_listen cs)) p4") simp_all
  have "(case cs_identity cs of None \<Rightarrow> Some p5 | Some i \<Rightarrow> drop_privilege g i p5) = Some q"
    using rest p3 p4 p5 by simp
  then have "pr_fds q = pr_fds p5" using drop_privilege_fds by (auto split: option.splits)
  moreover obtain t where "place_descriptors (cs_listen cs) (pr_fds p4) = Some t" "pr_fds p5 = t"
    using p5 by (auto simp: with_fds_eq)
  ultimately show ?thesis using p4 f by (auto simp: with_fds_eq split: option.splits)
qed

section \<open>Properties\<close>

lemma placed:
  assumes "duplicate_listen_fds limit L t = Some (t', dups)" and "\<forall>fd \<in> set L. t fd \<noteq> None"
    and "FIRST_LISTEN_FD + length L < 2 ^ 31" and "\<forall>n. FIRST_LISTEN_FD \<le> n \<longrightarrow> u n = t' n"
  shows "place_descriptors dups u = Some (\<lambda>m. if FIRST_LISTEN_FD \<le> m \<and> m < FIRST_LISTEN_FD + length L
      then map_option (\<lambda>d. d\<lparr>ds_cloexec := False\<rparr>) (t (L ! (m - FIRST_LISTEN_FD))) else u m)"
proof -
  have low: "min (FIRST_LISTEN_FD + length L) (2 ^ 31 - 1) = FIRST_LISTEN_FD + length L"
    using assms(3) by simp
  have all2: "list_all2 (\<lambda>fd n. FIRST_LISTEN_FD + length L \<le> n \<and> t n = None
      \<and> (\<exists>d. t fd = Some d \<and> t' n = Some (d\<lparr>ds_cloexec := True\<rparr>))) L dups"
    using duplicate_from_result [of limit "FIRST_LISTEN_FD + length L" L t t' dups] assms(1,2)
    unfolding duplicate_listen_fds_def low by blast
  have len: "length L = length dups" using all2 by (rule list_all2_lengthD)
  have src: "\<exists>d. t (L ! i) = Some d \<and> u (dups ! i) = Some (d\<lparr>ds_cloexec := True\<rparr>)
      \<and> FIRST_LISTEN_FD + length dups \<le> dups ! i" if "i < length dups" for i
    using list_all2_nthD [OF all2, of i] that len assms(4) by fastforce
  have "\<forall>n \<in> set dups. FIRST_LISTEN_FD + 0 + length dups \<le> n \<and> u n \<noteq> None"
    using src by (fastforce simp: in_set_conv_nth)
  note from0 = place_from_result [OF this, unfolded add_0_right]
  have place: "place_descriptors dups u = Some (\<lambda>m. if FIRST_LISTEN_FD \<le> m \<and> m < FIRST_LISTEN_FD + length L
      then map_option (\<lambda>d. d\<lparr>ds_cloexec := False\<rparr>) (u (dups ! (m - FIRST_LISTEN_FD))) else u m)"
    unfolding place_descriptors_def len by (rule from0)
  have "map_option (\<lambda>d. d\<lparr>ds_cloexec := False\<rparr>) (u (dups ! (m - FIRST_LISTEN_FD)))
      = map_option (\<lambda>d. d\<lparr>ds_cloexec := False\<rparr>) (t (L ! (m - FIRST_LISTEN_FD)))"
    if "FIRST_LISTEN_FD \<le> m \<and> m < FIRST_LISTEN_FD + length L" for m
  proof -
    have "m - FIRST_LISTEN_FD < length dups" using that len by linarith
    from src [OF this] show ?thesis by auto
  qed
  then show ?thesis unfolding place by (auto simp: fun_eq_iff)
qed

lemma service_fds:
  assumes "duplicate_listen_fds limit L t = Some (t', dups)" and "\<forall>fd \<in> set L. t fd \<noteq> None"
    and "FIRST_LISTEN_FD + length L < 2 ^ 31"
    and "pr_fds p = t'" and "cs_listen cs = dups" and "setup_child g cs p = Some q"
    and "\<forall>fd. cs_output cs = Some fd \<longrightarrow> FIRST_LISTEN_FD \<le> fd \<and> t fd \<noteq> None"
  shows "after_exec (pr_fds q) n =
    (if FIRST_LISTEN_FD + length L \<le> n then after_exec t n
     else if FIRST_LISTEN_FD \<le> n then map_option (\<lambda>d. d\<lparr>ds_cloexec := False\<rparr>) (t (L ! (n - FIRST_LISTEN_FD)))
     else case cs_output cs of
        Some fd \<Rightarrow> if n = 0 then after_exec t n else map_option (\<lambda>d. d\<lparr>ds_cloexec := False\<rparr>) (t fd)
      | None \<Rightarrow> after_exec t n)"
proof -
  have F: "FIRST_LISTEN_FD = 3" by (simp add: FIRST_LISTEN_FD_def)
  have low: "min (FIRST_LISTEN_FD + length L) (2 ^ 31 - 1) = FIRST_LISTEN_FD + length L"
    using assms(3) by simp
  have dup: "\<forall>m. m \<notin> set dups \<longrightarrow> t' m = t m"
    "list_all2 (\<lambda>fd n. FIRST_LISTEN_FD + length L \<le> n \<and> t n = None
      \<and> (\<exists>d. t fd = Some d \<and> t' n = Some (d\<lparr>ds_cloexec := True\<rparr>))) L dups"
    using duplicate_from_result [of limit "FIRST_LISTEN_FD + length L" L t t' dups] assms(1,2)
    unfolding duplicate_listen_fds_def low by blast+
  have new: "t m = None \<and> FIRST_LISTEN_FD \<le> m \<and> (\<exists>d. t' m = Some d \<and> ds_cloexec d)" if "m \<in> set dups" for m
    using dup(2) that by (fastforce simp: list_all2_conv_all_nth in_set_conv_nth)
  have clo: "after_exec t' m = after_exec t m" for m
    using dup(1) new by (cases "m \<in> set dups") (fastforce simp: after_exec_def)+
  have std: "t' m = t m" if "m < FIRST_LISTEN_FD" for m using dup(1) new that by (metis leD)
  obtain u where u: "(case cs_output cs of None \<Rightarrow> Some t' | Some fd \<Rightarrow> redirect_output fd t') = Some u"
    "place_descriptors dups u = Some (pr_fds q)"
    using setup_child_fds [OF assms(6)] assms(4,5) by auto
  have uval: "u m = (case cs_output cs of
      Some fd \<Rightarrow> if m = 1 \<or> m = 2 then map_option (\<lambda>d. d\<lparr>ds_cloexec := False\<rparr>) (t fd) else t' m
    | None \<Rightarrow> t' m)" for m
  proof (cases "cs_output cs")
    case None
    then show ?thesis using u(1) by simp
  next
    case (Some fd)
    then obtain d where d: "t fd = Some d" "2 < fd" using assms(7) F by auto
    have "t' fd = Some d" using d dup(1) new by (metis option.distinct(1))
    from redirect_output_result [of t' fd d, OF this d(2)] show ?thesis using u(1) Some d by auto
  qed
  have high: "\<forall>m. FIRST_LISTEN_FD \<le> m \<longrightarrow> u m = t' m" using uval F by (auto split: option.splits)
  have q: "pr_fds q = (\<lambda>m. if FIRST_LISTEN_FD \<le> m \<and> m < FIRST_LISTEN_FD + length L
      then map_option (\<lambda>d. d\<lparr>ds_cloexec := False\<rparr>) (t (L ! (m - FIRST_LISTEN_FD))) else u m)"
    using placed [OF assms(1-3) high] u(2) by simp
  consider "FIRST_LISTEN_FD + length L \<le> n" | "FIRST_LISTEN_FD \<le> n" "n < FIRST_LISTEN_FD + length L"
    | "n < FIRST_LISTEN_FD" by linarith
  then show ?thesis
  proof cases
    case 1
    then have "pr_fds q n = t' n" using high by (simp add: q)
    then have "after_exec (pr_fds q) n = after_exec t n" using clo [of n] by (simp add: after_exec_def)
    then show ?thesis using 1 by simp
  next
    case 2
    then show ?thesis by (auto simp: q after_exec_def split: option.splits)
  next
    case 3
    then have "pr_fds q n = u n" "n = 0 \<or> n = 1 \<or> n = 2" by (auto simp: q F)
    then show ?thesis using 3 std [OF 3] uval [of n] by (auto simp: after_exec_def split: option.splits)
  qed
qed

text \<open>C24.  A service starts with its own descriptors.  What is open after the exec is: at 0 to 2 the
  standard streams, output and error on the unit's output where it has one; from 3 on the
  unit's listening sockets in their order; and beyond them exactly what the manager itself
  holds there without close-on-exec, which is meant to be nothing (the readiness socket of
  \<open>notify.rs\<close>, made without the flag, is the exception in the code).  No copy clobbers a
  socket that has not been placed yet, whatever numbers the duplicates were given, and no
  duplicate is left over.\<close>

theorem service_descriptors:
  assumes "duplicate_listen_fds limit L t = Some (t', dups)" and "\<forall>fd \<in> set L. t fd \<noteq> None"
    and "FIRST_LISTEN_FD + length L < 2 ^ 31"
    and "pr_fds p = t'" and "cs_listen cs = dups" and "setup_child g cs p = Some q"
    and "\<forall>fd. cs_output cs = Some fd \<longrightarrow> FIRST_LISTEN_FD \<le> fd \<and> t fd \<noteq> None"
  shows "after_exec (pr_fds q) n =
    (if FIRST_LISTEN_FD + length L \<le> n then after_exec t n
     else if FIRST_LISTEN_FD \<le> n then map_option (\<lambda>d. d\<lparr>ds_cloexec := False\<rparr>) (t (L ! (n - FIRST_LISTEN_FD)))
     else case cs_output cs of
        Some fd \<Rightarrow> if n = 0 then after_exec t n else map_option (\<lambda>d. d\<lparr>ds_cloexec := False\<rparr>) (t fd)
      | None \<Rightarrow> after_exec t n)"
  using assms by (rule service_fds)

definition sample_grants :: grants where
  "sample_grants = \<lparr>gr_mask = (\<lambda>_. True), gr_session = (\<lambda>_. False), gr_procs = (\<lambda>p. pr_uid p = 0),
     gr_setgroups = (\<lambda>p. pr_uid p = 0), gr_setgid = (\<lambda>p. pr_uid p = 0), gr_setuid = (\<lambda>p. pr_uid p = 0)\<rparr>"

definition sample_process :: "fdtab \<Rightarrow> process" where
  "sample_process t = \<lparr>pr_fds = t, pr_blocked = True, pr_session = False, pr_cgroup = False, pr_uid = 0,
     pr_gid = 0, pr_groups = []\<rparr>"

definition sample_fds :: fdtab where
  "sample_fds = [0 \<mapsto> \<lparr>ds_object = ''tty'', ds_cloexec = False\<rparr>, 3 \<mapsto> \<lparr>ds_object = ''b'', ds_cloexec = True\<rparr>,
     4 \<mapsto> \<lparr>ds_object = ''a'', ds_cloexec = True\<rparr>]"

theorem service_descriptors_witness:
  "\<exists>t' dups q. duplicate_listen_fds 99 [4, 3] sample_fds = Some (t', dups)
     \<and> setup_child sample_grants \<lparr>cs_procs = None, cs_listen = dups, cs_identity = None, cs_output = None,
         cs_session = False\<rparr> (sample_process t') = Some q
     \<and> after_exec (pr_fds q) 4 = Some \<lparr>ds_object = ''b'', ds_cloexec = False\<rparr>
     \<and> after_exec (pr_fds q) 7 = None"
proof -
  have u: "[5..<99] = 5 # 6 # [7..<99]" by (simp add: upt_conv_Cons)
  let ?t = "sample_fds(5 \<mapsto> \<lparr>ds_object = ''a'', ds_cloexec = True\<rparr>, 6 \<mapsto> \<lparr>ds_object = ''b'', ds_cloexec = True\<rparr>)"
  let ?cs = "\<lparr>cs_procs = None, cs_listen = [5, 6], cs_identity = None, cs_output = None, cs_session = False\<rparr>"
  have d: "duplicate_listen_fds 99 [4, 3] sample_fds = Some (?t, [5, 6])"
    by (simp add: duplicate_listen_fds_def FIRST_LISTEN_FD_def dupfd_cloexec_def u sample_fds_def)
  obtain q where q: "setup_child sample_grants ?cs (sample_process ?t) = Some q"
    by (simp add: setup_child_def reset_signal_mask_def sample_grants_def join_cgroup_def with_fds_def
        place_descriptors_def dup2_def sample_process_def sample_fds_def FIRST_LISTEN_FD_def)
  have p: "\<forall>fd \<in> set [4, 3]. sample_fds fd \<noteq> None" "FIRST_LISTEN_FD + length [4 :: nat, 3] < 2 ^ 31"
    "pr_fds (sample_process ?t) = ?t" "cs_listen ?cs = [5, 6]"
    "\<forall>fd. cs_output ?cs = Some fd \<longrightarrow> FIRST_LISTEN_FD \<le> fd \<and> sample_fds fd \<noteq> None"
    by (auto simp: sample_fds_def FIRST_LISTEN_FD_def sample_process_def)
  note s = service_descriptors [OF d p(1-4) q p(5)]
  have "after_exec (pr_fds q) 4 = Some \<lparr>ds_object = ''b'', ds_cloexec = False\<rparr>" "after_exec (pr_fds q) 7 = None"
    using s [of 4] s [of 7] by (simp_all add: FIRST_LISTEN_FD_def sample_fds_def after_exec_def)
  then show ?thesis using d q by blast
qed

text \<open>C25.  Privileges go last.  On a kernel that lets only root join a cgroup and change identity,
  the hook started as root does not fail for want of privilege, whether or not the unit has
  an output of its own, sockets, a cgroup or a session.  Where the unit has them, it joins
  the cgroup and puts the output on descriptors 1 and 2; and it takes the whole supplementary
  set, the group and then the user of the unit (a unit without a user stays as it was), with
  every signal unblocked.\<close>

theorem child_becomes_the_user:
  assumes "\<And>p. gr_mask g p" and "\<And>p. gr_procs g p = (pr_uid p = 0)" and "\<And>p. gr_setgroups g p = (pr_uid p = 0)"
    and "\<And>p. gr_setgid g p = (pr_uid p = 0)" and "\<And>p. gr_setuid g p = (pr_uid p = 0)"
    and "pr_uid p = 0" and "\<forall>fd. cs_procs cs = Some fd \<longrightarrow> pr_fds p fd \<noteq> None"
    and "\<forall>fd. cs_output cs = Some fd \<longrightarrow> FIRST_LISTEN_FD \<le> fd \<and> pr_fds p fd \<noteq> None"
    and "\<forall>n \<in> set (cs_listen cs). FIRST_LISTEN_FD + length (cs_listen cs) \<le> n \<and> pr_fds p n \<noteq> None"
  shows "\<exists>q. setup_child g cs p = Some q
    \<and> (case cs_identity cs of
         None \<Rightarrow> pr_uid q = pr_uid p \<and> pr_gid q = pr_gid p \<and> pr_groups q = pr_groups p
       | Some i \<Rightarrow> pr_uid q = id_uid i \<and> pr_gid q = id_gid i \<and> pr_groups q = id_groups i)
    \<and> pr_cgroup q = (pr_cgroup p \<or> cs_procs cs \<noteq> None) \<and> \<not> pr_blocked q
    \<and> (case cs_output cs of
         None \<Rightarrow> pr_fds q 1 = pr_fds p 1 \<and> pr_fds q 2 = pr_fds p 2
       | Some fd \<Rightarrow> pr_fds q 1 = map_option (\<lambda>d. d\<lparr>ds_cloexec := False\<rparr>) (pr_fds p fd)
           \<and> pr_fds q 2 = map_option (\<lambda>d. d\<lparr>ds_cloexec := False\<rparr>) (pr_fds p fd))"
proof -
  have F: "FIRST_LISTEN_FD = 3" by (simp add: FIRST_LISTEN_FD_def)
  define p2 where "p2 = (if cs_session cs then start_session g (p\<lparr>pr_blocked := False\<rparr>) else p\<lparr>pr_blocked := False\<rparr>)"
  have p2: "pr_fds p2 = pr_fds p" "pr_uid p2 = 0" "pr_gid p2 = pr_gid p" "pr_groups p2 = pr_groups p"
    "pr_cgroup p2 = pr_cgroup p" "\<not> pr_blocked p2"
    using assms(6) by (auto simp: p2_def start_session_def)
  define p3 where "p3 = p2\<lparr>pr_cgroup := pr_cgroup p2 \<or> cs_procs cs \<noteq> None\<rparr>"
  have j: "join_cgroup g (cs_procs cs) p2 = Some p3"
    using assms(2,7) p2(1,2) by (auto simp: join_cgroup_def p3_def split: option.splits)
  obtain t where t: "(case cs_output cs of None \<Rightarrow> Some (pr_fds p) | Some fd \<Rightarrow> redirect_output fd (pr_fds p)) = Some t"
    and tv: "t m = (case cs_output cs of None \<Rightarrow> pr_fds p m
      | Some fd \<Rightarrow> if m = 1 \<or> m = 2 then map_option (\<lambda>d. d\<lparr>ds_cloexec := False\<rparr>) (pr_fds p fd) else pr_fds p m)" for m
  proof (cases "cs_output cs")
    case (Some fd)
    then obtain d where "pr_fds p fd = Some d" "2 < fd" using assms(8) F by auto
    then show ?thesis using Some that redirect_output_result [of "pr_fds p" fd d] by (auto simp: fun_eq_iff)
  qed (use that in simp)
  have o: "(case cs_output cs of None \<Rightarrow> Some p3 | Some fd \<Rightarrow> with_fds (redirect_output fd) p3) = Some (p3\<lparr>pr_fds := t\<rparr>)"
    using t p2(1) by (cases "cs_output cs") (auto simp: p3_def with_fds_def)
  have "\<forall>n \<in> set (cs_listen cs). FIRST_LISTEN_FD + 0 + length (cs_listen cs) \<le> n \<and> t n \<noteq> None"
    using assms(9) F by (auto simp: tv split: option.splits)
  from place_from_result [OF this] obtain w where w: "place_descriptors (cs_listen cs) t = Some w"
      "w 1 = t 1" "w 2 = t 2"
    by (simp add: place_descriptors_def F)
  have s: "setup_child g cs p = (case cs_identity cs of None \<Rightarrow> Some (p3\<lparr>pr_fds := w\<rparr>)
      | Some i \<Rightarrow> drop_privilege g i (p3\<lparr>pr_fds := w\<rparr>))"
    using assms(1) j o w(1) by (simp add: setup_child_def reset_signal_mask_def p2_def with_fds_def Let_def)
  have fds: "case cs_output cs of
         None \<Rightarrow> w 1 = pr_fds p 1 \<and> w 2 = pr_fds p 2
       | Some fd \<Rightarrow> w 1 = map_option (\<lambda>d. d\<lparr>ds_cloexec := False\<rparr>) (pr_fds p fd)
           \<and> w 2 = map_option (\<lambda>d. d\<lparr>ds_cloexec := False\<rparr>) (pr_fds p fd)"
    using w(2,3) tv by (simp split: option.split)
  show ?thesis
  proof (cases "cs_identity cs")
    case None
    then show ?thesis using s p2 assms(6) fds by (cases "cs_output cs") (simp_all add: p3_def)
  next
    case (Some i)
    then have "setup_child g cs p = Some (p3\<lparr>pr_fds := w, pr_groups := id_groups i, pr_gid := id_gid i, pr_uid := id_uid i\<rparr>)"
      using s p2(2) assms(3-5) by (simp add: drop_privilege_def p3_def Let_def)
    then show ?thesis using Some p2 fds by (cases "cs_output cs") (simp_all add: p3_def)
  qed
qed

text \<open>A unit with a user and a log pipe.\<close>

theorem child_becomes_the_user_witness:
  "\<exists>q. setup_child sample_grants \<lparr>cs_procs = Some 3, cs_listen = [],
        cs_identity = Some \<lparr>id_name = ''www'', id_uid = 33, id_gid = 33, id_groups = [4, 33]\<rparr>,
        cs_output = Some 4, cs_session = True\<rparr>
      (sample_process sample_fds) = Some q \<and> pr_uid q = 33 \<and> pr_groups q = [4, 33] \<and> pr_cgroup q
      \<and> pr_fds q 2 = Some \<lparr>ds_object = ''a'', ds_cloexec = False\<rparr>"
  using child_becomes_the_user [of sample_grants "sample_process sample_fds"
      "\<lparr>cs_procs = Some 3, cs_listen = [], cs_identity = Some \<lparr>id_name = ''www'', id_uid = 33, id_gid = 33,
         id_groups = [4, 33]\<rparr>, cs_output = Some 4, cs_session = True\<rparr>"]
  by (auto simp: sample_grants_def sample_process_def sample_fds_def FIRST_LISTEN_FD_def)

lemma image_exec_entries:
  assumes "image_build own exec env True = Some im" and "0 \<le> pid" and "pid < 2 ^ 31"
  shows "image_exec pid im =
    (exec, map entry (kept_vars own env) @ map entry env @ [''LISTEN_PID='' @ show_nat (nat pid)])"
proof -
  let ?slot = "LISTEN_PID @ replicate (PID_DIGITS + 1) nul"
  obtain argv vars where b: "all_some (map c_string exec) = Some argv"
    "all_some (map (c_string \<circ> entry) (kept_vars own env @ env)) = Some vars"
    "im = \<lparr>im_argv = argv, im_envp = vars @ [?slot], im_listen_pid = Some (length vars, length LISTEN_PID)\<rparr>"
    using assms(1) by (auto simp: image_build_def split: option.splits if_splits)
  have "map c_read argv = exec" using c_strings_read [of "\<lambda>x. x" exec argv] b(1) by (simp add: o_def)
  moreover have "map c_read vars = map entry (kept_vars own env @ env)" by (rule c_strings_read [OF b(2)])
  ultimately show ?thesis
    using write_pid_reads [OF assms(2,3)]
    by (simp add: image_exec_def b(3) nth_append list_update_append LISTEN_PID_def)
qed

text \<open>What the service is executed with.  Its arguments are the unit's, and its environment is
  the manager's own variables that are neither reserved nor replaced, then those set for it,
  and for a service handed descriptors \<open>LISTEN_PID\<close> with exactly the decimal digits of its
  process, written in place after the fork.\<close>

theorem image_names_the_child:
  assumes "image_build own exec env True = Some im" and "0 \<le> pid" and "pid < 2 ^ 31"
  shows "image_exec pid im =
    (exec, map entry (kept_vars own env) @ map entry env @ [''LISTEN_PID='' @ show_nat (nat pid)])"
  using assms by (rule image_exec_entries)

theorem image_names_the_child_witness:
  "\<exists>im. image_build [(''PATH'', ''/bin''), (''LISTEN_PID'', ''1'')] [''/bin/s''] [] True = Some im
     \<and> image_exec 42 im = ([''/bin/s''], [''PATH=/bin'', ''LISTEN_PID=42''])"
proof -
  obtain im where im: "image_build [(''PATH'', ''/bin''), (''LISTEN_PID'', ''1'')] [''/bin/s''] [] True = Some im"
    by (simp add: image_build_def c_string_def kept_vars_def RESERVED_def entry_def nul_def)
  have "show_nat 42 = ''42''" by code_simp
  then show ?thesis using im image_names_the_child [OF im, of 42] by (simp add: kept_vars_def RESERVED_def entry_def)
qed

end
