(* ===== verification/Watchdog.thy ===== *)
theory Watchdog
  imports Values
begin

text \<open>
  The hardware watchdog: what is configured and when to pet it,
  \<open>crates/oxinit-watchdog/src/lib.rs\<close>.  Times are durations since the program started.  The
  TOML reader is a parameter; the texts that errors quote from other errors are those
  errors.
\<close>

definition DEFAULT_DEVICE :: string where "DEFAULT_DEVICE = ''/dev/watchdog0''"
definition CMDLINE_PREFIX :: string where "CMDLINE_PREFIX = ''oxinit.watchdog.''"
definition UNKNOWN_TIMEOUT_INTERVAL :: duration where "UNKNOWN_TIMEOUT_INTERVAL = from_secs 1"
definition MAX_TIMEOUT_SECS :: nat where "MAX_TIMEOUT_SECS = 2 ^ 31 - 1"

datatype watchdog_error =
    WE_Toml string string
  | WE_UnknownKey string string
  | WE_Value string string value_error
  | WE_Timeout
  | WE_BootWithoutUnit
  | WE_UnitWithoutBoot

section \<open>Settings\<close>

record settings =
  ws_device :: "string option"
  ws_timeout :: "duration option"
  ws_boot_unit :: "string option"
  ws_boot :: "duration option"

record wd_boot =
  wb_unit :: string
  wb_within :: duration

record wd_config =
  wc_device :: string
  wc_timeout :: nat
  wc_boot :: "wd_boot option"

definition settings_default :: settings where
  "settings_default = \<lparr>ws_device = None, ws_timeout = None, ws_boot_unit = None, ws_boot = None\<rparr>"

definition settings_parse ::
    "(string \<Rightarrow> string + settings) \<Rightarrow> string \<Rightarrow> string \<Rightarrow> watchdog_error + settings" where
  "settings_parse toml origin text =
     (case toml text of
        Inl message \<Rightarrow> Inl (WE_Toml origin message)
      | Inr raw \<Rightarrow> Inr \<lparr>ws_device = ws_device raw, ws_timeout = ws_timeout raw,
                        ws_boot_unit = ws_boot_unit raw, ws_boot = ws_boot raw\<rparr>)"

definition cmdline_origin :: string where "cmdline_origin = ''kernel command line''"

definition cmdline_word :: "string \<Rightarrow> settings \<Rightarrow> watchdog_error + settings" where
  "cmdline_word word st =
     (case strip_prefix CMDLINE_PREFIX word of
        None \<Rightarrow> Inr st
      | Some rest \<Rightarrow>
          let (key, v) = (case split_once CHR ''='' rest of None \<Rightarrow> (rest, []) | Some kv \<Rightarrow> kv);
              err = (\<lambda>e. Inl (WE_Value cmdline_origin (CMDLINE_PREFIX @ key) e)) in
          if key = ''device'' then Inr (st\<lparr>ws_device := Some v\<rparr>)
          else if key = ''timeout-sec'' then
            (case parse_duration v of Inl e \<Rightarrow> err e | Inr d \<Rightarrow> Inr (st\<lparr>ws_timeout := Some d\<rparr>))
          else if key = ''boot-unit'' then Inr (st\<lparr>ws_boot_unit := Some v\<rparr>)
          else if key = ''boot-sec'' then
            (case parse_duration v of Inl e \<Rightarrow> err e | Inr d \<Rightarrow> Inr (st\<lparr>ws_boot := Some d\<rparr>))
          else Inl (WE_UnknownKey cmdline_origin (CMDLINE_PREFIX @ key)))"

fun cmdline_words :: "string list \<Rightarrow> settings \<Rightarrow> watchdog_error + settings" where
  "cmdline_words [] st = Inr st"
| "cmdline_words (w # ws) st =
     (case cmdline_word w st of Inl e \<Rightarrow> Inl e | Inr st' \<Rightarrow> cmdline_words ws st')"

definition from_cmdline :: "string \<Rightarrow> watchdog_error + settings" where
  "from_cmdline cmdline = cmdline_words (split_whitespace cmdline) settings_default"

definition opt_or :: "'a option \<Rightarrow> 'a option \<Rightarrow> 'a option" where
  "opt_or a b = (case a of None \<Rightarrow> b | Some x \<Rightarrow> Some x)"

definition settings_over :: "settings \<Rightarrow> settings \<Rightarrow> settings" where
  "settings_over s base =
     \<lparr>ws_device = opt_or (ws_device s) (ws_device base),
      ws_timeout = opt_or (ws_timeout s) (ws_timeout base),
      ws_boot_unit = opt_or (ws_boot_unit s) (ws_boot_unit base),
      ws_boot = opt_or (ws_boot s) (ws_boot base)\<rparr>"

definition resolve_boot :: "settings \<Rightarrow> watchdog_error + wd_boot option" where
  "resolve_boot s =
     (case (case ws_boot s of Some d \<Rightarrow> if d = 0 then None else Some d | None \<Rightarrow> None, ws_boot_unit s) of
        (None, None) \<Rightarrow> Inr None
      | (None, Some _) \<Rightarrow> if ws_boot s \<noteq> None then Inr None else Inl WE_UnitWithoutBoot
      | (Some _, None) \<Rightarrow> Inl WE_BootWithoutUnit
      | (Some within, Some u) \<Rightarrow> Inr (Some \<lparr>wb_unit = u, wb_within = within\<rparr>))"

definition settings_resolve :: "settings \<Rightarrow> watchdog_error + wd_config option" where
  "settings_resolve s =
     (case ws_timeout s of
        None \<Rightarrow> Inr None
      | Some timeout \<Rightarrow>
          if timeout = 0 then Inr None
          else if subsec_nanos timeout \<noteq> 0 \<or> as_secs timeout > MAX_TIMEOUT_SECS then Inl WE_Timeout
          else if as_secs timeout > u32_max then Inl WE_Timeout
          else (case resolve_boot s of
             Inl e \<Rightarrow> Inl e
           | Inr boot \<Rightarrow> Inr (Some \<lparr>wc_device = (case ws_device s of None \<Rightarrow> DEFAULT_DEVICE | Some d \<Rightarrow> d),
                                    wc_timeout = as_secs timeout, wc_boot = boot\<rparr>)))"

section \<open>The petting policy\<close>

definition pet_interval :: "nat \<Rightarrow> duration" where
  "pet_interval timeout_secs = from_secs timeout_secs div 2"

datatype boot_state = Confirmed | Pending | Overdue

datatype wd_action = NoAction | OpenDevice | Pet

datatype wd_event = BootConfirmed | BootOverdue

datatype release_mode = Disarm | KeepRunning

definition release :: "bool \<Rightarrow> release_mode" where
  "release reboot = (if reboot then KeepRunning else Disarm)"

record policy =
  wp_config :: wd_config
  wp_boot :: boot_state
  wp_open :: bool
  wp_interval :: duration
  wp_last_pet :: "duration option"
  wp_last_try :: "duration option"
  wp_shutting_down :: bool

definition policy_new :: "wd_config \<Rightarrow> policy" where
  "policy_new c =
     \<lparr>wp_config = c, wp_boot = (case wc_boot c of Some _ \<Rightarrow> Pending | None \<Rightarrow> Confirmed),
      wp_open = False, wp_interval = pet_interval (wc_timeout c), wp_last_pet = None,
      wp_last_try = None, wp_shutting_down = False\<rparr>"

definition awaiting :: "policy \<Rightarrow> string option" where
  "awaiting p =
     (case (wp_boot p, wc_boot (wp_config p)) of (Pending, Some b) \<Rightarrow> Some (wb_unit b) | _ \<Rightarrow> None)"

definition opened :: "duration \<Rightarrow> nat option \<Rightarrow> policy \<Rightarrow> policy" where
  "opened now applied p =
     p\<lparr>wp_open := True, wp_last_pet := Some now,
       wp_interval := (case applied of
           Some secs \<Rightarrow> if secs > 0 then pet_interval secs else UNKNOWN_TIMEOUT_INTERVAL
         | None \<Rightarrow> UNKNOWN_TIMEOUT_INTERVAL)\<rparr>"

definition open_failed :: "duration \<Rightarrow> policy \<Rightarrow> policy" where
  "open_failed now p = p\<lparr>wp_last_try := Some now\<rparr>"

definition policy_shutdown :: "policy \<Rightarrow> policy" where
  "policy_shutdown p = p\<lparr>wp_shutting_down := True\<rparr>"

definition due :: "policy \<Rightarrow> duration option \<Rightarrow> duration \<Rightarrow> bool" where
  "due p since now = (case since of None \<Rightarrow> True | Some t \<Rightarrow> now - t \<ge> wp_interval p)"

definition update_boot :: "duration \<Rightarrow> bool \<Rightarrow> policy \<Rightarrow> policy \<times> wd_event option" where
  "update_boot now booted p =
     (if wp_boot p \<noteq> Pending then (p, None)
      else if booted then (p\<lparr>wp_boot := Confirmed\<rparr>, Some BootConfirmed)
      else (case wc_boot (wp_config p) of
              None \<Rightarrow> (p, None)
            | Some b \<Rightarrow>
                if \<not> wp_shutting_down p \<and> now \<ge> wb_within b
                then (p\<lparr>wp_boot := Overdue\<rparr>, Some BootOverdue) else (p, None)))"

definition tick :: "duration \<Rightarrow> bool \<Rightarrow> policy \<Rightarrow> policy \<times> wd_action \<times> wd_event option" where
  "tick now booted p0 =
     (let (p, event) = update_boot now booted p0 in
      if \<not> wp_open p then
        (if due p (wp_last_try p) now then (p\<lparr>wp_last_try := Some now\<rparr>, OpenDevice, event)
         else (p, NoAction, event))
      else if wp_boot p = Overdue then (p, NoAction, event)
      else if due p (wp_last_pet p) now then (p\<lparr>wp_last_pet := Some now\<rparr>, Pet, event)
      else (p, NoAction, event))"

definition consider_at :: "duration \<Rightarrow> duration \<Rightarrow> duration option \<Rightarrow> duration option" where
  "consider_at now at soonest =
     (let wait = at - now in Some (case soonest of None \<Rightarrow> wait | Some s \<Rightarrow> min s wait))"

definition next_wake :: "duration \<Rightarrow> policy \<Rightarrow> duration option" where
  "next_wake now p =
     (let s1 = (if \<not> wp_open p then
                  consider_at now (case wp_last_try p of None \<Rightarrow> now | Some t \<Rightarrow> t + wp_interval p) None
                else if wp_boot p \<noteq> Overdue then
                  consider_at now (case wp_last_pet p of None \<Rightarrow> now | Some t \<Rightarrow> t + wp_interval p) None
                else None) in
      case (wp_boot p, wp_shutting_down p, wc_boot (wp_config p)) of
        (Pending, False, Some b) \<Rightarrow> consider_at now (wb_within b) s1
      | _ \<Rightarrow> s1)"

section \<open>Runs of the loop\<close>

text \<open>What the loop does to the policy, each at a moment of the monotonic clock: a tick, an
  open that succeeded or failed, the start of a shutdown.\<close>

datatype wd_op = Tick bool | Opened "nat option" | OpenFailed | Shutdown

definition wd_step :: "duration \<times> wd_op \<Rightarrow> policy \<Rightarrow> policy" where
  "wd_step op p =
     (case snd op of
        Tick booted \<Rightarrow> fst (tick (fst op) booted p)
      | Opened applied \<Rightarrow> opened (fst op) applied p
      | OpenFailed \<Rightarrow> open_failed (fst op) p
      | Shutdown \<Rightarrow> policy_shutdown p)"

lemma update_boot_fields [simp]:
  "wp_open (fst (update_boot now b p)) = wp_open p"
  "wp_interval (fst (update_boot now b p)) = wp_interval p"
  "wp_last_pet (fst (update_boot now b p)) = wp_last_pet p"
  "wp_last_try (fst (update_boot now b p)) = wp_last_try p"
  "wp_config (fst (update_boot now b p)) = wp_config p"
  "wp_shutting_down (fst (update_boot now b p)) = wp_shutting_down p"
  by (auto simp: update_boot_def split: option.splits)

lemma tick_boot: "wp_boot (fst (tick now b p)) = wp_boot (fst (update_boot now b p))"
  by (auto simp: tick_def Let_def split: prod.splits)

lemma tick_action:
  "fst (snd (tick now b p)) = Pet \<longleftrightarrow>
     wp_open p \<and> wp_boot (fst (update_boot now b p)) \<noteq> Overdue \<and> due p (wp_last_pet p) now"
proof -
  obtain q e where u: "update_boot now b p = (q, e)" by (cases "update_boot now b p")
  have "wp_open q = wp_open p" "wp_last_pet q = wp_last_pet p" "wp_interval q = wp_interval p"
    using u update_boot_fields [of now b p] by simp_all
  then have "due q (wp_last_pet q) now = due p (wp_last_pet p) now"
    by (simp add: due_def split: option.splits)
  then show ?thesis using u \<open>wp_open q = wp_open p\<close> by (auto simp: tick_def Let_def)
qed

lemma update_boot_Overdue:
  "wp_boot (fst (update_boot now b p)) = Overdue \<longleftrightarrow> wp_boot p = Overdue \<or>
     (wp_boot p = Pending \<and> \<not> b \<and> \<not> wp_shutting_down p \<and>
       (\<exists>bt. wc_boot (wp_config p) = Some bt \<and> now \<ge> wb_within bt))"
  by (auto simp: update_boot_def split: option.splits)

lemma update_boot_Confirmed: "wp_boot p = Confirmed \<Longrightarrow> wp_boot (fst (update_boot now b p)) = Confirmed"
  by (auto simp: update_boot_def)

lemma wd_step_Overdue: "wp_boot p = Overdue \<Longrightarrow> wp_boot (wd_step op p) = Overdue"
  by (auto simp: wd_step_def tick_boot update_boot_Overdue opened_def open_failed_def
      policy_shutdown_def split: wd_op.splits)

lemma wd_step_Confirmed: "wp_boot p = Confirmed \<Longrightarrow> wp_boot (wd_step op p) = Confirmed"
  by (auto simp: wd_step_def tick_boot update_boot_Confirmed opened_def open_failed_def
      policy_shutdown_def split: wd_op.splits)

lemma fold_wd_step_boot:
  "wp_boot p = Overdue \<Longrightarrow> wp_boot (fold wd_step ops p) = Overdue"
  "wp_boot p = Confirmed \<Longrightarrow> wp_boot (fold wd_step ops p) = Confirmed"
  by (induction ops arbitrary: p) (simp_all add: wd_step_Overdue wd_step_Confirmed)

lemma tick_pet_time:
  assumes "wp_open p" and "wp_boot (fst (tick now b p)) \<noteq> Overdue" and "wp_last_pet p = Some t" and "t \<le> now"
    and "0 < wp_interval p"
  shows "\<exists>t'. wp_last_pet (fst (tick now b p)) = Some t' \<and> t' \<le> now \<and> now < t' + wp_interval p"
proof -
  obtain q e where u: "update_boot now b p = (q, e)" by (cases "update_boot now b p")
  have q: "wp_open q = wp_open p" "wp_last_pet q = wp_last_pet p" "wp_interval q = wp_interval p"
    using u update_boot_fields [of now b p] by simp_all
  have "wp_boot q \<noteq> Overdue" using assms(2) u by (simp add: tick_boot)
  then show ?thesis using u q assms by (auto simp: tick_def Let_def due_def)
qed

lemma next_wake_le:
  assumes "wp_open p" and "wp_boot p \<noteq> Overdue" and "wp_last_pet p = Some t" and "t \<le> now"
    and "now < t + wp_interval p"
  shows "\<exists>w. next_wake now p = Some w \<and> now + w \<le> t + wp_interval p"
  using assms
  by (cases "wp_shutting_down p") (auto simp: next_wake_def consider_at_def Let_def split: boot_state.splits option.splits)

lemma tick_fields [simp]:
  "wp_open (fst (tick now b p)) = wp_open p"
  "wp_interval (fst (tick now b p)) = wp_interval p"
proof -
  obtain q e where u: "update_boot now b p = (q, e)" by (cases "update_boot now b p")
  then have "wp_open q = wp_open p" "wp_interval q = wp_interval p"
    using update_boot_fields [of now b p] by simp_all
  then show "wp_open (fst (tick now b p)) = wp_open p" "wp_interval (fst (tick now b p)) = wp_interval p"
    using u by (auto simp: tick_def Let_def)
qed

section \<open>What is configured\<close>

lemma opt_or_simps [simp]: "opt_or None b = b" "opt_or (Some x) b = Some x" "opt_or a None = a"
  by (simp_all add: opt_or_def split: option.splits)

lemma settings_over_unit:
  "settings_over settings_default s = s" "settings_over s settings_default = s"
  by (simp_all add: settings_over_def settings_default_def)

lemma settings_over_assoc: "settings_over (settings_over a b) c = settings_over a (settings_over b c)"
  by (simp add: settings_over_def opt_or_def split: option.splits)

lemma settings_resolve_cases:
  "settings_resolve s = Inr (Some c) \<longleftrightarrow>
     (\<exists>secs boot. ws_timeout s = Some (from_secs secs) \<and> 0 < secs \<and> secs \<le> MAX_TIMEOUT_SECS
       \<and> resolve_boot s = Inr boot
       \<and> c = \<lparr>wc_device = (case ws_device s of None \<Rightarrow> DEFAULT_DEVICE | Some d \<Rightarrow> d),
              wc_timeout = secs, wc_boot = boot\<rparr>)"
proof (cases "ws_timeout s")
  case None
  then show ?thesis by (simp add: settings_resolve_def)
next
  case (Some t)
  have whole: "t \<noteq> 0 \<and> subsec_nanos t = 0 \<longleftrightarrow> (\<exists>secs > 0. t = from_secs secs \<and> as_secs t = secs)"
  proof
    assume t: "t \<noteq> 0 \<and> subsec_nanos t = 0"
    then have "t = from_secs (as_secs t)" using duration_split [of t] by simp
    moreover from this t have "as_secs t > 0" by (cases "as_secs t") (auto simp: from_secs_def)
    ultimately show "\<exists>secs > 0. t = from_secs secs \<and> as_secs t = secs" by blast
  next
    assume "\<exists>secs > 0. t = from_secs secs \<and> as_secs t = secs"
    then obtain secs where "secs > 0" "t = from_secs secs" by blast
    then show "t \<noteq> 0 \<and> subsec_nanos t = 0" by (simp add: from_secs_def subsec_nanos_def nanos_per_sec_def)
  qed
  have small: "secs \<le> MAX_TIMEOUT_SECS \<Longrightarrow> secs \<le> u32_max" for secs
    by (simp add: MAX_TIMEOUT_SECS_def u32_max_def)
  show ?thesis
  proof (cases "t \<noteq> 0 \<and> subsec_nanos t = 0")
    case False
    have no: "\<not> (0 < secs \<and> t = from_secs secs)" for secs
    proof
      assume h: "0 < secs \<and> t = from_secs secs"
      then have "as_secs t = secs" by simp
      with h have "t \<noteq> 0 \<and> subsec_nanos t = 0" unfolding whole by blast
      with False show False by contradiction
    qed
    have "settings_resolve s \<noteq> Inr (Some c)" using False Some by (auto simp: settings_resolve_def)
    moreover have "\<not> (\<exists>secs boot. ws_timeout s = Some (from_secs secs) \<and> 0 < secs
        \<and> secs \<le> MAX_TIMEOUT_SECS \<and> resolve_boot s = Inr boot
        \<and> c = \<lparr>wc_device = (case ws_device s of None \<Rightarrow> DEFAULT_DEVICE | Some d \<Rightarrow> d),
              wc_timeout = secs, wc_boot = boot\<rparr>)"
    proof clarify
      fix secs assume "ws_timeout s = Some (from_secs secs)" "0 < secs"
      then show False using no [of secs] Some by simp
    qed
    ultimately show ?thesis by (simp only: simp_thms)
  next
    case True
    then obtain secs where secs: "secs > 0" "t = from_secs secs" "as_secs t = secs" using whole by blast
    have inj: "from_secs secs = from_secs k \<longleftrightarrow> k = secs" for k
      by (auto simp: from_secs_def nanos_per_sec_def)
    show ?thesis
      using True Some secs small [of secs]
      by (auto simp: settings_resolve_def inj split: sum.splits)
  qed
qed

section \<open>Properties\<close>

definition sample_policy :: policy where
  "sample_policy = opened (from_secs 3) (Some 30)
     (policy_new \<lparr>wc_device = DEFAULT_DEVICE, wc_timeout = 30, wc_boot = None\<rparr>)"

text \<open>The boot deadline is decided once.  It is missed only at a tick where the unit has
  not come up, no shutdown has begun and the deadline has passed; once missed the device is
  never petted again whatever happens, and once confirmed it can no longer be missed.\<close>

theorem boot_deadline_is_final:
  "(wp_boot p \<noteq> Overdue \<and> wp_boot (fst (tick now booted p)) = Overdue \<longrightarrow>
      wp_boot p = Pending \<and> \<not> booted \<and> \<not> wp_shutting_down p
      \<and> (\<exists>b. wc_boot (wp_config p) = Some b \<and> wb_within b \<le> now))
   \<and> (wp_boot p = Overdue \<longrightarrow> fst (snd (tick now booted (fold wd_step ops p))) \<noteq> Pet)
   \<and> (wp_boot p = Confirmed \<longrightarrow> wp_boot (fold wd_step ops p) = Confirmed)"
  using fold_wd_step_boot [of p ops]
  by (auto simp: tick_boot tick_action update_boot_Overdue)

theorem boot_deadline_is_final_witness:
  "fst (snd (tick (from_secs 400) True (fold wd_step [(from_secs 300, Tick True)]
     (sample_policy\<lparr>wp_boot := Overdue\<rparr>)))) \<noteq> Pet"
  using boot_deadline_is_final [of "sample_policy\<lparr>wp_boot := Overdue\<rparr>" "from_secs 400" True
      "[(from_secs 300, Tick True)]"]
  by simp

text \<open>A watchdog runs exactly when the timeout is a whole, positive number of seconds that
  the driver's C int can carry, and the deadline and its unit are configured together (or
  the deadline is switched off with zero).\<close>

theorem watchdog_configuration:
  "settings_resolve s = Inr (Some c) \<longleftrightarrow>
     (\<exists>secs boot. ws_timeout s = Some (from_secs secs) \<and> 0 < secs \<and> secs \<le> MAX_TIMEOUT_SECS
       \<and> resolve_boot s = Inr boot
       \<and> c = \<lparr>wc_device = (case ws_device s of None \<Rightarrow> DEFAULT_DEVICE | Some d \<Rightarrow> d),
              wc_timeout = secs, wc_boot = boot\<rparr>)"
  by (rule settings_resolve_cases)

end
