(* ===== verification/Device.thy ===== *)
theory Device
  imports Watchdog Supervisor
begin

text \<open>
  The watchdog device, \<open>crates/oxinit/src/watchdog.rs\<close>: the policy of \<open>Watchdog\<close> with the
  descriptor it feeds.  What is done to the device is a trace; what the device answers, and
  the time since the start, are arguments.  The configuration files are read by a parameter,
  the TOML reader is another.
\<close>

definition VENDOR_FILE :: string where "VENDOR_FILE = ''/usr/lib/oxinit/watchdog.toml''"
definition ETC_FILE :: string where "ETC_FILE = ''/etc/oxinit/watchdog.toml''"

section \<open>Configuration\<close>

datatype file_answer = Contents string | NotFound | Unreadable string

definition read_settings ::
    "(string \<Rightarrow> string + settings) \<Rightarrow> (string \<Rightarrow> file_answer) \<Rightarrow> string \<Rightarrow> watchdog_error + settings option" where
  "read_settings toml files path =
     (case files path of
        Contents body \<Rightarrow> (case settings_parse toml path body of Inl e \<Rightarrow> Inl e | Inr s \<Rightarrow> Inr (Some s))
      | NotFound \<Rightarrow> Inr None
      | Unreadable message \<Rightarrow> Inl (WE_Toml path message))"

definition load_settings ::
    "(string \<Rightarrow> string + settings) \<Rightarrow> (string \<Rightarrow> file_answer) \<Rightarrow> string \<Rightarrow> watchdog_error + settings" where
  "load_settings toml files cmdline =
     (case read_settings toml files ETC_FILE of
        Inl e \<Rightarrow> Inl e
      | Inr etc \<Rightarrow>
          (case (case etc of
                   Some s \<Rightarrow> Inr s
                 | None \<Rightarrow> (case read_settings toml files VENDOR_FILE of
                       Inl e \<Rightarrow> Inl e
                     | Inr vendor \<Rightarrow> Inr (case vendor of None \<Rightarrow> settings_default | Some s \<Rightarrow> s))) of
             Inl e \<Rightarrow> Inl e
           | Inr base \<Rightarrow>
               (case from_cmdline cmdline of Inl e \<Rightarrow> Inl e | Inr s \<Rightarrow> Inr (settings_over s base))))"

section \<open>The device\<close>

datatype dev_op = DevOpen string | DevFeed | DevMagic | DevClose

record dev =
  dv_policy :: policy
  dv_device :: bool
  dv_reported_missing :: bool
  dv_log :: "dev_op list"

record dev_env =
  de_now :: duration
  de_open :: bool
  de_set_timeout :: "int \<Rightarrow> int option"
  de_get_timeout :: "int option"

definition i32_max :: int where "i32_max = 2 ^ 31 - 1"

definition configure ::
    "(string \<Rightarrow> string + settings) \<Rightarrow> (string \<Rightarrow> file_answer) \<Rightarrow> string \<Rightarrow> bool \<Rightarrow> dev option" where
  "configure toml files cmdline container =
     (case load_settings toml files cmdline of
        Inl _ \<Rightarrow> None
      | Inr s \<Rightarrow>
          (case settings_resolve s of
             Inl _ \<Rightarrow> None
           | Inr None \<Rightarrow> None
           | Inr (Some c) \<Rightarrow>
               if container then None
               else Some \<lparr>dv_policy = policy_new c, dv_device = False, dv_reported_missing = False,
                          dv_log = []\<rparr>))"

definition dev_wait_bound :: "duration \<Rightarrow> dev \<Rightarrow> duration option" where
  "dev_wait_bound now d = next_wake now (dv_policy d)"

definition dev_pet :: "dev \<Rightarrow> dev" where
  "dev_pet d = (if dv_device d then d\<lparr>dv_log := dv_log d @ [DevFeed]\<rparr> else d)"

text \<open>\<open>i32::try_from(timeout).unwrap_or(i32::MAX)\<close> to the driver, and its answer back as a \<open>u32\<close>.\<close>

definition asked_timeout :: "nat \<Rightarrow> int" where
  "asked_timeout timeout = (if int timeout \<le> i32_max then int timeout else i32_max)"

definition applied_timeout :: "dev_env \<Rightarrow> nat \<Rightarrow> nat option" where
  "applied_timeout env timeout =
     (case (case de_set_timeout env (asked_timeout timeout) of
              Some applied \<Rightarrow> Some applied | None \<Rightarrow> de_get_timeout env) of
        None \<Rightarrow> None
      | Some secs \<Rightarrow> if secs < 0 then None else Some (nat secs))"

definition dev_open :: "dev_env \<Rightarrow> dev \<Rightarrow> dev" where
  "dev_open env d =
     (if \<not> de_open env
      then d\<lparr>dv_reported_missing := True, dv_policy := open_failed (de_now env) (dv_policy d)\<rparr>
      else d\<lparr>dv_policy := opened (de_now env) (applied_timeout env (wc_timeout (wp_config (dv_policy d))))
                (dv_policy d),
             dv_device := True,
             dv_log := dv_log d @ [DevOpen (wc_device (wp_config (dv_policy d)))]\<rparr>)"

definition dev_tick :: "dev_env \<Rightarrow> bool \<Rightarrow> bool \<Rightarrow> dev \<Rightarrow> dev" where
  "dev_tick env booted shutting d =
     (let p0 = (if shutting then policy_shutdown (dv_policy d) else dv_policy d);
          (p, what, _) = tick (de_now env) booted p0;
          d1 = d\<lparr>dv_policy := p\<rparr> in
      case what of
        OpenDevice \<Rightarrow> dev_open env d1
      | Pet \<Rightarrow> dev_pet d1
      | NoAction \<Rightarrow> d1)"

definition dev_release :: "action \<Rightarrow> dev \<Rightarrow> dev" where
  "dev_release a d =
     (case release (a = Reboot) of
        Disarm \<Rightarrow> if dv_device d then d\<lparr>dv_device := False, dv_log := dv_log d @ [DevMagic, DevClose]\<rparr> else d
      | KeepRunning \<Rightarrow> dev_pet d)"

section \<open>The descriptor follows the policy\<close>

text \<open>The device is open exactly when the policy thinks so, and was opened at most once.\<close>

definition dev_ok :: "dev \<Rightarrow> bool" where
  "dev_ok d \<longleftrightarrow> dv_device d = wp_open (dv_policy d)
     \<and> (\<exists>n. dv_log d = (if dv_device d
          then DevOpen (wc_device (wp_config (dv_policy d))) # replicate n DevFeed else []))"

definition run_ticks :: "(dev_env \<times> bool \<times> bool) list \<Rightarrow> dev \<Rightarrow> dev" where
  "run_ticks ts d = fold (\<lambda>(env, booted, shutting). dev_tick env booted shutting) ts d"

lemma configure_ok: "configure toml files cmdline container = Some d \<Longrightarrow> dev_ok d"
  by (auto simp: configure_def dev_ok_def policy_new_def split: sum.splits option.splits if_splits)

lemma tick_keeps:
  "wp_open (fst (tick now b p)) = wp_open p" "wp_config (fst (tick now b p)) = wp_config p"
  "fst (snd (tick now b p)) = OpenDevice \<Longrightarrow> \<not> wp_open p"
proof -
  obtain q e where u: "update_boot now b p = (q, e)" by (cases "update_boot now b p")
  have "wp_open q = wp_open p" "wp_config q = wp_config p" using u update_boot_fields [of now b p] by simp_all
  then show "wp_open (fst (tick now b p)) = wp_open p" "wp_config (fst (tick now b p)) = wp_config p"
    "fst (snd (tick now b p)) = OpenDevice \<Longrightarrow> \<not> wp_open p"
    by (auto simp: tick_def u Let_def split: if_splits)
qed

lemma policy_shutdown_keeps [simp]:
  "wp_open (policy_shutdown p) = wp_open p" "wp_config (policy_shutdown p) = wp_config p"
  "wp_boot (policy_shutdown p) = wp_boot p"
  by (simp_all add: policy_shutdown_def)

lemma dev_pet_ok: "dev_ok d \<Longrightarrow> dev_ok (dev_pet d)"
  by (auto simp: dev_ok_def dev_pet_def replicate_append_same intro: exI [of _ "Suc n" for n])

lemma dev_open_ok: "dev_ok d \<Longrightarrow> \<not> wp_open (dv_policy d) \<Longrightarrow> dev_ok (dev_open env d)"
  by (auto simp: dev_ok_def dev_open_def opened_def open_failed_def)

lemma dev_tick_ok:
  assumes "dev_ok d"
  shows "dev_ok (dev_tick env booted shutting d)"
proof -
  let ?p0 = "if shutting then policy_shutdown (dv_policy d) else dv_policy d"
  obtain p what e where t: "tick (de_now env) booted ?p0 = (p, what, e)" by (cases "tick (de_now env) booted ?p0")
  have keep: "wp_open p = wp_open (dv_policy d)" "wp_config p = wp_config (dv_policy d)"
    using tick_keeps(1,2) [of "de_now env" booted ?p0] t by auto
  have d1: "dev_ok (d\<lparr>dv_policy := p\<rparr>)" using assms keep by (auto simp: dev_ok_def)
  have "what = OpenDevice \<Longrightarrow> \<not> wp_open p" using tick_keeps(3) [of "de_now env" booted ?p0] t keep by (auto split: if_splits)
  then show ?thesis using d1 dev_pet_ok dev_open_ok
    by (cases what) (simp_all add: dev_tick_def Let_def t)
qed

lemma run_ticks_ok: "dev_ok d \<Longrightarrow> dev_ok (run_ticks ts d)"
  by (induction ts arbitrary: d) (auto simp: run_ticks_def dev_tick_ok)

section \<open>Feeding\<close>

text \<open>The moments of the ticks that wrote a keepalive to the device.\<close>

fun feed_times :: "(dev_env \<times> bool \<times> bool) list \<Rightarrow> dev \<Rightarrow> duration list" where
  "feed_times [] d = []"
| "feed_times ((env, booted, shutting) # ts) d =
     (let d' = dev_tick env booted shutting d in
      (if dv_log d' = dv_log d @ [DevFeed] then [de_now env] else []) @ feed_times ts d')"

text \<open>The loop honours the wait it is asked for, up to \<open>late\<close>: each tick comes after the last
  one and no later than the wait bound computed after it allows.\<close>

fun prompt :: "duration \<Rightarrow> duration \<Rightarrow> (dev_env \<times> bool \<times> bool) list \<Rightarrow> dev \<Rightarrow> bool" where
  "prompt late now [] d \<longleftrightarrow> True"
| "prompt late now ((env, booted, shutting) # ts) d \<longleftrightarrow>
     now \<le> de_now env
     \<and> (case dev_wait_bound now d of None \<Rightarrow> True | Some w \<Rightarrow> de_now env \<le> now + w + late)
     \<and> prompt late (de_now env) ts (dev_tick env booted shutting d)"

text \<open>The moment of the last of some ticks.\<close>

fun last_tick :: "duration \<Rightarrow> (dev_env \<times> bool \<times> bool) list \<Rightarrow> duration" where
  "last_tick now [] = now"
| "last_tick now ((env, booted, shutting) # ts) = last_tick (de_now env) ts"

lemma dev_tick_overdue:
  "wp_boot (dv_policy d) = Overdue \<Longrightarrow> wp_boot (dv_policy (dev_tick env b sh d)) = Overdue"
proof -
  assume o: "wp_boot (dv_policy d) = Overdue"
  let ?p0 = "if sh then policy_shutdown (dv_policy d) else dv_policy d"
  obtain p what e where t: "tick (de_now env) b ?p0 = (p, what, e)" by (cases "tick (de_now env) b ?p0")
  have "wp_boot p = Overdue" using tick_boot [of "de_now env" b ?p0] o t by (auto simp: update_boot_Overdue)
  then show ?thesis
    by (cases what) (simp_all add: dev_tick_def t Let_def dev_open_def dev_pet_def opened_def open_failed_def)
qed

lemma run_ticks_overdue: "wp_boot (dv_policy d) = Overdue \<Longrightarrow> wp_boot (dv_policy (run_ticks ts d)) = Overdue"
  by (induction ts arbitrary: d) (auto simp: run_ticks_def dev_tick_overdue)

text \<open>A device being fed: open, with its last keepalive at \<open>t\<close>.\<close>

definition feeding :: "duration \<Rightarrow> duration \<Rightarrow> dev \<Rightarrow> bool" where
  "feeding iv t d \<longleftrightarrow> dv_device d \<and> wp_open (dv_policy d) \<and> wp_last_pet (dv_policy d) = Some t
     \<and> wp_interval (dv_policy d) = iv"

lemma dev_tick_feeds:
  assumes f: "feeding iv t d" and b: "wp_boot (dv_policy (dev_tick env b sh d)) \<noteq> Overdue"
    and pos: "0 < iv"
  shows "if t + iv \<le> de_now env
    then feeding iv (de_now env) (dev_tick env b sh d) \<and> dv_log (dev_tick env b sh d) = dv_log d @ [DevFeed]
    else feeding iv t (dev_tick env b sh d) \<and> dv_log (dev_tick env b sh d) = dv_log d"
proof -
  let ?p0 = "if sh then policy_shutdown (dv_policy d) else dv_policy d"
  obtain q e where u: "update_boot (de_now env) b ?p0 = (q, e)" by (cases "update_boot (de_now env) b ?p0")
  have q: "wp_open q" "wp_last_pet q = Some t" "wp_interval q = iv"
    using f u update_boot_fields [of "de_now env" b ?p0] by (auto simp: feeding_def policy_shutdown_def split: if_splits)
  have t: "tick (de_now env) b ?p0 = (if wp_boot q = Overdue then (q, NoAction, e)
      else if t + iv \<le> de_now env then (q\<lparr>wp_last_pet := Some (de_now env)\<rparr>, Pet, e) else (q, NoAction, e))"
    using q pos by (auto simp: tick_def u Let_def due_def)
  have "wp_boot q \<noteq> Overdue" using b t by (auto simp: dev_tick_def Let_def)
  then show ?thesis using f q t by (auto simp: dev_tick_def Let_def feeding_def dev_pet_def)
qed

lemma wait_for_feed:
  assumes "feeding iv t d" and "t \<le> now" and "now < t + iv" and "wp_boot (dv_policy d) \<noteq> Overdue"
  shows "\<exists>w. dev_wait_bound now d = Some w \<and> now + w \<le> t + iv"
  using next_wake_le [of "dv_policy d" t now] assms by (simp add: feeding_def dev_wait_bound_def)

lemma feeds_run:
  assumes "feeding iv t d" and "t \<le> now" and "now < t + iv" and "prompt late now ts d"
    and "wp_boot (dv_policy (run_ticks ts d)) \<noteq> Overdue" and "0 < iv"
  shows "dv_log (run_ticks ts d) = dv_log d @ replicate (length (feed_times ts d)) DevFeed
    \<and> (\<forall>k < length (feed_times ts d). (t # feed_times ts d) ! k + iv \<le> feed_times ts d ! k
          \<and> feed_times ts d ! k \<le> (t # feed_times ts d) ! k + iv + late)
    \<and> last_tick now ts < List.last (t # feed_times ts d) + iv"
  using assms
proof (induction ts arbitrary: t d now)
  case Nil
  then show ?case by (simp add: run_ticks_def)
next
  case (Cons x ts)
  obtain env b sh where x: "x = (env, b, sh)" by (cases x)
  let ?d = "dev_tick env b sh d" and ?n = "de_now env"
  have run: "run_ticks (x # ts) d = run_ticks ts ?d" by (simp add: run_ticks_def x)
  have bd: "wp_boot (dv_policy ?d) \<noteq> Overdue" using Cons.prems(5) run_ticks_overdue by (auto simp: run)
  then have b0: "wp_boot (dv_policy d) \<noteq> Overdue" using dev_tick_overdue by blast
  note f = dev_tick_feeds [OF Cons.prems(1) bd Cons.prems(6)]
  have pr: "prompt late ?n ts ?d" "now \<le> ?n" using Cons.prems(4) by (simp_all add: x)
  obtain w where w: "dev_wait_bound now d = Some w" "now + w \<le> t + iv"
    using wait_for_feed [OF Cons.prems(1-3) b0] by blast
  then have le: "?n \<le> t + iv + late" using Cons.prems(4) by (simp add: x)
  have end_ok: "wp_boot (dv_policy (run_ticks ts ?d)) \<noteq> Overdue" using Cons.prems(5) by (simp add: run)
  show ?case
  proof (cases "t + iv \<le> ?n")
    case True
    let ?F = "feed_times ts ?d"
    have fd: "feeding iv ?n ?d" "dv_log ?d = dv_log d @ [DevFeed]" using f True by simp_all
    have F: "feed_times (x # ts) d = ?n # ?F" by (simp add: x fd(2) Let_def)
    note IH = Cons.IH [OF fd(1) order_refl _ pr(1) end_ok Cons.prems(6)]
    have IH': "dv_log (run_ticks ts ?d) = dv_log ?d @ replicate (length ?F) DevFeed"
      "\<forall>k < length ?F. (?n # ?F) ! k + iv \<le> ?F ! k \<and> ?F ! k \<le> (?n # ?F) ! k + iv + late"
      "last_tick ?n ts < List.last (?n # ?F) + iv"
      using IH Cons.prems(6) by simp_all
    have "(t # ?n # ?F) ! k + iv \<le> (?n # ?F) ! k \<and> (?n # ?F) ! k \<le> (t # ?n # ?F) ! k + iv + late"
      if "k < length (?n # ?F)" for k
      using that True le IH'(2) by (cases k) simp_all
    then show ?thesis using IH'(1,3) fd(2) by (simp add: run F) (auto simp: x split: if_splits)
  next
    case False
    have fd: "feeding iv t ?d" "dv_log ?d = dv_log d" using f False by simp_all
    have F: "feed_times (x # ts) d = feed_times ts ?d" by (simp add: x fd(2) Let_def)
    have "t \<le> ?n" "?n < t + iv" using False Cons.prems(2) pr(2) by simp_all
    from Cons.IH [OF fd(1) this pr(1) end_ok Cons.prems(6)] show ?thesis
      by (simp add: run F fd(2)) (auto simp: x split: if_splits)
  qed
qed

section \<open>Properties\<close>

text \<open>C14.  A healthy loop feeds the device.  Take an open device whose last keepalive is less than
  one interval old, and any ticks of a loop that wakes no later than \<open>late\<close> after the wait it
  was asked for.  Unless the boot deadline is missed on the way, what is written to the device
  is keepalives and nothing else; each comes at least one interval after the one before it and
  at most an interval and \<open>late\<close>; and at the last tick the newest is less than one interval
  old.\<close>

theorem watchdog_is_fed:
  fixes d late now ts
  assumes "dv_device d" and "wp_open (dv_policy d)" and "wp_last_pet (dv_policy d) = Some t"
    and "t \<le> now" and "now < t + wp_interval (dv_policy d)"
    and "prompt late now ts d" and "wp_boot (dv_policy (run_ticks ts d)) \<noteq> Overdue"
  defines "F \<equiv> feed_times ts d"
  shows "dv_log (run_ticks ts d) = dv_log d @ replicate (length F) DevFeed
    \<and> (\<forall>k < length F. (t # F) ! k + wp_interval (dv_policy d) \<le> F ! k
          \<and> F ! k \<le> (t # F) ! k + wp_interval (dv_policy d) + late)
    \<and> last_tick now ts < List.last (t # F) + wp_interval (dv_policy d)"
  unfolding F_def
  by (rule feeds_run) (use assms in \<open>simp_all add: feeding_def\<close>)

text \<open>A device opened at 3 seconds with a timeout of 30, by a loop that wakes up to a second
  late: fed at 18.5 and at 34.\<close>

definition fed_device :: dev where
  "fed_device = \<lparr>dv_policy = sample_policy, dv_device = True, dv_reported_missing = False, dv_log = [DevOpen DEFAULT_DEVICE]\<rparr>"

definition env_at :: "duration \<Rightarrow> dev_env" where
  "env_at t = \<lparr>de_now = t, de_open = True, de_set_timeout = Some, de_get_timeout = None\<rparr>"

definition fed_ticks :: "(dev_env \<times> bool \<times> bool) list" where
  "fed_ticks = [(env_at (from_millis 18500), False, False), (env_at (from_secs 20), False, False),
     (env_at (from_secs 34), False, True)]"

lemma sample_policy_eq: "sample_policy = \<lparr>wp_config = \<lparr>wc_device = DEFAULT_DEVICE, wc_timeout = 30, wc_boot = None\<rparr>,
     wp_boot = Confirmed, wp_open = True, wp_interval = from_secs 15, wp_last_pet = Some (from_secs 3),
     wp_last_try = None, wp_shutting_down = False\<rparr>"
  by (simp add: sample_policy_def opened_def policy_new_def pet_interval_def from_secs_def nanos_per_sec_def)

theorem watchdog_is_fed_witness:
  "dv_log (run_ticks fed_ticks fed_device) = [DevOpen DEFAULT_DEVICE, DevFeed, DevFeed]"
proof -
  have f: "feed_times fed_ticks fed_device = [from_millis 18500, from_secs 34]"
    by (simp add: fed_ticks_def fed_device_def sample_policy_eq env_at_def dev_tick_def tick_def update_boot_def due_def
        dev_pet_def policy_shutdown_def from_secs_def from_millis_def nanos_per_sec_def Let_def time_unit_defs)
  have p: "prompt (from_secs 1) (from_secs 3) fed_ticks fed_device"
    by (simp add: fed_ticks_def fed_device_def sample_policy_eq env_at_def dev_tick_def tick_def update_boot_def due_def
        dev_pet_def policy_shutdown_def dev_wait_bound_def next_wake_def consider_at_def time_unit_defs Let_def)
  have "wp_boot (dv_policy (run_ticks fed_ticks fed_device)) = Confirmed"
    by (simp add: run_ticks_def fed_ticks_def fed_device_def sample_policy_eq env_at_def dev_tick_def tick_def
        update_boot_def due_def dev_pet_def policy_shutdown_def time_unit_defs Let_def)
  then show ?thesis
    using watchdog_is_fed [OF _ _ _ _ _ p, of "from_secs 3"] f
    by (simp add: fed_device_def sample_policy_eq time_unit_defs)
qed

text \<open>From configuration through any turns of the loop to the end, the device sees one open,
  then keepalives, and at the end of a shutdown: nothing if it was never opened; one more
  keepalive before a reboot, so that it keeps counting through the firmware; the magic byte
  and a close, which stop it, before anything else.  The magic byte is never written earlier.\<close>

theorem device_life:
  fixes ts a
  assumes "configure toml files cmdline container = Some d0"
  defines "d \<equiv> run_ticks ts d0"
  shows "\<not> container
    \<and> (\<exists>feeds. dv_log (dev_release a d) =
          (if \<not> dv_device d then []
           else DevOpen (wc_device (wp_config (dv_policy d))) # replicate feeds DevFeed
                  @ (if a = Reboot then [DevFeed] else [DevMagic, DevClose])))"
proof -
  have c: "\<not> container" using assms(1) by (auto simp: configure_def split: sum.splits option.splits if_splits)
  have ok: "dev_ok d" unfolding d_def by (rule run_ticks_ok [OF configure_ok [OF assms(1)]])
  then obtain n where log: "dv_log d = (if dv_device d
      then DevOpen (wc_device (wp_config (dv_policy d))) # replicate n DevFeed else [])"
    by (auto simp: dev_ok_def)
  have "dv_log (dev_release a d) =
      (if dv_device d then dv_log d @ (if a = Reboot then [DevFeed] else [DevMagic, DevClose]) else dv_log d)"
    by (cases a) (simp_all add: dev_release_def release_def dev_pet_def)
  with c log show ?thesis by auto
qed

definition sample_toml :: "string \<Rightarrow> string + settings" where
  "sample_toml _ = Inr (settings_default\<lparr>ws_timeout := Some (from_secs 30)\<rparr>)"

definition sample_dev_env :: dev_env where
  "sample_dev_env = \<lparr>de_now = 0, de_open = True, de_set_timeout = Some, de_get_timeout = None\<rparr>"

lemma subsec_from_secs [simp]: "subsec_nanos (from_secs n) = 0"
  by (simp add: time_unit_defs)

lemma sample_resolves:
  "settings_resolve \<lparr>ws_device = None, ws_timeout = Some (from_secs 30), ws_boot_unit = None, ws_boot = None\<rparr>
     = Inr (Some \<lparr>wc_device = DEFAULT_DEVICE, wc_timeout = 30, wc_boot = None\<rparr>)"
  by (simp add: settings_resolve_def resolve_boot_def MAX_TIMEOUT_SECS_def u32_max_def)
     (simp add: time_unit_defs)

theorem device_life_witness:
  "\<exists>d0 feeds. configure sample_toml (\<lambda>p. if p = ETC_FILE then Contents [] else NotFound) [] False = Some d0
     \<and> dv_log (dev_release PowerOff (run_ticks [(sample_dev_env, False, False)] d0))
         = DevOpen DEFAULT_DEVICE # replicate feeds DevFeed @ [DevMagic, DevClose]"
proof -
  let ?c = "\<lparr>wc_device = DEFAULT_DEVICE, wc_timeout = 30, wc_boot = None\<rparr>"
  let ?d0 = "\<lparr>dv_policy = policy_new ?c, dv_device = False, dv_reported_missing = False, dv_log = []\<rparr>"
  have d0: "configure sample_toml (\<lambda>p. if p = ETC_FILE then Contents [] else NotFound) [] False = Some ?d0"
    by (simp add: configure_def load_settings_def read_settings_def sample_toml_def settings_parse_def
        sample_resolves from_cmdline_def split_whitespace_def settings_over_def opt_or_def settings_default_def)
  have d: "dv_device (run_ticks [(sample_dev_env, False, False)] ?d0)
      \<and> wc_device (wp_config (dv_policy (run_ticks [(sample_dev_env, False, False)] ?d0))) = DEFAULT_DEVICE"
    by (simp add: run_ticks_def dev_tick_def tick_def update_boot_def due_def policy_new_def
        dev_open_def opened_def sample_dev_env_def Let_def)
  show ?thesis using d0 d device_life [OF d0, of PowerOff "[(sample_dev_env, False, False)]"] by auto
qed

end
