(* ===== verification/LogFormat.thy ===== *)
theory LogFormat
  imports Text Clock
begin

text \<open>
  Logs: \<open>crates/oxinit-log/src/lib.rs\<close>.  Records, the splitter that turns reads into lines,
  and the plan of a rotation.  Bytes are characters; a path is the text of it.
\<close>

section \<open>Paths and records\<close>

definition log_path :: "string \<Rightarrow> string \<Rightarrow> string" where
  "log_path dir u = path_join dir (u @ ''.log'')"

record timestamp =
  ts_secs :: nat
  ts_micros :: nat

definition pad6 :: "nat \<Rightarrow> string" where
  "pad6 n = replicate (6 - length (show_nat n)) (CHR ''0'') @ show_nat n"

definition log_record :: "timestamp \<Rightarrow> string \<Rightarrow> string" where
  "log_record at line = show_nat (ts_secs at) @ ''.'' @ pad6 (ts_micros at) @ '' '' @ line @ [newline]"

section \<open>The splitter\<close>

definition MAX_LINE :: nat where "MAX_LINE = 16 * 1024"

text \<open>The loop of \<open>push\<close>: what it emits and what is held when it ends.\<close>

function push_loop :: "string \<Rightarrow> string \<Rightarrow> string list \<times> string" where
  "push_loop partial rest =
     (case split_once newline rest of
        None \<Rightarrow> ([], partial @ rest)
      | Some (line, tail) \<Rightarrow>
          let (ls, q) = push_loop [] tail in
          ((if partial = [] then line else partial @ line) # ls, q))"
  by pat_completeness auto
termination
  by (relation "measure (\<lambda>(partial, rest). length rest)") (auto simp: split_once_Some)

declare push_loop.simps [simp del]

definition push_chunk :: "string \<Rightarrow> string \<Rightarrow> string list \<times> string" where
  "push_chunk partial chunk =
     (let (ls, q) = push_loop partial chunk in
      if MAX_LINE \<le> length q then (ls @ [q], []) else (ls, q))"

definition flush_partial :: "string \<Rightarrow> string option \<times> string" where
  "flush_partial partial = (if partial = [] then (None, []) else (Some partial, []))"

fun push_chunks :: "string \<Rightarrow> string list \<Rightarrow> string list \<times> string" where
  "push_chunks partial [] = ([], partial)"
| "push_chunks partial (c # cs) =
     (let (ls, q) = push_chunk partial c; (ls', q') = push_chunks q cs in (ls @ ls', q'))"

section \<open>Rotation\<close>

record rotation =
  rt_max_size :: nat
  rt_keep :: nat

definition rotation_default :: rotation where
  "rotation_default = \<lparr>rt_max_size = 1024 * 1024, rt_keep = 3\<rparr>"

datatype move = Remove string | Rename string string

definition should_rotate :: "rotation \<Rightarrow> nat \<Rightarrow> nat \<Rightarrow> bool" where
  "should_rotate r current adding \<longleftrightarrow> current > 0 \<and> saturating_add64 current adding > rt_max_size r"

definition generation :: "string \<Rightarrow> string \<Rightarrow> nat \<Rightarrow> string" where
  "generation dir u n = path_join dir (u @ ''.log.'' @ show_nat n)"

definition rotation_plan :: "rotation \<Rightarrow> string \<Rightarrow> string \<Rightarrow> move list" where
  "rotation_plan r dir u =
     (if rt_keep r = 0 then [Remove (log_path dir u)]
      else [Remove (generation dir u (rt_keep r))]
        @ map (\<lambda>n. Rename (generation dir u n) (generation dir u (n + 1))) (rev [1..<rt_keep r])
        @ [Rename (log_path dir u) (generation dir u 1)])"

section \<open>The splitter against splitting the whole\<close>

lemma split_once_split_on:
  "split_once c s = Some (a, b) \<Longrightarrow> split_on c s = a # split_on c b"
  by (auto simp: split_once_Some split_on_append split_on_plain)

lemma split_once_None_split_on: "split_once c s = None \<Longrightarrow> split_on c s = [s]"
  by (simp add: split_once_None split_on_plain)

definition with_head :: "string \<Rightarrow> string list \<Rightarrow> string list" where
  "with_head p pieces = (p @ hd pieces) # tl pieces"

lemma push_loop_pieces:
  "push_loop p s = (butlast (with_head p (split_on newline s)), last (with_head p (split_on newline s)))"
proof (induction p s rule: push_loop.induct)
  case (1 p s)
  show ?case
  proof (cases "split_once newline s")
    case None
    then show ?thesis by (subst push_loop.simps) (simp add: with_head_def split_once_None_split_on)
  next
    case (Some lt)
    obtain line tail where lt: "lt = (line, tail)" by (cases lt)
    have IH: "push_loop [] tail = (butlast (split_on newline tail), last (split_on newline tail))"
      using 1 [OF Some lt [symmetric]] by (simp add: with_head_def)
    show ?thesis
      using Some lt IH by (subst push_loop.simps) (simp add: with_head_def split_once_split_on)
  qed
qed

lemma split_on_append_pieces:
  "split_on c (s @ t) = butlast (split_on c s) @ with_head (last (split_on c s)) (split_on c t)"
proof (induction s)
  case Nil
  then show ?case by (cases "split_on c t") (simp_all add: with_head_def)
next
  case (Cons a s)
  then show ?case
    by (cases "split_on c s"; cases "a = c") (auto simp: with_head_def)
qed

lemma with_head_pieces_append:
  "with_head p (split_on c (s @ t)) =
     butlast (with_head p (split_on c s)) @ with_head (last (with_head p (split_on c s))) (split_on c t)"
  by (cases "split_on c s") (auto simp: split_on_append_pieces with_head_def)

lemma push_loop_append:
  "push_loop p (s @ t) =
     (fst (push_loop p s) @ fst (push_loop (snd (push_loop p s)) t), snd (push_loop (snd (push_loop p s)) t))"
proof -
  have "with_head q x \<noteq> []" for q x by (simp add: with_head_def)
  then show ?thesis by (simp add: push_loop_pieces with_head_pieces_append butlast_append)
qed

text \<open>As long as no line is broken, the chunks do not matter.\<close>

lemma push_chunks_whole:
  "\<forall>piece \<in> set (with_head p (split_on newline (concat cs))). length piece < MAX_LINE \<Longrightarrow>
     push_chunks p cs = push_loop p (concat cs)"
proof (induction cs arbitrary: p)
  case Nil
  then show ?case by (simp add: push_loop_pieces with_head_def)
next
  case (Cons c cs)
  obtain ls q where l: "push_loop p c = (ls, q)" by (cases "push_loop p c")
  have q: "q = last (with_head p (split_on newline c))" using l by (simp add: push_loop_pieces)
  have "set (with_head q (split_on newline (concat cs))) \<subseteq>
      set (with_head p (split_on newline (concat (c # cs))))"
    by (simp add: q with_head_pieces_append)
  then have all: "\<forall>piece \<in> set (with_head q (split_on newline (concat cs))). length piece < MAX_LINE"
    using Cons.prems by blast
  then have "length q < MAX_LINE" by (simp add: with_head_def)
  then have "push_chunk p c = (ls, q)" by (simp add: push_chunk_def l)
  then show ?case using Cons.IH [OF all] l by (simp add: push_loop_append split_beta)
qed

lemma split_on_concat: "concat (split_on c s) = filter (\<lambda>x. x \<noteq> c) s"
proof (induction s)
  case (Cons a s)
  then show ?case by (cases "split_on c s") auto
qed simp

lemma push_loop_bytes:
  "concat (fst (push_loop p s)) @ snd (push_loop p s) = p @ filter (\<lambda>x. x \<noteq> newline) s"
proof -
  let ?xs = "with_head p (split_on newline s)"
  have ne: "?xs \<noteq> []" by (simp add: with_head_def)
  have "concat (butlast ?xs) @ last ?xs = concat (butlast ?xs @ [last ?xs])"
    by (simp only: concat_append) simp
  also have "\<dots> = concat ?xs" by (simp only: append_butlast_last_id [OF ne])
  also have "\<dots> = p @ concat (split_on newline s)"
    by (cases "split_on newline s") (simp_all add: with_head_def)
  finally show ?thesis by (simp add: push_loop_pieces split_on_concat)
qed

lemma push_chunk_bytes:
  "concat (fst (push_chunk p c)) @ snd (push_chunk p c) = p @ filter (\<lambda>x. x \<noteq> newline) c"
  using push_loop_bytes [of p c] by (simp add: push_chunk_def split_beta Let_def)

lemma push_chunks_bytes:
  "concat (fst (push_chunks p cs)) @ snd (push_chunks p cs) = p @ filter (\<lambda>x. x \<noteq> newline) (concat cs)"
proof (induction cs arbitrary: p)
  case (Cons c cs)
  then show ?case using push_chunk_bytes [of p c] by (simp add: split_beta Let_def)
qed simp

lemma push_chunks_held: "length p < MAX_LINE \<Longrightarrow> length (snd (push_chunks p cs)) < MAX_LINE"
proof (induction cs arbitrary: p)
  case (Cons c cs)
  have "length (snd (push_chunk p c)) < MAX_LINE"
    by (simp add: push_chunk_def split_beta Let_def) (simp add: MAX_LINE_def)
  then show ?case using Cons.IH by (simp add: split_beta Let_def)
qed simp

lemma push_chunks_no_newline:
  "newline \<notin> set p \<Longrightarrow> \<forall>l \<in> set (fst (push_chunks p cs)). newline \<notin> set l"
proof -
  assume p: "newline \<notin> set p"
  have "newline \<notin> set (concat (fst (push_chunks p cs)) @ snd (push_chunks p cs))"
    using p by (simp add: push_chunks_bytes)
  then show ?thesis by auto
qed

section \<open>What a rotation does\<close>

text \<open>The steps on the files of a directory; one that fails changes nothing.\<close>

definition apply_move :: "move \<Rightarrow> (string \<Rightarrow> string option) \<Rightarrow> string \<Rightarrow> string option" where
  "apply_move m fs =
     (case m of
        Remove p \<Rightarrow> fs(p := None)
      | Rename a b \<Rightarrow> (case fs a of None \<Rightarrow> fs | Some c \<Rightarrow> (fs(a := None))(b \<mapsto> c)))"

definition dir_ok :: "string \<Rightarrow> bool" where
  "dir_ok dir \<longleftrightarrow> dir \<noteq> []"

definition unit_name_ok :: "string \<Rightarrow> bool" where
  "unit_name_ok u \<longleftrightarrow> CHR ''/'' \<notin> set u"

lemma relative: "CHR ''/'' \<notin> set p \<Longrightarrow> take 1 p \<noteq> ''/''"
  by (cases p) auto

lemma path_join_inj:
  assumes "CHR ''/'' \<notin> set p" and "CHR ''/'' \<notin> set q"
  shows "path_join dir p = path_join dir q \<longleftrightarrow> p = q"
  unfolding path_join_def path_is_absolute_def using relative [OF assms(1)] relative [OF assms(2)] by simp

lemma show_nat_no_slash: "CHR ''/'' \<notin> set (show_nat n)"
  using show_nat_set [of "CHR ''/''" n] by (auto simp: is_ascii_digit_def scalar_def)

lemma show_nat_inj: "show_nat m = show_nat n \<longleftrightarrow> m = n"
  by (metis digits_value_show_nat)

lemma generation_inj:
  "unit_name_ok u \<Longrightarrow> generation dir u m = generation dir u n \<longleftrightarrow> m = n"
  by (simp add: generation_def path_join_inj unit_name_ok_def show_nat_no_slash show_nat_inj)

lemma last_show_nat: "is_ascii_digit (last (show_nat n))"
  using show_nat_set [of "last (show_nat n)" n] by simp

lemma log_not_generation:
  assumes "unit_name_ok u" and "unit_name_ok v" shows "log_path dir u \<noteq> generation dir v n"
proof
  assume "log_path dir u = generation dir v n"
  then have "u @ ''.log'' = v @ ''.log.'' @ show_nat n"
    using assms path_join_inj [of "u @ ''.log''" "v @ ''.log.'' @ show_nat n" dir]
    by (simp add: log_path_def generation_def unit_name_ok_def show_nat_no_slash)
  then have "last (u @ ''.log'') = last (v @ ''.log.'' @ show_nat n)" by (rule arg_cong)
  then have "CHR ''g'' = last (show_nat n)" by simp
  then show False using last_show_nat [of n] by (simp add: is_ascii_digit_def scalar_def flip: \<open>CHR ''g'' = _\<close>)
qed

lemma log_path_inj: "unit_name_ok u \<Longrightarrow> unit_name_ok v \<Longrightarrow> log_path dir u = log_path dir v \<longleftrightarrow> u = v"
  by (simp add: log_path_def path_join_inj unit_name_ok_def)

lemma rename_chain:
  fixes g :: "nat \<Rightarrow> string"
  assumes "inj g" and "fs (g k) = None" and "1 \<le> k"
  shows "fold apply_move (map (\<lambda>n. Rename (g n) (g (n + 1))) (rev [1..<k])) fs =
     (\<lambda>p. if \<exists>n. 1 \<le> n \<and> n \<le> k \<and> p = g n
          then (if p = g 1 then None else fs (g (inv g p - 1))) else fs p)"
  using assms(2,3)
proof (induction k arbitrary: fs)
  case (Suc k)
  have g: "g a = g b \<longleftrightarrow> a = b" for a b using assms(1) by (simp add: inj_eq)
  have inv: "inv g (g a) = a" for a using assms(1) by (simp add: inv_f_f)
  show ?case
  proof (cases "k = 0")
    case True
    then show ?thesis using Suc.prems by (auto simp: fun_eq_iff g le_Suc_eq)
  next
    case False
    let ?fs = "apply_move (Rename (g k) (g (Suc k))) fs"
    have v: "?fs p = (if p = g (Suc k) then fs (g k) else if p = g k then None else fs p)" for p
      using Suc.prems(1) by (auto simp: apply_move_def g split: option.splits)
    have "rev [1..<Suc k] = k # rev [1..<k]" using False by simp
    then have "fold apply_move (map (\<lambda>n. Rename (g n) (g (n + 1))) (rev [1..<Suc k])) fs
        = fold apply_move (map (\<lambda>n. Rename (g n) (g (n + 1))) (rev [1..<k])) ?fs" by simp
    also have "\<dots> = (\<lambda>p. if \<exists>n. 1 \<le> n \<and> n \<le> k \<and> p = g n
          then (if p = g 1 then None else ?fs (g (inv g p - 1))) else ?fs p)"
      by (rule Suc.IH) (use False v [of "g k"] in \<open>simp_all add: g\<close>)
    also have "\<dots> = (\<lambda>p. if \<exists>n. 1 \<le> n \<and> n \<le> Suc k \<and> p = g n
          then (if p = g 1 then None else fs (g (inv g p - 1))) else fs p)"
    proof
      fix p
      show "(if \<exists>n. 1 \<le> n \<and> n \<le> k \<and> p = g n then (if p = g 1 then None else ?fs (g (inv g p - 1))) else ?fs p)
        = (if \<exists>n. 1 \<le> n \<and> n \<le> Suc k \<and> p = g n then (if p = g 1 then None else fs (g (inv g p - 1))) else fs p)"
      proof (cases "\<exists>n. 1 \<le> n \<and> n \<le> Suc k \<and> p = g n")
        case True
        then obtain n where n: "1 \<le> n" "n \<le> Suc k" "p = g n" by blast
        then show ?thesis
          using False by (cases "n = Suc k") (auto simp: v g inv)
      next
        case no: False
        then have "p \<noteq> g (Suc k)" "p \<noteq> g k" using False by auto
        moreover have "\<not> (\<exists>n. 1 \<le> n \<and> n \<le> k \<and> p = g n)" using no le_SucI by blast
        ultimately show ?thesis unfolding v if_not_P [OF no] by (simp only: if_False)
      qed
    qed
    finally show ?thesis .
  qed
qed simp

lemma plan_moves:
  fixes fs dir r
  assumes u: "unit_name_ok u"
  defines "fs' \<equiv> fold apply_move (rotation_plan r dir u) fs"
  shows "fs' (log_path dir u) = None"
    and "\<And>n. 1 \<le> n \<Longrightarrow> n \<le> rt_keep r \<Longrightarrow>
      fs' (generation dir u n) = (if n = 1 then fs (log_path dir u) else fs (generation dir u (n - 1)))"
    and "\<And>p. p \<noteq> log_path dir u \<Longrightarrow> (\<And>n. 1 \<le> n \<Longrightarrow> n \<le> rt_keep r \<Longrightarrow> p \<noteq> generation dir u n) \<Longrightarrow> fs' p = fs p"
proof -
  let ?g = "generation dir u" and ?l = "log_path dir u"
  have inj: "inj ?g" using generation_inj [OF u] by (simp add: inj_def)
  have inv: "inv ?g (?g n) = n" for n using inj by (simp add: inv_f_f)
  have g: "?g m = ?g n \<longleftrightarrow> m = n" for m n using generation_inj [OF u] .
  have lg: "?l \<noteq> ?g n" for n using log_not_generation [OF u u] .
  show "fs' ?l = None"
    and "\<And>n. 1 \<le> n \<Longrightarrow> n \<le> rt_keep r \<Longrightarrow> fs' (?g n) = (if n = 1 then fs ?l else fs (?g (n - 1)))"
    and "\<And>p. p \<noteq> ?l \<Longrightarrow> (\<And>n. 1 \<le> n \<Longrightarrow> n \<le> rt_keep r \<Longrightarrow> p \<noteq> ?g n) \<Longrightarrow> fs' p = fs p"
  proof (atomize (full), cases "rt_keep r = 0")
    case True
    then show "fs' ?l = None \<and> (\<forall>n\<ge>1. n \<le> rt_keep r \<longrightarrow> fs' (?g n) = (if n = 1 then fs ?l else fs (?g (n - 1))))
        \<and> (\<forall>p. p \<noteq> ?l \<longrightarrow> (\<forall>n\<ge>1. n \<le> rt_keep r \<longrightarrow> p \<noteq> ?g n) \<longrightarrow> fs' p = fs p)"
      by (simp add: fs'_def rotation_plan_def apply_move_def)
  next
    case False
    let ?k = "rt_keep r" and ?fs1 = "fs(?g (rt_keep r) := None)"
    define fs2 where "fs2 = fold apply_move (map (\<lambda>n. Rename (?g n) (?g (n + 1))) (rev [1..<?k])) ?fs1"
    have fs2: "fs2 p = (if \<exists>n. 1 \<le> n \<and> n \<le> ?k \<and> p = ?g n
        then (if p = ?g 1 then None else ?fs1 (?g (inv ?g p - 1))) else ?fs1 p)" for p
      unfolding fs2_def using rename_chain [OF inj, of ?fs1 ?k] False by simp
    have "fs' = apply_move (Rename ?l (?g 1)) fs2"
      using False by (simp add: fs'_def rotation_plan_def fs2_def apply_move_def [of "Remove _"])
    moreover have l2: "fs2 ?l = fs ?l" using lg by (auto simp: fs2)
    moreover have "\<exists>n. 1 \<le> n \<and> n \<le> ?k \<and> ?g 1 = ?g n" using False by (intro exI [of _ 1]) simp
    then have "fs2 (?g 1) = None" by (simp only: fs2 if_True refl)
    ultimately have fs': "fs' p = (if p = ?g 1 then fs ?l else if p = ?l then None else fs2 p)" for p
      using lg by (auto simp: apply_move_def split: option.splits)
    have gen: "fs2 (?g n) = fs (?g (n - 1))" if "1 < n" "n \<le> ?k" for n
      using that by (auto simp: fs2 g inv)
    show "fs' ?l = None \<and> (\<forall>n\<ge>1. n \<le> rt_keep r \<longrightarrow> fs' (?g n) = (if n = 1 then fs ?l else fs (?g (n - 1))))
        \<and> (\<forall>p. p \<noteq> ?l \<longrightarrow> (\<forall>n\<ge>1. n \<le> rt_keep r \<longrightarrow> p \<noteq> ?g n) \<longrightarrow> fs' p = fs p)"
    proof (intro conjI allI impI)
      show "fs' ?l = None" using lg by (simp add: fs')
    next
      fix n assume "1 \<le> n" "n \<le> ?k"
      then show "fs' (?g n) = (if n = 1 then fs ?l else fs (?g (n - 1)))"
        using gen [of n] lg [of n] by (auto simp: fs' g)
    next
      fix p assume p: "p \<noteq> ?l" "\<forall>n\<ge>1. n \<le> ?k \<longrightarrow> p \<noteq> ?g n"
      then have "p \<noteq> ?g 1" "p \<noteq> ?g ?k" using False by auto
      moreover have "\<not> (\<exists>n. 1 \<le> n \<and> n \<le> ?k \<and> p = ?g n)" using p(2) by blast
      ultimately show "fs' p = fs p" using p(1) by (simp only: fs' fs2 if_False fun_upd_apply)
    qed
  qed
qed

end
