(* ===== verification/Paths.thy ===== *)
theory Paths
  imports LogFormat
begin

text \<open>
  Where the sockets and logs are: \<open>crates/oxinit-paths/src/lib.rs\<close>.  A path is the text of
  it; the environment is the lookup the source takes.  The inner module \<open>system\<close> is the
  group of \<open>SYSTEM_\<close> constants.
\<close>

definition SYSTEM_RUNTIME_DIR :: string where "SYSTEM_RUNTIME_DIR = ''/run/oxinit''"
definition SYSTEM_CONTROL :: string where "SYSTEM_CONTROL = ''/run/oxinit/control.sock''"
definition SYSTEM_NOTIFY :: string where "SYSTEM_NOTIFY = ''/run/oxinit/notify''"
definition SYSTEM_LOG_SOCKET :: string where "SYSTEM_LOG_SOCKET = ''/run/oxinit/log.sock''"
definition SYSTEM_LOG_DIR :: string where "SYSTEM_LOG_DIR = ''/var/log/oxinit''"
definition CONTROL_NAME :: string where "CONTROL_NAME = ''control.sock''"
definition NOTIFY_NAME :: string where "NOTIFY_NAME = ''notify''"
definition LOG_SOCKET_NAME :: string where "LOG_SOCKET_NAME = ''log.sock''"

datatype path_scope = SystemPaths | UserPaths

datatype paths_error =
    NoRuntimeDir
  | RelativeRuntimeDir string
  | NoHome string

record paths =
  pt_scope :: path_scope
  pt_runtime_dir :: string
  pt_log_dir :: string
  pt_config_home :: "string option"

definition system_paths :: paths where
  "system_paths = \<lparr>pt_scope = SystemPaths, pt_runtime_dir = SYSTEM_RUNTIME_DIR,
     pt_log_dir = SYSTEM_LOG_DIR, pt_config_home = None\<rparr>"

text \<open>\<open>env(name).map(PathBuf::from).filter(is_absolute)\<close>.\<close>

definition absolute_var :: "(string \<Rightarrow> string option) \<Rightarrow> string \<Rightarrow> string option" where
  "absolute_var env name =
     (case env name of None \<Rightarrow> None | Some p \<Rightarrow> if path_is_absolute p then Some p else None)"

text \<open>The closure \<open>base\<close> of \<open>user\<close>.\<close>

definition base_dir ::
    "(string \<Rightarrow> string option) \<Rightarrow> string option \<Rightarrow> string \<Rightarrow> string \<Rightarrow> paths_error + string" where
  "base_dir env home name fallback =
     (case absolute_var env name of
        Some dir \<Rightarrow> Inr dir
      | None \<Rightarrow> (case home of None \<Rightarrow> Inl (NoHome name) | Some h \<Rightarrow> Inr (path_join h fallback)))"

definition user_paths :: "(string \<Rightarrow> string option) \<Rightarrow> paths_error + paths" where
  "user_paths env =
     (case env ''XDG_RUNTIME_DIR'' of
        None \<Rightarrow> Inl NoRuntimeDir
      | Some runtime \<Rightarrow>
          if runtime = [] then Inl NoRuntimeDir
          else if \<not> path_is_absolute runtime then Inl (RelativeRuntimeDir runtime)
          else
            let home = absolute_var env ''HOME'' in
            (case base_dir env home ''XDG_CONFIG_HOME'' ''.config'' of
               Inl e \<Rightarrow> Inl e
             | Inr config_home \<Rightarrow>
                 (case base_dir env home ''XDG_STATE_HOME'' ''.local/state'' of
                    Inl e \<Rightarrow> Inl e
                  | Inr state_home \<Rightarrow>
                      Inr \<lparr>pt_scope = UserPaths, pt_runtime_dir = path_join runtime ''oxinit'',
                           pt_log_dir = path_join (path_join state_home ''oxinit'') ''log'',
                           pt_config_home = Some config_home\<rparr>)))"

definition control_path :: "paths \<Rightarrow> string" where
  "control_path p = path_join (pt_runtime_dir p) CONTROL_NAME"

definition notify_path :: "paths \<Rightarrow> string" where
  "notify_path p = path_join (pt_runtime_dir p) NOTIFY_NAME"

definition log_socket_path :: "paths \<Rightarrow> string" where
  "log_socket_path p = path_join (pt_runtime_dir p) LOG_SOCKET_NAME"

definition unit_log_path :: "paths \<Rightarrow> string \<Rightarrow> string" where
  "unit_log_path p u = path_join (pt_log_dir p) (u @ ''.log'')"

definition is_user :: "paths \<Rightarrow> bool" where
  "is_user p \<longleftrightarrow> pt_scope p = UserPaths"

section \<open>Lemmas\<close>

lemmas path_name_defs = CONTROL_NAME_def NOTIFY_NAME_def LOG_SOCKET_NAME_def

text \<open>What the client works out from \<open>system()\<close> is what the constants say.\<close>

lemma system_paths_are_the_constants:
  "control_path system_paths = SYSTEM_CONTROL" "notify_path system_paths = SYSTEM_NOTIFY"
  "log_socket_path system_paths = SYSTEM_LOG_SOCKET"
  by (simp_all add: control_path_def notify_path_def log_socket_path_def system_paths_def path_name_defs
      path_join_def path_is_absolute_def SYSTEM_RUNTIME_DIR_def SYSTEM_CONTROL_def SYSTEM_NOTIFY_def
      SYSTEM_LOG_SOCKET_def)

lemma path_join_absolute: "path_is_absolute dir \<Longrightarrow> path_is_absolute (path_join dir p)"
  by (cases dir) (auto simp: path_join_def path_is_absolute_def)

lemma absolute_var_absolute: "absolute_var env name = Some p \<Longrightarrow> path_is_absolute p"
  by (auto simp: absolute_var_def split: option.splits if_splits)

lemma base_dir_absolute:
  "base_dir env (absolute_var env v) name f = Inr d \<Longrightarrow> path_is_absolute d"
  by (auto simp: base_dir_def path_join_absolute absolute_var_absolute dest: absolute_var_absolute
      split: option.splits)

lemma user_paths_absolute:
  assumes "user_paths env = Inr p"
  shows "path_is_absolute (pt_runtime_dir p)" "path_is_absolute (pt_log_dir p)"
    "\<exists>c. pt_config_home p = Some c \<and> path_is_absolute c"
  using assms
  by (auto simp: user_paths_def Let_def path_join_absolute dest: base_dir_absolute
      split: option.splits if_splits sum.splits)

text \<open>A relative XDG directory, and a relative home, count as unset.\<close>

definition only_absolute :: "(string \<Rightarrow> string option) \<Rightarrow> string \<Rightarrow> string option" where
  "only_absolute env name = (if name = ''XDG_RUNTIME_DIR'' then env name else absolute_var env name)"

lemma absolute_var_only_absolute:
  "name \<noteq> ''XDG_RUNTIME_DIR'' \<Longrightarrow> absolute_var (only_absolute env) name = absolute_var env name"
  by (auto simp: absolute_var_def only_absolute_def split: option.splits)

lemma user_paths_only_absolute: "user_paths (only_absolute env) = user_paths env"
proof -
  have "base_dir (only_absolute env) home n f = base_dir env home n f"
    if "n \<noteq> ''XDG_RUNTIME_DIR''" for home n f
    using that by (simp add: base_dir_def absolute_var_only_absolute)
  moreover have "only_absolute env ''XDG_RUNTIME_DIR'' = env ''XDG_RUNTIME_DIR''"
    by (simp add: only_absolute_def)
  moreover have "absolute_var (only_absolute env) ''HOME'' = absolute_var env ''HOME''"
    by (simp add: absolute_var_only_absolute)
  ultimately show ?thesis
    by (cases "env ''XDG_RUNTIME_DIR''") (simp_all add: user_paths_def Let_def cong: if_cong sum.case_cong)
qed

section \<open>Properties\<close>

text \<open>Once a user's paths resolve, the three sockets and every unit's log are at absolute
  paths, the sockets are three different files in the session's runtime directory, and
  different units (named without a leading slash) have different log files.\<close>

theorem user_paths_are_absolute_and_apart:
  assumes "user_paths env = Inr p"
  shows "list_all path_is_absolute [control_path p, notify_path p, log_socket_path p, unit_log_path p u]
    \<and> distinct [control_path p, notify_path p, log_socket_path p]
    \<and> (\<not> path_is_absolute (u @ ''.log'') \<longrightarrow> \<not> path_is_absolute (v @ ''.log'') \<longrightarrow>
         unit_log_path p u = unit_log_path p v \<longrightarrow> u = v)"
  using user_paths_absolute [OF assms]
  by (auto simp: control_path_def notify_path_def log_socket_path_def unit_log_path_def path_join_absolute)
     (auto simp: path_join_def path_name_defs path_is_absolute_def split: if_splits)

end
