(* ===== verification/Boot.thy ===== *)
theory Boot
  imports Device Paths
begin

text \<open>
  Around the supervisor: where the manager runs (\<open>container.rs\<close>), the mounts and the host name
  (\<open>mounts.rs\<close>), the console (\<open>console.rs\<close>), a user manager's own cgroup (\<open>user.rs\<close>) and the
  end of a shutdown (\<open>shutdown.rs\<close>), all under \<open>crates/oxinit/src\<close>.  What the system
  answers is an argument; what is done to it is a list of operations.
\<close>

unbundle bit_operations_syntax

section \<open>The environment\<close>

record runtime =
  rn_name :: string
  rn_evidence :: string

datatype environment = Machine | Container runtime | UserManager string

text \<open>What can be looked at: the variable \<open>container\<close>, which marker files exist, and the text of
  \<open>/proc/self/status\<close>.\<close>

record evidence =
  ev_container :: "string option"
  ev_exists :: "string \<Rightarrow> bool"
  ev_status :: "string option"

definition from_env :: "evidence \<Rightarrow> string \<Rightarrow> runtime option" where
  "from_env ev what =
     (case ev_container ev of
        None \<Rightarrow> None
      | Some name \<Rightarrow> if name = [] then None else Some \<lparr>rn_name = name, rn_evidence = what\<rparr>)"

definition from_marker :: "evidence \<Rightarrow> string \<Rightarrow> runtime option" where
  "from_marker ev path =
     (if \<not> ev_exists ev path then None
      else Some \<lparr>rn_name = (if path = ''/.dockerenv'' then ''docker''
                            else if path = ''/run/.containerenv'' then ''podman'' else path),
                 rn_evidence = path\<rparr>)"

text \<open>\<open>u64::from_str_radix(_, 16)\<close>.\<close>

definition hex_digit :: "char \<Rightarrow> nat option" where
  "hex_digit c =
     (if is_ascii_digit c then Some (scalar c - 48)
      else if 97 \<le> scalar c \<and> scalar c \<le> 102 then Some (scalar c - 87)
      else if 65 \<le> scalar c \<and> scalar c \<le> 70 then Some (scalar c - 55)
      else None)"

fun hex_fold :: "nat \<Rightarrow> string \<Rightarrow> nat option" where
  "hex_fold acc [] = Some acc"
| "hex_fold acc (c # s) =
     (case hex_digit c of
        None \<Rightarrow> None
      | Some d \<Rightarrow> if acc * 16 + d \<le> u64_max then hex_fold (acc * 16 + d) s else None)"

definition parse_hex :: "string \<Rightarrow> nat option" where
  "parse_hex s =
     (let ds = (case s of [] \<Rightarrow> [] | c # cs \<Rightarrow> if c = CHR ''+'' then cs else s) in
      if ds = [] then None else hex_fold 0 ds)"

fun find_map :: "('a \<Rightarrow> 'b option) \<Rightarrow> 'a list \<Rightarrow> 'b option" where
  "find_map f [] = None"
| "find_map f (x # xs) = (case f x of None \<Rightarrow> find_map f xs | Some y \<Rightarrow> Some y)"

definition CAP_SYS_ADMIN :: nat where "CAP_SYS_ADMIN = 21"

definition from_capabilities :: "evidence \<Rightarrow> string \<Rightarrow> runtime option" where
  "from_capabilities ev what =
     (case ev_status ev of
        None \<Rightarrow> None
      | Some status \<Rightarrow>
          (case Option.bind (map_option trim (find_map (strip_prefix ''CapEff:'') (text_lines status))) parse_hex of
             None \<Rightarrow> None
           | Some effective \<Rightarrow>
               if (of_nat effective :: 64 word) AND push_bit CAP_SYS_ADMIN 1 \<noteq> 0 then None
               else Some \<lparr>rn_name = ''unidentified'', rn_evidence = what\<rparr>))"

definition EVIDENCE :: "(string \<times> (evidence \<Rightarrow> string \<Rightarrow> runtime option)) list" where
  "EVIDENCE =
     [(''$container'', from_env), (''/run/.containerenv'', from_marker), (''/.dockerenv'', from_marker),
      (''CapEff'', from_capabilities)]"

definition detect :: "evidence \<Rightarrow> environment" where
  "detect ev = (case find_map (\<lambda>(what, found). found ev what) EVIDENCE of
     Some r \<Rightarrow> Container r | None \<Rightarrow> Machine)"

definition env_is_container :: "environment \<Rightarrow> bool" where
  "env_is_container e = (case e of Container _ \<Rightarrow> True | _ \<Rightarrow> False)"

definition env_is_user :: "environment \<Rightarrow> bool" where
  "env_is_user e = (case e of UserManager _ \<Rightarrow> True | _ \<Rightarrow> False)"

definition env_exits :: "environment \<Rightarrow> bool" where
  "env_exits e \<longleftrightarrow> e \<noteq> Machine"

section \<open>Mounts\<close>

datatype errno = EPERM | EBUSY | EEXIST | OtherErrno nat

datatype mount_error = MountFailed string errno | MkdirFailed string errno

record mount_env =
  me_stat :: "string \<Rightarrow> nat option"
  me_mkdir :: "string \<Rightarrow> errno option"
  me_mount :: "string \<Rightarrow> errno option"

definition SPECS :: "string list" where
  "SPECS = [''/proc'', ''/sys'', ''/dev'', ''/dev/pts'', ''/dev/shm'', ''/run'', ''/sys/fs/cgroup'']"

record mounts =
  mn_inherited :: "string list"
  mn_refused :: "string list"
  mn_failures :: "mount_error list"

definition is_mounted :: "mount_env \<Rightarrow> string \<Rightarrow> bool" where
  "is_mounted me target =
     (case (me_stat me target, me_stat me (target @ ''/..'')) of
        (Some here, Some parent) \<Rightarrow> here \<noteq> parent | _ \<Rightarrow> False)"

definition mount_one :: "mount_env \<Rightarrow> string \<Rightarrow> mount_error + unit" where
  "mount_one me target =
     (case me_mkdir me target of
        Some e \<Rightarrow> if e \<noteq> EEXIST then Inl (MkdirFailed target e)
                  else (case me_mount me target of
                          None \<Rightarrow> Inr ()
                        | Some m \<Rightarrow> if m = EBUSY then Inr () else Inl (MountFailed target m))
      | None \<Rightarrow> (case me_mount me target of
                  None \<Rightarrow> Inr ()
                | Some m \<Rightarrow> if m = EBUSY then Inr () else Inl (MountFailed target m)))"

definition mount_spec :: "mount_env \<Rightarrow> string \<Rightarrow> mounts \<Rightarrow> mounts" where
  "mount_spec me target ms =
     (if is_mounted me target then ms\<lparr>mn_inherited := mn_inherited ms @ [target]\<rparr>
      else case mount_one me target of
        Inr _ \<Rightarrow> ms
      | Inl e \<Rightarrow> (case e of
            MountFailed t EPERM \<Rightarrow> ms\<lparr>mn_refused := mn_refused ms @ [t]\<rparr>
          | _ \<Rightarrow> ms\<lparr>mn_failures := mn_failures ms @ [e]\<rparr>))"

definition mount_all :: "mount_env \<Rightarrow> mounts" where
  "mount_all me = fold (mount_spec me) SPECS \<lparr>mn_inherited = [], mn_refused = [], mn_failures = []\<rparr>"

definition current_hostname :: "(string \<Rightarrow> string) \<Rightarrow> string \<Rightarrow> string" where
  "current_hostname lossy nodename = (let name = lossy nodename in if name = [] then ''localhost'' else name)"

text \<open>\<open>set_hostname\<close>: the first line of the file, else \<open>localhost\<close>; the name already set when the
  kernel refuses.  \<open>lossy\<close> decodes bytes to text.\<close>

definition set_hostname ::
    "(string \<Rightarrow> string) \<Rightarrow> string option \<Rightarrow> (string \<Rightarrow> bool) \<Rightarrow> string \<Rightarrow> string \<times> bool" where
  "set_hostname lossy etc sethostname nodename =
     (let raw = (case etc of None \<Rightarrow> [] | Some r \<Rightarrow> r);
          line = hd (split_on newline raw);
          wanted = (if line = [] then ''localhost'' else line) in
      if sethostname wanted then (lossy wanted, True)
      else (current_hostname lossy nodename, False))"

section \<open>The console\<close>

text \<open>The descriptor table maps numbers to what they refer to; \<open>open\<close> takes the lowest free number
  below the limit.\<close>

type_synonym fds = "nat \<Rightarrow> string option"

definition open_fd :: "nat \<Rightarrow> string option \<Rightarrow> fds \<Rightarrow> (fds \<times> nat) option" where
  "open_fd limit answer fds =
     (case answer of
        None \<Rightarrow> None
      | Some f \<Rightarrow> (case find (\<lambda>n. fds n = None) [0..<limit] of
            None \<Rightarrow> None | Some n \<Rightarrow> Some (fds(n := Some f), n)))"

definition console_attach :: "nat \<Rightarrow> string option \<Rightarrow> fds \<Rightarrow> fds \<times> bool" where
  "console_attach limit answer fds =
     (let missing = map (\<lambda>n. fds n = None) [0, 1, 2] in
      if True \<notin> set missing then (fds, True)
      else (case open_fd limit answer fds of
              None \<Rightarrow> (fds, False)
            | Some (f1, con) \<Rightarrow>
                let f2 = (if missing ! 0 then f1(0 := f1 con) else f1);
                    f3 = (if missing ! 1 then f2(1 := f2 con) else f2);
                    f4 = (if missing ! 2 then f3(2 := f3 con) else f3) in
                ((if con \<le> 2 then f4 else f4(con := None)), True)))"

section \<open>A user manager's cgroup\<close>

definition own_cgroup :: "string \<Rightarrow> string option \<Rightarrow> string option" where
  "own_cgroup root placement =
     map_option (\<lambda>p. path_join root (dropWhile (\<lambda>c. c = CHR ''/'') (trim p)))
       (Option.bind placement (\<lambda>t. find_map (strip_prefix ''0::'') (text_lines t)))"

section \<open>The end of a shutdown\<close>

datatype final_op = ExitStatus int | SyncDisks | RemountReadOnly | RebootCommand action

definition exit_code :: "action \<Rightarrow> environment \<Rightarrow> int" where
  "exit_code a e = (if env_is_user e then 0 else exit_status a)"

definition finalize :: "action \<Rightarrow> environment \<Rightarrow> dev option \<Rightarrow> dev option \<times> final_op list" where
  "finalize a e wd =
     (if env_exits e then (wd, [ExitStatus (exit_code a e)])
      else (map_option (dev_release a) wd, [SyncDisks, RemountReadOnly, RebootCommand a]))"

section \<open>Lemmas\<close>

text \<open>Every mount target is in at most one list, and a target in none was mounted.\<close>

fun failed_target :: "mount_error \<Rightarrow> string" where
  "failed_target (MountFailed t e) = t"
| "failed_target (MkdirFailed t e) = t"

definition targets :: "mounts \<Rightarrow> string list" where
  "targets ms = mn_inherited ms @ mn_refused ms @ map failed_target (mn_failures ms)"

lemma mount_one_error: "mount_one me t = Inl e \<Longrightarrow> failed_target e = t"
  by (auto simp: mount_one_def split: option.splits if_splits)

lemma mount_spec_targets:
  "set (targets (mount_spec me t ms)) =
     set (targets ms) \<union> (if is_mounted me t \<or> mount_one me t \<noteq> Inr () then {t} else {})"
  using mount_one_error [of me t]
  by (auto simp: mount_spec_def targets_def split: sum.splits mount_error.splits errno.splits)

section \<open>Properties\<close>

text \<open>With standard input, output or error missing and a console that opens, all three are
  open afterwards: those that were there are untouched, the others are the console, and no
  other descriptor was gained or lost.\<close>

theorem console_fills_the_gaps:
  assumes "0 < limit" "1 < limit" "2 < limit"
  shows "console_attach limit (Some con) fds =
    ((\<lambda>n. if n \<le> 2 \<and> fds n = None then Some con else fds n), True)"
proof -
  have l: "[0..<limit] = [0, 1, 2] @ [3..<limit]"
    using assms by (simp add: upt_conv_Cons numeral_eq_Suc)
  have le2: "n \<le> 2 \<longleftrightarrow> n = 0 \<or> n = 1 \<or> n = 2" for n :: nat by auto
  show ?thesis
    by (cases "fds 0"; cases "fds 1"; cases "fds 2")
      (simp_all add: console_attach_def open_fd_def l le2 fun_eq_iff, auto)
qed

theorem console_fills_the_gaps_witness:
  "fst (console_attach 1024 (Some ''console'') ((\<lambda>_. None)(1 := Some ''pipe''))) 0 = Some ''console''
   \<and> fst (console_attach 1024 (Some ''console'') ((\<lambda>_. None)(1 := Some ''pipe''))) 3 = None"
  using console_fills_the_gaps [of 1024 "''console''" "(\<lambda>_. None)(1 := Some ''pipe'')"] by simp

end
