(* ===== verification/Channels.thy ===== *)
theory Channels
  imports Text "HOL-Library.Word"
begin

text \<open>
  The sockets of the manager that clients hold open: the control socket
  (\<open>crates/oxinit/src/control.rs\<close>) with the message limit of \<open>crates/oxinit-ipc\<close>, and the
  log socket over which the read ends of service pipes are handed to the log daemon
  (\<open>crates/oxinit/src/logs.rs\<close>).  Descriptors are numbers; what the kernel answers to a call is
  an argument of the operation that makes it.
\<close>

section \<open>Messages\<close>

definition MAX_MESSAGE :: nat where "MAX_MESSAGE = 64 * 1024"

datatype ipc_error = EncodeError string | DecodeError string | TooLarge nat nat

text \<open>\<open>encode\<close> and \<open>decode\<close>; \<open>serde_json\<close> is a parameter.\<close>

definition ipc_encode :: "('a \<Rightarrow> string + string) \<Rightarrow> 'a \<Rightarrow> ipc_error + string" where
  "ipc_encode to_vec v =
     (case to_vec v of
        Inl e \<Rightarrow> Inl (EncodeError e)
      | Inr bytes \<Rightarrow> if length bytes > MAX_MESSAGE then Inl (TooLarge (length bytes) MAX_MESSAGE) else Inr bytes)"

definition ipc_decode :: "(string \<Rightarrow> string + 'a) \<Rightarrow> string \<Rightarrow> ipc_error + 'a" where
  "ipc_decode from_slice bytes =
     (case from_slice bytes of Inl e \<Rightarrow> Inl (DecodeError e) | Inr v \<Rightarrow> Inr v)"

definition show_ipc_error :: "ipc_error \<Rightarrow> string" where
  "show_ipc_error e =
     (case e of
        EncodeError m \<Rightarrow> ''encode: '' @ m
      | DecodeError m \<Rightarrow> ''decode: '' @ m
      | TooLarge n limit \<Rightarrow>
          ''message is '' @ show_nat n @ '' bytes, over the '' @ show_nat limit @ '' byte limit'')"

section \<open>Control clients\<close>

definition MAX_CLIENTS :: nat where "MAX_CLIENTS = 8"

record client =
  cl_id :: "32 word"
  cl_fd :: nat

record control =
  ct_clients :: "client list"
  ct_next_id :: "32 word"

definition control_bind :: control where
  "control_bind = \<lparr>ct_clients = [], ct_next_id = 0\<rparr>"

definition control_accept :: "nat option \<Rightarrow> control \<Rightarrow> control \<times> 32 word option" where
  "control_accept accepted c =
     (case accepted of
        None \<Rightarrow> (c, None)
      | Some fd \<Rightarrow>
          if length (ct_clients c) \<ge> MAX_CLIENTS then (c, None)
          else (c\<lparr>ct_next_id := ct_next_id c + 1,
                  ct_clients := ct_clients c @ [\<lparr>cl_id = ct_next_id c, cl_fd = fd\<rparr>]\<rparr>,
                Some (ct_next_id c)))"

definition control_client :: "control \<Rightarrow> 32 word \<Rightarrow> client option" where
  "control_client c i = find (\<lambda>cl. cl_id cl = i) (ct_clients c)"

definition control_fd :: "control \<Rightarrow> 32 word \<Rightarrow> nat option" where
  "control_fd c i = map_option cl_fd (control_client c i)"

text \<open>\<open>recv\<close>: the kernel's answer for a descriptor is an error, or what landed in the buffer and
  the size of what was sent.\<close>

definition control_recv :: "(nat \<Rightarrow> (string \<times> nat) option) \<Rightarrow> control \<Rightarrow> 32 word \<Rightarrow> string option" where
  "control_recv answer c i =
     (case control_client c i of
        None \<Rightarrow> None
      | Some cl \<Rightarrow>
          (case answer (cl_fd cl) of
             None \<Rightarrow> None
           | Some (bytes, sent) \<Rightarrow>
               if bytes = [] then None else if sent > MAX_MESSAGE then None else Some bytes))"

definition control_close :: "32 word \<Rightarrow> control \<Rightarrow> control" where
  "control_close i c = c\<lparr>ct_clients := filter (\<lambda>cl. cl_id cl \<noteq> i) (ct_clients c)\<rparr>"

section \<open>Log pipes\<close>

record held =
  hd_unit :: string
  hd_read :: nat

text \<open>\<open>lg_offers\<close> is what was sent over the present connection: unit, read end, and whether the
  kernel took the message.\<close>

record logs =
  lg_listener :: bool
  lg_shipper :: bool
  lg_held :: "held list"
  lg_offers :: "(string \<times> nat \<times> bool) list"

definition logs_bind :: logs where
  "logs_bind = \<lparr>lg_listener = True, lg_shipper = False, lg_held = [], lg_offers = []\<rparr>"

definition logs_unavailable :: logs where
  "logs_unavailable = \<lparr>lg_listener = False, lg_shipper = False, lg_held = [], lg_offers = []\<rparr>"

definition offer :: "(string \<Rightarrow> nat \<Rightarrow> bool) \<Rightarrow> string \<Rightarrow> nat \<Rightarrow> logs \<Rightarrow> logs" where
  "offer sends u fd l =
     (if lg_shipper l then l\<lparr>lg_offers := lg_offers l @ [(u, fd, sends u fd)]\<rparr> else l)"

definition logs_accept :: "bool \<Rightarrow> (string \<Rightarrow> nat \<Rightarrow> bool) \<Rightarrow> logs \<Rightarrow> logs \<times> bool" where
  "logs_accept accepted sends l =
     (if \<not> lg_listener l then (l, False)
      else if \<not> accepted then (l, False)
      else if lg_shipper l then (l, False)
      else (fold (\<lambda>h. offer sends (hd_unit h) (hd_read h)) (lg_held l)
              (l\<lparr>lg_shipper := True, lg_offers := []\<rparr>), True))"

definition logs_disconnect :: "logs \<Rightarrow> logs" where
  "logs_disconnect l = (if lg_shipper l then l\<lparr>lg_shipper := False, lg_offers := []\<rparr> else l)"

datatype pipe_error = NoLogSocket | NoPipe

text \<open>\<open>pipe\<close>: the kernel answers with a read and a write end.\<close>

definition logs_pipe ::
    "(nat \<times> nat) option \<Rightarrow> (string \<Rightarrow> nat \<Rightarrow> bool) \<Rightarrow> string \<Rightarrow> logs \<Rightarrow> logs \<times> (pipe_error + nat)" where
  "logs_pipe made sends u l =
     (if \<not> lg_listener l then (l, Inl NoLogSocket)
      else case made of
        None \<Rightarrow> (l, Inl NoPipe)
      | Some (rd, wr) \<Rightarrow>
          let l1 = offer sends u rd l in
          (l1\<lparr>lg_held := filter (\<lambda>h. hd_unit h \<noteq> u) (lg_held l1) @ [\<lparr>hd_unit = u, hd_read = rd\<rparr>]\<rparr>, Inr wr))"

section \<open>Runs\<close>

datatype control_op = CtAccept "nat option" | CtClose "32 word"

definition control_step :: "control_op \<Rightarrow> control \<Rightarrow> control" where
  "control_step op c = (case op of CtAccept a \<Rightarrow> fst (control_accept a c) | CtClose i \<Rightarrow> control_close i c)"

text \<open>The identifiers handed out count up; those still in use are some of them, in order.\<close>

definition control_ok :: "nat \<Rightarrow> control \<Rightarrow> bool" where
  "control_ok limit c \<longleftrightarrow> length (ct_clients c) \<le> MAX_CLIENTS
     \<and> (\<exists>n ks. n \<le> limit \<and> ct_next_id c = of_nat n \<and> map cl_id (ct_clients c) = map of_nat ks
          \<and> sorted_wrt (<) ks \<and> (\<forall>k \<in> set ks. k < n))"

lemma control_ok_bind: "control_ok 0 control_bind"
  by (simp add: control_ok_def control_bind_def)

lemma filter_map_image:
  "map f ys = map g ks \<Longrightarrow> map f (filter (\<lambda>y. P (f y)) ys) = map g (filter (\<lambda>k. P (g k)) ks)"
proof (induction ys arbitrary: ks)
  case Nil
  then show ?case by simp
next
  case (Cons y ys)
  then show ?case by (cases ks) auto
qed

lemma control_ok_close: "control_ok limit c \<Longrightarrow> control_ok limit (control_close i c)"
proof -
  assume "control_ok limit c"
  then obtain n ks where c: "length (ct_clients c) \<le> MAX_CLIENTS" "n \<le> limit" "ct_next_id c = of_nat n"
    "map cl_id (ct_clients c) = map of_nat ks" "sorted_wrt (<) ks" "\<forall>k \<in> set ks. k < n"
    by (auto simp: control_ok_def)
  have "length (filter (\<lambda>cl. cl_id cl \<noteq> i) (ct_clients c)) \<le> MAX_CLIENTS"
    using c(1) length_filter_le le_trans by blast
  moreover have "map cl_id (filter (\<lambda>cl. cl_id cl \<noteq> i) (ct_clients c)) = map of_nat (filter (\<lambda>k. of_nat k \<noteq> i) ks)"
    using filter_map_image [OF c(4), of "\<lambda>x. x \<noteq> i"] by simp
  moreover have "sorted_wrt (<) (filter (\<lambda>k. of_nat k \<noteq> i) ks)" using c(5) by (rule sorted_wrt_filter)
  ultimately show ?thesis
    using c(2,3,6) unfolding control_ok_def control_close_def
    by (simp, intro exI [of _ n] conjI exI [of _ "filter (\<lambda>k. of_nat k \<noteq> i) ks"]) auto
qed

lemma control_ok_accept: "control_ok limit c \<Longrightarrow> control_ok (Suc limit) (fst (control_accept a c))"
proof -
  assume ok: "control_ok limit c"
  then obtain n ks where c: "length (ct_clients c) \<le> MAX_CLIENTS" "n \<le> limit" "ct_next_id c = of_nat n"
    "map cl_id (ct_clients c) = map of_nat ks" "sorted_wrt (<) ks" "\<forall>k \<in> set ks. k < n"
    by (auto simp: control_ok_def)
  have weaker: "control_ok (Suc limit) c" using ok by (auto simp: control_ok_def intro: le_SucI)
  show ?thesis
  proof (cases "a = None \<or> MAX_CLIENTS \<le> length (ct_clients c)")
    case True
    then have "fst (control_accept a c) = c" by (auto simp: control_accept_def split: option.splits)
    with weaker show ?thesis by simp
  next
    case False
    then obtain fd where a: "a = Some fd" "length (ct_clients c) < MAX_CLIENTS" by auto
    have "sorted_wrt (<) (ks @ [n])" using c(5,6) by (simp add: sorted_wrt_append)
    then show ?thesis
      using a c unfolding control_ok_def control_accept_def
      by (simp, intro exI [of _ "Suc n"] conjI exI [of _ "ks @ [n]"]) auto
  qed
qed

lemma control_ok_run: "control_ok limit c \<Longrightarrow> control_ok (limit + length ops) (fold control_step ops c)"
proof (induction ops arbitrary: c limit)
  case Nil
  then show ?case by simp
next
  case (Cons op ops)
  have "control_ok (Suc limit) (control_step op c)"
  proof (cases op)
    case (CtAccept a)
    then show ?thesis using control_ok_accept [OF Cons.prems] by (simp add: control_step_def)
  next
    case (CtClose i)
    then have "control_ok limit (control_step op c)"
      using control_ok_close [OF Cons.prems] by (simp add: control_step_def)
    then show ?thesis by (auto simp: control_ok_def intro: le_SucI)
  qed
  from Cons.IH [OF this] show ?case by simp
qed

lemma find_distinct: "distinct (map f xs) \<Longrightarrow> x \<in> set xs \<Longrightarrow> find (\<lambda>y. f y = f x) xs = Some x"
  by (induction xs) (auto simp: image_iff)

lemma control_ok_distinct:
  assumes "control_ok limit c" and "limit \<le> 2 ^ 32"
  shows "distinct (map cl_id (ct_clients c))"
proof -
  obtain n ks where c: "n \<le> limit" "map cl_id (ct_clients c) = map (of_nat :: nat \<Rightarrow> 32 word) ks"
    "sorted_wrt (<) ks" "\<forall>k \<in> set ks. k < n"
    using assms(1) by (auto simp: control_ok_def)
  have n: "n \<le> 2 ^ LENGTH(32)" using order_trans [OF c(1) assms(2)] by simp
  have small: "take_bit LENGTH(32) k = k" if "k \<in> set ks" for k
    by (rule take_bit_nat_eq_self, rule less_le_trans [OF _ n]) (use that c(4) in blast)
  have "inj_on (of_nat :: nat \<Rightarrow> 32 word) (set ks)"
  proof (rule inj_onI)
    fix a b
    assume "a \<in> set ks" "b \<in> set ks" "(of_nat a :: 32 word) = of_nat b"
    then have "take_bit LENGTH(32) a = take_bit LENGTH(32) b" by (simp only: word_of_nat_eq_iff)
    then show "a = b" using small [OF \<open>a \<in> set ks\<close>] small [OF \<open>b \<in> set ks\<close>] by (simp only:)
  qed
  moreover have "distinct ks" using c(3) by (simp add: strict_sorted_iff)
  ultimately show ?thesis unfolding c(2) by (simp add: distinct_map)
qed

datatype logs_op =
    LgAccept bool "string \<Rightarrow> nat \<Rightarrow> bool"
  | LgDisconnect
  | LgPipe "(nat \<times> nat) option" "string \<Rightarrow> nat \<Rightarrow> bool" string

definition logs_step :: "logs_op \<Rightarrow> logs \<Rightarrow> logs" where
  "logs_step op l =
     (case op of
        LgAccept a sends \<Rightarrow> fst (logs_accept a sends l)
      | LgDisconnect \<Rightarrow> logs_disconnect l
      | LgPipe made sends u \<Rightarrow> fst (logs_pipe made sends u l))"

definition offered :: "logs \<Rightarrow> (string \<times> nat) set" where
  "offered l = (\<lambda>(u, fd, _). (u, fd)) ` set (lg_offers l)"

definition log_pipes_ok :: "logs \<Rightarrow> bool" where
  "log_pipes_ok l \<longleftrightarrow> distinct (map hd_unit (lg_held l))
     \<and> (lg_shipper l \<longrightarrow> (\<forall>h \<in> set (lg_held l). (hd_unit h, hd_read h) \<in> offered l))"

lemma offer_fields [simp]:
  "lg_held (offer sends u fd l) = lg_held l" "lg_shipper (offer sends u fd l) = lg_shipper l"
  "offered (offer sends u fd l) = (if lg_shipper l then insert (u, fd) (offered l) else offered l)"
  by (simp_all add: offer_def offered_def)

lemma offered_held [simp]: "offered (l\<lparr>lg_held := hs\<rparr>) = offered l"
  by (simp add: offered_def)

lemma offer_all_fields [simp]:
  "lg_held (fold (\<lambda>h. offer sends (hd_unit h) (hd_read h)) hs l) = lg_held l"
  "lg_shipper (fold (\<lambda>h. offer sends (hd_unit h) (hd_read h)) hs l) = lg_shipper l"
  "lg_shipper l \<Longrightarrow> offered (fold (\<lambda>h. offer sends (hd_unit h) (hd_read h)) hs l)
     = offered l \<union> (\<lambda>h. (hd_unit h, hd_read h)) ` set hs"
  by (induction hs arbitrary: l) auto

lemma logs_step_ok: "log_pipes_ok l \<Longrightarrow> log_pipes_ok (logs_step op l)"
  by (cases op)
    (auto simp: log_pipes_ok_def logs_step_def logs_accept_def logs_disconnect_def logs_pipe_def Let_def
      distinct_map inj_on_def split: option.splits)

lemma logs_run_ok: "log_pipes_ok l \<Longrightarrow> log_pipes_ok (fold logs_step ops l)"
  by (induction ops arbitrary: l) (auto simp: logs_step_ok)

section \<open>Properties\<close>

text \<open>The control socket never holds more than eight clients, and as long as fewer than
  2 to the 32 operations were made, a client's identifier finds its own connection and no
  other: a reply goes to the one that asked.\<close>

theorem control_reaches_the_asker:
  fixes ops
  defines "c \<equiv> fold control_step ops control_bind"
  shows "length (ct_clients c) \<le> MAX_CLIENTS
    \<and> (length ops \<le> 2 ^ 32 \<longrightarrow> (\<forall>cl \<in> set (ct_clients c). control_fd c (cl_id cl) = Some (cl_fd cl)))"
proof -
  have ok: "control_ok (length ops) c"
    using control_ok_run [OF control_ok_bind, of ops] by (simp add: c_def)
  then have "length (ct_clients c) \<le> MAX_CLIENTS" by (simp add: control_ok_def)
  moreover have "control_fd c (cl_id cl) = Some (cl_fd cl)"
    if "length ops \<le> 2 ^ 32" "cl \<in> set (ct_clients c)" for cl
    using find_distinct [OF control_ok_distinct [OF ok that(1)] that(2)]
    by (simp add: control_fd_def control_client_def)
  ultimately show ?thesis by blast
qed

theorem control_reaches_the_asker_witness:
  "control_fd (fold control_step [CtAccept (Some 7), CtAccept (Some 9), CtClose 0] control_bind) 1 = Some 9"
  using control_reaches_the_asker [of "[CtAccept (Some 7), CtAccept (Some 9), CtClose 0]"]
  by (simp add: control_step_def control_accept_def control_close_def control_bind_def MAX_CLIENTS_def)

text \<open>Over any sequence of connections, disconnections and new pipes, at most one read end is
  held for a unit, and whoever is connected as the log shipper was offered every read end held,
  those from before it connected included.\<close>

theorem every_pipe_is_offered:
  fixes ops
  defines "l \<equiv> fold logs_step ops logs_bind"
  shows "distinct (map hd_unit (lg_held l))
    \<and> (lg_shipper l \<longrightarrow> (\<forall>h \<in> set (lg_held l). (hd_unit h, hd_read h) \<in> offered l))"
  using logs_run_ok [of logs_bind ops] by (simp add: l_def log_pipes_ok_def logs_bind_def)

theorem every_pipe_is_offered_witness:
  "(''sshd'', 5) \<in> offered (fold logs_step
      [LgPipe (Some (5, 6)) (\<lambda>_ _. True) ''sshd'', LgAccept True (\<lambda>_ _. True), LgDisconnect,
       LgAccept True (\<lambda>_ _. True)] logs_bind)"
  using every_pipe_is_offered [of "[LgPipe (Some (5, 6)) (\<lambda>_ _. True) ''sshd'', LgAccept True (\<lambda>_ _. True),
      LgDisconnect, LgAccept True (\<lambda>_ _. True)]"]
  by (simp add: logs_step_def logs_pipe_def logs_accept_def logs_disconnect_def logs_bind_def Let_def offer_def)

end
