(* ===== verification/Sockets.thy ===== *)
theory Sockets
  imports Boot Channels SupervisorSafety
begin

text \<open>
  How the manager's sockets come up: the readiness socket (\<open>notify.rs\<close>), the control socket
  (\<open>control.rs\<close>), the log socket (\<open>logs.rs\<close>) and the sockets of socket units (\<open>listen.rs\<close>),
  all under \<open>crates/oxinit/src\<close>.  Each is a sequence of calls that stops at the first that
  fails.  The kernel is a parameter whose answer may depend on every call before; the calls
  made are the trace.
\<close>

section \<open>Calls\<close>

datatype sock_family = AfUnix | AfInet | AfInet6

text \<open>\<open>OpenSocket\<close> has the close-on-exec flag last; \<open>UnixAddress\<close> is \<open>SocketAddrUnix::new\<close>, which
  refuses a path that does not fit.\<close>

datatype sock_op =
    MakeParents string
  | Unlink string
  | OpenSocket sock_family socket_type bool
  | UnixAddress string
  | ReuseAddr
  | V6Only
  | PassCred
  | BindTo listen
  | ConnectTo string
  | SetMode string nat
  | ListenOn int

type_synonym sock_kernel = "sock_op list \<Rightarrow> sock_op \<Rightarrow> errno option"

text \<open>The two calls whose result the sources ignore: \<open>let _ = \<dots>\<close>.\<close>

fun best_effort :: "sock_op \<Rightarrow> bool" where
  "best_effort (MakeParents _) = True"
| "best_effort (Unlink _) = True"
| "best_effort _ = False"

fun sock_run :: "sock_kernel \<Rightarrow> sock_op list \<Rightarrow> sock_op list \<Rightarrow> errno option \<times> sock_op list" where
  "sock_run k [] h = (None, h)"
| "sock_run k (op # ops) h =
     (if best_effort op then sock_run k ops (h @ [op])
      else case k h op of
        None \<Rightarrow> sock_run k ops (h @ [op])
      | Some e \<Rightarrow> (Some e, h @ [op]))"

text \<open>\<open>Path::parent\<close>, on the text of a path.\<close>

definition path_parent :: "string \<Rightarrow> string option" where
  "path_parent p =
     (let r = dropWhile (\<lambda>c. c = CHR ''/'') (rev p) in
      if r = [] then None
      else
        let d = dropWhile (\<lambda>c. c \<noteq> CHR ''/'') r; t = dropWhile (\<lambda>c. c = CHR ''/'') d in
        Some (if t = [] \<and> d \<noteq> [] then ''/'' else rev t))"

definition make_parent :: "string \<Rightarrow> sock_op list" where
  "make_parent path = (case path_parent path of None \<Rightarrow> [] | Some dir \<Rightarrow> [MakeParents dir])"

section \<open>The manager's own sockets\<close>

text \<open>\<open>Notify::bind\<close>: made without close-on-exec, as the source makes it.\<close>

definition notify_bind :: "sock_kernel \<Rightarrow> string \<Rightarrow> sock_op list \<Rightarrow> errno option \<times> sock_op list" where
  "notify_bind k path h =
     sock_run k (make_parent path @ [Unlink path, OpenSocket AfUnix Datagram False, UnixAddress path,
       BindTo (UnixPath path), PassCred]) h"

definition PRIVATE_MODE :: nat where "PRIVATE_MODE = 6 * 64"
definition CONTROL_BACKLOG :: int where "CONTROL_BACKLOG = 32"
definition LOG_BACKLOG :: int where "LOG_BACKLOG = 1"

definition control_socket :: "sock_kernel \<Rightarrow> string \<Rightarrow> sock_op list \<Rightarrow> (errno + control) \<times> sock_op list" where
  "control_socket k path h =
     (case sock_run k (make_parent path @ [Unlink path, OpenSocket AfUnix Seqpacket True, UnixAddress path,
         BindTo (UnixPath path), SetMode path PRIVATE_MODE, ListenOn CONTROL_BACKLOG]) h of
        (Some e, h') \<Rightarrow> (Inl e, h')
      | (None, h') \<Rightarrow> (Inr control_bind, h'))"

definition log_socket :: "sock_kernel \<Rightarrow> string \<Rightarrow> sock_op list \<Rightarrow> (errno + logs) \<times> sock_op list" where
  "log_socket k path h =
     (case sock_run k (make_parent path @ [Unlink path, OpenSocket AfUnix Seqpacket True, UnixAddress path,
         BindTo (UnixPath path), SetMode path PRIVATE_MODE, ListenOn LOG_BACKLOG]) h of
        (Some e, h') \<Rightarrow> (Inl e, h')
      | (None, h') \<Rightarrow> (Inr logs_bind, h'))"

section \<open>Socket units\<close>

definition UNIX_MODE :: nat where "UNIX_MODE = 6 * 64 + 6 * 8 + 6"

definition backlog_of :: "socket \<Rightarrow> int" where
  "backlog_of sk = (if so_backlog sk < 2 ^ 31 then int (so_backlog sk) else 2 ^ 31 - 1)"

fun is_ipv4 :: "socket_addr \<Rightarrow> bool" where
  "is_ipv4 (V4 _ _) = True"
| "is_ipv4 _ = False"

definition bind_calls :: "socket \<Rightarrow> listen \<Rightarrow> sock_op list" where
  "bind_calls sk address =
     (case address of
        Inet addr \<Rightarrow>
          [OpenSocket (if is_ipv4 addr then AfInet else AfInet6) (so_ty sk) True, ReuseAddr]
          @ (if is_ipv4 addr then [] else [V6Only]) @ [BindTo address]
      | UnixPath path \<Rightarrow>
          [OpenSocket AfUnix (so_ty sk) True, Unlink path, UnixAddress path, BindTo address, SetMode path UNIX_MODE])
     @ (if so_ty sk = Datagram then [] else [ListenOn (backlog_of sk)])"

definition bind_one :: "sock_kernel \<Rightarrow> socket \<Rightarrow> listen \<Rightarrow> sock_op list \<Rightarrow> errno option \<times> sock_op list" where
  "bind_one k sk address h = sock_run k (bind_calls sk address) h"

text \<open>\<open>Sockets::bind\<close>: the table, what failed with its address, and the calls made.\<close>

definition bind_address ::
    "sock_kernel \<Rightarrow> string \<Rightarrow> socket \<Rightarrow> listen \<Rightarrow> bound list \<times> (listen \<times> errno) list \<times> sock_op list
     \<Rightarrow> bound list \<times> (listen \<times> errno) list \<times> sock_op list" where
  "bind_address k u sk address st =
     (case st of (bs, failures, h) \<Rightarrow>
        (case bind_one k sk address h of
           (None, h') \<Rightarrow>
             (bs @ [\<lparr>bd_unit = u, bd_service = so_service sk, bd_address = address, bd_armed = False\<rparr>], failures, h')
         | (Some e, h') \<Rightarrow> (bs, failures @ [(address, e)], h')))"

definition bind_all ::
    "sock_kernel \<Rightarrow> string \<Rightarrow> socket \<Rightarrow> bound list \<Rightarrow> sock_op list \<Rightarrow> bound list \<times> (listen \<times> errno) list \<times> sock_op list" where
  "bind_all k u sk bs h = fold (bind_address k u sk) (so_listen sk) (bs, [], h)"

text \<open>The table's readers and writer; the index is the token's id.\<close>

definition sockets_get :: "bound list \<Rightarrow> 32 word \<Rightarrow> bound option" where
  "sockets_get bs i = (if unat i < length bs then Some (bs ! unat i) else None)"

definition sockets_ids :: "bound list \<Rightarrow> (32 word \<times> string) list" where
  "sockets_ids bs = map (\<lambda>(n, b). (of_nat n, bd_service b)) (filter (\<lambda>(n, b). n < 2 ^ 32) (zip [0..<length bs] bs))"

definition sockets_service :: "bound list \<Rightarrow> 32 word \<Rightarrow> string option" where
  "sockets_service bs i = map_option bd_service (sockets_get bs i)"

definition sockets_addresses :: "bound list \<Rightarrow> string \<Rightarrow> listen list" where
  "sockets_addresses bs u = map bd_address (filter (\<lambda>b. bd_unit b = u) bs)"

definition sockets_armed :: "bound list \<Rightarrow> 32 word \<Rightarrow> bool" where
  "sockets_armed bs i = (case sockets_get bs i of None \<Rightarrow> False | Some b \<Rightarrow> bd_armed b)"

definition sockets_set_armed :: "32 word \<Rightarrow> bool \<Rightarrow> bound list \<Rightarrow> bound list" where
  "sockets_set_armed i armed bs =
     (case sockets_get bs i of None \<Rightarrow> bs | Some b \<Rightarrow> bs[unat i := b\<lparr>bd_armed := armed\<rparr>])"

section \<open>Receiving readiness datagrams\<close>

text \<open>What one \<open>recvmsg\<close> answers: a datagram, of which the first 4096 bytes fit the buffer, with
  its control messages, or an error (\<open>EAGAIN\<close> once the queue is empty).\<close>

datatype control_message = Credentials nat | Rights "nat list"

datatype received = Datagram_in string "control_message list" | NoDatagram

definition PAYLOAD :: nat where "PAYLOAD = 4096"

fun sender :: "nat option \<Rightarrow> control_message list \<Rightarrow> nat option" where
  "sender pid [] = pid"
| "sender pid (Credentials p # ms) = sender (Some p) ms"
| "sender pid (Rights _ # ms) = sender pid ms"

text \<open>The loop of \<open>drain\<close>: the messages, and the answers not asked for.\<close>

fun drain_socket :: "received list \<Rightarrow> message list \<times> received list" where
  "drain_socket [] = ([], [])"
| "drain_socket (NoDatagram # q) = ([], q)"
| "drain_socket (Datagram_in body ms # q) =
     (if body = [] then ([], q)
      else
        (case sender None ms of
           None \<Rightarrow> drain_socket q
         | Some pid \<Rightarrow>
             (case parse_message pid (take PAYLOAD body) of
                None \<Rightarrow> drain_socket q
              | Some m \<Rightarrow> (case drain_socket q of (messages, rest) \<Rightarrow> (m # messages, rest)))))"

section \<open>Reaping\<close>

text \<open>\<open>reap_all\<close> (\<open>reap.rs\<close>): what successive \<open>wait\<close> calls answer.\<close>

datatype wait_answer = WaitChild nat "int option" "int option" | WaitNone | WaitError

fun reap_all :: "wait_answer list \<Rightarrow> (nat \<times> int option \<times> int option) list \<times> wait_answer list" where
  "reap_all [] = ([], [])"
| "reap_all (WaitNone # q) = ([], q)"
| "reap_all (WaitError # q) = ([], q)"
| "reap_all (WaitChild pid code signal # q) =
     (case reap_all q of (reaped, rest) \<Rightarrow> ((pid, code, signal) # reaped, rest))"

section \<open>Lemmas\<close>

lemma sock_run_prefix:
  assumes "sock_run k ops h = (res, h')"
  shows "\<exists>made rest. ops = made @ rest \<and> h' = h @ made \<and> (res = None \<longrightarrow> rest = [])
    \<and> (\<forall>pre op post. made = pre @ op # post \<longrightarrow> post \<noteq> [] \<longrightarrow> \<not> best_effort op \<longrightarrow> k (h @ pre) op = None)"
  using assms
proof (induction ops arbitrary: h)
  case Nil
  then show ?case by auto
next
  case (Cons op ops)
  show ?case
  proof (cases "best_effort op \<or> k h op = None")
    case True
    then have "sock_run k ops (h @ [op]) = (res, h')" using Cons.prems by (auto split: option.splits if_splits)
    from Cons.IH [OF this] obtain made rest where m: "ops = made @ rest" "h' = (h @ [op]) @ made"
      "res = None \<longrightarrow> rest = []"
      "\<forall>pre x post. made = pre @ x # post \<longrightarrow> post \<noteq> [] \<longrightarrow> \<not> best_effort x \<longrightarrow> k ((h @ [op]) @ pre) x = None"
      by blast
    have "k (h @ pre) x = None" if "op # made = pre @ x # post" "post \<noteq> []" "\<not> best_effort x" for pre x post
      using that m(4) True by (cases pre) auto
    then show ?thesis using m(1-3) by (intro exI [of _ "op # made"] exI [of _ rest]) auto
  next
    case False
    then show ?thesis using Cons.prems
      by (intro exI [of _ "[op]"] exI [of _ ops]) (auto simp: append_eq_Cons_conv Cons_eq_append_conv split: option.splits)
  qed
qed

lemma private_socket_run:
  assumes "sock_run k (start @ [SetMode path m, ListenOn n]) h = (res, h @ ops)"
    and "\<forall>op \<in> set start. \<forall>b. op \<noteq> ListenOn b" and "ListenOn b \<in> set ops"
  shows "ops = start @ [SetMode path m, ListenOn n] \<and> k (h @ start) (SetMode path m) = None"
proof -
  obtain made rest where m: "start @ [SetMode path m, ListenOn n] = made @ rest" "ops = made"
    "\<forall>pre op post. made = pre @ op # post \<longrightarrow> post \<noteq> [] \<longrightarrow> \<not> best_effort op \<longrightarrow> k (h @ pre) op = None"
    using sock_run_prefix [OF assms(1)] by auto
  have "rest = []"
  proof (rule ccontr)
    assume "rest \<noteq> []"
    then obtain rest' where "rest = rest' @ [ListenOn n]"
      using m(1) by (metis append_butlast_last_id last_appendR last_snoc append_Cons append_Nil append_assoc last_ConsR list.distinct(1))
    then have "made @ rest' = start @ [SetMode path m]" using m(1) by simp
    then have "set made \<subseteq> set start \<union> {SetMode path m}" by (metis Un_iff set_append list.set(1) list.simps(15) subsetI)
    then show False using assms(2,3) m(2) by auto
  qed
  then have "made = start @ SetMode path m # [ListenOn n]" using m(1) by simp
  then show ?thesis using m(2,3) by (auto dest: spec [of _ start])
qed

definition bound_entry :: "string \<Rightarrow> socket \<Rightarrow> listen \<Rightarrow> bound" where
  "bound_entry u sk a = \<lparr>bd_unit = u, bd_service = so_service sk, bd_address = a, bd_armed = False\<rparr>"

lemma bind_one_listens:
  assumes "bind_one k sk a h = (res, h')" and "so_ty sk = Datagram" and "ListenOn b \<in> set h'"
  shows "ListenOn b \<in> set h"
proof -
  obtain made rest where "bind_calls sk a = made @ rest" "h' = h @ made"
    using sock_run_prefix [OF assms(1) [unfolded bind_one_def]] by blast
  moreover have "ListenOn b \<notin> set (bind_calls sk a)" using assms(2) by (auto simp: bind_calls_def split: listen.splits)
  ultimately show ?thesis using assms(3) by auto
qed

lemma bind_fold:
  assumes "fold (bind_address k u sk) as (bs, fs, h) = (bs', fs', h')" and "distinct as"
  shows "\<exists>new failed. bs' = bs @ map (bound_entry u sk) new \<and> fs' = fs @ failed
    \<and> new = filter (\<lambda>a. a \<notin> fst ` set failed) as \<and> fst ` set failed \<subseteq> set as
    \<and> (so_ty sk = Datagram \<longrightarrow> (\<forall>b. ListenOn b \<in> set h' \<longrightarrow> ListenOn b \<in> set h))"
  using assms
proof (induction as arbitrary: bs fs h)
  case Nil
  then show ?case by simp
next
  case (Cons a as)
  obtain res h1 where one: "bind_one k sk a h = (res, h1)" by fastforce
  let ?bs = "if res = None then bs @ [bound_entry u sk a] else bs"
  let ?fs = "case res of None \<Rightarrow> fs | Some e \<Rightarrow> fs @ [(a, e)]"
  have "fold (bind_address k u sk) as (?bs, ?fs, h1) = (bs', fs', h')"
    using Cons.prems(1) one
    by (cases res) (simp_all add: bind_address_def [of k u sk a] bound_entry_def)
  from Cons.IH [OF this] Cons.prems(2) obtain new failed where r: "bs' = ?bs @ map (bound_entry u sk) new"
    "fs' = ?fs @ failed" "new = filter (\<lambda>a. a \<notin> fst ` set failed) as" "fst ` set failed \<subseteq> set as"
    "so_ty sk = Datagram \<longrightarrow> (\<forall>b. ListenOn b \<in> set h' \<longrightarrow> ListenOn b \<in> set h1)" by auto
  have a: "a \<notin> set as" "a \<notin> fst ` set failed" using Cons.prems(2) r(4) by auto
  have dg: "so_ty sk = Datagram \<longrightarrow> (\<forall>b. ListenOn b \<in> set h' \<longrightarrow> ListenOn b \<in> set h)"
    using r(5) bind_one_listens [OF one] by blast
  show ?case
  proof (cases res)
    case None
    then show ?thesis using r a dg by (intro exI [of _ "a # new"] exI [of _ failed]) auto
  next
    case (Some e)
    have "filter (\<lambda>x. x \<notin> fst ` set ((a, e) # failed)) (a # as) = filter (\<lambda>x. x \<notin> fst ` set failed) as"
      using a(1) by (auto intro: filter_cong)
    then show ?thesis using r a dg Some by (intro exI [of _ new] exI [of _ "(a, e) # failed"]) auto
  qed
qed

text \<open>The table is read back as it was written.\<close>

lemma sockets_set_armed_get:
  "sockets_armed (sockets_set_armed i a bs) j =
     (if i = j \<and> unat i < length bs then a else sockets_armed bs j)"
  using word_unat_eq_iff [of i j]
  by (auto simp: sockets_armed_def sockets_set_armed_def sockets_get_def split: option.splits)

lemma sockets_ids_get: "(i, service) \<in> set (sockets_ids bs) \<Longrightarrow> sockets_service bs i = Some service"
proof -
  assume "(i, service) \<in> set (sockets_ids bs)"
  then obtain n where n: "n < length bs" "n < 2 ^ LENGTH(32)" "i = of_nat n" "service = bd_service (bs ! n)"
    by (auto simp: sockets_ids_def set_zip)
  have "unat (of_nat n :: 32 word) = n" using n(2) by (simp only: unsigned_of_nat take_bit_nat_eq_self of_nat_id)
  then show ?thesis using n by (simp add: sockets_service_def sockets_get_def)
qed

text \<open>The reference: what one datagram says on its own.  Its sender is the last of its own
  credentials, whatever came before it; what it says counts only with a sender.\<close>

definition credentials :: "control_message list \<Rightarrow> nat list" where
  "credentials ms = List.map_filter (\<lambda>c. case c of Credentials pid \<Rightarrow> Some pid | Rights _ \<Rightarrow> None) ms"

fun said_by :: "received \<Rightarrow> message option" where
  "said_by NoDatagram = None"
| "said_by (Datagram_in body ms) =
     (if credentials ms = [] then None else parse_message (last (credentials ms)) (take PAYLOAD body))"

fun full_datagram :: "received \<Rightarrow> bool" where
  "full_datagram NoDatagram = False"
| "full_datagram (Datagram_in body ms) = (body \<noteq> [])"

text \<open>Whether the kernel names a process as the sender of a datagram.\<close>

fun sent_by :: "nat option \<Rightarrow> received \<Rightarrow> bool" where
  "sent_by child NoDatagram = False"
| "sent_by child (Datagram_in body ms) = (credentials ms \<noteq> [] \<and> child = Some (last (credentials ms)))"

lemma credentials_simps [simp]:
  "credentials [] = []"
  "credentials (Credentials pid # ms) = pid # credentials ms"
  "credentials (Rights fds # ms) = credentials ms"
  by (simp_all add: credentials_def)

lemma sender_last: "sender p ms = (if credentials ms = [] then p else Some (last (credentials ms)))"
  by (induction p ms rule: sender.induct) auto

lemma parse_message_pid: "parse_message pid body = Some m \<Longrightarrow> m_pid m = pid"
  by (auto simp: parse_message_def fold_parse_line split: if_splits)

lemma drain_socket_each: "fst (drain_socket q) = List.map_filter said_by (takeWhile full_datagram q)"
  by (induction q rule: drain_socket.induct) (auto simp: sender_last split: option.splits prod.splits)

lemma said_by_sent: "said_by d = Some m \<Longrightarrow> sent_by child d \<longleftrightarrow> child = Some (m_pid m)"
  by (cases d) (auto split: if_splits dest: parse_message_pid)

lemma said_by_filter:
  "List.map_filter said_by (filter (sent_by child) q) = filter (\<lambda>m. child = Some (m_pid m)) (List.map_filter said_by q)"
  by (induction q) (auto simp: said_by_sent split: option.splits)

lemma unit_for_pid_child:
  assumes "well_keyed s" and "unit_for_pid s pid = Some n"
  shows "\<exists>i. get_inst s n = Some i \<and> in_child i = Some pid"
proof -
  obtain i where f: "find (\<lambda>(name, i). in_child i = Some pid) (s_instances s) = Some (n, i)"
    using assms(2) by (auto simp: unit_for_pid_def)
  from find_Some_mem [OF f] have "(n, i) \<in> set (s_instances s)" "in_child i = Some pid" by auto
  moreover have "bmap_ok (s_instances s)" using assms(1) by (simp add: well_keyed_def)
  ultimately show ?thesis using bget_Some_set by (fastforce simp: get_inst_def)
qed

text \<open>What a message makes of the unit whose main process sent it; no other unit changes, and no
  process changes hands.\<close>

definition told :: "env \<Rightarrow> message \<Rightarrow> inst \<Rightarrow> inst" where
  "told env m i =
     (let i1 = (case m_status m of None \<Rightarrow> i | Some st \<Rightarrow> i\<lparr>in_status := Some st\<rparr>);
          i2 = (if m_watchdog m then pinged (e_now env) i1 else i1) in
      if m_ready m \<and> in_state i2 = Activating then entered_active (e_now env) i2 else i2)"

definition children_of :: "sup \<Rightarrow> (string \<times> nat option) list" where
  "children_of s = map (\<lambda>(n, i). (n, in_child i)) (s_instances s)"

lemma told_child: "in_child (told env m i) = in_child i"
  by (simp add: told_def Let_def entered_active_def pinged_def split: option.split)

lemma unit_for_pid_children: "unit_for_pid s pid = map_option fst (find (\<lambda>(n, c). c = Some pid) (children_of s))"
proof -
  have "map_option fst (find (\<lambda>(n, i). in_child i = Some pid) is) =
      map_option fst (find (\<lambda>(n, c). c = Some pid) (map (\<lambda>(n, i). (n, in_child i)) is))" for "is" :: "(string, inst) bmap"
    by (induction "is") auto
  then show ?thesis by (simp add: unit_for_pid_def children_of_def)
qed

lemma notify_one_told:
  assumes "well_keyed s"
  shows "s_instances (notify_one env m s) =
      (case unit_for_pid s (m_pid m) of None \<Rightarrow> s_instances s | Some n \<Rightarrow> bupdate n (told env m) (s_instances s))"
proof (cases "unit_for_pid s (m_pid m)")
  case None
  then show ?thesis by (simp add: notify_one_def)
next
  case (Some n)
  then obtain i where i: "get_inst s n = Some i" using unit_for_pid_child [OF assms] by blast
  have "bmap_ok (s_instances s)" using assms by (simp add: well_keyed_def)
  then have only: "v = i" if "(n, v) \<in> set (s_instances s)" for v
    using i that bget_Some_set unfolding get_inst_def by (metis option.inject)
  have "s_instances (notify_one env m s) = bupdate n (\<lambda>_. told env m i) (s_instances s)"
    using Some i by (simp add: notify_one_def told_def Let_def upd_inst_def arm_watchdog_def sched_def split: option.split)
  also have "\<dots> = bupdate n (told env m) (s_instances s)" unfolding bupdate_def using only by (intro map_cong) auto
  finally show ?thesis using Some by simp
qed

lemma notify_one_children: "well_keyed s \<Longrightarrow> children_of (notify_one env m s) = children_of s"
  using notify_one_told [of s env m]
  by (auto simp: children_of_def bupdate_def told_child split: option.splits)

lemma notify_one_keyed: "well_keyed s \<Longrightarrow> well_keyed (notify_one env m s)"
  using handle_event_well_keyed [of s env "EvNotify [m]"] by (simp add: handle_event_def on_notify_def)

text \<open>A unit is what the messages of its own main process make of it, in their order.\<close>

lemma on_notify_own:
  assumes "well_keyed s" and "get_inst s n = Some i" and "\<And>pid. in_child i = Some pid \<Longrightarrow> unit_for_pid s pid = Some n"
  shows "get_inst (on_notify env ms s) n = Some (fold (told env) (filter (\<lambda>m. in_child i = Some (m_pid m)) ms) i)"
  using assms
proof (induction ms arbitrary: s i)
  case Nil
  then show ?case by (simp add: on_notify_def)
next
  case (Cons m ms)
  let ?s = "notify_one env m s"
  note k = notify_one_keyed [OF Cons.prems(1), of env m]
  have pid: "unit_for_pid ?s pid = unit_for_pid s pid" for pid
    by (simp add: unit_for_pid_children notify_one_children [OF Cons.prems(1)])
  have own: "unit_for_pid s (m_pid m) = Some n \<longleftrightarrow> in_child i = Some (m_pid m)"
    using Cons.prems(2,3) unit_for_pid_child [OF Cons.prems(1)] by fastforce
  have g: "get_inst ?s n = Some (if in_child i = Some (m_pid m) then told env m i else i)"
    using notify_one_told [OF Cons.prems(1), of env m] Cons.prems(2) own
    by (auto simp: get_inst_def split: option.splits)
  have c: "in_child (if in_child i = Some (m_pid m) then told env m i else i) = in_child i" by (simp add: told_child)
  have "get_inst (on_notify env ms ?s) n =
      Some (fold (told env) (filter (\<lambda>m'. in_child i = Some (m_pid m')) ms) (if in_child i = Some (m_pid m) then told env m i else i))"
    using Cons.IH [OF k g] Cons.prems(3) pid by (simp only: c)
  then show ?case by (simp add: on_notify_def)
qed

text \<open>An empty datagram ends a pass over the queue; what is behind it waits for the next.\<close>

lemma empty_datagram_ends_the_pass:
  "drain_socket (Datagram_in [] ms # q) = ([], q)"
  by simp

lemma reap_all_collects:
  "list_all (\<lambda>w. \<exists>p c s. w = WaitChild p c s) ws \<Longrightarrow>
     reap_all (ws @ WaitNone # q) = (map (\<lambda>w. case w of WaitChild p c s \<Rightarrow> (p, c, s) | _ \<Rightarrow> (0, None, None)) ws, q)"
  by (induction ws) auto

section \<open>Properties\<close>

text \<open>C33.  Nobody reaches the control or the log socket before it is private.  Whatever the kernel
  answers, if the socket was ever listened on, then the call right before gave its file the
  mode 0600, succeeded, and came after the socket was bound to that file.\<close>

theorem private_before_listening:
  assumes "snd (control_socket k path h) = h @ ops \<or> snd (log_socket k path h) = h @ ops"
    and "ListenOn b \<in> set ops"
  shows "\<exists>start. ops = start @ [SetMode path PRIVATE_MODE, ListenOn b]
    \<and> k (h @ start) (SetMode path PRIVATE_MODE) = None \<and> last start = BindTo (UnixPath path)"
proof -
  let ?start = "make_parent path @ [Unlink path, OpenSocket AfUnix Seqpacket True, UnixAddress path, BindTo (UnixPath path)]"
  obtain n res where run: "sock_run k (?start @ [SetMode path PRIVATE_MODE, ListenOn n]) h = (res, h @ ops)"
    using assms(1) by (auto simp: control_socket_def log_socket_def split: prod.splits option.splits)
  have "\<forall>op \<in> set ?start. \<forall>b. op \<noteq> ListenOn b" by (auto simp: make_parent_def split: option.splits)
  from private_socket_run [OF run this assms(2)] show ?thesis using assms(2)
    by (intro exI [of _ ?start]) (auto simp: make_parent_def split: option.splits)
qed

theorem private_before_listening_witness:
  "snd (control_socket (\<lambda>_ _. None) ''/run/c'' []) =
    [MakeParents ''/run'', Unlink ''/run/c'', OpenSocket AfUnix Seqpacket True, UnixAddress ''/run/c'',
     BindTo (UnixPath ''/run/c'')] @ [SetMode ''/run/c'' PRIVATE_MODE, ListenOn 32]"
proof -
  let ?ops = "snd (control_socket (\<lambda>_ _. None) ''/run/c'' [])"
  have ops: "?ops = [MakeParents ''/run'', Unlink ''/run/c'', OpenSocket AfUnix Seqpacket True, UnixAddress ''/run/c'',
     BindTo (UnixPath ''/run/c''), SetMode ''/run/c'' PRIVATE_MODE, ListenOn 32]"
    by (simp add: control_socket_def make_parent_def path_parent_def CONTROL_BACKLOG_def Let_def)
  obtain start where "?ops = start @ [SetMode ''/run/c'' PRIVATE_MODE, ListenOn 32]"
    using private_before_listening [of "\<lambda>_ _. None" "''/run/c''" "[]" ?ops 32] ops by auto
  then show ?thesis using ops by simp
qed

text \<open>Binding the sockets of a unit does what the supervisor's model of it says.  Every address is
  either bound, in the order it is listed, or reported with the error of the call that failed;
  one that fails does not stop the others; and a datagram socket is never listened on.\<close>

theorem bind_all_refines_supervisor:
  assumes "bind_all k u sk bs h = (bs', failures, h')" and "distinct (so_listen sk)"
  shows "bs' = sockets_bind (env\<lparr>e_bind := (\<lambda>_ a. a \<notin> fst ` set failures)\<rparr>) u sk bs
    \<and> fst ` set failures \<subseteq> set (so_listen sk)
    \<and> (so_ty sk = Datagram \<longrightarrow> (\<forall>b. ListenOn b \<in> set h' \<longrightarrow> ListenOn b \<in> set h))"
  using bind_fold [OF assms(1) [unfolded bind_all_def] assms(2)]
  by (auto simp: sockets_bind_def bound_entry_def)

definition sample_socket :: socket where
  "sample_socket = \<lparr>so_listen = [Inet (V6 [0, 0, 0, 0, 0, 0, 0, 1] 80 0), Inet (V4 [127, 0, 0, 1] 80)], so_service = ''web'',
     so_ty = SockStream, so_backlog = 128\<rparr>"

theorem bind_all_refines_supervisor_witness:
  "fst (bind_all (\<lambda>_ op. if op = V6Only then Some EPERM else None) ''web-socket'' sample_socket [] [])
    = [\<lparr>bd_unit = ''web-socket'', bd_service = ''web'', bd_address = Inet (V4 [127, 0, 0, 1] 80), bd_armed = False\<rparr>]"
proof -
  let ?k = "\<lambda>_ op. if op = V6Only then Some EPERM else None"
  obtain bs' fs h' where r: "bind_all ?k ''web-socket'' sample_socket [] [] = (bs', fs, h')" by (metis prod_cases3)
  have d: "distinct (so_listen sample_socket)" by (simp add: sample_socket_def)
  have "fs = [(Inet (V6 [0, 0, 0, 0, 0, 0, 0, 1] 80 0), EPERM)]"
    using r by (simp add: bind_all_def sample_socket_def bind_address_def bind_one_def bind_calls_def)
  then show ?thesis using bind_all_refines_supervisor [OF r d, of sample_env] r
    by (simp add: sockets_bind_def sample_socket_def sample_env_def)
qed

text \<open>C34.  A process speaks for itself only, datagram by datagram.  A pass over the readiness socket
  takes each datagram up to the first empty one by itself: it is a message of the process that
  the last of its own credentials names, and without credentials it is nothing, whatever the
  datagrams before it carried or its text claims.  A unit whose main process is found under
  that process becomes what the datagrams the kernel attests to be of that process make of it,
  in their order, as if no other had come; those of any other process, of the same cgroup too,
  do not count.\<close>

theorem notify_speaks_for_itself:
  assumes "well_keyed s" and "get_inst s n = Some i"
    and "\<And>pid. in_child i = Some pid \<Longrightarrow> unit_for_pid s pid = Some n"
  shows "fst (drain_socket q) = List.map_filter said_by (takeWhile full_datagram q)
    \<and> get_inst (on_notify env (fst (drain_socket q)) s) n =
        Some (fold (told env) (List.map_filter said_by (filter (sent_by (in_child i)) (takeWhile full_datagram q))) i)"
  using on_notify_own [OF assms] by (simp add: drain_socket_each said_by_filter)

theorem notify_speaks_for_itself_witness:
  "get_inst (on_notify sample_env (fst (drain_socket
       [Datagram_in ''STATUS=up'' [Credentials 8, Credentials 7], Datagram_in ''READY=1'' [],
        Datagram_in ''READY=1'' [Credentials 8]]))
     (sample_sup (entered_activating 7 (inst_new (sample_unit Notify Always))))) ''s''
   = Some ((entered_activating 7 (inst_new (sample_unit Notify Always)))\<lparr>in_status := Some ''up''\<rparr>)"
proof -
  let ?i = "entered_activating 7 (inst_new (sample_unit Notify Always))"
  let ?q = "[Datagram_in ''STATUS=up'' [Credentials 8, Credentials 7], Datagram_in ''READY=1'' [],
        Datagram_in ''READY=1'' [Credentials 8]]"
  have k: "well_keyed (sample_sup ?i)" "get_inst (sample_sup ?i) ''s'' = Some ?i"
    by (simp_all add: well_keyed_def sample_sup_def get_inst_def bmap_ok_Cons entered_activating_def inst_new_def sample_unit_def)
  have c: "in_child ?i = Some 7" by (simp add: entered_activating_def)
  have u: "unit_for_pid (sample_sup ?i) pid = Some ''s''" if "in_child ?i = Some pid" for pid
    using that by (simp add: unit_for_pid_def sample_sup_def)
  have p: "parse_message 7 ''STATUS=up'' = Some \<lparr>m_pid = 7, m_ready = False, m_watchdog = False, m_status = Some ''up''\<rparr>"
    by code_simp
  have "fold (told sample_env) (List.map_filter said_by (filter (sent_by (in_child ?i)) (takeWhile full_datagram ?q))) ?i
      = ?i\<lparr>in_status := Some ''up''\<rparr>"
    by (simp add: c p told_def PAYLOAD_def)
  with conjunct2 [OF notify_speaks_for_itself [OF k u, of ?q sample_env]] show ?thesis by (simp only:)
qed

end
