(* ===== verification/Probes.thy ===== *)
theory Probes
  imports Child Sockets
begin

text \<open>
  Two services that are built with the program and installed in its test image:
  \<open>crates/notify-probe\<close>, which reports readiness and pings, and \<open>crates/listen-probe\<close>, which is
  started with its listening sockets and finds them by name.  They are the other side of two
  contracts, so the properties put them at the end of the manager's own path: the datagrams
  of one go through the readiness socket to the supervisor, the descriptors and variables of
  the other come from \<open>Child\<close>.
\<close>

section \<open>notify-probe\<close>

definition READY_MESSAGE :: string where "READY_MESSAGE = ''READY=1'' @ [newline] @ ''STATUS=probe up'' @ [newline]"
definition PING_MESSAGE :: string where "PING_MESSAGE = ''WATCHDOG=1'' @ [newline]"

text \<open>\<open>args().skip_while(_ != name).nth(1)\<close>.\<close>

definition arg_after :: "string \<Rightarrow> string list \<Rightarrow> string option" where
  "arg_after name args = (case dropWhile (\<lambda>a. a \<noteq> name) args of _ # v # _ \<Rightarrow> Some v | _ \<Rightarrow> None)"

definition hang_after :: "string list \<Rightarrow> nat option" where
  "hang_after args = Option.bind (arg_after ''--hang-after'' args) (parse_uint u64_max)"

text \<open>The pings of its loop from second \<open>passed\<close> on, over \<open>n\<close> more seconds; past the limit it
  sleeps for good.\<close>

fun probe_pings :: "nat option \<Rightarrow> nat \<Rightarrow> nat \<Rightarrow> string list" where
  "probe_pings limit passed 0 = []"
| "probe_pings limit passed (Suc n) =
     (case limit of
        Some l \<Rightarrow> if Suc passed > l then [] else PING_MESSAGE # probe_pings limit (Suc passed) n
      | None \<Rightarrow> PING_MESSAGE # probe_pings limit (Suc passed) n)"

text \<open>What it has sent \<open>n\<close> seconds after its start; \<open>None\<close> when it has no socket to send to.\<close>

definition notify_probe :: "string option \<Rightarrow> string list \<Rightarrow> nat \<Rightarrow> string list option" where
  "notify_probe notify_socket args n =
     (case notify_socket of
        None \<Rightarrow> None
      | Some _ \<Rightarrow>
          Some (if ''--never-ready'' \<in> set args then []
                else READY_MESSAGE # probe_pings (hang_after args) 0 n))"

section \<open>listen-probe\<close>

text \<open>\<open>std::env::var\<close> on the environment a process was executed with.\<close>

definition getenv :: "string list \<Rightarrow> string \<Rightarrow> string option" where
  "getenv envp name = find_map (strip_prefix (name @ ''='')) envp"

definition probe_var :: "string list \<Rightarrow> string \<Rightarrow> string + string" where
  "probe_var envp name =
     (case getenv envp name of None \<Rightarrow> Inl (name @ '' is not set'') | Some v \<Rightarrow> Inr v)"

fun index_of :: "'a \<Rightarrow> 'a list \<Rightarrow> nat option" where
  "index_of x [] = None"
| "index_of x (y # ys) = (if x = y then Some 0 else map_option Suc (index_of x ys))"

text \<open>\<open>inherited\<close>: the offset of the descriptor of that name from the first one passed.\<close>

definition inherited :: "string list \<Rightarrow> nat \<Rightarrow> string \<Rightarrow> string + nat" where
  "inherited envp mine name =
     (case probe_var envp ''LISTEN_FDS'' of
        Inl e \<Rightarrow> Inl e
      | Inr fds \<Rightarrow>
          (case parse_uint usize_max fds of
             None \<Rightarrow> Inl ''LISTEN_FDS is not a number''
           | Some n \<Rightarrow>
               (case probe_var envp ''LISTEN_PID'' of
                  Inl e \<Rightarrow> Inl e
                | Inr announced \<Rightarrow>
                    (case parse_uint u32_max announced of
                       None \<Rightarrow> Inl ''LISTEN_PID is not a number''
                     | Some pid \<Rightarrow>
                         if pid \<noteq> mine then
                           Inl (''LISTEN_PID is '' @ show_nat pid @ '', but I am '' @ show_nat mine)
                         else
                           (case probe_var envp ''LISTEN_FDNAMES'' of
                              Inl e \<Rightarrow> Inl e
                            | Inr names \<Rightarrow>
                                (case index_of name (split_on CHR '':'' names) of
                                   None \<Rightarrow> Inl (''no descriptor named `'' @ name @ ''` in `'' @ names @ ''`'')
                                 | Some i \<Rightarrow>
                                     if i < 2 ^ 31 then Inr i else Inl ''too many descriptors''))))))"

text \<open>\<open>flag\<close>: the argument after the first of that name.\<close>

definition probe_flag :: "string list \<Rightarrow> string \<Rightarrow> string option" where
  "probe_flag args name =
     (case index_of name args of
        None \<Rightarrow> None | Some n \<Rightarrow> if Suc n < length args then Some (args ! Suc n) else None)"

datatype probe_mode = Http string | Serve string | Recv string | Connect string | Send string | NoMode

definition probe_mode_of :: "string list \<Rightarrow> probe_mode" where
  "probe_mode_of args =
     (case probe_flag args ''--http'' of Some n \<Rightarrow> Http n | None \<Rightarrow>
      case probe_flag args ''--serve'' of Some n \<Rightarrow> Serve n | None \<Rightarrow>
      case probe_flag args ''--recv'' of Some n \<Rightarrow> Recv n | None \<Rightarrow>
      case probe_flag args ''--connect'' of Some p \<Rightarrow> Connect p | None \<Rightarrow>
      case probe_flag args ''--send'' of Some p \<Rightarrow> Send p | None \<Rightarrow> NoMode)"

text \<open>The descriptor each serving mode takes, and what \<open>serve\<close> answers to the first read of a
  connection.\<close>

definition probe_fd :: "string list \<Rightarrow> nat \<Rightarrow> string \<Rightarrow> string + nat" where
  "probe_fd envp mine name =
     (case inherited envp mine name of Inl e \<Rightarrow> Inl e | Inr i \<Rightarrow> Inr (FIRST_LISTEN_FD + i))"

definition serve_answer :: "(string \<Rightarrow> string) \<Rightarrow> string \<Rightarrow> string" where
  "serve_answer lossy request = ''echo: '' @ lossy (take 64 request)"

section \<open>Lemmas\<close>

lemma strip_prefix_append [simp]: "strip_prefix p (p @ s) = Some s"
  by (simp add: strip_prefix_Some)

lemma getenv_skip: "\<forall>e \<in> set es. strip_prefix (name @ ''='') e = None \<Longrightarrow> getenv (es @ rest) name = getenv rest name"
  by (induction es) (auto simp: getenv_def)

lemma getenv_here [simp]: "getenv ((name @ CHR ''='' # v) # rest) name = Some v"
proof -
  have "strip_prefix (name @ ''='') (name @ CHR ''='' # v) = Some v" by (simp add: strip_prefix_Some)
  then show ?thesis by (simp add: getenv_def)
qed

lemma entry_other:
  assumes "CHR ''='' \<notin> set k" and "CHR ''='' \<notin> set name" and "k \<noteq> name"
  shows "strip_prefix (name @ ''='') (k @ CHR ''='' # v) = None"
proof (rule ccontr)
  assume "strip_prefix (name @ ''='') (k @ CHR ''='' # v) \<noteq> None"
  then obtain r where "k @ CHR ''='' # v = name @ CHR ''='' # r" by (auto simp: strip_prefix_Some)
  then have "split_once (CHR ''='') (k @ CHR ''='' # v) = Some (name, r)" using assms(2) by (simp add: split_once_Some)
  moreover have "split_once (CHR ''='') (k @ CHR ''='' # v) = Some (k, v)" using assms(1) by (simp add: split_once_Some)
  ultimately show False using assms(3) by simp
qed

lemma index_of_Some: "index_of x xs = Some n \<Longrightarrow> n < length xs \<and> xs ! n = x"
  by (induction xs arbitrary: n) (auto split: if_splits)

lemma index_of_mem: "x \<in> set xs \<Longrightarrow> \<exists>n. index_of x xs = Some n"
  by (induction xs) auto

lemma split_on_join:
  "names \<noteq> [] \<Longrightarrow> \<forall>n \<in> set names. c \<notin> set n \<Longrightarrow> split_on c (join_with [c] names) = names"
  by (induction "[c]" names rule: join_with.induct) (simp_all add: split_on_plain split_on_append)

lemma probe_pings_count: "probe_pings limit k n = replicate (case limit of None \<Rightarrow> n | Some l \<Rightarrow> min n (l - k)) PING_MESSAGE"
proof (induction n arbitrary: k)
  case 0
  then show ?case by (simp split: option.splits)
next
  case (Suc n)
  show ?case
  proof (cases limit)
    case None
    then show ?thesis using Suc by simp
  next
    case (Some l)
    show ?thesis
    proof (cases "Suc k > l")
      case True
      then show ?thesis using Some by simp
    next
      case False
      then have "min (Suc n) (l - k) = Suc (min n (l - Suc k))" by simp
      then show ?thesis using Suc [of "Suc k"] Some False by simp
    qed
  qed
qed

text \<open>The environment of a service with sockets, seen from inside.\<close>

lemma getenv_entries:
  assumes "\<forall>kv \<in> set kvs. CHR ''='' \<notin> set (fst kv)" and "CHR ''='' \<notin> set name"
  shows "getenv (map entry kvs @ rest) name =
    (case map_of kvs name of Some v \<Rightarrow> Some v | None \<Rightarrow> getenv rest name)"
  using assms(1)
proof (induction kvs)
  case Nil
  then show ?case by simp
next
  case (Cons kv kvs)
  obtain k v where kv: "kv = (k, v)" by (cases kv)
  show ?case
  proof (cases "k = name")
    case True
    then show ?thesis using getenv_here [of name v] by (simp add: kv entry_def)
  next
    case False
    have "strip_prefix (name @ ''='') (entry kv) = None"
      using entry_other [of k name v] Cons.prems assms(2) False by (simp add: kv entry_def)
    then have "getenv (map entry (kv # kvs) @ rest) name = getenv (map entry kvs @ rest) name"
      by (simp add: getenv_def)
    then show ?thesis using Cons False by (simp add: kv)
  qed
qed

definition keys_ok :: "(string \<times> string) list \<Rightarrow> bool" where
  "keys_ok kvs \<longleftrightarrow> (\<forall>kv \<in> set kvs. CHR ''='' \<notin> set (fst kv))"

lemma service_env_keys: "keys_ok (service_env notify sv names)"
  by (auto simp: keys_ok_def service_env_def split: option.splits)

lemma kept_vars_reserved: "k \<in> set RESERVED \<Longrightarrow> map_of (kept_vars own env) k = None"
  by (auto simp: kept_vars_def map_of_eq_None_iff)

lemma kept_vars_keys: "keys_ok own \<Longrightarrow> keys_ok (kept_vars own env)"
  by (auto simp: keys_ok_def kept_vars_def)

lemma service_env_listen:
  "names \<noteq> [] \<Longrightarrow> map_of (service_env notify sv names) ''LISTEN_FDS'' = Some (show_nat (length names))"
  "names \<noteq> [] \<Longrightarrow> map_of (service_env notify sv names) ''LISTEN_FDNAMES'' = Some (join_with '':'' names)"
  "map_of (service_env notify sv names) ''LISTEN_PID'' = None"
  by (auto simp: service_env_def split: option.splits)

lemma inherited_finds:
  assumes env: "envp = map entry (kept_vars own vars) @ map entry vars @ [''LISTEN_PID='' @ show_nat pid]"
    and vars: "vars = service_env notify sv names" and "keys_ok own" and "names \<noteq> []"
    and "\<forall>n \<in> set names. CHR '':'' \<notin> set n" and "length names < 2 ^ 31" and "pid \<le> u32_max"
    and "index_of name names = Some i"
  shows "inherited envp pid name = Inr i"
proof -
  have k: "\<forall>kv \<in> set (kept_vars own vars). CHR ''='' \<notin> set (fst kv)" "\<forall>kv \<in> set vars. CHR ''='' \<notin> set (fst kv)"
    using kept_vars_keys [OF assms(3)] service_env_keys [of notify sv names] by (auto simp: keys_ok_def vars)
  have look: "getenv envp key = (case map_of vars key of Some v \<Rightarrow> Some v
      | None \<Rightarrow> getenv [''LISTEN_PID='' @ show_nat pid] key)"
    if "key \<in> set RESERVED" "CHR ''='' \<notin> set key" for key
    unfolding env getenv_entries [OF k(1) that(2)] getenv_entries [OF k(2) that(2)] kept_vars_reserved [OF that(1)] by simp
  have pid_entry: "getenv [''LISTEN_PID='' @ show_nat pid] ''LISTEN_PID'' = Some (show_nat pid)"
    using getenv_here [of "''LISTEN_PID''" "show_nat pid" "[]"] by simp
  have v: "getenv envp ''LISTEN_FDS'' = Some (show_nat (length names))"
    "getenv envp ''LISTEN_FDNAMES'' = Some (join_with '':'' names)" "getenv envp ''LISTEN_PID'' = Some (show_nat pid)"
    using look service_env_listen(1,2) [OF assms(4)] service_env_listen(3) pid_entry by (simp_all add: vars RESERVED_def)
  have i: "i < length names" using index_of_Some [OF assms(8)] by simp
  have "length names \<le> usize_max" using assms(6) by (simp add: usize_max_def)
  then show ?thesis
    using v assms(7,8) i assms(6) split_on_join [OF assms(4,5)]
    by (simp add: inherited_def probe_var_def parse_uint_show_nat)
qed

section \<open>Properties\<close>

text \<open>C35.  Socket activation, end to end.  A service is handed the listening sockets of its socket
  units under the units' names.  The process that the manager forks for it, after the hook of
  \<open>setup_child\<close> and the exec with the built image, and that looks a socket up the way
  \<open>listen-probe\<close> does, finds the number at which exactly that socket is open: the descriptor
  the manager holds for it, now surviving an exec.\<close>

theorem service_finds_its_socket:
  assumes sockets: "names = for_service bs service" and "length fds = length names" and "index_of name names = Some i"
    and names: "\<forall>n \<in> set names. CHR '':'' \<notin> set n" and "length names + 3 < 2 ^ 31"
    and image: "image_build own exec (service_env notify sv names) True = Some im" and "keys_ok own"
    and pid: "0 \<le> pid" "pid < 2 ^ 31" and "image_exec pid im = (argv, envp)"
    and held: "\<forall>fd \<in> set fds. t fd \<noteq> None" and dup: "duplicate_listen_fds limit fds t = Some (t', dups)"
    and hook: "pr_fds p = t'" "cs_listen cs = dups" "setup_child g cs p = Some q"
    and out: "\<forall>fd. cs_output cs = Some fd \<longrightarrow> FIRST_LISTEN_FD \<le> fd \<and> t fd \<noteq> None"
  shows "\<exists>n. probe_fd envp (nat pid) name = Inr n
    \<and> after_exec (pr_fds q) n = map_option (\<lambda>d. d\<lparr>ds_cloexec := False\<rparr>) (t (fds ! i))"
proof -
  have i: "i < length names" "names \<noteq> []" using index_of_Some [OF assms(3)] by auto
  have env: "envp = map entry (kept_vars own (service_env notify sv names)) @ map entry (service_env notify sv names)
      @ [''LISTEN_PID='' @ show_nat (nat pid)]"
    using image_exec_entries [OF image pid] assms(10) by simp
  have "nat pid \<le> u32_max" using pid by (simp add: u32_max_def)
  then have found: "inherited envp (nat pid) name = Inr i"
    using inherited_finds [OF env refl assms(7) i(2) names _ _ assms(3)] assms(5) by simp
  have short: "FIRST_LISTEN_FD + length fds < 2 ^ 31" using assms(2,5) by (simp add: FIRST_LISTEN_FD_def)
  have "after_exec (pr_fds q) (FIRST_LISTEN_FD + i) = map_option (\<lambda>d. d\<lparr>ds_cloexec := False\<rparr>) (t (fds ! i))"
    using service_fds [OF dup held short hook out, of "FIRST_LISTEN_FD + i"] i(1) assms(2) by simp
  then show ?thesis using found by (simp add: probe_fd_def)
qed

theorem service_finds_its_socket_witness:
  "\<exists>im t' dups q. image_build [(''LISTEN_FDS'', ''9'')] [''/bin/s''] (service_env [] (the (unit_service (sample_unit Simple Always))) [''a'', ''b'']) True = Some im
     \<and> duplicate_listen_fds 99 [4, 3] sample_fds = Some (t', dups)
     \<and> setup_child sample_grants \<lparr>cs_procs = None, cs_listen = dups, cs_identity = None, cs_output = None,
         cs_session = False\<rparr> (sample_process t') = Some q
     \<and> (\<exists>n. probe_fd (snd (image_exec 42 im)) 42 ''b'' = Inr n
          \<and> after_exec (pr_fds q) n = Some \<lparr>ds_object = ''b'', ds_cloexec = False\<rparr>)"
proof -
  let ?sv = "the (unit_service (sample_unit Simple Always))"
  let ?bs = "[\<lparr>bd_unit = ''a'', bd_service = ''s'', bd_address = UnixPath ''/a'', bd_armed = False\<rparr>,
      \<lparr>bd_unit = ''b'', bd_service = ''s'', bd_address = UnixPath ''/b'', bd_armed = False\<rparr>]"
  have two: "show_nat (Suc (Suc 0)) = ''2''" by code_simp
  have u: "[5..<99] = 5 # 6 # [7..<99]" by (simp add: upt_conv_Cons)
  let ?t = "sample_fds(5 \<mapsto> \<lparr>ds_object = ''a'', ds_cloexec = True\<rparr>, 6 \<mapsto> \<lparr>ds_object = ''b'', ds_cloexec = True\<rparr>)"
  let ?cs = "\<lparr>cs_procs = None, cs_listen = [5, 6], cs_identity = None, cs_output = None, cs_session = False\<rparr>"
  have d: "duplicate_listen_fds 99 [4, 3] sample_fds = Some (?t, [5, 6])"
    by (simp add: duplicate_listen_fds_def FIRST_LISTEN_FD_def dupfd_cloexec_def u sample_fds_def)
  obtain q where q: "setup_child sample_grants ?cs (sample_process ?t) = Some q"
    by (simp add: setup_child_def reset_signal_mask_def sample_grants_def join_cgroup_def with_fds_def
        place_descriptors_def dup2_def sample_process_def sample_fds_def FIRST_LISTEN_FD_def)
  obtain im where im: "image_build [(''LISTEN_FDS'', ''9'')] [''/bin/s''] (service_env [] ?sv [''a'', ''b'']) True = Some im"
    by (simp add: image_build_def c_string_def kept_vars_def RESERVED_def entry_def nul_def service_env_def sample_unit_def
        unit_service_def two)
  have n: "[''a'', ''b''] = for_service ?bs ''s''" "length [4, 3 :: nat] = length [''a'', ''b'']"
    "index_of ''b'' [''a'', ''b''] = Some 1" "\<forall>n \<in> set [''a'', ''b'']. CHR '':'' \<notin> set n"
    "length [''a'', ''b''] + 3 < 2 ^ 31" "keys_ok [(''LISTEN_FDS'', ''9'')]" "(0 :: int) \<le> 42" "(42 :: int) < 2 ^ 31"
    "\<forall>fd \<in> set [4, 3]. sample_fds fd \<noteq> None"
    by (simp_all add: for_service_def keys_ok_def sample_fds_def)
  have p: "pr_fds (sample_process ?t) = ?t" "cs_listen ?cs = [5, 6]"
    "\<forall>fd. cs_output ?cs = Some fd \<longrightarrow> FIRST_LISTEN_FD \<le> fd \<and> sample_fds fd \<noteq> None"
    by (auto simp: sample_process_def)
  have e: "image_exec 42 im = (fst (image_exec 42 im), snd (image_exec 42 im))" by simp
  obtain k where "probe_fd (snd (image_exec 42 im)) (nat 42) ''b'' = Inr k"
    "after_exec (pr_fds q) k = map_option (\<lambda>d. d\<lparr>ds_cloexec := False\<rparr>) (sample_fds ([4, 3] ! 1))"
    using service_finds_its_socket [OF n(1-5) im n(6-8) e n(9) d p(1,2) q p(3)] by blast
  then show ?thesis using im d q by (auto simp: sample_fds_def)
qed

text \<open>Readiness, end to end.  What \<open>notify-probe\<close> has sent after \<open>n\<close> seconds, arriving with the
  credentials the kernel attached for the main process of an activating unit, makes that unit
  active with the status it sent, and it pings at every second until the one it hangs at.\<close>

theorem probe_becomes_ready:
  assumes "notify_probe (Some path) args n = Some sent" and "''--never-ready'' \<notin> set args"
    and "well_keyed s" and "unit_for_pid s pid = Some u" and "get_inst s u = Some i" and "in_state i = Activating"
  shows "sent = READY_MESSAGE # replicate (case hang_after args of None \<Rightarrow> n | Some l \<Rightarrow> min n l) PING_MESSAGE
    \<and> get_inst (on_notify env (fst (drain_socket [Datagram_in READY_MESSAGE [Credentials pid]])) s) u =
        Some (entered_active (e_now env) (i\<lparr>in_status := Some ''probe up''\<rparr>))"
proof -
  have m: "parse_message pid (take PAYLOAD READY_MESSAGE) =
      Some \<lparr>m_pid = pid, m_ready = True, m_watchdog = False, m_status = Some ''probe up''\<rparr>"
  proof -
    have t: "take PAYLOAD READY_MESSAGE = READY_MESSAGE" by (simp add: PAYLOAD_def READY_MESSAGE_def)
    have "utf8_valid READY_MESSAGE" "text_lines READY_MESSAGE = [''READY=1'', ''STATUS=probe up'']"
      "take_chars 256 ''probe up'' = ''probe up''"
      by code_simp+
    then show ?thesis unfolding t by (simp add: parse_message_def parse_line_def)
  qed
  have r: "fst (drain_socket [Datagram_in READY_MESSAGE [Credentials pid]]) =
      [\<lparr>m_pid = pid, m_ready = True, m_watchdog = False, m_status = Some ''probe up''\<rparr>]"
    using m by (simp add: READY_MESSAGE_def)
  have "get_inst (on_notify env [\<lparr>m_pid = pid, m_ready = True, m_watchdog = False, m_status = Some ''probe up''\<rparr>] s) u =
      Some (entered_active (e_now env) (i\<lparr>in_status := Some ''probe up''\<rparr>))"
    using assms(4-6)
    by (auto simp: on_notify_def notify_one_def Let_def get_inst_def upd_inst_def arm_watchdog_def sched_def
        entered_active_def split: option.splits)
  moreover have "sent = READY_MESSAGE # replicate (case hang_after args of None \<Rightarrow> n | Some l \<Rightarrow> min n l) PING_MESSAGE"
    using assms(1,2) by (auto simp: notify_probe_def probe_pings_count split: option.splits)
  ultimately show ?thesis by (simp only: r)
qed

theorem probe_becomes_ready_witness:
  "get_inst (on_notify sample_env (fst (drain_socket [Datagram_in READY_MESSAGE [Credentials 7]]))
     (sample_sup (entered_activating 7 (inst_new (sample_unit Notify Always))))) ''s''
   = Some (entered_active 10 ((entered_activating 7 (inst_new (sample_unit Notify Always)))\<lparr>in_status := Some ''probe up''\<rparr>))"
proof -
  let ?i = "entered_activating 7 (inst_new (sample_unit Notify Always))"
  have h: "notify_probe (Some ''/run/n'') [''notify-probe''] 0 = Some [READY_MESSAGE]"
    by (simp add: notify_probe_def)
  have k: "''--never-ready'' \<notin> set [''notify-probe'']" "well_keyed (sample_sup ?i)"
    "unit_for_pid (sample_sup ?i) 7 = Some ''s''" "get_inst (sample_sup ?i) ''s'' = Some ?i" "in_state ?i = Activating"
    by (simp_all add: well_keyed_def sample_sup_def get_inst_def bmap_ok_Cons unit_for_pid_def entered_activating_def)
  show ?thesis using probe_becomes_ready [OF h k, of sample_env] by (simp add: sample_env_def)
qed

end
