(* ===== verification/CgroupFs.thy ===== *)
theory CgroupFs
  imports UnitFile Paths
begin

text \<open>
  The cgroup hierarchy: \<open>crates/oxinit-cgroup/src/lib.rs\<close>.  A cgroup is a directory of small
  files that the kernel provides, so the kernel is a parameter: what it answers to the next
  operation may depend on every operation before it.  The state is that history.
\<close>

datatype fs_op =
    ReadFile string
  | MakeDir string
  | WriteFile string string

datatype made = Made | AlreadyExists | NotMade

record kernel =
  kn_read :: "fs_op list \<Rightarrow> string \<Rightarrow> string option"
  kn_mkdir :: "fs_op list \<Rightarrow> string \<Rightarrow> made"
  kn_write :: "fs_op list \<Rightarrow> string \<Rightarrow> string \<Rightarrow> bool"

definition CGROUP_ROOT :: string where "CGROUP_ROOT = ''/sys/fs/cgroup''"
definition SLICE :: string where "SLICE = ''oxinit.slice''"
definition INIT_SCOPE :: string where "INIT_SCOPE = ''init.scope''"
definition CONTROLLERS :: "string list" where "CONTROLLERS = [''memory'', ''pids'']"

datatype cgroup_error =
    NotCgroup2 string
  | CreateCgroup string
  | WriteCgroup string
  | ReadCgroup string

section \<open>Files\<close>

definition cg_create_dir :: "kernel \<Rightarrow> string \<Rightarrow> fs_op list \<Rightarrow> (cgroup_error + unit) \<times> fs_op list" where
  "cg_create_dir k path h =
     ((case kn_mkdir k h path of
         Made \<Rightarrow> Inr ()
       | AlreadyExists \<Rightarrow> Inr ()
       | NotMade \<Rightarrow> Inl (CreateCgroup path)), h @ [MakeDir path])"

definition cg_write :: "kernel \<Rightarrow> string \<Rightarrow> string \<Rightarrow> fs_op list \<Rightarrow> (cgroup_error + unit) \<times> fs_op list" where
  "cg_write k path value h =
     ((if kn_write k h path value then Inr () else Inl (WriteCgroup path)), h @ [WriteFile path value])"

definition cg_read :: "kernel \<Rightarrow> string \<Rightarrow> fs_op list \<Rightarrow> string option \<times> fs_op list" where
  "cg_read k path h = (kn_read k h path, h @ [ReadFile path])"

definition cg_read_number :: "kernel \<Rightarrow> string \<Rightarrow> fs_op list \<Rightarrow> nat option \<times> fs_op list" where
  "cg_read_number k path h =
     (let (text, h') = cg_read k path h in
      (Option.bind text (\<lambda>t. parse_uint u64_max (trim t)), h'))"

section \<open>The hierarchy\<close>

definition enable_line :: "string list \<Rightarrow> string" where
  "enable_line controllers = join_with '' '' (map (\<lambda>c. ''+'' @ c) controllers)"

definition enable :: "kernel \<Rightarrow> string \<Rightarrow> string list \<Rightarrow> fs_op list \<Rightarrow> (cgroup_error + unit) \<times> fs_op list" where
  "enable k cgroup controllers h =
     (if controllers = [] then (Inr (), h)
      else cg_write k (path_join cgroup ''cgroup.subtree_control'') (enable_line controllers) h)"

definition park_init :: "kernel \<Rightarrow> string \<Rightarrow> nat \<Rightarrow> fs_op list \<Rightarrow> (cgroup_error + unit) \<times> fs_op list" where
  "park_init k root pid h =
     (let scope = path_join root INIT_SCOPE in
      case cg_create_dir k scope h of
        (Inl e, h1) \<Rightarrow> (Inl e, h1)
      | (Inr _, h1) \<Rightarrow> cg_write k (path_join scope ''cgroup.procs'') (show_nat pid) h1)"

definition wanted_controllers :: "string \<Rightarrow> string list" where
  "wanted_controllers controllers = filter (\<lambda>c. c \<in> set (split_whitespace controllers)) CONTROLLERS"

text \<open>\<open>Hierarchy::new\<close>; a hierarchy is the path of its slice.\<close>

definition hierarchy_new :: "kernel \<Rightarrow> string \<Rightarrow> nat \<Rightarrow> fs_op list \<Rightarrow> (cgroup_error + string) \<times> fs_op list" where
  "hierarchy_new k root init_pid h =
     (case cg_read k (path_join root ''cgroup.controllers'') h of
        (None, h1) \<Rightarrow> (Inl (NotCgroup2 root), h1)
      | (Some controllers, h1) \<Rightarrow>
          let wanted = wanted_controllers controllers;
              h2 = snd (park_init k root init_pid h1) in
          (case enable k root wanted h2 of
             (Inl e, h3) \<Rightarrow> (Inl e, h3)
           | (Inr _, h3) \<Rightarrow>
               let sl = path_join root SLICE in
               (case cg_create_dir k sl h3 of
                  (Inl e, h4) \<Rightarrow> (Inl e, h4)
                | (Inr _, h4) \<Rightarrow>
                    (case enable k sl wanted h4 of
                       (Inl e, h5) \<Rightarrow> (Inl e, h5)
                     | (Inr _, h5) \<Rightarrow> (Inr sl, h5)))))"

section \<open>One service's cgroup\<close>

definition cgroup_path :: "string \<Rightarrow> string \<Rightarrow> string" where
  "cgroup_path sl name = path_join sl name"

definition procs_path :: "string \<Rightarrow> string" where
  "procs_path cg = path_join cg ''cgroup.procs''"

definition events_path :: "string \<Rightarrow> string" where
  "events_path cg = path_join cg ''cgroup.events''"

definition cgroup_apply :: "kernel \<Rightarrow> string \<Rightarrow> resources \<Rightarrow> fs_op list \<Rightarrow> (cgroup_error + unit) \<times> fs_op list" where
  "cgroup_apply k cg r h =
     (case (case memory_max r of
              None \<Rightarrow> (Inr (), h)
            | Some m \<Rightarrow> cg_write k (path_join cg ''memory.max'') (show_size m) h) of
        (Inl e, h1) \<Rightarrow> (Inl e, h1)
      | (Inr _, h1) \<Rightarrow>
          (case tasks_max r of
             None \<Rightarrow> (Inr (), h1)
           | Some t \<Rightarrow> cg_write k (path_join cg ''pids.max'') (show_nat t) h1))"

definition parse_populated :: "string \<Rightarrow> bool option" where
  "parse_populated text =
     map_option (\<lambda>(_, value). trim value \<noteq> ''0'')
       (find (\<lambda>(key, _). key = ''populated'')
          (List.map_filter (split_once CHR '' '') (text_lines text)))"

definition cgroup_populated :: "kernel \<Rightarrow> string \<Rightarrow> fs_op list \<Rightarrow> (cgroup_error + bool) \<times> fs_op list" where
  "cgroup_populated k cg h =
     (case cg_read k (events_path cg) h of
        (None, h1) \<Rightarrow> (Inl (ReadCgroup (events_path cg)), h1)
      | (Some text, h1) \<Rightarrow> (Inr (case parse_populated text of None \<Rightarrow> False | Some b \<Rightarrow> b), h1))"

record stats =
  sg_memory :: "nat option"
  sg_tasks :: "nat option"

definition cgroup_stats :: "kernel \<Rightarrow> string \<Rightarrow> fs_op list \<Rightarrow> stats \<times> fs_op list" where
  "cgroup_stats k cg h =
     (let (m, h1) = cg_read_number k (path_join cg ''memory.current'') h;
          (t, h2) = cg_read_number k (path_join cg ''pids.current'') h1 in
      (\<lparr>sg_memory = m, sg_tasks = t\<rparr>, h2))"

definition cgroup_pids :: "kernel \<Rightarrow> string \<Rightarrow> fs_op list \<Rightarrow> (cgroup_error + nat list) \<times> fs_op list" where
  "cgroup_pids k cg h =
     (let path = procs_path cg in
      case cg_read k path h of
        (None, h1) \<Rightarrow> (Inl (ReadCgroup path), h1)
      | (Some text, h1) \<Rightarrow>
          (Inr (List.map_filter (\<lambda>line. parse_uint u32_max (trim line)) (text_lines text)), h1))"

definition cgroup_kill :: "kernel \<Rightarrow> string \<Rightarrow> fs_op list \<Rightarrow> (cgroup_error + unit) \<times> fs_op list" where
  "cgroup_kill k cg h = cg_write k (path_join cg ''cgroup.kill'') ''1'' h"

text \<open>\<open>Bytes\<close>: one decimal in integers, on 64-bit words.\<close>

fun show_scaled :: "nat \<Rightarrow> (nat \<times> string) list \<Rightarrow> string" where
  "show_scaled b [] = ''0B''"
| "show_scaled b ((scale, suffix) # rest) =
     (if scale \<le> b then show_nat (b div scale) @ ''.'' @ show_nat (b mod scale * 10 div scale) @ suffix
      else show_scaled b rest)"

definition show_bytes :: "nat \<Rightarrow> string" where
  "show_bytes b = show_scaled b [(2 ^ 30, ''G''), (2 ^ 20, ''M''), (2 ^ 10, ''K''), (1, ''B'')]"

definition show_stats :: "stats \<Rightarrow> string" where
  "show_stats s =
     (case sg_memory s of Some b \<Rightarrow> ''memory '' @ show_bytes b | None \<Rightarrow> ''memory unknown'')
     @ (case sg_tasks s of Some t \<Rightarrow> '', tasks '' @ show_nat t | None \<Rightarrow> '', tasks unknown'')"

section \<open>Where operations go\<close>

fun op_path :: "fs_op \<Rightarrow> string" where
  "op_path (ReadFile p) = p"
| "op_path (MakeDir p) = p"
| "op_path (WriteFile p _) = p"

definition in_dir :: "string \<Rightarrow> fs_op \<Rightarrow> bool" where
  "in_dir dir op \<longleftrightarrow> (\<exists>f. \<not> path_is_absolute f \<and> CHR ''/'' \<notin> set f \<and> op_path op = path_join dir f)"

definition extends :: "(fs_op \<Rightarrow> bool) \<Rightarrow> fs_op list \<Rightarrow> fs_op list \<Rightarrow> bool" where
  "extends P h h' \<longleftrightarrow> (\<exists>ops. h' = h @ ops \<and> list_all P ops)"

lemma extends_append [simp]: "extends P h (h @ ops) \<longleftrightarrow> list_all P ops"
  by (auto simp: extends_def)

lemma extends_refl [simp]: "extends P h h"
  by (simp add: extends_def)

lemmas fs_op_defs = cg_create_dir_def cg_write_def cg_read_def

lemma in_dir_file:
  assumes "op_path op = path_join dir f" and "CHR ''/'' \<notin> set f"
  shows "in_dir dir op"
proof -
  have "\<not> path_is_absolute f" using assms(2) by (cases f) (auto simp: path_is_absolute_def)
  then show ?thesis using assms by (auto simp: in_dir_def)
qed

lemma in_dir_read [intro]: "CHR ''/'' \<notin> set f \<Longrightarrow> in_dir dir (ReadFile (path_join dir f))"
  by (rule in_dir_file) simp_all

lemma in_dir_write [intro]: "CHR ''/'' \<notin> set f \<Longrightarrow> in_dir dir (WriteFile (path_join dir f) v)"
  by (rule in_dir_file) simp_all

section \<open>The hierarchy comes up in order\<close>

definition enabling :: "string \<Rightarrow> string \<Rightarrow> fs_op list" where
  "enabling body dir =
     (if wanted_controllers body = [] then []
      else [WriteFile (path_join dir ''cgroup.subtree_control'') (enable_line (wanted_controllers body))])"

lemma park_init_effects:
  "\<exists>park. snd (park_init k root pid h) = h @ park
     \<and> (park = [MakeDir (path_join root INIT_SCOPE)]
        \<or> park = [MakeDir (path_join root INIT_SCOPE),
                   WriteFile (path_join (path_join root INIT_SCOPE) ''cgroup.procs'') (show_nat pid)])"
  by (auto simp: park_init_def fs_op_defs Let_def split: made.splits)

lemma enable_effects:
  "snd (enable k dir (wanted_controllers body) h) = h @ enabling body dir"
  "fst (enable k dir (wanted_controllers body) h) \<in> {Inr (), Inl (WriteCgroup (path_join dir ''cgroup.subtree_control''))}"
  by (auto simp: enable_def enabling_def cg_write_def)

lemma wanted_controllers_are: "set (wanted_controllers body) = {''memory'', ''pids''} \<inter> set (split_whitespace body)"
  by (auto simp: wanted_controllers_def CONTROLLERS_def)

text \<open>What becomes of the steps after parking, given what became of the two delegations.\<close>

lemma hierarchy_stops_at_failure:
  fixes root body :: string and r1 r3 :: "cgroup_error + unit"
  defines "sl \<equiv> path_join root SLICE"
    and "failed \<equiv> \<lambda>dir. Inl (WriteCgroup (path_join dir ''cgroup.subtree_control'')) :: cgroup_error + string"
  defines "steps \<equiv> [enabling body root, [MakeDir sl], enabling body sl]"
  assumes "r1 = Inr () \<or> r1 = Inl (WriteCgroup (path_join root ''cgroup.subtree_control''))"
    and "r3 = Inr () \<or> r3 = Inl (WriteCgroup (path_join sl ''cgroup.subtree_control''))"
    and new: "out = (case r1 of Inl e \<Rightarrow> (Inl e, h @ enabling body root)
      | Inr _ \<Rightarrow> (case made of
           NotMade \<Rightarrow> (Inl (CreateCgroup sl), (h @ enabling body root) @ [MakeDir sl])
         | _ \<Rightarrow> (case r3 of Inl e \<Rightarrow> (Inl e, (h @ enabling body root) @ [MakeDir sl] @ enabling body sl)
                 | Inr _ \<Rightarrow> (Inr sl, (h @ enabling body root) @ [MakeDir sl] @ enabling body sl))))"
  shows "\<exists>n r. out = (r, h @ concat (take n steps))
     \<and> (r = Inr sl \<and> n = 3 \<or> r = failed root \<and> n = 1
        \<or> r = Inl (CreateCgroup sl) \<and> n = 2 \<or> r = failed sl \<and> n = 3)"
proof (cases r1)
  case Inl
  then have "out = (failed root, h @ concat (take 1 steps))"
    unfolding new using assms(4) by (simp add: failed_def steps_def)
  then show ?thesis by blast
next
  case Inr
  show ?thesis
  proof (cases "made = NotMade")
    case True
    with Inr have "out = (Inl (CreateCgroup sl), h @ concat (take 2 steps))"
      unfolding new by (simp add: steps_def eval_nat_numeral)
    then show ?thesis by blast
  next
    case False
    with Inr have "out = ((case r3 of Inl e \<Rightarrow> Inl e | Inr _ \<Rightarrow> Inr sl), h @ concat (take 3 steps))"
      unfolding new by (cases r3; cases made) (simp_all add: steps_def eval_nat_numeral)
    moreover have "(case r3 of Inl e \<Rightarrow> Inl e | Inr _ \<Rightarrow> Inr sl) \<in> {Inr sl, failed sl}"
      using assms(5) by (auto simp: failed_def)
    ultimately show ?thesis by blast
  qed
qed

section \<open>Properties\<close>

text \<open>Bringing the hierarchy up does these steps and no others, in this order, and stops
  only where one of them failed: read the controllers; try to park the first process, whatever
  comes of it; delegate at the root; make the slice; delegate in the slice.  What is delegated
  is the wanted controllers that the kernel has, and nothing is written when there are none.\<close>

theorem hierarchy_comes_up_in_order:
  "case kn_read k h (path_join root ''cgroup.controllers'') of
     None \<Rightarrow> hierarchy_new k root pid h = (Inl (NotCgroup2 root), h @ [ReadFile (path_join root ''cgroup.controllers'')])
   | Some body \<Rightarrow>
       (\<exists>park n r.
          (park = [MakeDir (path_join root INIT_SCOPE)]
           \<or> park = [MakeDir (path_join root INIT_SCOPE),
                      WriteFile (path_join (path_join root INIT_SCOPE) ''cgroup.procs'') (show_nat pid)])
        \<and> hierarchy_new k root pid h =
            (r, h @ ReadFile (path_join root ''cgroup.controllers'') # park
               @ concat (take n [enabling body root, [MakeDir (path_join root SLICE)], enabling body (path_join root SLICE)]))
        \<and> (r = Inr (path_join root SLICE) \<and> n = 3
           \<or> r = Inl (WriteCgroup (path_join root ''cgroup.subtree_control'')) \<and> n = 1
           \<or> r = Inl (CreateCgroup (path_join root SLICE)) \<and> n = 2
           \<or> r = Inl (WriteCgroup (path_join (path_join root SLICE) ''cgroup.subtree_control'')) \<and> n = 3))"
proof (cases "kn_read k h (path_join root ''cgroup.controllers'')")
  case None
  then show ?thesis by (simp add: hierarchy_new_def cg_read_def)
next
  case (Some body)
  let ?h1 = "h @ [ReadFile (path_join root ''cgroup.controllers'')]" and ?w = "wanted_controllers body"
    and ?sl = "path_join root SLICE"
  obtain park where park: "snd (park_init k root pid ?h1) = ?h1 @ park"
    "park = [MakeDir (path_join root INIT_SCOPE)]
     \<or> park = [MakeDir (path_join root INIT_SCOPE),
               WriteFile (path_join (path_join root INIT_SCOPE) ''cgroup.procs'') (show_nat pid)]"
    using park_init_effects by blast
  obtain r1 where e1: "enable k root ?w (?h1 @ park) = (r1, ?h1 @ park @ enabling body root)"
    "r1 = Inr () \<or> r1 = Inl (WriteCgroup (path_join root ''cgroup.subtree_control''))"
    using enable_effects [of k root body "?h1 @ park"] by (metis append.assoc insertE prod.collapse singletonD)
  let ?h3 = "?h1 @ park @ enabling body root"
  obtain r3 where e3: "enable k ?sl ?w (?h3 @ [MakeDir ?sl]) = (r3, ?h3 @ [MakeDir ?sl] @ enabling body ?sl)"
    "r3 = Inr () \<or> r3 = Inl (WriteCgroup (path_join ?sl ''cgroup.subtree_control''))"
    using enable_effects [of k ?sl body "?h3 @ [MakeDir ?sl]"] by (metis append.assoc insertE prod.collapse singletonD)
  let ?steps = "[enabling body root, [MakeDir ?sl], enabling body ?sl]"
  have new: "hierarchy_new k root pid h =
     (case r1 of Inl e \<Rightarrow> (Inl e, ?h3)
      | Inr _ \<Rightarrow> (case kn_mkdir k ?h3 ?sl of
           NotMade \<Rightarrow> (Inl (CreateCgroup ?sl), ?h3 @ [MakeDir ?sl])
         | _ \<Rightarrow> (case r3 of Inl e \<Rightarrow> (Inl e, ?h3 @ [MakeDir ?sl] @ enabling body ?sl)
                 | Inr _ \<Rightarrow> (Inr ?sl, ?h3 @ [MakeDir ?sl] @ enabling body ?sl))))"
    using Some park(1) e1(1) e3(1)
    by (simp add: hierarchy_new_def cg_read_def cg_create_dir_def Let_def split: sum.splits made.splits)
  note ends = hierarchy_stops_at_failure [OF e1(2) e3(2), where h = "?h1 @ park" and made = "kn_mkdir k ?h3 ?sl" and body = body]
  have "\<exists>n r. hierarchy_new k root pid h = (r, (?h1 @ park) @ concat (take n ?steps))
     \<and> (r = Inr ?sl \<and> n = 3 \<or> r = Inl (WriteCgroup (path_join root ''cgroup.subtree_control'')) \<and> n = 1
        \<or> r = Inl (CreateCgroup ?sl) \<and> n = 2
        \<or> r = Inl (WriteCgroup (path_join ?sl ''cgroup.subtree_control'')) \<and> n = 3)"
    by (rule ends) (unfold new append.assoc, rule refl)
  then show ?thesis using Some park(2) by (simp, intro exI [of _ park]) simp
qed

text \<open>Every operation on a unit's cgroup reads and writes files directly in that cgroup's
  directory and nowhere else.\<close>

theorem cgroup_stays_inside:
  "list_all (extends (in_dir cg) h)
     [snd (cgroup_apply k cg r h), snd (cgroup_populated k cg h), snd (cgroup_stats k cg h),
      snd (cgroup_pids k cg h), snd (cgroup_kill k cg h)]"
  by (auto simp: cgroup_apply_def cgroup_populated_def cgroup_stats_def cgroup_pids_def cgroup_kill_def
      cg_read_number_def fs_op_defs procs_path_def events_path_def
      Let_def intro!: in_dir_read in_dir_write split: option.splits)

end
