(* ===== verification/Errors.thy ===== *)
theory Errors
  imports CgroupFs Boot Paths
begin

text \<open>
  What the manager says when something goes wrong: \<open>crates/oxinit/src/error.rs\<close>, the error of
  \<open>crates/oxinit-cgroup\<close>, and the names of the places a manager runs in
  (\<open>container.rs\<close>).  The text of an \<open>errno\<close> is the standard library's and a parameter;
  so is the text of an \<open>io::Error\<close>, which the models of the operations do not keep.
\<close>

section \<open>Errors of start-up\<close>

datatype init_error =
    IE_Mount string errno
  | IE_Mkdir string errno
  | IE_Console errno
  | IE_BlockSignals errno
  | IE_SignalFd errno
  | IE_ReadSignalFd errno
  | IE_Hostname errno
  | IE_Epoll errno
  | IE_Notify errno
  | IE_Timer errno
  | IE_Spawn string string
  | IE_Open string errno
  | IE_Cgroup cgroup_error
  | IE_Listen string errno
  | IE_Control errno
  | IE_Logs errno
  | IE_NoLogSocket

record messages =
  ms_errno :: "errno \<Rightarrow> string"
  ms_io :: "cgroup_error \<Rightarrow> string"

definition show_cgroup_error :: "messages \<Rightarrow> cgroup_error \<Rightarrow> string" where
  "show_cgroup_error ms e =
     (case e of
        NotCgroup2 path \<Rightarrow> path @ '' is not a cgroup v2 hierarchy: '' @ ms_io ms e
      | CreateCgroup path \<Rightarrow> ''create cgroup '' @ path @ '': '' @ ms_io ms e
      | WriteCgroup path \<Rightarrow> ''write '' @ path @ '': '' @ ms_io ms e
      | ReadCgroup path \<Rightarrow> ''read '' @ path @ '': '' @ ms_io ms e)"

definition show_init_error :: "messages \<Rightarrow> init_error \<Rightarrow> string" where
  "show_init_error ms e =
     (case e of
        IE_Mount target n \<Rightarrow> ''mount '' @ target @ '': '' @ ms_errno ms n
      | IE_Mkdir path n \<Rightarrow> ''create directory '' @ path @ '': '' @ ms_errno ms n
      | IE_Console n \<Rightarrow> ''open /dev/console: '' @ ms_errno ms n
      | IE_BlockSignals n \<Rightarrow> ''block signals: '' @ ms_errno ms n
      | IE_SignalFd n \<Rightarrow> ''create signalfd: '' @ ms_errno ms n
      | IE_ReadSignalFd n \<Rightarrow> ''read signalfd: '' @ ms_errno ms n
      | IE_Hostname n \<Rightarrow> ''set hostname: '' @ ms_errno ms n
      | IE_Epoll n \<Rightarrow> ''epoll: '' @ ms_errno ms n
      | IE_Notify n \<Rightarrow> ''notify socket: '' @ ms_errno ms n
      | IE_Timer n \<Rightarrow> ''timerfd: '' @ ms_errno ms n
      | IE_Spawn path m \<Rightarrow> ''spawn '' @ path @ '': '' @ m
      | IE_Open path n \<Rightarrow> ''open '' @ path @ '': '' @ ms_errno ms n
      | IE_Cgroup c \<Rightarrow> ''cgroup: '' @ show_cgroup_error ms c
      | IE_Listen address n \<Rightarrow> ''listen on '' @ address @ '': '' @ ms_errno ms n
      | IE_Control n \<Rightarrow> ''control socket: '' @ ms_errno ms n
      | IE_Logs n \<Rightarrow> ''log socket: '' @ ms_errno ms n
      | IE_NoLogSocket \<Rightarrow> ''no log socket; `output = '' @ [CHR 0x22] @ ''log'' @ [CHR 0x22] @ ''` needs one'')"

text \<open>The errors of \<open>mounts.rs\<close> among them.\<close>

definition of_mount_error :: "mount_error \<Rightarrow> init_error" where
  "of_mount_error e = (case e of MountFailed t n \<Rightarrow> IE_Mount t n | MkdirFailed t n \<Rightarrow> IE_Mkdir t n)"

section \<open>Places\<close>

definition show_runtime :: "runtime \<Rightarrow> string" where
  "show_runtime r = rn_name r @ '', by '' @ rn_evidence r"

definition show_environment :: "environment \<Rightarrow> string" where
  "show_environment e =
     (case e of
        Machine \<Rightarrow> ''a machine''
      | Container r \<Rightarrow> ''a container ('' @ show_runtime r @ '')''
      | UserManager name \<Rightarrow> ''the user manager for '' @ name)"

end
