(* ===== verification/EventLoop.thy ===== *)
theory EventLoop
  imports Sockets Token
begin

text \<open>
  The epoll loop's own state, \<open>EventLoop\<close> of \<open>crates/oxinit/src/event.rs\<close>, with what registers
  descriptors in it: \<open>wire\<close> of \<open>main.rs\<close> and \<open>sync_sockets\<close> of \<open>supervisor.rs\<close>.  The table of
  registrations is the kernel's: a descriptor is in it once, and a call for it fails when it is
  there already, when it is not there to be deleted, or when the kernel says so.
\<close>

section \<open>The table\<close>

record registration =
  rg_fd :: nat
  rg_token :: "64 word"
  rg_pri :: bool

type_synonym epoll = "registration list"

type_synonym ctl = "nat \<Rightarrow> errno option"

definition ENOENT :: errno where "ENOENT = OtherErrno 2"

definition ep_add :: "ctl \<Rightarrow> nat \<Rightarrow> event_source \<Rightarrow> bool \<Rightarrow> epoll \<Rightarrow> errno option \<times> epoll" where
  "ep_add ctl fd source pri ep =
     (if fd \<in> rg_fd ` set ep then (Some EEXIST, ep)
      else case ctl fd of
        Some e \<Rightarrow> (Some e, ep)
      | None \<Rightarrow> (None, ep @ [\<lparr>rg_fd = fd, rg_token = token source, rg_pri = pri\<rparr>]))"

definition ep_register :: "ctl \<Rightarrow> nat \<Rightarrow> event_source \<Rightarrow> epoll \<Rightarrow> errno option \<times> epoll" where
  "ep_register ctl fd source ep = ep_add ctl fd source False ep"

definition ep_register_pri :: "ctl \<Rightarrow> nat \<Rightarrow> event_source \<Rightarrow> epoll \<Rightarrow> errno option \<times> epoll" where
  "ep_register_pri ctl fd source ep = ep_add ctl fd source True ep"

definition ep_deregister :: "ctl \<Rightarrow> nat \<Rightarrow> epoll \<Rightarrow> errno option \<times> epoll" where
  "ep_deregister ctl fd ep =
     (if fd \<notin> rg_fd ` set ep then (Some ENOENT, ep)
      else case ctl fd of
        Some e \<Rightarrow> (Some e, ep)
      | None \<Rightarrow> (None, filter (\<lambda>r. rg_fd r \<noteq> fd) ep))"

text \<open>What a descriptor is registered as.\<close>

definition source_of :: "epoll \<Rightarrow> nat \<Rightarrow> event_source option" where
  "source_of ep fd = Option.bind (map_option rg_token (find (\<lambda>r. rg_fd r = fd) ep)) from_token"

section \<open>Waiting\<close>

datatype poll_answer = PollInterrupted | PollFailed errno | PollReady "64 word list"

definition i64_max :: nat where "i64_max = 2 ^ 63 - 1"

text \<open>The timeout as the kernel is given it: seconds that fit an \<open>i64\<close>, and nanoseconds.\<close>

definition to_timespec :: "duration \<Rightarrow> nat \<times> nat" where
  "to_timespec d = (let secs = d div 1000000000 in (if secs \<le> i64_max then secs else i64_max, d mod 1000000000))"

fun filter_map :: "('a \<Rightarrow> 'b option) \<Rightarrow> 'a list \<Rightarrow> 'b list" where
  "filter_map f [] = []"
| "filter_map f (x # xs) = (case f x of None \<Rightarrow> filter_map f xs | Some y \<Rightarrow> y # filter_map f xs)"

definition ep_wait :: "poll_answer \<Rightarrow> errno + event_source list" where
  "ep_wait answer =
     (case answer of
        PollInterrupted \<Rightarrow> Inr []
      | PollFailed e \<Rightarrow> Inl e
      | PollReady tokens \<Rightarrow> Inr (filter_map from_token tokens))"

section \<open>Wiring\<close>

record wiring =
  wr_signals :: nat
  wr_mono :: nat
  wr_wall :: nat
  wr_notify :: nat
  wr_control :: "nat option"
  wr_log :: "nat option"
  wr_cgroups :: "(32 word \<times> nat) list"

text \<open>The chain of \<open>and_then\<close>: the first failure is returned.\<close>

fun register_until :: "ctl \<Rightarrow> (nat \<times> event_source) list \<Rightarrow> epoll \<Rightarrow> errno option \<times> epoll" where
  "register_until ctl [] ep = (None, ep)"
| "register_until ctl ((fd, s) # ps) ep =
     (case ep_register ctl fd s ep of
        (Some e, ep1) \<Rightarrow> (Some e, ep1)
      | (None, ep1) \<Rightarrow> register_until ctl ps ep1)"

text \<open>A failure that is only reported.\<close>

definition register_or_report :: "ctl \<Rightarrow> nat \<times> event_source \<times> bool \<Rightarrow> errno list \<times> epoll \<Rightarrow> errno list \<times> epoll" where
  "register_or_report ctl p st =
     (case (p, st) of ((fd, s, pri), (errs, ep)) \<Rightarrow>
        (case ep_add ctl fd s pri ep of
           (Some e, ep1) \<Rightarrow> (errs @ [e], ep1)
         | (None, ep1) \<Rightarrow> (errs, ep1)))"

definition required :: "wiring \<Rightarrow> (nat \<times> event_source) list" where
  "required w = [(wr_signals w, Signals), (wr_mono w, MonoTimer), (wr_wall w, WallTimer), (wr_notify w, NotifySocket)]"

definition optional :: "wiring \<Rightarrow> (nat \<times> event_source \<times> bool) list" where
  "optional w =
     (case wr_control w of None \<Rightarrow> [] | Some fd \<Rightarrow> [(fd, Control, False)])
     @ (case wr_log w of None \<Rightarrow> [] | Some fd \<Rightarrow> [(fd, LogSocket, False)])
     @ map (\<lambda>(i, fd). (fd, CgroupEvent i, True)) (wr_cgroups w)"

definition wire :: "ctl \<Rightarrow> wiring \<Rightarrow> epoll \<Rightarrow> (errno + errno list) \<times> epoll" where
  "wire ctl w ep =
     (case register_until ctl (required w) ep of
        (Some e, ep1) \<Rightarrow> (Inl e, ep1)
      | (None, ep1) \<Rightarrow> (case fold (register_or_report ctl) (optional w) ([], ep1) of (errs, ep2) \<Rightarrow> (Inr errs, ep2)))"

section \<open>The sockets of socket units\<close>

definition sync_one ::
    "ctl \<Rightarrow> (32 word \<Rightarrow> nat) \<Rightarrow> sup \<Rightarrow> 32 word \<times> string \<Rightarrow> bound list \<times> epoll \<Rightarrow> bound list \<times> epoll" where
  "sync_one ctl fd_of s p st =
     (case (p, st) of ((i, service), (bs, ep)) \<Rightarrow>
        let want = want_armed s service in
        if want = sockets_armed bs i then (bs, ep)
        else case sockets_get bs i of
          None \<Rightarrow> (bs, ep)
        | Some _ \<Rightarrow>
            (case (if want then ep_register ctl (fd_of i) (SocketReady i) ep else ep_deregister ctl (fd_of i) ep) of
               (None, ep1) \<Rightarrow> (sockets_set_armed i want bs, ep1)
             | (Some _, ep1) \<Rightarrow> (bs, ep1)))"

definition sync_table :: "ctl \<Rightarrow> (32 word \<Rightarrow> nat) \<Rightarrow> sup \<Rightarrow> epoll \<Rightarrow> bound list \<times> epoll" where
  "sync_table ctl fd_of s ep = fold (sync_one ctl fd_of s) (sockets_ids (s_sockets s)) (s_sockets s, ep)"

section \<open>The contract of a table of registrations\<close>

locale interest_table =
  fixes none :: 't
    and register :: "nat \<Rightarrow> event_source \<Rightarrow> bool \<Rightarrow> 't \<Rightarrow> 't"
    and deregister :: "nat \<Rightarrow> 't \<Rightarrow> 't"
    and look :: "'t \<Rightarrow> nat \<Rightarrow> event_source option"
    and ok :: "'t \<Rightarrow> bool"
  assumes look_none: "look none x = None"
    and look_register: "ok t \<Longrightarrow> look t fd = None \<Longrightarrow> look (register fd s p t) x = (if x = fd then Some s else look t x)"
    and look_deregister: "ok t \<Longrightarrow> look (deregister fd t) x = (if x = fd then None else look t x)"
    and ok_none: "ok none"
    and ok_register: "ok t \<Longrightarrow> look t fd = None \<Longrightarrow> ok (register fd s p t)"
    and ok_deregister: "ok t \<Longrightarrow> ok (deregister fd t)"
begin

text \<open>Registering distinct descriptors that are not in the table adds exactly them.\<close>

lemma look_registers:
  assumes "ok t" and "distinct (map fst ps)" and "\<forall>p \<in> set ps. look t (fst p) = None"
  shows "ok (fold (\<lambda>(fd, s, p). register fd s p) ps t)
    \<and> look (fold (\<lambda>(fd, s, p). register fd s p) ps t) x =
        (case map_of ps x of None \<Rightarrow> look t x | Some (s, p) \<Rightarrow> Some s)"
  using assms
proof (induction ps arbitrary: t)
  case Nil
  then show ?case by simp
next
  case (Cons q ps)
  obtain fd s p where q: "q = (fd, s, p)" by (cases q)
  have fresh: "look t fd = None" using Cons.prems(3) by (simp add: q)
  have new: "\<forall>r \<in> set ps. look (register fd s p t) (fst r) = None"
  proof
    fix r assume "r \<in> set ps"
    then have "fst r \<noteq> fd" "look t (fst r) = None" using Cons.prems(2,3) by (auto simp: q)
    then show "look (register fd s p t) (fst r) = None" using look_register [OF Cons.prems(1) fresh] by simp
  qed
  have IH: "ok (fold (\<lambda>(fd, s, p). register fd s p) ps (register fd s p t))
    \<and> look (fold (\<lambda>(fd, s, p). register fd s p) ps (register fd s p t)) x =
        (case map_of ps x of None \<Rightarrow> look (register fd s p t) x | Some (s, p) \<Rightarrow> Some s)"
    using Cons.IH [OF ok_register [OF Cons.prems(1) fresh] _ new] Cons.prems(2) by (simp add: q)
  have "map_of ps fd = None" using Cons.prems(2) by (simp add: q map_of_eq_None_iff)
  then show ?case using IH look_register [OF Cons.prems(1) fresh, of s p x] by (auto simp: q split: option.splits)
qed

lemma register_back: "ok t \<Longrightarrow> look t fd = None \<Longrightarrow> look (deregister fd (register fd s p t)) x = look t x"
  using look_deregister [OF ok_register] look_register by auto

end

definition ep_put :: "nat \<Rightarrow> event_source \<Rightarrow> bool \<Rightarrow> epoll \<Rightarrow> epoll" where
  "ep_put fd s pri ep = snd (ep_add (\<lambda>_. None) fd s pri ep)"

definition ep_drop :: "nat \<Rightarrow> epoll \<Rightarrow> epoll" where
  "ep_drop fd ep = snd (ep_deregister (\<lambda>_. None) fd ep)"

text \<open>Every registration carries the token of a source, and no descriptor is in the table twice.\<close>

definition epoll_ok :: "epoll \<Rightarrow> bool" where
  "epoll_ok ep \<longleftrightarrow> distinct (map rg_fd ep) \<and> (\<forall>r \<in> set ep. \<exists>s. rg_token r = token s)"

lemma find_filter_other: "x \<noteq> fd \<Longrightarrow> find (\<lambda>r. rg_fd r = x) (filter (\<lambda>r. rg_fd r \<noteq> fd) ep) = find (\<lambda>r. rg_fd r = x) ep"
  by (induction ep) auto

lemma find_filter_same: "find (\<lambda>r. rg_fd r = fd) (filter (\<lambda>r. rg_fd r \<noteq> fd) ep) = None"
  by (induction ep) auto

lemma source_of_None: "epoll_ok ep \<Longrightarrow> source_of ep fd = None \<longleftrightarrow> fd \<notin> rg_fd ` set ep"
proof -
  assume ok: "epoll_ok ep"
  show ?thesis
  proof (cases "find (\<lambda>r. rg_fd r = fd) ep")
    case None
    then have "fd \<notin> rg_fd ` set ep" by (auto simp: find_None_iff)
    then show ?thesis by (simp add: source_of_def None)
  next
    case (Some r)
    then have "r \<in> set ep" "rg_fd r = fd" using find_Some_mem by fastforce+
    moreover obtain s where "rg_token r = token s" using ok \<open>r \<in> set ep\<close> by (auto simp: epoll_ok_def)
    ultimately show ?thesis using Some from_token_token by (auto simp: source_of_def)
  qed
qed

lemma find_append: "find P (xs @ ys) = (case find P xs of None \<Rightarrow> find P ys | Some x \<Rightarrow> Some x)"
  by (induction xs) auto

interpretation epoll_table: interest_table "[]" ep_put ep_drop source_of epoll_ok
proof unfold_locales
  show "source_of [] x = None" for x by (simp add: source_of_def)
next
  fix t fd s p x
  assume "epoll_ok t" "source_of t fd = None"
  then have fd: "fd \<notin> rg_fd ` set t" using source_of_None by blast
  then have "find (\<lambda>r. rg_fd r = fd) t = None" by (auto simp: find_None_iff)
  then show "source_of (ep_put fd s p t) x = (if x = fd then Some s else source_of t x)"
    using fd from_token_token
    by (auto simp: ep_put_def ep_add_def source_of_def find_append split: option.splits)
next
  fix t fd x
  assume "epoll_ok t"
  then show "source_of (ep_drop fd t) x = (if x = fd then None else source_of t x)"
    using find_filter_other [of x fd t] find_filter_same [of fd t] source_of_None [of t fd]
    by (cases "fd \<in> rg_fd ` set t"; cases "x = fd") (simp_all add: ep_drop_def ep_deregister_def source_of_def)
next
  show "epoll_ok []" by (simp add: epoll_ok_def)
next
  fix t fd s p
  assume "epoll_ok t" "source_of t fd = None"
  then show "epoll_ok (ep_put fd s p t)" using source_of_None by (auto simp: ep_put_def ep_add_def epoll_ok_def)
next
  fix t fd
  assume "epoll_ok t"
  then show "epoll_ok (ep_drop fd t)"
    by (auto simp: ep_drop_def ep_deregister_def epoll_ok_def distinct_map inj_on_def)
qed

lemma ep_add_ok:
  "epoll_ok ep \<Longrightarrow> ep_add ctl fd s p ep =
     (if source_of ep fd \<noteq> None then (Some EEXIST, ep)
      else case ctl fd of Some e \<Rightarrow> (Some e, ep) | None \<Rightarrow> (None, ep_put fd s p ep))"
  using source_of_None [of ep fd] by (auto simp: ep_add_def ep_put_def split: option.splits)

lemma ep_deregister_ok:
  "epoll_ok ep \<Longrightarrow> ep_deregister ctl fd ep =
     (if source_of ep fd = None then (Some ENOENT, ep)
      else case ctl fd of Some e \<Rightarrow> (Some e, ep) | None \<Rightarrow> (None, ep_drop fd ep))"
  using source_of_None [of ep fd] by (auto simp: ep_deregister_def ep_drop_def split: option.splits)

section \<open>What wiring leaves in the table\<close>

definition as_in :: "nat \<times> event_source \<Rightarrow> nat \<times> event_source \<times> bool" where
  "as_in p = (fst p, snd p, False)"

abbreviation put_all :: "(nat \<times> event_source \<times> bool) list \<Rightarrow> epoll \<Rightarrow> epoll" where
  "put_all ps ep \<equiv> fold (\<lambda>(fd, s, p). ep_put fd s p) ps ep"

lemma register_until_result:
  assumes "epoll_ok ep" and "distinct (map fst ps)" and "\<forall>p \<in> set ps. source_of ep (fst p) = None"
    and "register_until ctl ps ep = (r, ep')"
  shows "(r = None \<longleftrightarrow> (\<forall>p \<in> set ps. ctl (fst p) = None)) \<and> (r = None \<longrightarrow> ep' = put_all (map as_in ps) ep)"
  using assms
proof (induction ps arbitrary: ep)
  case Nil
  then show ?case by simp
next
  case (Cons q ps)
  obtain fd s where q: "q = (fd, s)" by (cases q)
  have fresh: "source_of ep fd = None" using Cons.prems(3) by (simp add: q)
  show ?case
  proof (cases "ctl fd")
    case (Some e)
    then show ?thesis
      using Cons.prems(4) ep_add_ok [OF Cons.prems(1), of ctl fd s False] fresh by (auto simp: q ep_register_def)
  next
    case None
    have new: "\<forall>p \<in> set ps. source_of (ep_put fd s False ep) (fst p) = None"
      using Cons.prems(2,3) epoll_table.look_register [OF Cons.prems(1) fresh] by (force simp: q)
    have "register_until ctl ps (ep_put fd s False ep) = (r, ep')"
      using Cons.prems(4) ep_add_ok [OF Cons.prems(1), of ctl fd s False] fresh None by (simp add: q ep_register_def)
    from Cons.IH [OF epoll_table.ok_register [OF Cons.prems(1) fresh] _ new this]
    show ?thesis using Cons.prems(2) None by (auto simp: q as_in_def)
  qed
qed

lemma register_or_report_result:
  assumes "epoll_ok ep" and "distinct (map fst ps)" and "\<forall>p \<in> set ps. source_of ep (fst p) = None"
  shows "fold (register_or_report ctl) ps (errs, ep) =
    (errs @ map (the \<circ> ctl) (filter (\<lambda>fd. ctl fd \<noteq> None) (map fst ps)), put_all (filter (\<lambda>p. ctl (fst p) = None) ps) ep)"
  using assms
proof (induction ps arbitrary: errs ep)
  case Nil
  then show ?case by simp
next
  case (Cons q ps)
  obtain fd s p where q: "q = (fd, s, p)" by (cases q)
  have fresh: "source_of ep fd = None" using Cons.prems(3) by (simp add: q)
  note add = ep_add_ok [OF Cons.prems(1), of ctl fd s p]
  show ?case
  proof (cases "ctl fd")
    case (Some e)
    then show ?thesis using Cons.IH [of ep "errs @ [e]"] Cons.prems add fresh by (simp add: q register_or_report_def)
  next
    case None
    have new: "\<forall>r \<in> set ps. source_of (ep_put fd s p ep) (fst r) = None"
      using Cons.prems(2,3) epoll_table.look_register [OF Cons.prems(1) fresh] by (force simp: q)
    show ?thesis
      using Cons.IH [OF epoll_table.ok_register [OF Cons.prems(1) fresh] _ new] Cons.prems(2) add fresh None
      by (simp add: q register_or_report_def)
  qed
qed

definition descriptors :: "wiring \<Rightarrow> nat list" where
  "descriptors w = map fst (required w) @ map fst (optional w)"

lemma wire_table:
  assumes "wire ctl w [] = (Inr errs, ep)" and "distinct (descriptors w)"
  shows "epoll_ok ep \<and> errs = map (the \<circ> ctl) (filter (\<lambda>fd. ctl fd \<noteq> None) (map fst (optional w)))
    \<and> (\<forall>p \<in> set (required w). ctl (fst p) = None)
    \<and> ep = put_all (map as_in (required w) @ filter (\<lambda>p. ctl (fst p) = None) (optional w)) []"
proof -
  let ?req = "map as_in (required w)"
  obtain ep1 where ep1: "register_until ctl (required w) [] = (None, ep1)"
    "fold (register_or_report ctl) (optional w) ([], ep1) = (errs, ep)"
    using assms(1) by (auto simp: wire_def split: prod.splits option.splits)
  have dr: "distinct (map fst (required w))" "distinct (map fst (optional w))"
    "set (map fst (required w)) \<inter> set (map fst (optional w)) = {}"
    using assms(2) by (auto simp: descriptors_def)
  have r: "ep1 = put_all ?req []" "\<forall>p \<in> set (required w). ctl (fst p) = None"
    using register_until_result [OF epoll_table.ok_none dr(1) _ ep1(1)] epoll_table.look_none by auto
  have "distinct (map fst ?req)" using dr(1) by (simp add: as_in_def comp_def)
  then have t1: "epoll_ok ep1" "source_of ep1 x = (case map_of ?req x of None \<Rightarrow> None | Some (s, p) \<Rightarrow> Some s)" for x
    using epoll_table.look_registers [OF epoll_table.ok_none, of ?req] epoll_table.look_none by (simp_all add: r(1) split: option.splits)
  have "\<forall>p \<in> set (optional w). source_of ep1 (fst p) = None"
  proof
    fix p assume "p \<in> set (optional w)"
    then have "fst p \<notin> fst ` set ?req" using dr(3) by (auto simp: as_in_def image_image)
    then have "map_of ?req (fst p) = None" by (simp add: map_of_eq_None_iff)
    then show "source_of ep1 (fst p) = None" using t1(2) [of "fst p"] by simp
  qed
  note o = register_or_report_result [OF t1(1) dr(2) this, of ctl "[]"]
  have "distinct (map fst (filter (\<lambda>p. ctl (fst p) = None) (optional w)))" using dr(2) by (simp add: distinct_map_filter)
  then have "epoll_ok ep"
    using epoll_table.look_registers [OF t1(1)] \<open>\<forall>p \<in> set (optional w). source_of ep1 (fst p) = None\<close> o ep1(2) by auto
  then show ?thesis using o ep1(2) r by simp
qed

lemma wire_look:
  assumes "wire ctl w [] = (Inr errs, ep)" and "distinct (descriptors w)"
  shows "distinct (map fst (map as_in (required w) @ filter (\<lambda>p. ctl (fst p) = None) (optional w)))
    \<and> source_of ep x = (case map_of (map as_in (required w) @ filter (\<lambda>p. ctl (fst p) = None) (optional w)) x of
        None \<Rightarrow> None | Some (s, p) \<Rightarrow> Some s)"
proof -
  note t = wire_table [OF assms]
  let ?ps = "map as_in (required w) @ filter (\<lambda>p. ctl (fst p) = None) (optional w)"
  have d: "distinct (map fst ?ps)"
    using assms(2) by (auto simp: descriptors_def as_in_def comp_def distinct_map_filter)
  have ep: "ep = put_all ?ps []" using t by blast
  have "source_of ep x = (case map_of ?ps x of None \<Rightarrow> None | Some (s, p) \<Rightarrow> Some s)"
    using epoll_table.look_registers [OF epoll_table.ok_none d, of x] unfolding ep
    by (simp only: epoll_table.look_none simp_thms ball_simps(7) Ball_def)
  then show ?thesis using d by simp
qed

text \<open>Exactly what is registered, and as what.\<close>

lemma wire_sources:
  assumes "wire ctl w [] = (Inr errs, ep)" and "distinct (descriptors w)"
  shows "source_of ep x = Some s \<longleftrightarrow> (x, s) \<in> set (required w) \<or> (\<exists>p. (x, s, p) \<in> set (optional w) \<and> ctl x = None)"
proof -
  let ?ps = "map as_in (required w) @ filter (\<lambda>p. ctl (fst p) = None) (optional w)"
  note l = wire_look [OF assms, of x]
  have "source_of ep x = Some s \<longleftrightarrow> (\<exists>p. map_of ?ps x = Some (s, p))"
    using l by (auto split: option.splits)
  also have "\<dots> \<longleftrightarrow> (\<exists>p. (x, s, p) \<in> set ?ps)" using map_of_eq_Some_iff l by metis
  also have "\<dots> \<longleftrightarrow> (x, s) \<in> set (required w) \<or> (\<exists>p. (x, s, p) \<in> set (optional w) \<and> ctl x = None)"
    by (force simp: as_in_def)
  finally show ?thesis .
qed

lemma wait_sources:
  assumes "epoll_ok ep" and "set rs \<subseteq> set ep"
  shows "ep_wait (PollReady (map rg_token rs)) = Inr (map (\<lambda>r. the (source_of ep (rg_fd r))) rs)"
proof -
  have one: "from_token (rg_token r) = Some (the (source_of ep (rg_fd r)))" if "r \<in> set ep" for r
  proof -
    have "find (\<lambda>x. rg_fd x = rg_fd r) ep = Some r"
      using find_distinct [of rg_fd ep r] assms(1) that by (simp add: epoll_ok_def)
    moreover have "\<exists>s. rg_token r = token s" using assms(1) that by (simp add: epoll_ok_def)
    ultimately show ?thesis using from_token_token by (auto simp: source_of_def)
  qed
  then have "filter_map from_token (map rg_token rs) = map (\<lambda>r. the (source_of ep (rg_fd r))) rs"
    using assms(2) by (induction rs) auto
  then show ?thesis by (simp add: ep_wait_def)
qed

section \<open>Armed sockets are the registered ones\<close>

definition in_step :: "(32 word \<Rightarrow> nat) \<Rightarrow> bound list \<Rightarrow> epoll \<Rightarrow> bool" where
  "in_step fd_of bs ep \<longleftrightarrow> epoll_ok ep
     \<and> (\<forall>i. unat i < length bs \<longrightarrow> source_of ep (fd_of i) = (if sockets_armed bs i then Some (SocketReady i) else None))"

definition synced :: "ctl \<Rightarrow> (32 word \<Rightarrow> nat) \<Rightarrow> sup \<Rightarrow> nat \<Rightarrow> bound \<Rightarrow> bound" where
  "synced ctl fd_of s n b =
     (if want_armed s (bd_service b) = bd_armed b \<or> ctl (fd_of (of_nat n)) \<noteq> None then b
      else b\<lparr>bd_armed := want_armed s (bd_service b)\<rparr>)"

lemma armed_nth: "unat i < length bs \<Longrightarrow> sockets_armed bs i = bd_armed (bs ! unat i)"
  by (simp add: sockets_armed_def sockets_get_def)

lemma sync_one_step:
  assumes step: "in_step fd_of bs ep" and inj: "\<And>i j. fd_of i = fd_of j \<Longrightarrow> i = j"
    and i: "unat i < length bs" and service: "service = bd_service (bs ! unat i)"
    and run: "sync_one ctl fd_of s (i, service) (bs, ep) = (bs', ep')"
  shows "bs' = bs[unat i := synced ctl fd_of s (unat i) (bs ! unat i)] \<and> in_step fd_of bs' ep'
    \<and> (\<forall>x. x \<noteq> fd_of i \<longrightarrow> source_of ep' x = source_of ep x)"
proof -
  let ?b = "bs ! unat i"
  define want where "want = want_armed s (bd_service ?b)"
  have ok: "epoll_ok ep" and src: "source_of ep (fd_of i) = (if bd_armed ?b then Some (SocketReady i) else None)"
    using step i by (simp_all add: in_step_def armed_nth)
  have word_back: "of_nat (unat i) = i" by simp
  show ?thesis
  proof (cases "want = bd_armed ?b \<or> ctl (fd_of i) \<noteq> None")
    case True
    then have "bs' = bs \<and> ep' = ep"
      using run i src ep_add_ok [OF ok, of ctl "fd_of i" "SocketReady i" False] ep_deregister_ok [OF ok, of ctl "fd_of i"]
      by (auto simp: sync_one_def service want_def [symmetric] armed_nth sockets_get_def ep_register_def Let_def
          split: option.splits if_splits)
    then show ?thesis using True step by (simp add: synced_def want_def)
  next
    case False
    then have c: "ctl (fd_of i) = None" "want \<noteq> bd_armed ?b" by auto
    let ?bs = "bs[unat i := ?b\<lparr>bd_armed := want\<rparr>]" and ?ep = "if want then ep_put (fd_of i) (SocketReady i) False ep else ep_drop (fd_of i) ep"
    have r: "bs' = ?bs" "ep' = ?ep"
      using run i src c ep_add_ok [OF ok, of ctl "fd_of i" "SocketReady i" False] ep_deregister_ok [OF ok, of ctl "fd_of i"]
      by (auto simp: sync_one_def service want_def [symmetric] armed_nth sockets_get_def ep_register_def
          sockets_set_armed_def Let_def split: if_splits)
    have look: "source_of ?ep x = (if x = fd_of i then (if want then Some (SocketReady i) else None) else source_of ep x)" for x
      using epoll_table.look_register [OF ok, of "fd_of i" "SocketReady i" False x] epoll_table.look_deregister [OF ok, of "fd_of i" x]
        src c(2) by (cases want) simp_all
    have "epoll_ok ?ep"
      using epoll_table.ok_register [OF ok, of "fd_of i" "SocketReady i" False] epoll_table.ok_deregister [OF ok, of "fd_of i"]
        src c(2) by simp
    moreover have "sockets_armed ?bs j = (if i = j then want else sockets_armed bs j)" if "unat j < length bs" for j
      using sockets_set_armed_get [of i want bs j] i by (simp add: sockets_set_armed_def sockets_get_def)
    ultimately have "in_step fd_of ?bs ?ep"
      using step look inj by (auto simp: in_step_def)
    moreover have "?bs = bs[unat i := synced ctl fd_of s (unat i) ?b]" using c by (simp add: synced_def want_def word_back)
    ultimately show ?thesis using r look by auto
  qed
qed

lemma unat_of_nat32: "n < 2 ^ 32 \<Longrightarrow> unat (of_nat n :: 32 word) = n"
proof -
  assume "n < 2 ^ 32"
  then have "n < 2 ^ LENGTH(32)" by simp
  then show ?thesis by (simp only: unsigned_of_nat take_bit_nat_eq_self of_nat_id)
qed

lemma sync_upto:
  assumes "in_step fd_of bs ep" and "\<And>i j. fd_of i = fd_of j \<Longrightarrow> i = j" and "length bs \<le> 2 ^ LENGTH(32)"
    and "m \<le> length bs"
  shows "\<exists>ep'. fold (sync_one ctl fd_of s) (map (\<lambda>n. (of_nat n, bd_service (bs ! n))) [0..<m]) (bs, ep) =
      (map (\<lambda>n. if n < m then synced ctl fd_of s n (bs ! n) else bs ! n) [0..<length bs], ep')
    \<and> in_step fd_of (map (\<lambda>n. if n < m then synced ctl fd_of s n (bs ! n) else bs ! n) [0..<length bs]) ep'
    \<and> (\<forall>x. x \<notin> range fd_of \<longrightarrow> source_of ep' x = source_of ep x)"
  using assms(4)
proof (induction m)
  case 0
  have "map (\<lambda>n. if n < 0 then synced ctl fd_of s n (bs ! n) else bs ! n) [0..<length bs] = bs" by (simp add: map_nth)
  then show ?case using assms(1) by simp
next
  case (Suc m)
  let ?f = "\<lambda>m. map (\<lambda>n. if n < m then synced ctl fd_of s n (bs ! n) else bs ! n) [0..<length bs]"
  obtain ep1 where IH: "fold (sync_one ctl fd_of s) (map (\<lambda>n. (of_nat n, bd_service (bs ! n))) [0..<m]) (bs, ep) = (?f m, ep1)"
    "in_step fd_of (?f m) ep1" "\<forall>x. x \<notin> range fd_of \<longrightarrow> source_of ep1 x = source_of ep x" using Suc by auto
  let ?i = "of_nat m :: 32 word"
  have u: "unat ?i = m" using Suc.prems assms(3) by (intro unat_of_nat32) simp
  have at: "?f m ! m = bs ! m" "unat ?i < length (?f m)" using Suc.prems u by simp_all
  obtain bs' ep2 where s: "sync_one ctl fd_of s (?i, bd_service (bs ! m)) (?f m, ep1) = (bs', ep2)" by fastforce
  have "bd_service (bs ! m) = bd_service (?f m ! unat ?i)" using at u by simp
  from sync_one_step [OF IH(2) assms(2) at(2) this s] have
    r: "bs' = (?f m)[m := synced ctl fd_of s m (bs ! m)]" "in_step fd_of bs' ep2"
      "\<forall>x. x \<noteq> fd_of ?i \<longrightarrow> source_of ep2 x = source_of ep1 x" using u at by auto
  have "(?f m)[m := synced ctl fd_of s m (bs ! m)] = ?f (Suc m)"
    using Suc.prems by (intro nth_equalityI) (auto simp: nth_list_update)
  moreover have "source_of ep2 x = source_of ep x" if "x \<notin> range fd_of" for x
    using that IH(3) r(3) by (metis rangeI)
  ultimately show ?case using IH(1,2) r(1,2) s by (intro exI [of _ ep2]) simp
qed

lemma sync_table_result:
  assumes "in_step fd_of (s_sockets s) ep" and "\<And>i j. fd_of i = fd_of j \<Longrightarrow> i = j"
    and "length (s_sockets s) \<le> 2 ^ 32" and "sync_table ctl fd_of s ep = (bs, ep')"
  shows "bs = map (\<lambda>n. synced ctl fd_of s n (s_sockets s ! n)) [0..<length (s_sockets s)] \<and> in_step fd_of bs ep'
    \<and> (\<forall>x. x \<notin> range fd_of \<longrightarrow> source_of ep' x = source_of ep x)"
proof -
  let ?L = "s_sockets s"
  have len: "length ?L \<le> 2 ^ LENGTH(32)" using assms(3) by simp
  have "\<forall>(n, b) \<in> set (zip [0..<length ?L] ?L). n < 2 ^ 32" using assms(3) by (auto simp: set_zip)
  then have "filter (\<lambda>(n, b). n < 2 ^ 32) (zip [0..<length ?L] ?L) = zip [0..<length ?L] ?L"
    by (simp add: filter_id_conv case_prod_beta)
  then have ids: "sockets_ids ?L = map (\<lambda>n. (of_nat n, bd_service (?L ! n))) [0..<length ?L]"
    unfolding sockets_ids_def by (intro nth_equalityI) (simp_all add: case_prod_beta)
  have "map (\<lambda>n. if n < length ?L then synced ctl fd_of s n (?L ! n) else ?L ! n) [0..<length ?L]
      = map (\<lambda>n. synced ctl fd_of s n (?L ! n)) [0..<length ?L]"
    by (intro nth_equalityI) simp_all
  then show ?thesis
    using sync_upto [OF assms(1,2) len, of "length ?L" ctl s] assms(4) by (auto simp: sync_table_def ids)
qed

section \<open>Properties\<close>

text \<open>The loop hears every source it was wired to, and under its own name.  When wiring succeeds
  on distinct descriptors, the signals, both timers and the readiness socket are registered;
  the control socket, the log socket and every cgroup are registered exactly when the kernel
  allows it, each refusal being reported; and waiting turns the descriptors that are ready
  into exactly the sources they stand for.\<close>

theorem loop_hears_every_source:
  assumes "wire ctl w [] = (Inr errs, ep)" and "distinct (descriptors w)"
  shows "(\<forall>(fd, s) \<in> set (required w). source_of ep fd = Some s)
    \<and> (\<forall>(fd, s, p) \<in> set (optional w). source_of ep fd = (if ctl fd = None then Some s else None))
    \<and> errs = map (the \<circ> ctl) (filter (\<lambda>fd. ctl fd \<noteq> None) (map fst (optional w)))
    \<and> ep_wait (PollReady (map rg_token (filter (\<lambda>r. rg_fd r \<in> ready) ep))) =
        Inr (map (\<lambda>r. the (source_of ep (rg_fd r))) (filter (\<lambda>r. rg_fd r \<in> ready) ep))"
proof -
  note t = wire_table [OF assms]
  let ?ps = "map as_in (required w) @ filter (\<lambda>p. ctl (fst p) = None) (optional w)"
  note d = conjunct1 [OF wire_look [OF assms]] and look = conjunct2 [OF wire_look [OF assms]]
  have req: "source_of ep fd = Some s" if "(fd, s) \<in> set (required w)" for fd s
  proof -
    have "(fd, s, False) \<in> set ?ps" using that by (force simp: as_in_def)
    then show ?thesis using look map_of_is_SomeI [OF d] by simp
  qed
  have opt: "source_of ep fd = (if ctl fd = None then Some s else None)" if "(fd, s, p) \<in> set (optional w)" for fd s p
  proof (cases "ctl fd")
    case None
    then have "(fd, s, p) \<in> set ?ps" using that by simp
    then show ?thesis using look map_of_is_SomeI [OF d] None by simp
  next
    case (Some e)
    have "fst ` set (required w) \<inter> fst ` set (optional w) = {}" using assms(2) by (auto simp: descriptors_def)
    moreover have "fd \<in> fst ` set (optional w)" using that by force
    ultimately have n: "fd \<notin> fst ` set (required w)" by blast
    have "fst ` set ?ps \<subseteq> fst ` set (required w) \<union> {x. ctl x = None}" by (force simp: as_in_def)
    moreover have "fd \<notin> {x. ctl x = None}" using Some by simp
    ultimately have "fd \<notin> fst ` set ?ps" using n by blast
    then have "map_of ?ps fd = None" by (simp only: map_of_eq_None_iff not_False_eq_True)
    then show ?thesis unfolding look by (simp add: Some map_add_def)
  qed
  have "set (filter (\<lambda>r. rg_fd r \<in> ready) ep) \<subseteq> set ep" by auto
  then show ?thesis using req opt t wait_sources [of ep] by auto
qed

definition sample_wiring :: wiring where
  "sample_wiring = \<lparr>wr_signals = 3, wr_mono = 4, wr_wall = 5, wr_notify = 7, wr_control = Some 8, wr_log = Some 9,
     wr_cgroups = [(0, 10)]\<rparr>"

theorem loop_hears_every_source_witness:
  "source_of (snd (wire (\<lambda>fd. if fd = 9 then Some EPERM else None) sample_wiring [])) 10 = Some (CgroupEvent 0)
   \<and> source_of (snd (wire (\<lambda>fd. if fd = 9 then Some EPERM else None) sample_wiring [])) 9 = None"
proof -
  let ?ctl = "\<lambda>fd. if fd = 9 then Some EPERM else None"
  obtain errs ep where w: "wire ?ctl sample_wiring [] = (Inr errs, ep)"
    by (simp add: wire_def sample_wiring_def required_def optional_def register_or_report_def ep_register_def ep_add_def)
  have d: "distinct (descriptors sample_wiring)"
    by (simp add: descriptors_def sample_wiring_def required_def optional_def)
  show ?thesis
    using loop_hears_every_source [OF w d, of "{}"] w by (auto simp: sample_wiring_def optional_def)
qed

text \<open>C32.  What the manager believes about its sockets is what epoll has.  If the armed ones are the
  registered ones, they still are after a reconciliation, whatever the kernel refuses; the
  reconciliation on the real table is the one of the supervisor's model; and it touches no
  other registration.\<close>

theorem sockets_stay_in_step:
  assumes "in_step fd_of (s_sockets s) ep" and "\<And>i j. fd_of i = fd_of j \<Longrightarrow> i = j"
    and "length (s_sockets s) \<le> 2 ^ 32" and "sync_table ctl fd_of s ep = (bs, ep')"
    and "\<And>n. e_epoll env n = (ctl (fd_of (of_nat n)) = None)"
  shows "bs = s_sockets (sync_sockets env s) \<and> in_step fd_of bs ep'
    \<and> (\<forall>x. x \<notin> range fd_of \<longrightarrow> source_of ep' x = source_of ep x)"
proof -
  let ?L = "s_sockets s"
  have e: "s_sockets (sync_sockets env s) = map (\<lambda>n. synced ctl fd_of s n (?L ! n)) [0..<length ?L]"
    by (intro nth_equalityI) (auto simp: sync_sockets_def synced_def assms(5))
  show ?thesis unfolding e by (rule sync_table_result [OF assms(1-4)])
qed

definition sample_listening :: sup where
  "sample_listening = (sample_sup (inst_new (sample_unit Simple Always)))
     \<lparr>s_sockets := [\<lparr>bd_unit = ''s'', bd_service = ''s'', bd_address = UnixPath ''/s'', bd_armed = False\<rparr>]\<rparr>"

theorem sockets_stay_in_step_witness:
  "source_of (snd (sync_table (\<lambda>_. None) (\<lambda>i. 20 + unat i) sample_listening [])) 20 = Some (SocketReady 0)"
proof -
  let ?s = sample_listening and ?f = "\<lambda>i :: 32 word. 20 + unat i" and ?c = "\<lambda>_. None :: errno option"
  have i: "in_step ?f (s_sockets ?s) []"
    by (simp add: in_step_def epoll_ok_def sample_listening_def sample_sup_def sockets_armed_def sockets_get_def
        epoll_table.look_none)
  have inj: "\<And>i j. ?f i = ?f j \<Longrightarrow> i = j" using word_unat_eq_iff by force
  have len: "length (s_sockets ?s) \<le> 2 ^ 32" by (simp add: sample_listening_def)
  have e: "\<And>n. e_epoll sample_env n = (?c (?f (of_nat n)) = None)" by (simp add: sample_env_def)
  have w: "want_armed ?s ''s''"
    by (simp add: want_armed_def get_inst_def sample_listening_def sample_sup_def inst_new_def is_idle_def)
  have b: "s_sockets (sync_sockets sample_env ?s)
      = [\<lparr>bd_unit = ''s'', bd_service = ''s'', bd_address = UnixPath ''/s'', bd_armed = True\<rparr>]"
    using w by (simp add: sync_sockets_def sample_listening_def sample_env_def)
  obtain bs ep where t: "sync_table ?c ?f ?s [] = (bs, ep)" by fastforce
  from sockets_stay_in_step [OF i inj len t e]
  have st: "bs = s_sockets (sync_sockets sample_env ?s)" "in_step ?f bs ep" by blast+
  have "in_step ?f [\<lparr>bd_unit = ''s'', bd_service = ''s'', bd_address = UnixPath ''/s'', bd_armed = True\<rparr>] ep"
    using st(2) unfolding st(1) b .
  then show ?thesis unfolding t in_step_def by (auto simp: sockets_armed_def sockets_get_def dest: spec [of _ 0])
qed

end
