(* ===== verification/CgroupTable.thy ===== *)
theory CgroupTable
  imports Errors NotifyMsg EventLoop SupervisorSamples
begin

text \<open>
  The cgroups the manager holds open: \<open>Cgroups\<close> of \<open>crates/oxinit/src/cgroup.rs\<close>, over the
  file operations of \<open>CgroupFs\<close>.  \<open>opens\<close> is what the kernel answers to opening a path.  The
  supervisor's model keeps the units only; the last section relates the two, and the table to
  the registrations of \<open>EventLoop\<close>.
\<close>

section \<open>The table\<close>

record table_entry =
  hn_unit :: string
  hn_cgroup :: string
  hn_events :: nat

record ctable =
  tb_slice :: "string option"
  tb_handles :: "table_entry list"

text \<open>\<open>open\<close>, always with close-on-exec, and its two callers.\<close>

definition open_file :: "(string \<Rightarrow> errno + nat) \<Rightarrow> string \<Rightarrow> init_error + nat" where
  "open_file opens path = (case opens path of Inl e \<Rightarrow> Inl (IE_Open path e) | Inr fd \<Rightarrow> Inr fd)"

definition open_read :: "(string \<Rightarrow> errno + nat) \<Rightarrow> string \<Rightarrow> init_error + nat" where
  "open_read opens path = open_file opens path"

definition open_procs :: "(string \<Rightarrow> errno + nat) \<Rightarrow> string \<Rightarrow> init_error + nat" where
  "open_procs opens cgroup = open_file opens (procs_path cgroup)"

text \<open>\<open>Cgroups::open\<close>; the line it prints is the text of \<open>/proc/self/cgroup\<close>, when there is one.\<close>

definition cgroups_open ::
    "kernel \<Rightarrow> string \<Rightarrow> nat \<Rightarrow> string option \<Rightarrow> fs_op list \<Rightarrow> (cgroup_error + ctable \<times> string list) \<times> fs_op list" where
  "cgroups_open k root pid placement h =
     (case hierarchy_new k root pid h of
        (Inl e, h1) \<Rightarrow> (Inl e, h1)
      | (Inr sl, h1) \<Rightarrow>
          (Inr (\<lparr>tb_slice = Some sl, tb_handles = []\<rparr>,
                case placement of
                  None \<Rightarrow> []
                | Some text \<Rightarrow> [''oxinit: pid '' @ show_nat pid @ '' is in '' @ trim text]), h1))"

definition cgroups_unavailable :: ctable where
  "cgroups_unavailable = \<lparr>tb_slice = None, tb_handles = []\<rparr>"

definition ctable_add ::
    "kernel \<Rightarrow> (string \<Rightarrow> errno + nat) \<Rightarrow> string \<Rightarrow> string \<Rightarrow> ctable \<Rightarrow> fs_op list
     \<Rightarrow> (init_error + unit) \<times> ctable \<times> fs_op list" where
  "ctable_add k opens u full t h =
     (case tb_slice t of
        None \<Rightarrow> (Inr (), t, h)
      | Some sl \<Rightarrow>
          let cgroup = cgroup_path sl full in
          (case cg_create_dir k cgroup h of
             (Inl e, h1) \<Rightarrow> (Inl (IE_Cgroup e), t, h1)
           | (Inr _, h1) \<Rightarrow>
               (case open_read opens (events_path cgroup) of
                  Inl e \<Rightarrow> (Inl e, t, h1)
                | Inr fd \<Rightarrow>
                    (Inr (), t\<lparr>tb_handles := tb_handles t @ [\<lparr>hn_unit = u, hn_cgroup = cgroup, hn_events = fd\<rparr>]\<rparr>, h1))))"

text \<open>The index is the id, as far as it fits 32 bits.\<close>

definition ctable_events :: "ctable \<Rightarrow> (32 word \<times> nat) list" where
  "ctable_events t =
     map (\<lambda>(n, hn). (of_nat n, hn_events hn))
       (filter (\<lambda>(n, hn). n < 2 ^ 32) (zip [0..<length (tb_handles t)] (tb_handles t)))"

definition ctable_handle :: "ctable \<Rightarrow> 32 word \<Rightarrow> table_entry option" where
  "ctable_handle t i = (if unat i < length (tb_handles t) then Some (tb_handles t ! unat i) else None)"

definition ctable_unit :: "ctable \<Rightarrow> 32 word \<Rightarrow> string option" where
  "ctable_unit t i = map_option hn_unit (ctable_handle t i)"

definition ctable_get :: "ctable \<Rightarrow> string \<Rightarrow> string option" where
  "ctable_get t u = map_option hn_cgroup (find (\<lambda>hn. hn_unit hn = u) (tb_handles t))"

text \<open>\<open>populated\<close>: \<open>pread\<close> answers with what the file holds, of which 256 bytes fit the buffer.\<close>

definition EVENTS_BUFFER :: nat where "EVENTS_BUFFER = 256"

definition ctable_populated :: "(nat \<Rightarrow> string option) \<Rightarrow> ctable \<Rightarrow> 32 word \<Rightarrow> bool option" where
  "ctable_populated pread t i =
     (case ctable_handle t i of
        None \<Rightarrow> None
      | Some hn \<Rightarrow>
          (case pread (hn_events hn) of
             None \<Rightarrow> None
           | Some body \<Rightarrow>
               let text = take EVENTS_BUFFER body in
               if utf8_chars text = None then None else parse_populated text))"

section \<open>The supervisor's view\<close>

definition abs_table :: "ctable \<Rightarrow> cgroups" where
  "abs_table t = \<lparr>cg_hierarchy = tb_slice t \<noteq> None, cg_handles = map hn_unit (tb_handles t)\<rparr>"

definition table_ok :: "ctable \<Rightarrow> bool" where
  "table_ok t \<longleftrightarrow> length (tb_handles t) \<le> 2 ^ 32 \<and> distinct (map hn_events (tb_handles t))"

lemma abs_unavailable: "abs_table cgroups_unavailable = \<lparr>cg_hierarchy = False, cg_handles = []\<rparr>"
  by (simp add: abs_table_def cgroups_unavailable_def)

lemma open_file_result: "open_file opens path = Inr fd \<longleftrightarrow> opens path = Inr fd"
  by (simp add: open_file_def split: sum.splits)

lemma add_result:
  assumes "ctable_add k opens u full t h = (res, t', h')"
  shows "(t' = t \<and> (isl res \<or> tb_slice t = None))
    \<or> (\<exists>sl fd. tb_slice t = Some sl \<and> res = Inr () \<and> opens (events_path (cgroup_path sl full)) = Inr fd
        \<and> t' = t\<lparr>tb_handles := tb_handles t @ [\<lparr>hn_unit = u, hn_cgroup = cgroup_path sl full, hn_events = fd\<rparr>]\<rparr>)"
  using assms
  by (auto simp: ctable_add_def open_read_def open_file_result Let_def split: option.splits prod.splits sum.splits)

lemma events_all: "table_ok t \<Longrightarrow> ctable_events t = map (\<lambda>n. (of_nat n, hn_events (tb_handles t ! n))) [0..<length (tb_handles t)]"
proof -
  assume ok: "table_ok t"
  let ?L = "tb_handles t"
  have "\<forall>(n, b) \<in> set (zip [0..<length ?L] ?L). n < 2 ^ 32" using ok by (auto simp: set_zip table_ok_def)
  then have "filter (\<lambda>(n, hn). n < 2 ^ 32) (zip [0..<length ?L] ?L) = zip [0..<length ?L] ?L"
    by (simp add: filter_id_conv case_prod_beta)
  then show ?thesis unfolding ctable_events_def by (intro nth_equalityI) (simp_all add: case_prod_beta)
qed

lemma unit_at:
  assumes "table_ok t" and "n < length (tb_handles t)"
  shows "ctable_unit t (of_nat n) = Some (hn_unit (tb_handles t ! n))"
proof -
  have "unat (of_nat n :: 32 word) = n" using assms by (intro unat_of_nat32) (simp add: table_ok_def)
  then show ?thesis using assms by (simp add: ctable_unit_def ctable_handle_def)
qed

lemma cgroup_event_at:
  assumes "wire ctl w [] = (Inr errs, ep)" and "distinct (descriptors w)"
    and "wr_cgroups w = ctable_events t" and "table_ok t"
  shows "source_of ep fd = Some (CgroupEvent i) \<longleftrightarrow>
      (\<exists>n hn. n < length (tb_handles t) \<and> i = of_nat n \<and> hn = tb_handles t ! n \<and> fd = hn_events hn \<and> ctl fd = None
        \<and> ctable_unit t i = Some (hn_unit hn))"
proof -
  have "source_of ep fd = Some (CgroupEvent i) \<longleftrightarrow> (i, fd) \<in> set (ctable_events t) \<and> ctl fd = None"
    unfolding wire_sources [OF assms(1,2)] assms(3) [symmetric]
    by (auto simp: required_def optional_def split: option.splits)
  also have "\<dots> \<longleftrightarrow> (\<exists>n hn. n < length (tb_handles t) \<and> i = of_nat n \<and> hn = tb_handles t ! n \<and> fd = hn_events hn \<and> ctl fd = None
        \<and> ctable_unit t i = Some (hn_unit hn))"
    using unit_at [OF assms(4)] by (auto simp: events_all [OF assms(4)])
  finally show ?thesis .
qed

section \<open>A reload on the real table\<close>

text \<open>The first pass of \<open>reload\<close>, with everything it runs beside: the descriptors held on
  cgroups, the files the kernel was asked for, and the loop's registrations.  A service that is
  taken in has its cgroup added; a failure is only reported.  Nothing is given to epoll.\<close>

definition service_cgroup ::
    "kernel \<Rightarrow> (string \<Rightarrow> errno + nat) \<Rightarrow> string \<times> oxunit \<Rightarrow> ctable \<times> fs_op list \<Rightarrow> bool \<times> ctable \<times> fs_op list" where
  "service_cgroup k opens nu th =
     (case (nu, th) of ((name, u), (t, h)) \<Rightarrow>
        (case u_kind u of
           Service _ \<Rightarrow>
             (case ctable_add k opens name (full_name u) t h of
                (Inl _, t1, h1) \<Rightarrow> (False, t1, h1)
              | (Inr _, t1, h1) \<Rightarrow> (True, t1, h1))
         | _ \<Rightarrow> (True, t, h)))"

definition takes_in :: "sup \<Rightarrow> string \<times> oxunit \<Rightarrow> bool" where
  "takes_in s nu =
     (case get_inst s (fst nu) of None \<Rightarrow> True | Some i \<Rightarrow> in_unit i \<noteq> snd nu \<and> is_idle (in_state i))"

type_synonym machine = "(sup \<times> string list \<times> string list) \<times> (ctable \<times> fs_op list) \<times> epoll"

definition machine_reload_one ::
    "env \<Rightarrow> kernel \<Rightarrow> (string \<Rightarrow> errno + nat) \<Rightarrow> string \<times> oxunit \<Rightarrow> machine \<Rightarrow> machine" where
  "machine_reload_one env k opens nu m =
     (case m of (st, th, ep) \<Rightarrow>
        if takes_in (fst st) nu
        then (case service_cgroup k opens nu th of
                (added, th1) \<Rightarrow> (reload_one (env\<lparr>e_cgroup_add := (\<lambda>_. added)\<rparr>) nu st, th1, ep))
        else (reload_one env nu st, th, ep))"

definition machine_reload ::
    "env \<Rightarrow> kernel \<Rightarrow> (string \<Rightarrow> errno + nat) \<Rightarrow> loaded \<Rightarrow> sup \<Rightarrow> ctable \<times> fs_op list \<Rightarrow> epoll \<Rightarrow> machine" where
  "machine_reload env k opens l s th ep =
     (if l_errors l \<noteq> [] then ((s, [], []), th, ep)
      else fold (machine_reload_one env k opens) (l_units l) ((s, [], []), th, ep))"

text \<open>One table continues another: the handles there were are its first ones.\<close>

definition continues :: "ctable \<Rightarrow> ctable \<Rightarrow> bool" where
  "continues t t' \<longleftrightarrow> take (length (tb_handles t)) (tb_handles t') = tb_handles t
     \<and> length (tb_handles t) \<le> length (tb_handles t')"

lemma continues_refl: "continues t t"
  by (simp add: continues_def)

lemma continues_trans: "continues a b \<Longrightarrow> continues b c \<Longrightarrow> continues a c"
  unfolding continues_def by (metis le_trans min.absorb1 take_take)

lemma continues_at: "continues t t' \<Longrightarrow> n < length (tb_handles t) \<Longrightarrow> tb_handles t' ! n = tb_handles t ! n"
  unfolding continues_def by (metis nth_take)

lemma continues_ok: "continues t t' \<Longrightarrow> table_ok t' \<Longrightarrow> table_ok t"
  unfolding continues_def table_ok_def by (metis distinct_take le_trans take_map)

lemma service_cgroup_result:
  assumes "service_cgroup k opens (name, u) (t, h) = (added, t', h')"
  shows "continues t t'
    \<and> (case u_kind u of Service _ \<Rightarrow> abs_table t' = cgroups_add (env\<lparr>e_cgroup_add := (\<lambda>_. added)\<rparr>) name (abs_table t)
        | _ \<Rightarrow> t' = t)"
proof (cases "u_kind u")
  case (Service sv)
  obtain res where a: "ctable_add k opens name (full_name u) t h = (res, t', h')" and r: "added = (\<not> isl res)"
    using assms Service by (auto simp: service_cgroup_def split: prod.splits sum.splits)
  show ?thesis
    using add_result [OF a] r Service by (auto simp: abs_table_def cgroups_add_def continues_def)
qed (use assms in \<open>auto simp: service_cgroup_def continues_refl\<close>)

lemma machine_reload_one_result:
  assumes "machine_reload_one env k opens nu (st, (t, h), ep) = (st', (t', h'), ep')" and "s_cgroups (fst st) = abs_table t"
  shows "continues t t' \<and> s_cgroups (fst st') = abs_table t' \<and> ep' = ep"
proof -
  obtain name u where nu: "nu = (name, u)" by (cases nu)
  obtain s changed skipped where st: "st = (s, changed, skipped)" by (cases st) auto
  show ?thesis
  proof (cases "takes_in s nu")
    case False
    have "s_cgroups (fst (reload_one env nu st)) = s_cgroups s"
      using False by (auto simp: takes_in_def nu st reload_one_def split: option.splits)
    then show ?thesis using assms False by (simp add: machine_reload_one_def st continues_refl)
  next
    case True
    obtain added where c: "service_cgroup k opens (name, u) (t, h) = (added, t', h')"
      and r: "st' = reload_one (env\<lparr>e_cgroup_add := (\<lambda>_. added)\<rparr>) nu st" "ep' = ep"
      using assms(1) True by (auto simp: machine_reload_one_def st nu split: prod.splits)
    have "s_cgroups (fst st') = (case u_kind u of
        Service _ \<Rightarrow> cgroups_add (env\<lparr>e_cgroup_add := (\<lambda>_. added)\<rparr>) name (s_cgroups s) | _ \<Rightarrow> s_cgroups s)"
      using True unfolding r takes_in_def by (auto simp: nu st reload_one_def Let_def split: option.splits)
    then show ?thesis
      using service_cgroup_result [OF c, of env] assms(2) r(2) by (auto simp: st split: kind.splits)
  qed
qed

lemma machine_reload_result:
  assumes "machine_reload env k opens l s (t, h) ep = (st', (t', h'), ep')" and "s_cgroups s = abs_table t"
  shows "continues t t' \<and> s_cgroups (fst st') = abs_table t' \<and> ep' = ep"
proof -
  have "continues t t' \<and> s_cgroups (fst st') = abs_table t' \<and> ep' = ep"
    if "fold (machine_reload_one env k opens) us (st, (t, h), ep) = (st', (t', h'), ep')" "s_cgroups (fst st) = abs_table t"
    for us st t h ep
    using that
  proof (induction us arbitrary: st t h ep)
    case Nil
    then show ?case by (simp add: continues_refl)
  next
    case (Cons nu us)
    obtain st1 t1 h1 ep1 where one: "machine_reload_one env k opens nu (st, (t, h), ep) = (st1, (t1, h1), ep1)"
      by (metis surj_pair)
    note o = machine_reload_one_result [OF one Cons.prems(2)]
    have "fold (machine_reload_one env k opens) us (st1, (t1, h1), ep1) = (st', (t', h'), ep')"
      using Cons.prems(1) one by simp
    from Cons.IH [OF this] o show ?case using continues_trans by blast
  qed
  from this [of "l_units l" "(s, [], [])" t h ep] assms show ?thesis
    by (cases "l_errors l = []") (auto simp: machine_reload_def continues_refl)
qed

text \<open>Nor does the reconciliation that follows every event hear a cgroup: it registers sockets.\<close>

lemma sync_one_hears_no_cgroup:
  assumes "epoll_ok ep" and "sync_one ctl fd_of q p (bs, ep) = (bs', ep')"
  shows "epoll_ok ep' \<and> (source_of ep' x = Some (CgroupEvent i) \<longrightarrow> source_of ep x = Some (CgroupEvent i))"
proof -
  obtain j service where p: "p = (j, service)" by (cases p)
  have e: "ep' = ep \<or> ep' = snd (ep_add ctl (fd_of j) (SocketReady j) False ep) \<or> ep' = snd (ep_deregister ctl (fd_of j) ep)"
    using assms(2) by (simp add: sync_one_def p Let_def ep_register_def split: if_splits option.splits prod.splits)
  have "snd (ep_add ctl (fd_of j) (SocketReady j) False ep) \<in> {ep}
      \<or> source_of ep (fd_of j) = None \<and> snd (ep_add ctl (fd_of j) (SocketReady j) False ep) = ep_put (fd_of j) (SocketReady j) False ep"
    unfolding ep_add_ok [OF assms(1)] by (simp split: option.split)
  moreover have "snd (ep_deregister ctl (fd_of j) ep) \<in> {ep, ep_drop (fd_of j) ep}"
    unfolding ep_deregister_ok [OF assms(1)] by (simp split: option.split)
  ultimately consider "ep' = ep" | "source_of ep (fd_of j) = None" "ep' = ep_put (fd_of j) (SocketReady j) False ep"
    | "ep' = ep_drop (fd_of j) ep"
    using e by fastforce
  then show ?thesis
  proof cases
    case 2
    then show ?thesis
      using epoll_table.ok_register [OF assms(1) 2(1)] epoll_table.look_register [OF assms(1) 2(1)] by simp
  next
    case 3
    then show ?thesis
      using epoll_table.ok_deregister [OF assms(1)] epoll_table.look_deregister [OF assms(1)] by simp
  qed (use assms(1) in simp)
qed

lemma sync_hears_no_cgroup:
  assumes "epoll_ok ep" and "source_of (snd (sync_table ctl fd_of q ep)) x = Some (CgroupEvent i)"
  shows "source_of ep x = Some (CgroupEvent i)"
proof -
  have "source_of ep x = Some (CgroupEvent i)"
    if "epoll_ok ep" "source_of (snd (fold (sync_one ctl fd_of q) ps (bs, ep))) x = Some (CgroupEvent i)" for ps bs ep
    using that
  proof (induction ps arbitrary: bs ep)
    case (Cons p ps)
    obtain bs1 ep1 where "sync_one ctl fd_of q p (bs, ep) = (bs1, ep1)" by fastforce
    with sync_one_hears_no_cgroup [OF Cons.prems(1) this] Cons.IH [of ep1 bs1] Cons.prems(2) show ?case by simp
  qed simp
  from this [OF assms(1)] assms(2) show ?thesis by (simp add: sync_table_def)
qed

section \<open>Properties\<close>

text \<open>Adding a unit's cgroup is the supervisor's \<open>cgroups_add\<close> on what the supervisor sees, for
  every kernel and every answer; the handles there were keep their number, so the ids handed
  to epoll stay those of the same units; and without a hierarchy nothing is touched at all.\<close>

theorem adding_refines_the_supervisor:
  assumes "ctable_add k opens u full t h = (res, t', h')"
  shows "abs_table t' = cgroups_add (env\<lparr>e_cgroup_add := (\<lambda>_. \<not> isl res)\<rparr>) u (abs_table t)
    \<and> (\<forall>i v. ctable_unit t i = Some v \<longrightarrow> ctable_unit t' i = Some v)
    \<and> (tb_slice t = None \<longrightarrow> h' = h \<and> res = Inr ())
    \<and> (\<forall>sl. tb_slice t = Some sl \<longrightarrow> h' = h @ [MakeDir (cgroup_path sl full)])"
proof -
  have "abs_table t' = cgroups_add (env\<lparr>e_cgroup_add := (\<lambda>_. \<not> isl res)\<rparr>) u (abs_table t)"
    using add_result [OF assms] by (auto simp: abs_table_def cgroups_add_def)
  moreover have "\<forall>i v. ctable_unit t i = Some v \<longrightarrow> ctable_unit t' i = Some v"
    using add_result [OF assms] by (auto simp: ctable_unit_def ctable_handle_def nth_append)
  moreover have "tb_slice t = None \<longrightarrow> h' = h \<and> res = Inr ()" using assms by (auto simp: ctable_add_def)
  moreover have "\<forall>sl. tb_slice t = Some sl \<longrightarrow> h' = h @ [MakeDir (cgroup_path sl full)]"
    using assms by (auto simp: ctable_add_def cg_create_dir_def Let_def split: made.splits sum.splits prod.splits)
  ultimately show ?thesis by blast
qed

definition sample_kernel :: kernel where
  "sample_kernel = \<lparr>kn_read = (\<lambda>_ _. Some ''memory pids''), kn_mkdir = (\<lambda>_ _. Made), kn_write = (\<lambda>_ _ _. True)\<rparr>"

definition sample_table :: ctable where
  "sample_table = \<lparr>tb_slice = Some ''/c'', tb_handles = [\<lparr>hn_unit = ''s'', hn_cgroup = ''/c/s'', hn_events = 10\<rparr>]\<rparr>"

theorem adding_refines_the_supervisor_witness:
  "ctable_unit (fst (snd (ctable_add sample_kernel (\<lambda>_. Inr 11) ''t'' ''t.service'' sample_table []))) 0 = Some ''s''"
proof -
  have u: "ctable_unit sample_table 0 = Some ''s''" by (simp add: ctable_unit_def ctable_handle_def sample_table_def)
  obtain res t' h' where a: "ctable_add sample_kernel (\<lambda>_. Inr 11) ''t'' ''t.service'' sample_table [] = (res, t', h')"
    by (metis prod_cases3)
  show ?thesis using adding_refines_the_supervisor [OF a] u a by simp
qed

text \<open>C31.  A cgroup event names its unit, and a reload's cgroups are never heard.  Take a loop that
  was wired with the table on distinct descriptors, and then any reload, with what it leaves of
  the table and of the registrations.  A descriptor stands for a cgroup exactly when it is the
  one the table held for that number at the wiring and the kernel let it be registered; the
  number is still that of the same unit.  The table is the one the supervisor sees, with a handle
  for every service the reload took in.  And no descriptor, before or after the reconciliation that
  follows, stands for one of those.\<close>

theorem cgroup_events_name_their_unit:
  assumes "wire ctl w [] = (Inr errs, ep)" and "distinct (descriptors w)"
    and "wr_cgroups w = ctable_events t" and "s_cgroups s = abs_table t"
    and "machine_reload env k opens l s (t, h) ep = (st', (t', h'), ep')" and "table_ok t'"
  shows "(source_of ep' fd = Some (CgroupEvent i) \<longleftrightarrow>
      (\<exists>n hn. n < length (tb_handles t) \<and> i = of_nat n \<and> hn = tb_handles t ! n \<and> fd = hn_events hn \<and> ctl fd = None
        \<and> ctable_unit t' i = Some (hn_unit hn)))
    \<and> s_cgroups (fst st') = abs_table t'
    \<and> (\<forall>n x. length (tb_handles t) \<le> n \<and> n < length (tb_handles t') \<longrightarrow>
        ctable_unit t' (of_nat n) = Some (cg_handles (s_cgroups (fst st')) ! n)
        \<and> source_of ep' x \<noteq> Some (CgroupEvent (of_nat n))
        \<and> source_of (snd (sync_table ctl' fd_of (fst st') ep')) x \<noteq> Some (CgroupEvent (of_nat n)))"
proof -
  have r: "continues t t'" "s_cgroups (fst st') = abs_table t'" "ep' = ep"
    using machine_reload_result [OF assms(5,4)] by blast+
  have ok: "table_ok t" using continues_ok r(1) assms(6) by blast
  have same: "ctable_unit t' (of_nat n) = ctable_unit t (of_nat n)" if "n < length (tb_handles t)" for n
    using that unit_at [OF ok that] unit_at [OF assms(6), of n] continues_at [OF r(1) that] r(1)
    by (simp add: continues_def)
  have unheard: "source_of ep x \<noteq> Some (CgroupEvent (of_nat n))"
    if "length (tb_handles t) \<le> n" "n < length (tb_handles t')" for n x
  proof -
    have "unat (of_nat n :: 32 word) = n" using that(2) assms(6) by (intro unat_of_nat32) (simp add: table_ok_def)
    then have "ctable_unit t (of_nat n) = None" using that(1) by (simp add: ctable_unit_def ctable_handle_def)
    then show ?thesis using cgroup_event_at [OF assms(1-3) ok] by auto
  qed
  have "epoll_ok ep" using wire_table [OF assms(1,2)] by blast
  then have "source_of (snd (sync_table ctl' fd_of (fst st') ep)) x \<noteq> Some (CgroupEvent (of_nat n))"
    if "length (tb_handles t) \<le> n" "n < length (tb_handles t')" for n x
    using unheard [OF that] sync_hears_no_cgroup by blast
  moreover have "source_of ep fd = Some (CgroupEvent i) \<longleftrightarrow>
      (\<exists>n hn. n < length (tb_handles t) \<and> i = of_nat n \<and> hn = tb_handles t ! n \<and> fd = hn_events hn \<and> ctl fd = None
        \<and> ctable_unit t' i = Some (hn_unit hn))"
    using cgroup_event_at [OF assms(1-3) ok] same by auto
  moreover have "ctable_unit t' (of_nat n) = Some (cg_handles (abs_table t') ! n)"
    if "n < length (tb_handles t')" for n
    using unit_at [OF assms(6) that] that by (simp add: abs_table_def)
  ultimately show ?thesis using unheard r(2,3) by simp
qed

definition sample_new_unit :: oxunit where
  "sample_new_unit = (sample_unit Simple Always)\<lparr>u_name := ''t''\<rparr>"

theorem cgroup_events_name_their_unit_witness:
  "\<exists>ep st' t' h'. wire (\<lambda>_. None) sample_wiring [] = (Inr [], ep)
   \<and> machine_reload sample_env sample_kernel (\<lambda>_. Inr 11) \<lparr>l_units = [(''t'', sample_new_unit)], l_errors = []\<rparr>
       (sample_empty\<lparr>s_cgroups := abs_table sample_table\<rparr>) (sample_table, []) ep = (st', (t', h'), ep)
   \<and> source_of ep 10 = Some (CgroupEvent 0) \<and> ctable_unit t' 0 = Some ''s'' \<and> ctable_unit t' 1 = Some ''t''
   \<and> source_of ep 11 \<noteq> Some (CgroupEvent 1)"
proof -
  obtain ep where w: "wire (\<lambda>_. None) sample_wiring [] = (Inr [], ep)"
    by (simp add: wire_def sample_wiring_def required_def optional_def register_or_report_def ep_register_def ep_add_def)
  have d: "distinct (descriptors sample_wiring)"
    by (simp add: descriptors_def sample_wiring_def required_def optional_def)
  have g: "wr_cgroups sample_wiring = ctable_events sample_table"
    by (simp add: sample_wiring_def ctable_events_def sample_table_def)
  let ?s = "sample_empty\<lparr>s_cgroups := abs_table sample_table\<rparr>"
  let ?l = "\<lparr>l_units = [(''t'', sample_new_unit)], l_errors = []\<rparr>"
  let ?t = "sample_table\<lparr>tb_handles := tb_handles sample_table @
          [\<lparr>hn_unit = ''t'', hn_cgroup = cgroup_path ''/c'' (full_name sample_new_unit), hn_events = 11\<rparr>]\<rparr>"
  have n: "get_inst ?s ''t'' = None" by (simp add: sample_empty_eq [of undefined] sample_sup_def get_inst_def)
  have add: "ctable_add sample_kernel (\<lambda>_. Inr 11) ''t'' (full_name sample_new_unit) sample_table []
      = (Inr (), ?t, [MakeDir (cgroup_path ''/c'' (full_name sample_new_unit))])"
    by (simp add: ctable_add_def sample_table_def sample_kernel_def cg_create_dir_def open_read_def open_file_def Let_def)
  obtain st' h' ep' where a: "machine_reload sample_env sample_kernel (\<lambda>_. Inr 11) ?l ?s (sample_table, []) ep = (st', (?t, h'), ep')"
  proof -
    obtain sv where k: "u_kind sample_new_unit = Service sv" by (simp add: sample_new_unit_def sample_unit_def)
    have "service_cgroup sample_kernel (\<lambda>_. Inr 11) (''t'', sample_new_unit) (sample_table, []) =
        (True, ?t, [MakeDir (cgroup_path ''/c'' (full_name sample_new_unit))])"
      by (simp add: service_cgroup_def k add)
    then show thesis using that by (simp add: machine_reload_def machine_reload_one_def takes_in_def n)
  qed
  have s: "s_cgroups ?s = abs_table sample_table" by simp
  have "ep' = ep" using machine_reload_result [OF a s] by blast
  note a = a [unfolded this]
  have ok: "table_ok ?t" by (simp add: table_ok_def sample_table_def)
  note c = cgroup_events_name_their_unit [OF w d g s a ok]
  have u: "ctable_unit ?t 0 = Some ''s''" "ctable_unit ?t 1 = Some ''t''"
    by (simp_all add: ctable_unit_def ctable_handle_def sample_table_def)
  have "source_of ep 10 = Some (CgroupEvent 0)" using c [of 10 0] u(1) by (auto simp: sample_table_def)
  moreover have "source_of ep 11 \<noteq> Some (CgroupEvent (of_nat 1))"
    using conjunct2 [OF conjunct2 [OF c [of 11 0]], rule_format, of 1 11] by (simp add: sample_table_def)
  ultimately show ?thesis
    using w a u by (intro exI [where x = ep] exI [where x = st'] exI [where x = ?t] exI [where x = h']) simp
qed

end
