(* ===== verification/MainLoop.thy ===== *)
theory MainLoop
  imports SupervisorSafety Boot Channels Token
begin

text \<open>
  The event loop, \<open>crates/oxinit/src/main.rs\<close>: what each readable descriptor is dispatched to,
  and what follows once per turn.  The state is the supervisor with the control socket, the
  log connection, the watchdog and the console shell.  \<open>answers\<close> holds what the kernel says
  while one source is handled, \<open>turn_input\<close> what it says during a turn.  Handlers do not
  panic here; \<open>Recovery\<close> has the loop in which they do.
\<close>

section \<open>State\<close>

record pid1 =
  p_sup :: sup
  p_control :: "control option"
  p_logs :: logs
  p_watchdog :: "dev option"
  p_shell :: bool
  p_replies :: "(nat \<times> string) list"
  p_down :: "final_op list"

record json =
  js_request :: "string \<Rightarrow> string + request"
  js_response :: "response \<Rightarrow> string + string"
  js_texts :: "unit_error list \<Rightarrow> string"

record signal_read =
  sg_number :: nat
  sg_env :: env
  sg_reaped :: "(nat \<times> int option \<times> int option) list"
  sg_shell_exited :: bool
  sg_shell_spawned :: bool

record answers =
  an_env :: env
  an_signals :: "signal_read list option"
  an_messages :: "message list"
  an_loaded :: loaded
  an_accept :: "nat option"
  an_register :: bool
  an_recv :: "nat \<Rightarrow> (string \<times> nat) option"
  an_shipper :: bool
  an_offers :: "string \<Rightarrow> nat \<Rightarrow> bool"
  an_hangup :: bool

section \<open>Signals\<close>

definition SIGHUP :: nat where "SIGHUP = 1"
definition SIGINT :: nat where "SIGINT = 2"
definition SIGUSR1 :: nat where "SIGUSR1 = 10"
definition SIGUSR2 :: nat where "SIGUSR2 = 12"
definition SIGTERM :: nat where "SIGTERM = 15"
definition SIGCHLD :: nat where "SIGCHLD = 17"
definition SIGPWR :: nat where "SIGPWR = 30"

lemmas signal_defs = SIGHUP_def SIGINT_def SIGUSR1_def SIGUSR2_def SIGTERM_def SIGCHLD_def SIGPWR_def

text \<open>What a signal other than \<open>SIGCHLD\<close> asks for; \<open>SIGUSR2\<close> only prints, and the rest are
  dropped.\<close>

definition signal_action :: "environment \<Rightarrow> nat \<Rightarrow> action option" where
  "signal_action e n =
     (if n \<in> {SIGTERM, SIGINT, SIGPWR, SIGUSR1, SIGHUP} \<and> env_is_user e then Some PowerOff
      else if n = SIGTERM \<or> n = SIGPWR then Some PowerOff
      else if n = SIGINT then Some Reboot
      else if n = SIGUSR1 then Some Halt
      else None)"

definition on_child :: "signal_read \<Rightarrow> pid1 \<Rightarrow> pid1" where
  "on_child g s =
     s\<lparr>p_shell := (if p_shell s \<and> sg_shell_exited g
                   then \<not> shutting_down (p_sup s) \<and> sg_shell_spawned g else p_shell s),
       p_sup := on_sigchld (sg_env g) (sg_reaped g) (p_sup s)\<rparr>"

definition on_signal :: "environment \<Rightarrow> signal_read \<Rightarrow> pid1 \<Rightarrow> pid1" where
  "on_signal e g s =
     (if sg_number g = SIGCHLD then on_child g s
      else case signal_action e (sg_number g) of
        None \<Rightarrow> s
      | Some a \<Rightarrow> s\<lparr>p_sup := begin_shutdown (sg_env g) a (p_sup s)\<rparr>)"

definition on_signals :: "environment \<Rightarrow> signal_read list option \<Rightarrow> pid1 \<Rightarrow> pid1" where
  "on_signals e read s = (case read of None \<Rightarrow> s | Some gs \<Rightarrow> fold (on_signal e) gs s)"

section \<open>Connections\<close>

definition on_connect :: "nat option \<Rightarrow> bool \<Rightarrow> pid1 \<Rightarrow> pid1" where
  "on_connect acc registered s =
     (case p_control s of
        None \<Rightarrow> s
      | Some c \<Rightarrow>
          (case control_accept acc c of
             (c1, None) \<Rightarrow> s\<lparr>p_control := Some c1\<rparr>
           | (c1, Some i) \<Rightarrow>
               if control_fd c1 i \<noteq> None \<and> registered then s\<lparr>p_control := Some c1\<rparr>
               else s\<lparr>p_control := Some (control_close i c1)\<rparr>))"

definition control_reply :: "control \<Rightarrow> 32 word \<Rightarrow> string \<Rightarrow> pid1 \<Rightarrow> pid1" where
  "control_reply c i bytes s =
     (case control_fd c i of None \<Rightarrow> s | Some fd \<Rightarrow> s\<lparr>p_replies := p_replies s @ [(fd, bytes)]\<rparr>)"

definition respond :: "json \<Rightarrow> env \<Rightarrow> loaded \<Rightarrow> string \<Rightarrow> sup \<Rightarrow> sup \<times> response" where
  "respond js env l bytes sp =
     (case ipc_decode (js_request js) bytes of
        Inr request \<Rightarrow> handle env l (js_texts js) request sp
      | Inl e \<Rightarrow> (sp, RError (show_ipc_error e)))"

definition on_request :: "json \<Rightarrow> answers \<Rightarrow> 32 word \<Rightarrow> pid1 \<Rightarrow> pid1" where
  "on_request js an i s =
     (case p_control s of
        None \<Rightarrow> s
      | Some c \<Rightarrow>
          let s1 = (case control_recv (an_recv an) c i of
                None \<Rightarrow> s
              | Some bytes \<Rightarrow>
                  (case respond js (an_env an) (an_loaded an) bytes (p_sup s) of
                     (sp, response) \<Rightarrow>
                       let s2 = s\<lparr>p_sup := sp\<rparr> in
                       (case ipc_encode (js_response js) response of
                          Inr reply \<Rightarrow> control_reply c i reply s2
                        | Inl _ \<Rightarrow> s2))) in
          s1\<lparr>p_control := Some (control_close i c)\<rparr>)"

definition on_shipper :: "answers \<Rightarrow> pid1 \<Rightarrow> pid1" where
  "on_shipper an s =
     (case logs_accept (an_shipper an) (an_offers an) (p_logs s) of
        (l, False) \<Rightarrow> s\<lparr>p_logs := l\<rparr>
      | (l, True) \<Rightarrow> s\<lparr>p_logs := (if an_register an then l else logs_disconnect l)\<rparr>)"

definition on_shipper_gone :: "answers \<Rightarrow> pid1 \<Rightarrow> pid1" where
  "on_shipper_gone an s =
     (if lg_shipper (p_logs s) \<and> \<not> an_hangup an then s else s\<lparr>p_logs := logs_disconnect (p_logs s)\<rparr>)"

section \<open>A turn\<close>

definition on_sup :: "(sup \<Rightarrow> sup) \<Rightarrow> pid1 \<Rightarrow> pid1" where
  "on_sup f s = s\<lparr>p_sup := f (p_sup s)\<rparr>"

definition handle_source :: "environment \<Rightarrow> json \<Rightarrow> event_source \<times> answers \<Rightarrow> pid1 \<Rightarrow> pid1" where
  "handle_source e js sa s =
     (let an = snd sa; env = an_env an in
      case fst sa of
        Signals \<Rightarrow> on_signals e (an_signals an) s
      | MonoTimer \<Rightarrow> on_sup (on_timer env) s
      | WallTimer \<Rightarrow> on_sup (on_wall_timer env) s
      | NotifySocket \<Rightarrow> on_sup (on_notify env (an_messages an)) s
      | CgroupEvent i \<Rightarrow> on_sup (on_cgroup env (unat i)) s
      | SocketReady i \<Rightarrow> on_sup (on_socket env (unat i)) s
      | Control \<Rightarrow> on_connect (an_accept an) (an_register an) s
      | Client i \<Rightarrow> on_request js an i s
      | LogSocket \<Rightarrow> on_shipper an s
      | LogShipper \<Rightarrow> on_shipper_gone an s)"

record turn_input =
  ti_sources :: "(event_source \<times> answers) list"
  ti_pump :: env
  ti_sync :: env
  ti_dev :: dev_env
  ti_settle :: env

definition feed_watchdog :: "dev_env \<Rightarrow> pid1 \<Rightarrow> pid1" where
  "feed_watchdog de s =
     (case p_watchdog s of
        None \<Rightarrow> s
      | Some d \<Rightarrow>
          let booted = (case awaiting (dv_policy d) of None \<Rightarrow> False | Some u \<Rightarrow> has_reached (p_sup s) u) in
          s\<lparr>p_watchdog := Some (dev_tick de booted (shutting_down (p_sup s)) d)\<rparr>)"

definition go_down :: "environment \<Rightarrow> env \<Rightarrow> pid1 \<Rightarrow> pid1" where
  "go_down e env s =
     (case settled env (p_sup s) of
        None \<Rightarrow> s
      | Some a \<Rightarrow> (case finalize a e (p_watchdog s) of (wd, ops) \<Rightarrow> s\<lparr>p_watchdog := wd, p_down := ops\<rparr>))"

definition turn :: "environment \<Rightarrow> json \<Rightarrow> turn_input \<Rightarrow> pid1 \<Rightarrow> pid1" where
  "turn e js t s =
     (let s1 = fold (handle_source e js) (ti_sources t) s;
          s2 = on_sup (pump (ti_pump t)) s1;
          s3 = on_sup (sync_sockets (ti_sync t)) s2;
          s4 = feed_watchdog (ti_dev t) s3 in
      go_down e (ti_settle t) s4)"

text \<open>The loop: nothing follows once the manager went down.\<close>

fun loop :: "environment \<Rightarrow> json \<Rightarrow> turn_input list \<Rightarrow> pid1 \<Rightarrow> pid1" where
  "loop e js [] s = s"
| "loop e js (t # ts) s = (if p_down s \<noteq> [] then s else loop e js ts (turn e js t s))"

text \<open>How long the loop may sleep before its next turn.\<close>

definition loop_timeout :: "duration \<Rightarrow> env \<Rightarrow> pid1 \<Rightarrow> duration option" where
  "loop_timeout now env s =
     (case (Option.bind (p_watchdog s) (dev_wait_bound now), wait_bound env (p_sup s)) of
        (None, b) \<Rightarrow> b
      | (a, None) \<Rightarrow> a
      | (Some a, Some b) \<Rightarrow> Some (min a b))"

section \<open>The loop drives the supervisor by events\<close>

text \<open>The events of \<open>SupervisorSafety\<close> that a signal, a source and a turn amount to.\<close>

definition signal_event :: "environment \<Rightarrow> signal_read \<Rightarrow> (env \<times> event) list" where
  "signal_event e g =
     (if sg_number g = SIGCHLD then [(sg_env g, EvSigchld (sg_reaped g))]
      else case signal_action e (sg_number g) of None \<Rightarrow> [] | Some a \<Rightarrow> [(sg_env g, EvShutdown a)])"

definition request_event :: "json \<Rightarrow> answers \<Rightarrow> 32 word \<Rightarrow> pid1 \<Rightarrow> (env \<times> event) list" where
  "request_event js an i s =
     (case Option.bind (p_control s) (\<lambda>c. control_recv (an_recv an) c i) of
        None \<Rightarrow> []
      | Some bytes \<Rightarrow>
          (case js_request js bytes of Inl _ \<Rightarrow> [] | Inr r \<Rightarrow> [(an_env an, EvRequest (an_loaded an) r)]))"

definition source_events :: "environment \<Rightarrow> json \<Rightarrow> event_source \<times> answers \<Rightarrow> pid1 \<Rightarrow> (env \<times> event) list" where
  "source_events e js sa s =
     (let an = snd sa; env = an_env an in
      case fst sa of
        Signals \<Rightarrow> (case an_signals an of None \<Rightarrow> [] | Some gs \<Rightarrow> concat (map (signal_event e) gs))
      | MonoTimer \<Rightarrow> [(env, EvTimer)]
      | WallTimer \<Rightarrow> [(env, EvWallTimer)]
      | NotifySocket \<Rightarrow> [(env, EvNotify (an_messages an))]
      | CgroupEvent i \<Rightarrow> [(env, EvCgroup (unat i))]
      | SocketReady i \<Rightarrow> [(env, EvSocket (unat i))]
      | Client i \<Rightarrow> request_event js an i s
      | _ \<Rightarrow> [])"

fun sources_events :: "environment \<Rightarrow> json \<Rightarrow> (event_source \<times> answers) list \<Rightarrow> pid1 \<Rightarrow> (env \<times> event) list" where
  "sources_events e js [] s = []"
| "sources_events e js (sa # sas) s =
     source_events e js sa s @ sources_events e js sas (handle_source e js sa s)"

definition turn_events :: "environment \<Rightarrow> json \<Rightarrow> turn_input \<Rightarrow> pid1 \<Rightarrow> (env \<times> event) list" where
  "turn_events e js t s =
     sources_events e js (ti_sources t) s @ [(ti_pump t, EvPump), (ti_sync t, EvSync)]"

fun loop_events :: "environment \<Rightarrow> json \<Rightarrow> turn_input list \<Rightarrow> pid1 \<Rightarrow> (env \<times> event) list" where
  "loop_events e js [] s = []"
| "loop_events e js (t # ts) s =
     (if p_down s \<noteq> [] then [] else turn_events e js t s @ loop_events e js ts (turn e js t s))"

lemma run_events_append [simp]: "run_events (xs @ ys) s = run_events ys (run_events xs s)"
  by (simp add: run_events_def)

lemma run_events_Nil [simp]: "run_events [] s = s"
  by (simp add: run_events_def)

lemma run_events_Cons [simp]: "run_events ((env, ev) # xs) s = run_events xs (handle_event env ev s)"
  by (simp add: run_events_def)

lemma handle_state_texts: "fst (handle env l t r s) = fst (handle env l t' r s)"
  by (cases r) (auto simp: handle_def reload_def Let_def split: prod.splits)

lemma on_signal_sup: "p_sup (on_signal e g s) = run_events (signal_event e g) (p_sup s)"
  by (auto simp: on_signal_def signal_event_def on_child_def handle_event_def Let_def split: option.splits)

lemma on_signals_sup: "p_sup (fold (on_signal e) gs s) = run_events (concat (map (signal_event e) gs)) (p_sup s)"
  by (induction gs arbitrary: s) (simp_all add: on_signal_sup)

lemma control_reply_sup [simp]: "p_sup (control_reply c i b s) = p_sup s" "p_down (control_reply c i b s) = p_down s"
  by (simp_all add: control_reply_def split: option.splits)

lemma on_request_sup: "p_sup (on_request js an i s) = run_events (request_event js an i s) (p_sup s)"
  using handle_state_texts [of "an_env an" "an_loaded an" "js_texts js" _ "p_sup s" "\<lambda>_. []"]
  by (auto simp: on_request_def request_event_def respond_def ipc_decode_def Let_def handle_event_def
      split: option.splits sum.splits prod.splits) (metis fst_conv)+

lemma connection_sup [simp]:
  "p_sup (on_connect a r s) = p_sup s" "p_sup (on_shipper an s) = p_sup s" "p_sup (on_shipper_gone an s) = p_sup s"
  by (auto simp: on_connect_def on_shipper_def on_shipper_gone_def split: option.splits prod.splits bool.splits)

lemma handle_source_sup: "p_sup (handle_source e js sa s) = run_events (source_events e js sa s) (p_sup s)"
  by (cases "fst sa")
    (simp_all add: handle_source_def source_events_def on_sup_def on_request_sup on_signals_def on_signals_sup
      handle_event_def Let_def split: option.splits)

lemma sources_sup: "p_sup (fold (handle_source e js) sas s) = run_events (sources_events e js sas s) (p_sup s)"
  by (induction sas arbitrary: s) (simp_all add: handle_source_sup)

lemma after_handlers_sup [simp]:
  "p_sup (feed_watchdog de s) = p_sup s" "p_sup (go_down e env s) = p_sup s" "p_sup (on_sup f s) = f (p_sup s)"
  by (auto simp: feed_watchdog_def go_down_def on_sup_def Let_def split: option.splits prod.splits)

lemma turn_sup: "p_sup (turn e js t s) = run_events (turn_events e js t s) (p_sup s)"
  by (simp add: turn_def turn_events_def Let_def sources_sup handle_event_def)

lemma loop_sup: "p_sup (loop e js ts s) = run_events (loop_events e js ts s) (p_sup s)"
  by (induction ts arbitrary: s) (simp_all add: turn_sup)

section \<open>Going down\<close>

definition final_ops :: "action \<Rightarrow> environment \<Rightarrow> final_op list" where
  "final_ops a e =
     (if e = Machine then [SyncDisks, RemountReadOnly, RebootCommand a] else [ExitStatus (exit_code a e)])"

lemma finalize_ops: "snd (finalize a e wd) = final_ops a e"
  by (simp add: finalize_def final_ops_def env_exits_def)

lemma final_ops_not_Nil [simp]: "final_ops a e \<noteq> []"
  by (simp add: final_ops_def)

lemma on_signals_down [simp]: "p_down (fold (on_signal e) gs s) = p_down s"
  by (induction gs arbitrary: s) (simp_all add: on_signal_def on_child_def split: option.splits)

lemma handle_source_down [simp]: "p_down (handle_source e js sa s) = p_down s"
  by (cases "fst sa")
    (auto simp: handle_source_def on_sup_def on_signals_def on_connect_def on_request_def on_shipper_def
      on_shipper_gone_def Let_def split: option.splits prod.splits bool.splits sum.splits)

lemma sources_down [simp]: "p_down (fold (handle_source e js) sas s) = p_down s"
  by (induction sas arbitrary: s) simp_all

lemma go_down_down:
  "p_down (go_down e env s) = (case settled env (p_sup s) of None \<Rightarrow> p_down s | Some a \<Rightarrow> final_ops a e)"
  using finalize_ops by (auto simp: go_down_def split: option.splits prod.splits) (metis snd_conv)

lemma turn_down:
  "p_down (turn e js t s) =
     (case settled (ti_settle t) (run_events (turn_events e js t s) (p_sup s)) of
        None \<Rightarrow> p_down s | Some a \<Rightarrow> final_ops a e)"
proof -
  define s4 where "s4 = feed_watchdog (ti_dev t) (on_sup (sync_sockets (ti_sync t))
    (on_sup (pump (ti_pump t)) (fold (handle_source e js) (ti_sources t) s)))"
  have "p_sup s4 = run_events (turn_events e js t s) (p_sup s)"
    using turn_sup [of e js t s] by (simp add: s4_def turn_def Let_def)
  moreover have "p_down s4 = p_down s"
    by (simp add: s4_def feed_watchdog_def on_sup_def Let_def split: option.splits)
  ultimately show ?thesis
    by (auto simp: turn_def Let_def go_down_down s4_def [symmetric] split: option.splits)
qed

lemma settled_action: "s_shutdown s = Some sd \<Longrightarrow> settled env s = None \<or> settled env s = Some (sd_action sd)"
  by (simp add: settled_def)

lemma run_keeps_shutdown:
  "s_shutdown s = Some sd \<Longrightarrow> s_shutdown (run_events evs s) = Some sd \<and> spawns (run_events evs s) = spawns s"
  using run_events_frame [of s evs] by (simp add: shutting_down_def)

lemma loop_down:
  "s_shutdown (p_sup s) = Some sd \<Longrightarrow> p_down s = [] \<or> p_down s = final_ops (sd_action sd) e \<Longrightarrow>
     p_down (loop e js ts s) = [] \<or> p_down (loop e js ts s) = final_ops (sd_action sd) e"
proof (induction ts arbitrary: s)
  case Nil
  then show ?case by simp
next
  case (Cons t ts)
  have k: "s_shutdown (p_sup (turn e js t s)) = Some sd"
    using run_keeps_shutdown [OF Cons.prems(1)] by (simp add: turn_sup)
  have "s_shutdown (run_events (turn_events e js t s) (p_sup s)) = Some sd"
    using k by (simp add: turn_sup)
  from settled_action [OF this, of "ti_settle t"] Cons.prems(2)
  have "p_down (turn e js t s) = [] \<or> p_down (turn e js t s) = final_ops (sd_action sd) e"
    by (auto simp: turn_down)
  from Cons.IH [OF k this] Cons.prems(2) show ?case by auto
qed

lemma run_well_keyed: "well_keyed s \<Longrightarrow> well_keyed (run_events evs s)"
proof (induction evs arbitrary: s)
  case (Cons ev evs)
  then show ?case by (cases ev) (simp add: handle_event_well_keyed)
qed simp

lemma sigchld_event_shutdown: "s_shutdown (handle_event env (EvSigchld r) s) = s_shutdown s"
proof -
  have "s_shutdown (fold (sigchld_one env) r s) = s_shutdown s"
    by (induction r arbitrary: s) simp_all
  then show ?thesis by (simp add: handle_event_def on_sigchld_def)
qed

text \<open>The first signal read that asks for the end decides what the end is.\<close>

lemma first_terminating:
  assumes "find (\<lambda>g. signal_action e (sg_number g) \<noteq> None) gs = Some g"
    and "signal_action e (sg_number g) = Some a" and "s_shutdown sp = None"
  shows "\<exists>pre post. concat (map (signal_event e) gs) = pre @ (sg_env g, EvShutdown a) # post
    \<and> s_shutdown (run_events pre sp) = None"
  using assms
proof (induction gs arbitrary: sp)
  case (Cons h gs)
  show ?case
  proof (cases "signal_action e (sg_number h)")
    case None
    then have find: "find (\<lambda>g. signal_action e (sg_number g) \<noteq> None) gs = Some g" using Cons.prems(1) by simp
    have "s_shutdown (run_events (signal_event e h) sp) = None"
      using None Cons.prems(3) by (simp add: signal_event_def sigchld_event_shutdown)
    from Cons.IH [OF find Cons.prems(2) this] show ?thesis
      by (metis append.assoc concat.simps(2) list.map(2) run_events_append)
  next
    case (Some b)
    then have h: "h = g" "b = a" using Cons.prems by simp_all
    have "sg_number h \<noteq> SIGCHLD" using Some by (auto simp: signal_action_def signal_defs)
    then have "signal_event e h = [(sg_env g, EvShutdown a)]" using Some h by (simp add: signal_event_def)
    then show ?thesis
      using Cons.prems(3) by (intro exI [of _ "[]"] exI [of _ "concat (map (signal_event e) gs)"]) simp
  qed
qed simp

section \<open>Properties\<close>

text \<open>The loop drives the supervisor by events and by nothing else: whatever descriptors are
  ready, in any order and over any number of turns, the supervisor ends where the events they
  stand for take it, each turn closed by the start queue and the reconciliation of sockets.\<close>

theorem main_loop_refines_events:
  "p_sup (loop e js ts s) = run_events (loop_events e js ts s) (p_sup s)
   \<and> turn_events e js t s = sources_events e js (ti_sources t) s @ [(ti_pump t, EvPump), (ti_sync t, EvSync)]"
  by (simp add: loop_sup turn_events_def)

text \<open>C21.  The first signal that asks the manager to end decides: from then on, over any turns of the
  loop, no process is started, every unit is down or going down, and if the manager ends it
  ends with that signal's action, by a reboot on a machine and by exiting anywhere else.\<close>

theorem first_signal_decides:
  fixes js ts
  assumes "well_keyed (p_sup s)" and "s_shutdown (p_sup s) = None" and "p_down s = []"
    and "find (\<lambda>g. signal_action e (sg_number g) \<noteq> None) gs = Some g"
    and "signal_action e (sg_number g) = Some a"
  defines "s1 \<equiv> on_signals e (Some gs) s" and "l \<equiv> loop e js ts (on_signals e (Some gs) s)"
  shows "s_shutdown (p_sup l) = Some (shutdown_new (sg_env g) a) \<and> spawns (p_sup l) = spawns (p_sup s1)
    \<and> (\<forall>n i. get_inst (p_sup l) n = Some i \<longrightarrow> in_state i \<in> {Inactive, Failed, Deactivating})
    \<and> p_down l \<in>
        {[], if e = Machine then [SyncDisks, RemountReadOnly, RebootCommand a] else [ExitStatus (exit_code a e)]}"
proof -
  obtain pre post where split: "concat (map (signal_event e) gs) = pre @ (sg_env g, EvShutdown a) # post"
    "s_shutdown (run_events pre (p_sup s)) = None"
    using first_terminating [OF assms(4,5,2)] by blast
  define sp where "sp = run_events pre (p_sup s)"
  have s1: "p_sup s1 = run_events post (begin_shutdown (sg_env g) a sp)"
    using split(1) by (simp add: s1_def on_signals_def on_signals_sup sp_def handle_event_def)
  have l: "l = loop e js ts s1" by (simp add: l_def s1_def)
  have none: "s_shutdown sp = None" using split(2) by (simp add: sp_def)
  have keyed: "well_keyed (begin_shutdown (sg_env g) a sp)"
    using run_well_keyed [OF assms(1), of "pre @ [(sg_env g, EvShutdown a)]"]
    by (simp add: sp_def handle_event_def)
  have sh: "s_shutdown (p_sup s1) = Some (shutdown_new (sg_env g) a)"
    using run_keeps_shutdown [OF begin_shutdown_frame(2) [OF none]] s1 by simp
  have "s_shutdown (p_sup l) = Some (shutdown_new (sg_env g) a) \<and> spawns (p_sup l) = spawns (p_sup s1)"
    using run_keeps_shutdown [OF sh] by (simp add: l loop_sup)
  moreover have "winding_down (p_sup l)"
    using run_winding [OF keyed begin_shutdown_winding [OF none], of "post @ loop_events e js ts s1"] s1
    by (simp add: l loop_sup)
  then have "\<forall>n i. get_inst (p_sup l) n = Some i \<longrightarrow> in_state i \<in> {Inactive, Failed, Deactivating}"
    by (auto simp: winding_down_def down_all_def down_state_def)
  moreover have "p_down s1 = []" using assms(3) by (simp add: s1_def on_signals_def)
  then have "p_down l = [] \<or> p_down l = final_ops a e"
    using loop_down [OF sh, of e js ts] by (simp add: l shutdown_new_def)
  ultimately show ?thesis by (auto simp: final_ops_def)
qed

definition sample_json :: json where
  "sample_json = \<lparr>js_request = (\<lambda>b. if b = ''list'' then Inr RList else Inl ''bad''),
     js_response = (\<lambda>r. Inr ''ok''), js_texts = (\<lambda>_. [])\<rparr>"

definition sample_pid1 :: "control option \<Rightarrow> pid1" where
  "sample_pid1 c = \<lparr>p_sup = sample_sup (sample_running Simple Always), p_control = c, p_logs = logs_bind,
     p_watchdog = None, p_shell = False, p_replies = [], p_down = []\<rparr>"

definition sample_signal :: "nat \<Rightarrow> signal_read" where
  "sample_signal n = \<lparr>sg_number = n, sg_env = sample_env, sg_reaped = [], sg_shell_exited = False,
     sg_shell_spawned = False\<rparr>"

definition sample_turn :: "nat \<Rightarrow> turn_input" where
  "sample_turn now = \<lparr>ti_sources = [], ti_pump = sample_env, ti_sync = sample_env,
     ti_dev = sample_dev_env, ti_settle = sample_env\<lparr>e_now := now\<rparr>\<rparr>"

theorem first_signal_decides_witness:
  "p_down (loop Machine sample_json [sample_turn 20, sample_turn 30] (on_signals Machine (Some [sample_signal SIGHUP, sample_signal SIGINT])
      (sample_pid1 None))) \<in> {[], [SyncDisks, RemountReadOnly, RebootCommand Reboot]}"
proof -
  have k: "well_keyed (p_sup (sample_pid1 None))" "s_shutdown (p_sup (sample_pid1 None)) = None"
    "p_down (sample_pid1 None) = []"
    by (simp_all add: sample_pid1_def sample_sup_def well_keyed_def bmap_ok_Cons)
  have g: "signal_action Machine (sg_number (sample_signal SIGINT)) = Some Reboot"
    "find (\<lambda>g. signal_action Machine (sg_number g) \<noteq> None) [sample_signal SIGHUP, sample_signal SIGINT]
       = Some (sample_signal SIGINT)"
    by (simp_all add: sample_signal_def signal_action_def signal_defs env_is_user_def)
  show ?thesis using first_signal_decides [OF k g(2) g(1), of sample_json "[sample_turn 20, sample_turn 30]"] by simp
qed

text \<open>C22.  A shutdown ends in time.  While one is under way the loop never sleeps past its deadline
  of 90 seconds by more than 10 milliseconds, and the first turn whose clock is past the
  deadline ends it, units that would not stop notwithstanding.\<close>

theorem shutdown_ends_in_time:
  assumes "s_shutdown (p_sup s) = Some sd"
  shows "(\<exists>w. loop_timeout now env s = Some w
       \<and> e_now env + w \<le> max (e_now env) (sd_started sd + from_secs 90) + from_millis 10)
    \<and> (e_now (ti_settle t) > sd_started sd + from_secs 90 \<longrightarrow> p_down (turn e js t s) = final_ops (sd_action sd) e)"
proof -
  have w: "wait_bound env (p_sup s) = Some (shutdown_remaining env sd)" using assms by (simp add: wait_bound_def)
  have r: "e_now env + shutdown_remaining env sd \<le> max (e_now env) (sd_started sd + from_secs 90) + from_millis 10"
    by (simp add: shutdown_remaining_def elapsed_def DEADLINE_def max_def) arith
  have "\<exists>v. loop_timeout now env s = Some v \<and> v \<le> shutdown_remaining env sd"
    by (auto simp: loop_timeout_def w split: option.splits)
  with r have "\<exists>w. loop_timeout now env s = Some w
       \<and> e_now env + w \<le> max (e_now env) (sd_started sd + from_secs 90) + from_millis 10"
    by (meson add_left_mono order_trans)
  moreover have "settled (ti_settle t) (run_events (turn_events e js t s) (p_sup s)) = Some (sd_action sd)"
    if "e_now (ti_settle t) > sd_started sd + from_secs 90"
    using that run_keeps_shutdown [OF assms, of "turn_events e js t s"]
    by (auto simp: settled_def shutdown_overdue_def elapsed_def DEADLINE_def)
  ultimately show ?thesis by (simp add: turn_down)
qed

theorem shutdown_ends_in_time_witness:
  "p_down (turn Machine sample_json (sample_turn (from_secs 91))
     ((sample_pid1 None)\<lparr>p_sup := (p_sup (sample_pid1 None))\<lparr>s_shutdown := Some \<lparr>sd_action = Halt, sd_started = 0\<rparr>\<rparr>\<rparr>))
   = [SyncDisks, RemountReadOnly, RebootCommand Halt]"
  using shutdown_ends_in_time [of "(sample_pid1 None)\<lparr>p_sup := (p_sup (sample_pid1 None))
      \<lparr>s_shutdown := Some \<lparr>sd_action = Halt, sd_started = 0\<rparr>\<rparr>\<rparr>" "\<lparr>sd_action = Halt, sd_started = 0\<rparr>" 0 sample_env
      "sample_turn (from_secs 91)" Machine sample_json]
  by (simp add: sample_turn_def final_ops_def time_unit_defs)

text \<open>Whoever asks gets one answer.  A request read from a client's connection, however the
  table of clients came about, is handled once, its answer goes to that connection if it fits
  the limit of a message, the client is dropped, and bytes that are not a request leave the
  supervisor as it was.\<close>

theorem request_gets_one_reply:
  assumes "p_control s = Some (fold control_step ops control_bind)" and "length ops \<le> 2 ^ 32"
    and "cl \<in> set (ct_clients (fold control_step ops control_bind))"
    and "an_recv an (cl_fd cl) = Some (bytes, sent)" and "bytes \<noteq> []" and "sent \<le> MAX_MESSAGE"
  shows "\<exists>sp response.
     (sp, response) = (case js_request js bytes of
        Inr r \<Rightarrow> handle (an_env an) (an_loaded an) (js_texts js) r (p_sup s)
      | Inl m \<Rightarrow> (p_sup s, RError (''decode: '' @ m)))
   \<and> p_sup (on_request js an (cl_id cl) s) = sp
   \<and> p_replies (on_request js an (cl_id cl) s) = p_replies s @
       (case js_response js response of
          Inr b \<Rightarrow> if length b \<le> MAX_MESSAGE then [(cl_fd cl, b)] else [] | Inl _ \<Rightarrow> [])
   \<and> (\<forall>c. p_control (on_request js an (cl_id cl) s) = Some c \<longrightarrow> control_fd c (cl_id cl) = None)"
proof -
  let ?c = "fold control_step ops control_bind"
  have ok: "control_ok (length ops) ?c" using control_ok_run [OF control_ok_bind, of ops] by simp
  have client: "control_client ?c (cl_id cl) = Some cl"
    unfolding control_client_def by (rule find_distinct [OF control_ok_distinct [OF ok assms(2)] assms(3)])
  have recv: "control_recv (an_recv an) ?c (cl_id cl) = Some bytes"
    using client assms(4-6) by (simp add: control_recv_def)
  obtain sp response where r: "respond js (an_env an) (an_loaded an) bytes (p_sup s) = (sp, response)"
    by (cases "respond js (an_env an) (an_loaded an) bytes (p_sup s)")
  have closed: "control_fd (control_close i c) i = None" for i c
    by (auto simp: control_fd_def control_client_def control_close_def find_None_iff)
  have answer: "(sp, response) = (case js_request js bytes of
        Inr r \<Rightarrow> handle (an_env an) (an_loaded an) (js_texts js) r (p_sup s)
      | Inl m \<Rightarrow> (p_sup s, RError (''decode: '' @ m)))"
    using r by (cases "js_request js bytes") (simp_all add: respond_def ipc_decode_def show_ipc_error_def)
  have replies: "p_sup (on_request js an (cl_id cl) s) = sp
     \<and> p_replies (on_request js an (cl_id cl) s) = p_replies s @
       (case js_response js response of
          Inr b \<Rightarrow> if length b \<le> MAX_MESSAGE then [(cl_fd cl, b)] else [] | Inl _ \<Rightarrow> [])
     \<and> p_control (on_request js an (cl_id cl) s) = Some (control_close (cl_id cl) ?c)"
    using assms(1) recv r client
    by (cases "js_response js response")
      (simp_all add: on_request_def Let_def control_reply_def control_fd_def ipc_encode_def)
  show ?thesis
  proof (rule exI [of _ sp], rule exI [of _ response], intro conjI)
    show "\<forall>c. p_control (on_request js an (cl_id cl) s) = Some c \<longrightarrow> control_fd c (cl_id cl) = None"
      using replies closed by simp
  qed (use answer replies in \<open>simp_all only:\<close>)
qed

definition sample_answers :: answers where
  "sample_answers = \<lparr>an_env = sample_env, an_signals = None, an_messages = [],
     an_loaded = sample_loaded Simple Always, an_accept = None, an_register = True,
     an_recv = (\<lambda>_. Some (''list'', 4)), an_shipper = False, an_offers = (\<lambda>_ _. True), an_hangup = False\<rparr>"

theorem request_gets_one_reply_witness:
  "p_replies (on_request sample_json sample_answers 0
     (sample_pid1 (Some (fold control_step [CtAccept (Some 7)] control_bind)))) = [(7, ''ok'')]"
  using request_gets_one_reply [of "sample_pid1 (Some (fold control_step [CtAccept (Some 7)] control_bind))"
      "[CtAccept (Some 7)]" "\<lparr>cl_id = 0, cl_fd = 7\<rparr>" sample_answers "''list''" 4 sample_json]
  by (simp add: sample_pid1_def sample_answers_def sample_json_def control_step_def control_accept_def
      control_bind_def MAX_CLIENTS_def MAX_MESSAGE_def handle_def)

end
