(* ===== verification/LogDaemon.thy ===== *)
theory LogDaemon
  imports LogFormat
begin

text \<open>
  The log daemon: \<open>crates/oxlogd/src/main.rs\<close>.  Its sources (one per service pipe), its open
  files, and what one read does to them.  The file system is a map from paths to contents; an
  open file is known by its path, which is exact here because the one thing that renames a
  file under an open handle is \<open>rotate\<close>, and the handle is dropped right after.  Which system
  calls succeed is the environment's choice.
\<close>

section \<open>State\<close>

record source =
  src_unit :: string
  src_partial :: string

record shipper =
  sh_files :: "string \<Rightarrow> string option"
  sh_sinks :: "string \<Rightarrow> nat option"

record log_env =
  l_now :: timestamp
  l_open :: "string \<Rightarrow> bool"
  l_meta :: "string \<Rightarrow> bool"
  l_move :: "move \<Rightarrow> bool"
  l_short :: "nat option"

section \<open>Writing one record\<close>

definition content :: "(string \<Rightarrow> string option) \<Rightarrow> string \<Rightarrow> string" where
  "content fs p = (case fs p of None \<Rightarrow> [] | Some c \<Rightarrow> c)"

text \<open>\<open>open\<close>: the size of the unit's file, opened if it is not.\<close>

definition open_sink :: "log_env \<Rightarrow> string \<Rightarrow> string \<Rightarrow> shipper \<Rightarrow> shipper \<times> nat option" where
  "open_sink env dir u s =
     (case sh_sinks s u of
        Some n \<Rightarrow> (s, Some n)
      | None \<Rightarrow>
          let p = log_path dir u in
          if \<not> l_open env p then (s, None)
          else
            let n = (if l_meta env p then length (content (sh_files s) p) else 0) in
            (s\<lparr>sh_files := (sh_files s)(p \<mapsto> content (sh_files s) p), sh_sinks := (sh_sinks s)(u \<mapsto> n)\<rparr>,
             Some n))"

definition rotate_files :: "log_env \<Rightarrow> rotation \<Rightarrow> string \<Rightarrow> string \<Rightarrow> shipper \<Rightarrow> shipper" where
  "rotate_files env r dir u s =
     s\<lparr>sh_files := fold (\<lambda>m fs. if l_move env m then apply_move m fs else fs) (rotation_plan r dir u) (sh_files s)\<rparr>"

text \<open>\<open>write_all\<close>: all of the record, or what was written before the error; the tracked size
  moves only with the whole.\<close>

definition append_record :: "log_env \<Rightarrow> string \<Rightarrow> string \<Rightarrow> string \<Rightarrow> nat \<Rightarrow> shipper \<Rightarrow> shipper" where
  "append_record env dir u rec n s =
     (let p = log_path dir u in
      case l_short env of
        None \<Rightarrow> s\<lparr>sh_files := (sh_files s)(p \<mapsto> content (sh_files s) p @ rec),
               sh_sinks := (sh_sinks s)(u \<mapsto> saturating_add64 n (length rec))\<rparr>
      | Some k \<Rightarrow> s\<lparr>sh_files := (sh_files s)(p \<mapsto> content (sh_files s) p @ take k rec)\<rparr>)"

definition log_write :: "log_env \<Rightarrow> string \<Rightarrow> rotation \<Rightarrow> string \<Rightarrow> string \<Rightarrow> shipper \<Rightarrow> shipper" where
  "log_write env dir r u line s =
     (let rec = log_record (l_now env) line in
      case open_sink env dir u s of
        (s1, None) \<Rightarrow> s1
      | (s1, Some n) \<Rightarrow>
          let s2 = (if should_rotate r n (length rec)
                    then (rotate_files env r dir u s1)\<lparr>sh_sinks := (sh_sinks s1)(u := None)\<rparr> else s1) in
          (case open_sink env dir u s2 of
             (s3, None) \<Rightarrow> s3
           | (s3, Some n3) \<Rightarrow> append_record env dir u rec n3 s3))"

section \<open>Reading a pipe\<close>

datatype pipe_read = Eof | Data string | Retry | ReadError

definition write_lines :: "log_env \<Rightarrow> string \<Rightarrow> rotation \<Rightarrow> string \<Rightarrow> string list \<Rightarrow> shipper \<Rightarrow> shipper" where
  "write_lines env dir r u ls s = fold (log_write env dir r u) ls s"

text \<open>\<open>drain\<close>: the source afterwards, the files, and whether the writer is still there.\<close>

definition drain ::
    "log_env \<Rightarrow> string \<Rightarrow> rotation \<Rightarrow> pipe_read \<Rightarrow> source \<Rightarrow> shipper \<Rightarrow> source \<times> shipper \<times> bool" where
  "drain env dir r rd src s =
     (case rd of
        Eof \<Rightarrow>
          let (rest, p) = flush_partial (src_partial src); src' = src\<lparr>src_partial := p\<rparr> in
          (src', (case rest of None \<Rightarrow> s | Some l \<Rightarrow> log_write env dir r (src_unit src) l s), False)
      | Retry \<Rightarrow> (src, s, True)
      | ReadError \<Rightarrow> (src, s, False)
      | Data buf \<Rightarrow>
          let (ls, p) = push_chunk (src_partial src) buf in
          (src\<lparr>src_partial := p\<rparr>, write_lines env dir r (src_unit src) ls s, True))"

text \<open>The sources part of one round of \<open>serve\<close>: those that are ready are drained in order,
  those whose writer is gone are dropped.\<close>

fun drain_ready ::
    "log_env \<Rightarrow> string \<Rightarrow> rotation \<Rightarrow> (source \<times> pipe_read option) list \<Rightarrow> shipper \<Rightarrow> source list \<times> shipper" where
  "drain_ready env dir r [] s = ([], s)"
| "drain_ready env dir r ((src, None) # srcs) s =
     (let (kept, s') = drain_ready env dir r srcs s in (src # kept, s'))"
| "drain_ready env dir r ((src, Some rd) # srcs) s =
     (let (src', s1, alive) = drain env dir r rd src s; (kept, s') = drain_ready env dir r srcs s1 in
      (if alive then src' # kept else kept, s'))"

definition drain_all :: "log_env \<Rightarrow> string \<Rightarrow> rotation \<Rightarrow> source list \<Rightarrow> shipper \<Rightarrow> source list \<times> shipper" where
  "drain_all env dir r srcs s =
     (map (\<lambda>src. src\<lparr>src_partial := snd (flush_partial (src_partial src))\<rparr>) srcs,
      fold (\<lambda>src s. case fst (flush_partial (src_partial src)) of
              None \<Rightarrow> s | Some l \<Rightarrow> log_write env dir r (src_unit src) l s) srcs s)"

definition shipper_new :: "(string \<Rightarrow> string option) \<Rightarrow> shipper" where
  "shipper_new fs = \<lparr>sh_files = fs, sh_sinks = Map.empty\<rparr>"

section \<open>The bound on disk\<close>

text \<open>A file the daemon wrote: within the limit, or a single record.\<close>

definition file_bounded :: "rotation \<Rightarrow> string \<Rightarrow> bool" where
  "file_bounded r c \<longleftrightarrow> length c \<le> rt_max_size r \<or> (\<exists>at line. c = log_record at line)"

definition log_names :: "rotation \<Rightarrow> string \<Rightarrow> string set \<Rightarrow> string set" where
  "log_names r dir us = (\<Union>u \<in> us. insert (log_path dir u) (generation dir u ` {1..rt_keep r}))"

definition logs_ok :: "rotation \<Rightarrow> string \<Rightarrow> string set \<Rightarrow> shipper \<Rightarrow> bool" where
  "logs_ok r dir us s \<longleftrightarrow> (\<forall>u \<in> us. unit_name_ok u)
    \<and> (\<forall>p c. sh_files s p = Some c \<longrightarrow> p \<in> log_names r dir us \<and> file_bounded r c)
    \<and> (\<forall>u n. sh_sinks s u = Some n \<longrightarrow> u \<in> us \<and>
         (\<exists>c. sh_files s (log_path dir u) = Some c \<and> length c = n))"

definition all_ok :: "log_env \<Rightarrow> bool" where
  "all_ok env \<longleftrightarrow> (\<forall>p. l_meta env p) \<and> (\<forall>m. l_move env m) \<and> l_short env = None"

lemma open_sink_ok:
  assumes "logs_ok r dir us s" and "u \<in> us" and "all_ok env" and "open_sink env dir u s = (s', res)"
  shows "logs_ok r dir us s' \<and> (\<forall>n. res = Some n \<longrightarrow> sh_sinks s' u = Some n)
    \<and> (\<forall>n. sh_sinks s u = Some n \<longrightarrow> s' = s)
    \<and> (sh_files s (log_path dir u) = None \<longrightarrow> sh_sinks s u = None)
    \<and> (\<forall>n. res = Some n \<longrightarrow> n = length (content (sh_files s) (log_path dir u)))
    \<and> content (sh_files s') = content (sh_files s)"
proof (cases "sh_sinks s u")
  case (Some n)
  then obtain c where "sh_files s (log_path dir u) = Some c" "length c = n"
    using assms(1) unfolding logs_ok_def by blast
  then show ?thesis using assms Some by (auto simp: open_sink_def content_def)
next
  case None
  let ?p = "log_path dir u"
  show ?thesis
  proof (cases "l_open env ?p")
    case True
    let ?c = "content (sh_files s) ?p"
    have m: "l_meta env ?p" using assms(3) by (simp add: all_ok_def)
    have s': "s' = s\<lparr>sh_files := (sh_files s)(?p \<mapsto> ?c), sh_sinks := (sh_sinks s)(u \<mapsto> length ?c)\<rparr>"
      "res = Some (length ?c)" using assms(4) None True m by (auto simp: open_sink_def Let_def)
    have "?p \<in> log_names r dir us" using assms(2) by (auto simp: log_names_def)
    moreover have "file_bounded r ?c"
      using assms(1) by (auto simp: content_def logs_ok_def file_bounded_def split: option.splits)
    moreover have inj: "log_path dir v = ?p \<longleftrightarrow> v = u" if "v \<in> us" for v
      using that assms(1,2) log_path_inj by (simp add: logs_ok_def)
    ultimately have "logs_ok r dir us s'"
      using assms(1,2) unfolding logs_ok_def s' by (auto split: if_splits)
    then show ?thesis using s' None by (auto simp: content_def fun_eq_iff split: option.splits)
  next
    case False
    then show ?thesis using assms None by (auto simp: open_sink_def)
  qed
qed

lemma logs_ok_append:
  assumes ok: "logs_ok r dir us s" and u: "u \<in> us" and "l_short env = None"
    and n: "sh_sinks s u = Some n" and rec: "rec = log_record at line" "length rec \<le> u64_max"
    and fits: "n = 0 \<or> n + length rec \<le> rt_max_size r" and "rt_max_size r < u64_max"
  shows "logs_ok r dir us (append_record env dir u rec n s)"
proof -
  let ?p = "log_path dir u"
  obtain c where c: "sh_files s ?p = Some c" "length c = n" using ok n unfolding logs_ok_def by blast
  have sum: "saturating_add64 n (length rec) = length (c @ rec)"
    using fits rec(2) assms(8) c(2) by (auto simp: saturating_add64_def)
  have "file_bounded r (c @ rec)" using fits c(2) rec(1) by (auto simp: file_bounded_def)
  moreover have "?p \<in> log_names r dir us" using u by (auto simp: log_names_def)
  moreover have inj: "log_path dir v = ?p \<longleftrightarrow> v = u" if "v \<in> us" for v
    using that ok u log_path_inj by (simp add: logs_ok_def)
  moreover have "append_record env dir u rec n s = s\<lparr>sh_files := (sh_files s)(?p \<mapsto> c @ rec),
      sh_sinks := (sh_sinks s)(u \<mapsto> length (c @ rec))\<rparr>"
    using assms(3) c sum by (simp add: append_record_def content_def Let_def)
  ultimately show ?thesis using ok u unfolding logs_ok_def by (auto split: if_splits)
qed

lemma rotate_files_all_ok:
  "all_ok env \<Longrightarrow> sh_files (rotate_files env r dir u s) = fold apply_move (rotation_plan r dir u) (sh_files s)"
  by (simp add: rotate_files_def all_ok_def)

lemma generation_in_names: "u \<in> us \<Longrightarrow> 1 \<le> n \<Longrightarrow> n \<le> rt_keep r \<Longrightarrow> generation dir u n \<in> log_names r dir us"
  unfolding log_names_def by fastforce

lemma logs_ok_rotate:
  fixes env
  assumes ok: "logs_ok r dir us s" and u: "u \<in> us" and env: "all_ok env"
  defines "s' \<equiv> (rotate_files env r dir u s)\<lparr>sh_sinks := (sh_sinks s)(u := None)\<rparr>"
  shows "logs_ok r dir us s' \<and> sh_sinks s' u = None \<and> sh_files s' (log_path dir u) = None"
proof -
  have un: "unit_name_ok v" if "v \<in> us" for v using ok that by (simp add: logs_ok_def)
  have fs': "sh_files s' = fold apply_move (rotation_plan r dir u) (sh_files s)"
    using rotate_files_all_ok [OF env] by (simp add: s'_def)
  have sk: "sh_sinks s' = (sh_sinks s)(u := None)" by (simp add: s'_def)
  note m = plan_moves [OF un [OF u], where r = r and dir = dir and fs = "sh_files s", folded fs']
  have "p \<in> log_names r dir us \<and> file_bounded r c" if p: "sh_files s' p = Some c" for p c
  proof -
    have old: "sh_files s q = Some c \<Longrightarrow> q \<in> log_names r dir us \<and> file_bounded r c" for q
      using ok unfolding logs_ok_def by blast
    have "p \<noteq> log_path dir u" using p m(1) by auto
    show ?thesis
    proof (cases "\<exists>n. 1 \<le> n \<and> n \<le> rt_keep r \<and> p = generation dir u n")
      case True
      then obtain n where n: "1 \<le> n" "n \<le> rt_keep r" "p = generation dir u n" by blast
      have "sh_files s (if n = 1 then log_path dir u else generation dir u (n - 1)) = Some c"
        using m(2) [OF n(1,2)] p n(3) by (auto split: if_splits)
      then show ?thesis using old generation_in_names [OF u n(1,2)] n(3) by blast
    next
      case False
      then have "sh_files s p = Some c" using m(3) [OF \<open>p \<noteq> log_path dir u\<close>] p by auto
      then show ?thesis by (rule old)
    qed
  qed
  moreover have "v \<in> us \<and> (\<exists>c. sh_files s' (log_path dir v) = Some c \<and> length c = n)"
    if v: "sh_sinks s' v = Some n" for v n
  proof -
    have "v \<noteq> u" "sh_sinks s v = Some n" using v sk by (auto split: if_splits)
    then have "v \<in> us" and c: "\<exists>c. sh_files s (log_path dir v) = Some c \<and> length c = n"
      using ok unfolding logs_ok_def by blast+
    have "sh_files s' (log_path dir v) = sh_files s (log_path dir v)"
      using \<open>v \<noteq> u\<close> \<open>v \<in> us\<close> u un log_path_inj log_not_generation by (intro m(3)) auto
    then show ?thesis using \<open>v \<in> us\<close> c by simp
  qed
  ultimately show ?thesis using un m(1) sk unfolding logs_ok_def by auto
qed

lemma log_write_cases:
  "log_write env dir r u line s =
     (case open_sink env dir u s of
        (s1, None) \<Rightarrow> s1
      | (s1, Some n) \<Rightarrow>
          (case open_sink env dir u
             (if should_rotate r n (length (log_record (l_now env) line))
              then (rotate_files env r dir u s1)\<lparr>sh_sinks := (sh_sinks s1)(u := None)\<rparr> else s1) of
             (s3, None) \<Rightarrow> s3
           | (s3, Some n3) \<Rightarrow> append_record env dir u (log_record (l_now env) line) n3 s3))"
  by (simp only: log_write_def Let_def)

lemma logs_ok_write:
  assumes ok: "logs_ok r dir us s" and u: "u \<in> us" and env: "all_ok env" and max: "rt_max_size r < u64_max"
    and len: "length (log_record (l_now env) line) \<le> u64_max"
  shows "logs_ok r dir us (log_write env dir r u line s)"
proof -
  let ?rec = "log_record (l_now env) line"
  have short: "l_short env = None" using env by (simp add: all_ok_def)
  obtain s1 r1 where o1: "open_sink env dir u s = (s1, r1)" by fastforce
  have ok1: "logs_ok r dir us s1" using open_sink_ok [OF ok u env o1] by (rule conjunct1)
  show ?thesis
  proof (cases r1)
    case None
    then show ?thesis using ok1 by (simp only: log_write_cases o1 prod.case option.case)
  next
    case (Some n)
    have n: "sh_sinks s1 u = Some n" using open_sink_ok [OF ok u env o1] Some by blast
    show ?thesis
    proof (cases "should_rotate r n (length ?rec)")
      case False
      have o2: "open_sink env dir u s1 = (s1, Some n)" using n by (simp add: open_sink_def)
      have fits: "n = 0 \<or> n + length ?rec \<le> rt_max_size r"
        using False max by (auto simp: should_rotate_def saturating_add64_def split: if_splits)
      have "log_write env dir r u line s = append_record env dir u ?rec n s1"
        by (simp only: log_write_cases o1 Some prod.case option.case False if_False o2)
      then show ?thesis using logs_ok_append [OF ok1 u short n refl len fits max] by simp
    next
      case True
      let ?s2 = "(rotate_files env r dir u s1)\<lparr>sh_sinks := (sh_sinks s1)(u := None)\<rparr>"
      note k2 = logs_ok_rotate [OF ok1 u env]
      obtain s3 r3 where o3: "open_sink env dir u ?s2 = (s3, r3)" by fastforce
      note k3 = open_sink_ok [OF conjunct1 [OF k2] u env o3]
      have w: "log_write env dir r u line s = (case (s3, r3) of (s3, None) \<Rightarrow> s3
          | (s3, Some n3) \<Rightarrow> append_record env dir u ?rec n3 s3)"
        by (simp only: log_write_cases o1 Some prod.case option.case True if_True o3)
      show ?thesis
      proof (cases r3)
        case None
        then show ?thesis using conjunct1 [OF k3] w by simp
      next
        case r3: (Some n3)
        have n3: "sh_sinks s3 u = Some n3" using k3 r3 by blast
        have "content (sh_files ?s2) (log_path dir u) = []" using k2 by (simp only: content_def option.case)
        then have "n3 = 0" using k3 r3 by force
        then have z: "n3 = 0 \<or> n3 + length ?rec \<le> rt_max_size r" by simp
        show ?thesis using logs_ok_append [OF conjunct1 [OF k3] u short n3 refl len z max] w r3 by simp
      qed
    qed
  qed
qed

section \<open>What is kept is the end of what was written\<close>

lemma takeWhile_digits: "takeWhile is_ascii_digit (rev (show_nat n) @ CHR ''.'' # xs) = rev (show_nat n)"
proof -
  have "\<forall>c \<in> set (rev (show_nat n)). is_ascii_digit c" using show_nat_set by auto
  moreover have "\<not> is_ascii_digit (CHR ''.'')" by (simp add: is_ascii_digit_def scalar_def)
  ultimately show ?thesis by (subst takeWhile_append2) auto
qed

lemma generation_unique:
  assumes "unit_name_ok u" and "unit_name_ok v"
  shows "generation dir u m = generation dir v n \<longleftrightarrow> u = v \<and> m = n"
proof
  assume "generation dir u m = generation dir v n"
  then have e: "u @ ''.log.'' @ show_nat m = v @ ''.log.'' @ show_nat n"
    using assms path_join_inj [of "u @ ''.log.'' @ show_nat m" "v @ ''.log.'' @ show_nat n" dir]
    by (simp add: generation_def unit_name_ok_def show_nat_no_slash)
  then have "rev (u @ ''.log.'' @ show_nat m) = rev (v @ ''.log.'' @ show_nat n)" by simp
  then have "rev (show_nat m) @ CHR ''.'' # ''gol.'' @ rev u = rev (show_nat n) @ CHR ''.'' # ''gol.'' @ rev v" by simp
  then have "show_nat m = show_nat n" using takeWhile_digits by (metis rev_rev_ident)
  then show "u = v \<and> m = n" using e by (simp add: show_nat_inj)
qed simp

section \<open>The reference: records packed into segments\<close>

text \<open>
  A unit's records in the order they are written, packed into segments, the newest first: a
  record goes to the end of the newest segment, unless that holds something and would grow
  beyond the limit; then it begins a new one.  The live file is the newest segment and
  generation \<open>n\<close> the \<open>n\<close>-th after it.
\<close>

fun pack_one :: "nat \<Rightarrow> string \<Rightarrow> string list \<Rightarrow> string list" where
  "pack_one limit rec [] = [rec]"
| "pack_one limit rec (seg # segs) =
     (if seg \<noteq> [] \<and> length seg + length rec > limit then rec # seg # segs else (seg @ rec) # segs)"

definition pack :: "nat \<Rightarrow> string list \<Rightarrow> string list" where
  "pack limit recs = fold (pack_one limit) recs []"

definition segment :: "string list \<Rightarrow> nat \<Rightarrow> string" where
  "segment segs n = (if n < length segs then segs ! n else [])"

lemma segment_simps [simp]:
  "segment [] n = []" "segment (x # xs) 0 = x" "segment (x # xs) (Suc n) = segment xs n"
  by (simp_all add: segment_def)

lemma pack_snoc: "pack limit (recs @ [rec]) = pack_one limit rec (pack limit recs)"
  by (simp add: pack_def)

lemma concat_pack_one: "concat (rev (pack_one limit rec segs)) = concat (rev segs) @ rec"
  by (cases segs) simp_all

lemma concat_pack: "concat (rev (pack limit recs)) = concat recs"
  by (induction recs rule: rev_induct) (simp_all add: pack_snoc concat_pack_one, simp add: pack_def)

text \<open>What the files and the tracked sizes say of segments \<open>segs v\<close> of each unit \<open>v\<close>.\<close>

definition holds :: "rotation \<Rightarrow> string \<Rightarrow> string \<Rightarrow> string list \<Rightarrow> (string \<Rightarrow> string option) \<Rightarrow> bool" where
  "holds r dir v segs fs \<longleftrightarrow> content fs (log_path dir v) = segment segs 0
     \<and> (\<forall>n. 1 \<le> n \<longrightarrow> n \<le> rt_keep r \<longrightarrow> content fs (generation dir v n) = segment segs n)"

definition tracked :: "string \<Rightarrow> shipper \<Rightarrow> bool" where
  "tracked dir s \<longleftrightarrow> (\<forall>u n. sh_sinks s u = Some n \<longrightarrow> unit_name_ok u
     \<and> min n u64_max = min (length (content (sh_files s) (log_path dir u))) u64_max)"

lemma holds_cong: "content fs = content fs' \<Longrightarrow> holds r dir v segs fs = holds r dir v segs fs'"
  by (simp add: holds_def)

lemma holds_rotated:
  assumes "unit_name_ok u" and "holds r dir u segs fs"
  shows "holds r dir u ([] # segs) (fold apply_move (rotation_plan r dir u) fs)"
proof -
  note m = plan_moves [OF assms(1), where r = r and dir = dir and fs = fs]
  have "content (fold apply_move (rotation_plan r dir u) fs) (generation dir u n) = segment ([] # segs) n"
    if "1 \<le> n" "n \<le> rt_keep r" for n
    using m(2) [OF that] that assms(2) by (cases n) (auto simp: content_def holds_def)
  then show ?thesis using m(1) by (simp add: holds_def content_def)
qed

text \<open>The files one unit's records go to are its own.\<close>

lemma plan_other_unit:
  assumes "unit_name_ok u" and "unit_name_ok v" and "u \<noteq> v"
  shows "holds r dir v segs (fold apply_move (rotation_plan r dir u) fs) = holds r dir v segs fs"
    and "content (fold apply_move (rotation_plan r dir u) fs) (log_path dir v) = content fs (log_path dir v)"
proof -
  note m = plan_moves(3) [OF assms(1), where r = r and dir = dir and fs = fs]
  show l: "content (fold apply_move (rotation_plan r dir u) fs) (log_path dir v) = content fs (log_path dir v)"
    using m [of "log_path dir v"] assms log_path_inj [of u v dir] log_not_generation [OF assms(2,1)]
    by (simp add: content_def)
  have "content (fold apply_move (rotation_plan r dir u) fs) (generation dir v n) = content fs (generation dir v n)" for n
  proof -
    have "fold apply_move (rotation_plan r dir u) fs (generation dir v n) = fs (generation dir v n)"
      by (rule m) (use assms generation_unique [OF assms(2,1)] log_not_generation [OF assms(1,2), of dir n] in auto)
    then show ?thesis by (simp add: content_def)
  qed
  then show "holds r dir v segs (fold apply_move (rotation_plan r dir u) fs) = holds r dir v segs fs"
    by (simp add: holds_def l)
qed

lemma open_sink_some:
  assumes "l_open env (log_path dir u)"
  shows "\<exists>s' n. open_sink env dir u s = (s', Some n) \<and> content (sh_files s') = content (sh_files s)"
proof (cases "sh_sinks s u")
  case None
  then show ?thesis using assms by (simp add: open_sink_def Let_def content_def fun_eq_iff)
next
  case (Some n)
  then show ?thesis by (simp add: open_sink_def)
qed

lemma open_sink_opens:
  assumes "l_open env (log_path dir u)" and "all_ok env" and "tracked dir s" and "unit_name_ok u"
  shows "\<exists>s' n. open_sink env dir u s = (s', Some n) \<and> content (sh_files s') = content (sh_files s)
    \<and> tracked dir s' \<and> sh_sinks s' u = Some n"
proof (cases "sh_sinks s u")
  case None
  then show ?thesis using assms by (auto simp: open_sink_def Let_def content_def fun_eq_iff tracked_def all_ok_def)
next
  case (Some n)
  then show ?thesis using assms(3) by (simp add: open_sink_def)
qed

lemma append_holds:
  assumes u: "unit_name_ok u" and v: "unit_name_ok v" and "l_short env = None" and h: "holds r dir v segs (sh_files s)"
  shows "holds r dir v (if u = v then (segment segs 0 @ rec) # tl segs else segs) (sh_files (append_record env dir u rec n s))"
proof -
  let ?fs = "(sh_files s)(log_path dir u \<mapsto> content (sh_files s) (log_path dir u) @ rec)"
  have f: "sh_files (append_record env dir u rec n s) = ?fs"
    using assms(3) by (simp add: append_record_def Let_def)
  have g: "content ?fs (generation dir v k) = content (sh_files s) (generation dir v k)" for k
    using log_not_generation [OF u v, of dir k] by (simp add: content_def)
  have l: "content ?fs (log_path dir v) = content (sh_files s) (log_path dir v) @ (if u = v then rec else [])"
    using log_path_inj [OF u v, of dir] by (auto simp: content_def)
  have "segment (x # tl segs) k = segment segs k" if "1 \<le> k" for x k
    using that by (cases k; cases segs) simp_all
  then show ?thesis using h unfolding f holds_def g l by auto
qed

lemma append_tracked:
  assumes "unit_name_ok u" and "l_short env = None" and "tracked dir s" and "sh_sinks s u = Some n"
  shows "tracked dir (append_record env dir u rec n s)"
proof -
  have n: "min n u64_max = min (length (content (sh_files s) (log_path dir u))) u64_max"
    using assms(3,4) by (simp add: tracked_def)
  have "min (saturating_add64 n (length rec)) u64_max
      = min (length (content (sh_files s) (log_path dir u) @ rec)) u64_max"
    using n by (auto simp: saturating_add64_def min_def split: if_splits)
  moreover have "log_path dir v = log_path dir u \<longleftrightarrow> v = u" if "unit_name_ok v" for v
    by (rule log_path_inj [OF that assms(1)])
  ultimately show ?thesis
    using assms
    by (auto simp: tracked_def append_record_def Let_def content_def split: if_splits)
qed

lemma rotate_tracked:
  assumes "unit_name_ok u" and "all_ok env" and "tracked dir s"
  shows "tracked dir ((rotate_files env r dir u s)\<lparr>sh_sinks := (sh_sinks s)(u := None)\<rparr>)"
  using assms plan_other_unit(2) [OF assms(1)] by (auto simp: tracked_def rotate_files_all_ok)

lemma should_rotate_segment:
  assumes "min n u64_max = min (length seg) u64_max" and "rt_max_size r < u64_max"
  shows "should_rotate r n add \<longleftrightarrow> seg \<noteq> [] \<and> length seg + add > rt_max_size r"
  using assms by (cases seg) (auto simp: should_rotate_def saturating_add64_def min_def split: if_splits)

text \<open>One record written, for every unit.\<close>

lemma write_packs:
  fixes line
  assumes u: "unit_name_ok u" and env: "all_ok env" and op: "l_open env (log_path dir u)" and t: "tracked dir s"
    and max: "rt_max_size r < u64_max" and h: "\<And>v. unit_name_ok v \<Longrightarrow> holds r dir v (segs v) (sh_files s)"
  defines "s' \<equiv> log_write env dir r u line s"
  shows "tracked dir s' \<and> (\<forall>v. unit_name_ok v \<longrightarrow> holds r dir v (if u = v
      then pack_one (rt_max_size r) (log_record (l_now env) line) (segs v) else segs v) (sh_files s'))"
proof -
  let ?rec = "log_record (l_now env) line"
  have short: "l_short env = None" using env by (simp add: all_ok_def)
  obtain s1 n where o1: "open_sink env dir u s = (s1, Some n)" "content (sh_files s1) = content (sh_files s)"
      "tracked dir s1" "sh_sinks s1 u = Some n"
    using open_sink_opens [OF op env t u] by blast
  let ?s2 = "if should_rotate r n (length ?rec)
      then (rotate_files env r dir u s1)\<lparr>sh_sinks := (sh_sinks s1)(u := None)\<rparr> else s1"
  have t2: "tracked dir ?s2" using o1(3) rotate_tracked [OF u env o1(3)] by simp
  obtain s3 n3 where o3: "open_sink env dir u ?s2 = (s3, Some n3)" "content (sh_files s3) = content (sh_files ?s2)"
      "tracked dir s3" "sh_sinks s3 u = Some n3"
    using open_sink_opens [OF op env t2 u] by blast
  have w: "s' = append_record env dir u ?rec n3 s3"
    by (simp only: s'_def log_write_cases o1(1) prod.case option.case o3(1))
  have h1: "unit_name_ok v \<Longrightarrow> holds r dir v (segs v) (sh_files s1)" for v
    using h holds_cong [OF o1(2)] by simp
  have "content (sh_files s1) (log_path dir u) = segment (segs u) 0" using h1 [OF u] by (simp add: holds_def)
  then have n: "min n u64_max = min (length (segment (segs u) 0)) u64_max"
    using o1(3,4) by (simp add: tracked_def)
  let ?rot = "segment (segs u) 0 \<noteq> [] \<and> length (segment (segs u) 0) + length ?rec > rt_max_size r"
  have rot: "should_rotate r n (length ?rec) \<longleftrightarrow> ?rot" by (rule should_rotate_segment [OF n max])
  have h2: "holds r dir v (if u = v \<and> ?rot then [] # segs v else segs v) (sh_files ?s2)" if v: "unit_name_ok v" for v
  proof (cases "u = v")
    case True
    then show ?thesis
      using h1 [OF u] holds_rotated [OF u, of r dir "segs u"] rot by (simp add: rotate_files_all_ok [OF env])
  next
    case False
    then show ?thesis using h1 [OF v] plan_other_unit(1) [OF u v False] by (simp add: rotate_files_all_ok [OF env])
  qed
  have "holds r dir v (if u = v then pack_one (rt_max_size r) ?rec (segs v) else segs v) (sh_files s')"
    if v: "unit_name_ok v" for v
  proof -
    have "holds r dir v (if u = v \<and> ?rot then [] # segs v else segs v) (sh_files s3)"
      using h2 [OF v] holds_cong [OF o3(2)] by simp
    note a = append_holds [OF u v short this, of ?rec n3]
    show ?thesis
    proof (cases "u = v")
      case True
      then show ?thesis using a by (cases "segs u") (auto simp: w split: if_splits)
    next
      case False
      then show ?thesis using a by (simp add: w)
    qed
  qed
  moreover have "tracked dir s'" unfolding w by (rule append_tracked [OF u short o3(3,4)])
  ultimately show ?thesis by blast
qed

section \<open>Runs\<close>

type_synonym log_op = "log_env \<times> string \<times> string"

definition run_log :: "string \<Rightarrow> rotation \<Rightarrow> log_op list \<Rightarrow> shipper \<Rightarrow> shipper" where
  "run_log dir r ops s = fold (\<lambda>(env, u, line). log_write env dir r u line) ops s"

text \<open>A unit's records, each with the time it was written at.\<close>

definition unit_entries :: "string \<Rightarrow> log_op list \<Rightarrow> (timestamp \<times> string) list" where
  "unit_entries v ops = map (\<lambda>(env, u, line). (l_now env, line)) (filter (\<lambda>(env, u, line). u = v) ops)"

definition records :: "(timestamp \<times> string) list \<Rightarrow> string list" where
  "records es = map (\<lambda>e. log_record (fst e) (snd e)) es"

definition op_ok :: "string \<Rightarrow> string set \<Rightarrow> log_op \<Rightarrow> bool" where
  "op_ok dir us op = (case op of (env, u, line) \<Rightarrow> u \<in> us \<and> unit_name_ok u \<and> all_ok env
     \<and> l_open env (log_path dir u) \<and> length (log_record (l_now env) line) \<le> u64_max)"

lemma run_log_ok:
  "list_all (op_ok dir us) ops \<Longrightarrow> logs_ok r dir us s \<Longrightarrow> rt_max_size r < u64_max \<Longrightarrow>
     logs_ok r dir us (run_log dir r ops s)"
  by (induction ops arbitrary: s) (auto simp: run_log_def op_ok_def logs_ok_write)

definition op_writes :: "string \<Rightarrow> log_op \<Rightarrow> bool" where
  "op_writes dir op = (case op of (env, u, line) \<Rightarrow> unit_name_ok u \<and> all_ok env \<and> l_open env (log_path dir u))"

lemma op_ok_writes: "list_all (op_ok dir us) ops \<Longrightarrow> list_all (op_writes dir) ops"
  by (auto simp: list_all_iff op_ok_def op_writes_def)

lemma run_log_packs:
  assumes "list_all (op_writes dir) ops" and "tracked dir s" and "rt_max_size r < u64_max"
    and "\<And>v. unit_name_ok v \<Longrightarrow> holds r dir v (segs v) (sh_files s)" and "unit_name_ok v"
  shows "holds r dir v (fold (pack_one (rt_max_size r)) (records (unit_entries v ops)) (segs v))
     (sh_files (run_log dir r ops s))"
  using assms
proof (induction ops arbitrary: s segs)
  case Nil
  then show ?case by (simp add: run_log_def unit_entries_def records_def)
next
  case (Cons op ops)
  obtain env u line where op: "op = (env, u, line)" by (cases op)
  have "unit_name_ok u" "all_ok env" "l_open env (log_path dir u)"
    using Cons.prems(1) by (simp_all add: op op_writes_def)
  note w = write_packs [OF this Cons.prems(2,3,4), of line]
  let ?segs = "\<lambda>v. if u = v then pack_one (rt_max_size r) (log_record (l_now env) line) (segs v) else segs v"
  have "holds r dir v (fold (pack_one (rt_max_size r)) (records (unit_entries v ops)) (?segs v))
      (sh_files (run_log dir r ops (log_write env dir r u line s)))"
    by (rule Cons.IH) (use Cons.prems w in auto)
  then show ?case by (simp add: op run_log_def unit_entries_def records_def split: if_splits)
qed

lemma fresh_holds:
  "tracked dir (shipper_new Map.empty)" "holds r dir v [] (sh_files (shipper_new Map.empty))"
  by (simp_all add: tracked_def shipper_new_def holds_def content_def)

text \<open>From an empty directory.\<close>

lemma run_log_packed:
  "list_all (op_writes dir) ops \<Longrightarrow> rt_max_size r < u64_max \<Longrightarrow> unit_name_ok v \<Longrightarrow>
     holds r dir v (pack (rt_max_size r) (records (unit_entries v ops))) (sh_files (run_log dir r ops (shipper_new Map.empty)))"
  using run_log_packs [OF _ fresh_holds(1) _ fresh_holds(2), of dir ops r v] by (simp add: pack_def)

section \<open>Properties\<close>

text \<open>C19.  Splitting a pipe's reads into lines does not depend on where the reads end: as long
  as every line is shorter than \<open>MAX_LINE\<close>, what is emitted and what is held are the lines
  of the whole.  With longer lines too, no byte but the newlines is lost or invented, no
  emitted line holds a newline, and less than \<open>MAX_LINE\<close> is ever held.\<close>

theorem splitter_splits_the_whole:
  "((\<forall>line \<in> set (split_on newline (concat reads)). length line < MAX_LINE) \<longrightarrow>
      push_chunks [] reads = (butlast (split_on newline (concat reads)), last (split_on newline (concat reads))))
    \<and> concat (fst (push_chunks [] reads)) @ snd (push_chunks [] reads) = filter (\<lambda>c. c \<noteq> newline) (concat reads)
    \<and> (\<forall>line \<in> set (fst (push_chunks [] reads)). newline \<notin> set line)
    \<and> length (snd (push_chunks [] reads)) < MAX_LINE"
proof -
  have h: "with_head [] (split_on newline s) = split_on newline s" for s
    by (simp add: with_head_def)
  have "(\<forall>line \<in> set (split_on newline (concat reads)). length line < MAX_LINE) \<longrightarrow>
      push_chunks [] reads = (butlast (split_on newline (concat reads)), last (split_on newline (concat reads)))"
    using push_chunks_whole [of "[]" reads] push_loop_pieces [of "[]" "concat reads"] by (simp only: h) blast
  moreover have "concat (fst (push_chunks [] reads)) @ snd (push_chunks [] reads) = filter (\<lambda>c. c \<noteq> newline) (concat reads)"
    using push_chunks_bytes [of "[]" reads] by simp
  moreover have "\<forall>line \<in> set (fst (push_chunks [] reads)). newline \<notin> set line"
    by (rule push_chunks_no_newline) simp
  moreover have "length (snd (push_chunks [] reads)) < MAX_LINE"
    by (rule push_chunks_held) (simp add: MAX_LINE_def)
  ultimately show ?thesis by blast
qed

theorem splitter_splits_the_whole_witness:
  "push_chunks [] [''he'', ''llo'' @ [newline] @ ''wor'', ''ld''] = ([''hello''], ''world'')"
  using splitter_splits_the_whole [of "[''he'', ''llo'' @ [newline] @ ''wor'', ''ld'']"]
  by (simp add: MAX_LINE_def)

text \<open>C20.  A unit's logs are a bounded tail of what it wrote.  From an empty directory, after any
  records of any units, and as long as every call on the files succeeds: every file is a
  unit's live file or one of its generations and is within the limit or a single record; and
  the live file holds exactly the newest segment of the unit's records, generation \<open>n\<close> the
  \<open>n\<close>-th segment before it, so that all that is gone is the segments older than the
  generations kept.  (A file system on which calls fail can lose more: see \<open>append_record\<close>
  and the failing moves of \<open>rotate_files\<close>.)\<close>

theorem logs_are_a_bounded_tail:
  fixes dir us ops r
  assumes "list_all (op_ok dir us) ops" and "\<forall>u \<in> us. unit_name_ok u" and "rt_max_size r < u64_max"
  defines "fs \<equiv> sh_files (run_log dir r ops (shipper_new Map.empty))"
  defines "segs \<equiv> \<lambda>u. pack (rt_max_size r) (records (unit_entries u ops))"
  shows "(\<forall>p c. fs p = Some c \<longrightarrow> p \<in> log_names r dir us \<and> file_bounded r c)
    \<and> (\<forall>u \<in> us. content fs (log_path dir u) = segment (segs u) 0
         \<and> (\<forall>n \<in> {1..rt_keep r}. content fs (generation dir u n) = segment (segs u) n)
         \<and> concat (rev (segs u)) = concat (records (unit_entries u ops)))"
proof -
  have "logs_ok r dir us (shipper_new Map.empty)"
    using assms(2) by (simp add: logs_ok_def shipper_new_def)
  then have "logs_ok r dir us (run_log dir r ops (shipper_new Map.empty))"
    using run_log_ok [OF assms(1) _ assms(3)] by blast
  moreover have "holds r dir u (segs u) fs" if "u \<in> us" for u
    unfolding fs_def segs_def
    by (rule run_log_packed [OF op_ok_writes [OF assms(1)] assms(3)]) (use assms(2) that in blast)
  ultimately show ?thesis unfolding logs_ok_def fs_def holds_def segs_def by (simp add: concat_pack)
qed

definition sample_log_env :: log_env where
  "sample_log_env = \<lparr>l_now = \<lparr>ts_secs = 1, ts_micros = 9\<rparr>, l_open = (\<lambda>_. True), l_meta = (\<lambda>_. True),
     l_move = (\<lambda>_. True), l_short = None\<rparr>"

definition sample_log_ops :: "log_op list" where
  "sample_log_ops = [(sample_log_env, ''a'', ''up''), (sample_log_env, ''b'', ''x''), (sample_log_env, ''a'', ''down'')]"

text \<open>Two records of 12 and 14 bytes and a limit of 20: the first is in the generation, the second
  in the live file.\<close>

theorem logs_are_a_bounded_tail_witness:
  "content (sh_files (run_log ''/l'' \<lparr>rt_max_size = 20, rt_keep = 1\<rparr> sample_log_ops (shipper_new Map.empty)))
       (log_path ''/l'' ''a'') = ''1.000009 down'' @ [newline]
   \<and> content (sh_files (run_log ''/l'' \<lparr>rt_max_size = 20, rt_keep = 1\<rparr> sample_log_ops (shipper_new Map.empty)))
       (generation ''/l'' ''a'' 1) = ''1.000009 up'' @ [newline]"
proof -
  let ?r = "\<lparr>rt_max_size = 20, rt_keep = 1\<rparr>"
  note d = log_record_def pad6_def show_nat.simps [of 1] show_nat.simps [of 9] show_nat.simps [of "Suc 0"] sample_log_env_def
  have "list_all (op_ok ''/l'' {''a'', ''b''}) sample_log_ops"
    by (simp add: sample_log_ops_def op_ok_def unit_name_ok_def all_ok_def d u64_max_def)
  moreover have "\<forall>u \<in> {''a'', ''b''}. unit_name_ok u" by (simp add: unit_name_ok_def)
  moreover have "rt_max_size ?r < u64_max" by (simp add: u64_max_def)
  moreover have "digit_char (Suc 0) = CHR ''1''" "digit_char 9 = CHR ''9''" "replicate 5 CHR ''0'' = ''00000''"
    by code_simp+
  then have "pack 20 (records (unit_entries ''a'' sample_log_ops)) = [''1.000009 down'' @ [newline], ''1.000009 up'' @ [newline]]"
    by (simp add: pack_def records_def unit_entries_def sample_log_ops_def d)
  ultimately show ?thesis
    using logs_are_a_bounded_tail [of "''/l''" "{''a'', ''b''}" sample_log_ops ?r] by simp
qed

end
