(* ===== verification/Client.thy ===== *)
theory Client
  imports MainLoop LogDaemon
begin

text \<open>
  The command line client, \<open>crates/oxctl/src/main.rs\<close>: what its arguments ask for, the one
  request and one reply it exchanges with a manager, the log it reads itself, and what it
  prints.  \<open>client_world\<close> is what the system answers.  The last sections put the client and
  the manager of \<open>MainLoop\<close> on the two ends of one connection, and the client and the log
  daemon on the two sides of one file.
\<close>

section \<open>The command line\<close>

definition USAGE :: string where
  "USAGE = join_with [newline]
     [''usage: oxctl [--user] <command> [unit]'',
      '''',
      ''commands:'',
      ''  list              every unit oxinit knows about'',
      ''  status [unit]     one unit in detail, or all of them'',
      ''  start <unit>      start a unit now'',
      ''  stop <unit>       stop a unit; the restart policy does not apply'',
      ''  restart <unit>    stop, then start once it is down'',
      ''  logs <unit>       what the unit has written, from /var/log/oxinit'',
      ''  reload            re-read the unit directories'',
      ''  --version         which build this is'',
      '''',
      ''--user talks to your own user manager (oxinit --user) instead of PID 1, and'',
      ''`logs` reads from ~/.local/state/oxinit/log.'',
      '''',
      ''`logs` reads the file directly. It does not go through oxinit: the control'',
      ''socket has to stay responsive, and bulk data is what would stop it being.'',
      '''',
      ''oxinit answers immediately. `stop` means the stop was asked for, not that'',
      ''it has finished '' @ em_dash @ '' a unit is not stopped until its cgroup is empty.'']"

definition with_usage :: "string \<Rightarrow> string" where
  "with_usage message = message @ [newline, newline] @ USAGE"

text \<open>\<open>-n N\<close>, if given: the argument after the first \<open>-n\<close>, when it is a number.\<close>

definition client_tail :: "string list \<Rightarrow> nat option" where
  "client_tail args =
     (case dropWhile (\<lambda>a. a \<noteq> ''-n'') args of
        _ # value # _ \<Rightarrow> parse_uint usize_max value
      | _ \<Rightarrow> None)"

text \<open>The \<open>match (command, unit)\<close> of \<open>run\<close>: each arm as a value.\<close>

datatype command =
    Ask request
  | ShowLog string "nat option"
  | ShowVersion
  | ShowUsage
  | Refuse string

definition parse_command :: "string list \<Rightarrow> command" where
  "parse_command args =
     (let verb = (case args of [] \<Rightarrow> '''' | a # _ \<Rightarrow> a);
          target = (case args of _ # u # _ \<Rightarrow> Some u | _ \<Rightarrow> None) in
      if verb = ''list'' then Ask RList
      else if verb = ''status'' then (case target of None \<Rightarrow> Ask RList | Some u \<Rightarrow> Ask (RStatus u))
      else if verb = ''reload'' then Ask RReload
      else if verb = ''logs'' then
        (case target of
           Some u \<Rightarrow> ShowLog u (client_tail args)
         | None \<Rightarrow> Refuse (with_usage ''logs needs a unit name''))
      else if verb \<in> {''start'', ''stop'', ''restart''} then
        (case target of
           Some u \<Rightarrow> Ask ((if verb = ''start'' then RStart else if verb = ''stop'' then RStop else RRestart) u)
         | None \<Rightarrow> Refuse (with_usage (verb @ '' needs a unit name'')))
      else if verb \<in> {''--version'', ''-V''} then ShowVersion
      else if verb \<in> {'''', ''help'', ''--help'', ''-h''} then ShowUsage
      else Refuse (with_usage (''unknown command `'' @ verb @ ''`'')))"

section \<open>The system\<close>

record client_world =
  cw_version :: string
  cw_file :: "string \<Rightarrow> file_answer"
  cw_socket :: "string option"
  cw_addr :: "string \<Rightarrow> string option"
  cw_connect :: "string \<Rightarrow> string option"
  cw_send :: "string option"
  cw_peer :: "string \<Rightarrow> string + string \<times> nat"

text \<open>The JSON of the two messages, from the client's side.\<close>

record client_json =
  cj_request :: "request \<Rightarrow> string + string"
  cj_response :: "string \<Rightarrow> string + response"

section \<open>Logs\<close>

definition client_logs :: "client_world \<Rightarrow> paths \<Rightarrow> string \<Rightarrow> nat option \<Rightarrow> string + string list" where
  "client_logs w p u n =
     (let path = log_path (pt_log_dir p) u in
      case cw_file w path of
        NotFound \<Rightarrow> Inl (''no logs for `'' @ u @ ''` at '' @ path @ [newline] @
          ''is oxlogd running, and does the unit declare `output = '' @ [dquote] @ ''log'' @ [dquote] @ ''`?'')
      | Unreadable e \<Rightarrow> Inl (''read '' @ path @ '': '' @ e)
      | Contents body \<Rightarrow>
          (let ls = text_lines body; start = (case n of None \<Rightarrow> 0 | Some k \<Rightarrow> length ls - k) in
           Inr (drop start ls)))"

section \<open>One request, one reply\<close>

definition NO_ANSWER :: string where
  "NO_ANSWER = ''oxinit closed the connection without answering''"

definition connect_hint :: "paths \<Rightarrow> string" where
  "connect_hint p =
     (if is_user p
      then ''is your user manager running? It is `oxinit --user`, started with your session''
      else ''is oxinit running as PID 1, and are you root?'')"

definition client_exchange :: "client_json \<Rightarrow> client_world \<Rightarrow> paths \<Rightarrow> request \<Rightarrow> string + response" where
  "client_exchange cj w p r =
     (case ipc_encode (cj_request cj) r of
        Inl e \<Rightarrow> Inl (show_ipc_error e)
      | Inr body \<Rightarrow>
          (case cw_socket w of
             Some e \<Rightarrow> Inl (''socket: '' @ e)
           | None \<Rightarrow>
               (let control = control_path p in
                case cw_addr w control of
                  Some e \<Rightarrow> Inl (control @ '': '' @ e)
                | None \<Rightarrow>
                    (case cw_connect w control of
                       Some e \<Rightarrow> Inl (''connect '' @ control @ '': '' @ e @ [newline] @ connect_hint p)
                     | None \<Rightarrow>
                         (case cw_send w of
                            Some e \<Rightarrow> Inl (''send: '' @ e)
                          | None \<Rightarrow>
                              (case cw_peer w body of
                                 Inl e \<Rightarrow> Inl (''recv: '' @ e)
                               | Inr (bytes, sent) \<Rightarrow>
                                   if bytes = [] then Inl NO_ANSWER
                                   else if sent > MAX_MESSAGE then
                                     Inl (''oxinit sent '' @ show_nat sent @ '' bytes, over the '' @
                                       show_nat MAX_MESSAGE @ '' limit'')
                                   else (case ipc_decode (cj_response cj) bytes of
                                           Inl e \<Rightarrow> Inl (show_ipc_error e)
                                         | Inr answer \<Rightarrow> Inr answer)))))))"

section \<open>Printing\<close>

definition pad_right :: "nat \<Rightarrow> string \<Rightarrow> string" where
  "pad_right n s = s @ replicate (n - length s) (CHR '' '')"

definition compact_line :: "nat \<Rightarrow> unit_status \<Rightarrow> string" where
  "compact_line width u =
     pad_right width (st_name u) @ ''  '' @ pad_right 8 (st_kind u) @ ''  '' @
     pad_right 12 (st_state u) @ ''  '' @ st_description u"

definition optional_line :: "('a \<Rightarrow> string) \<Rightarrow> 'a option \<Rightarrow> string list" where
  "optional_line f v = (case v of None \<Rightarrow> [] | Some x \<Rightarrow> [f x])"

definition full_lines :: "unit_status \<Rightarrow> string list" where
  "full_lines u =
     [st_name u @ '' ('' @ st_kind u @ '')'',
      ''  description  '' @ st_description u,
      ''  state        '' @ st_state u]
     @ optional_line (\<lambda>pid. ''  pid          '' @ show_nat pid) (st_pid u)
     @ (if st_restarts u > 0 then [''  restarts     '' @ show_nat (st_restarts u)] else [])
     @ optional_line (\<lambda>status. ''  status       '' @ status) (st_status u)
     @ optional_line (\<lambda>n. ''  next         in '' @ show_nat n @ ''s'') (st_next_elapse u)
     @ optional_line (\<lambda>m. ''  memory       '' @ show_nat m @ '' bytes'') (st_memory u)
     @ optional_line (\<lambda>t. ''  tasks        '' @ show_nat t) (st_tasks u)"

definition print_units :: "unit_status list \<Rightarrow> bool \<Rightarrow> string list" where
  "print_units us compact =
     (if us = [] then [''no units'']
      else if compact then
        (let width = foldr max (map (\<lambda>u. length (st_name u)) us) 0 in map (compact_line width) us)
      else concat (map full_lines us))"

definition show_response :: "request \<Rightarrow> response \<Rightarrow> string + string list" where
  "show_response r answer =
     (case answer of
        Units us \<Rightarrow> Inr (print_units us (r = RList))
      | Accepted message \<Rightarrow> Inr [message]
      | RError message \<Rightarrow> Inl message)"

section \<open>The program\<close>

definition client_run :: "client_json \<Rightarrow> client_world \<Rightarrow> paths \<Rightarrow> string list \<Rightarrow> string + string list" where
  "client_run cj w p args =
     (case parse_command args of
        Ask r \<Rightarrow> (case client_exchange cj w p r of Inl e \<Rightarrow> Inl e | Inr answer \<Rightarrow> show_response r answer)
      | ShowLog u n \<Rightarrow> client_logs w p u n
      | ShowVersion \<Rightarrow> Inr [''oxctl '' @ cw_version w]
      | ShowUsage \<Rightarrow> Inr [USAGE]
      | Refuse message \<Rightarrow> Inl message)"

definition show_paths_error :: "paths_error \<Rightarrow> string" where
  "show_paths_error e =
     (case e of
        NoRuntimeDir \<Rightarrow> ''XDG_RUNTIME_DIR is not set; a user manager keeps its sockets there, '' @
          ''and a login session sets it (pam_elogind, pam_rundir, pam_systemd)''
      | RelativeRuntimeDir dir \<Rightarrow> ''XDG_RUNTIME_DIR is `'' @ dir @ ''`, which is not an absolute path''
      | NoHome name \<Rightarrow> ''HOME is not set or not absolute, and '' @ name @ '' is not set either'')"

datatype client_exit = ExitSuccess "string list" | ExitFailure string

definition client_main ::
    "client_json \<Rightarrow> client_world \<Rightarrow> (string \<Rightarrow> string option) \<Rightarrow> string list \<Rightarrow> client_exit" where
  "client_main cj w env argv =
     (let args = filter (\<lambda>a. a \<noteq> ''--user'') argv in
      case (if ''--user'' \<in> set argv then user_paths env else Inr system_paths) of
        Inl e \<Rightarrow> ExitFailure (''oxctl: --user: '' @ show_paths_error e)
      | Inr p \<Rightarrow> (case client_run cj w p args of
            Inr printed \<Rightarrow> ExitSuccess printed
          | Inl message \<Rightarrow> ExitFailure (''oxctl: '' @ message)))"

section \<open>The client and the manager\<close>

text \<open>What the client receives when its message reaches the manager on the connection \<open>i\<close>: the
  reply, cut to the client's buffer, with its size; nothing when the connection is closed
  without one.\<close>

definition with_message :: "string \<Rightarrow> answers \<Rightarrow> answers" where
  "with_message body an = an\<lparr>an_recv := (\<lambda>_. Some (body, length body))\<rparr>"

definition manager_reply :: "json \<Rightarrow> answers \<Rightarrow> 32 word \<Rightarrow> pid1 \<Rightarrow> string \<Rightarrow> string \<times> nat" where
  "manager_reply js an i s body =
     (case drop (length (p_replies s)) (p_replies (on_request js (with_message body an) i s)) of
        [] \<Rightarrow> ([], 0)
      | (_, bytes) # _ \<Rightarrow> (take MAX_MESSAGE bytes, length bytes))"

text \<open>The two sides use the same encoding; no message of it is empty.\<close>

definition json_agrees :: "client_json \<Rightarrow> json \<Rightarrow> bool" where
  "json_agrees cj js \<longleftrightarrow>
     (\<forall>r b. cj_request cj r = Inr b \<longrightarrow> js_request js b = Inr r \<and> b \<noteq> [])
     \<and> (\<forall>x b. js_response js x = Inr b \<longrightarrow> cj_response cj b = Inr x \<and> b \<noteq> [])"

text \<open>A client whose socket calls succeed and whose peer is the manager in state \<open>s\<close>.\<close>

definition connected_to :: "json \<Rightarrow> answers \<Rightarrow> 32 word \<Rightarrow> pid1 \<Rightarrow> client_world \<Rightarrow> paths \<Rightarrow> bool" where
  "connected_to js an i s w p \<longleftrightarrow>
     cw_socket w = None \<and> cw_addr w (control_path p) = None \<and> cw_connect w (control_path p) = None
     \<and> cw_send w = None \<and> cw_peer w = (\<lambda>body. Inr (manager_reply js an i s body))"

lemma on_request_reply:
  assumes "p_control s = Some c" and "control_fd c i = Some fd" and "js_request js body = Inr r"
    and "body \<noteq> []" and "length body \<le> MAX_MESSAGE"
    and "handle (an_env an) (an_loaded an) (js_texts js) r (p_sup s) = (sp, answer)"
  shows "p_sup (on_request js (with_message body an) i s) = sp"
    and "p_replies (on_request js (with_message body an) i s) = p_replies s @
      (case js_response js answer of
         Inr b \<Rightarrow> if length b \<le> MAX_MESSAGE then [(fd, b)] else [] | Inl _ \<Rightarrow> [])"
proof -
  have recv: "control_recv (an_recv (with_message body an)) c i = Some body"
    using assms(2,4,5) by (auto simp: control_recv_def with_message_def control_fd_def)
  have "respond js (an_env (with_message body an)) (an_loaded (with_message body an)) body (p_sup s) = (sp, answer)"
    using assms(3,6) by (simp add: respond_def ipc_decode_def with_message_def)
  then show "p_sup (on_request js (with_message body an) i s) = sp"
    and "p_replies (on_request js (with_message body an) i s) = p_replies s @
      (case js_response js answer of
         Inr b \<Rightarrow> if length b \<le> MAX_MESSAGE then [(fd, b)] else [] | Inl _ \<Rightarrow> [])"
    using assms(1,2) recv
    by (cases "js_response js answer"; simp add: on_request_def Let_def control_reply_def ipc_encode_def)+
qed

section \<open>The client and the log daemon\<close>

definition printed :: "timestamp \<times> string \<Rightarrow> string" where
  "printed e = strip_cr (butlast (log_record (fst e) (snd e)))"

lemma log_record_butlast: "log_record at line = butlast (log_record at line) @ [newline]"
  by (simp add: log_record_def butlast_append)

lemma newline_not_digit: "newline \<notin> set (show_nat n)"
  using show_nat_set [of newline n] by (auto simp: is_ascii_digit_def scalar_def)

lemma log_record_one_line: "newline \<notin> set line \<Longrightarrow> newline \<notin> set (butlast (log_record at line))"
  by (auto simp: log_record_def butlast_append pad6_def newline_not_digit)

lemma text_lines_records:
  "\<forall>e \<in> set es. newline \<notin> set (snd e) \<Longrightarrow>
     text_lines (concat (map (\<lambda>e. log_record (fst e) (snd e)) es)) = map printed es"
proof (induction es)
  case Nil
  then show ?case by (simp add: text_lines_def)
next
  case (Cons e es)
  let ?r = "butlast (log_record (fst e) (snd e))" and ?t = "concat (map (\<lambda>e. log_record (fst e) (snd e)) es)"
  have "newline \<notin> set ?r" using Cons.prems log_record_one_line by simp
  then have "split_on newline (?r @ newline # ?t) = ?r # split_on newline ?t" by (rule split_on_append)
  moreover have "concat (map (\<lambda>e. log_record (fst e) (snd e)) (e # es)) = ?r @ newline # ?t"
    by (simp, subst log_record_butlast) simp
  moreover have "text_lines ?t = map printed es" using Cons by simp
  ultimately show ?case by (simp only: text_lines_def Let_def) (simp add: printed_def [of e] split: if_splits)
qed

text \<open>One record: the live file of the unit grows by it, or starts over with it; other units'
  live files stay.\<close>

lemma live_write:
  assumes "unit_name_ok u" and "unit_name_ok v" and env: "all_ok env" and "l_open env (log_path dir u)"
  shows "content (sh_files (log_write env dir r u line s)) (log_path dir v) \<in>
    (if u = v then {content (sh_files s) (log_path dir v) @ log_record (l_now env) line, log_record (l_now env) line}
     else {content (sh_files s) (log_path dir v)})"
proof -
  let ?rec = "log_record (l_now env) line"
  have short: "l_short env = None" using env by (simp add: all_ok_def)
  obtain s1 n where o1: "open_sink env dir u s = (s1, Some n)" "content (sh_files s1) = content (sh_files s)"
    using open_sink_some [OF assms(4)] by blast
  let ?s2 = "if should_rotate r n (length ?rec)
      then (rotate_files env r dir u s1)\<lparr>sh_sinks := (sh_sinks s1)(u := None)\<rparr> else s1"
  obtain s3 n3 where o3: "open_sink env dir u ?s2 = (s3, Some n3)" "content (sh_files s3) = content (sh_files ?s2)"
    using open_sink_some [OF assms(4)] by blast
  have w: "log_write env dir r u line s = append_record env dir u ?rec n3 s3"
    by (simp only: log_write_cases o1(1) prod.case option.case o3(1))
  have same: "log_path dir u = log_path dir v \<longleftrightarrow> u = v" using log_path_inj [OF assms(1,2)] .
  have after: "content (sh_files (append_record env dir u ?rec n3 s3)) (log_path dir v) =
      content (sh_files ?s2) (log_path dir v) @ (if u = v then ?rec else [])"
    using short same o3(2) by (auto simp: append_record_def content_def Let_def fun_eq_iff)
  note m = plan_moves [OF assms(1), where r = r and dir = dir and fs = "sh_files s1"]
  have "content (sh_files ?s2) (log_path dir v) =
      (if should_rotate r n (length ?rec) \<and> u = v then [] else content (sh_files s) (log_path dir v))"
  proof (cases "should_rotate r n (length ?rec)")
    case True
    have f: "sh_files ?s2 = fold apply_move (rotation_plan r dir u) (sh_files s1)"
      using True rotate_files_all_ok [OF env] by simp
    show ?thesis
    proof (cases "u = v")
      case True
      then show ?thesis using \<open>should_rotate r n (length ?rec)\<close> m(1) unfolding f by (simp add: content_def)
    next
      case False
      have "fold apply_move (rotation_plan r dir u) (sh_files s1) (log_path dir v) = sh_files s1 (log_path dir v)"
        using False same log_not_generation [OF assms(2,1)] by (intro m(3)) auto
      then show ?thesis using False fun_cong [OF o1(2), of "log_path dir v"] unfolding f by (simp add: content_def)
    qed
  next
    case False
    then show ?thesis using o1(2) by simp
  qed
  then show ?thesis by (simp add: w after)
qed

lemma unit_entries_snoc:
  "unit_entries v (ops @ [(env, u, line)]) = unit_entries v ops @ (if u = v then [(l_now env, line)] else [])"
  by (simp add: unit_entries_def)

lemma live_run:
  assumes "list_all (op_ok dir us) ops" and "unit_name_ok v"
  shows "\<exists>m. (unit_entries v ops \<noteq> [] \<longrightarrow> m < length (unit_entries v ops)) \<and>
    content (sh_files (run_log dir r ops (shipper_new Map.empty))) (log_path dir v) =
      concat (map (\<lambda>e. log_record (fst e) (snd e)) (drop m (unit_entries v ops)))"
  using assms(1)
proof (induction ops rule: rev_induct)
  case Nil
  then show ?case by (simp add: run_log_def shipper_new_def content_def unit_entries_def)
next
  case (snoc op ops)
  obtain env u line where op: "op = (env, u, line)" by (cases op)
  let ?s = "run_log dir r ops (shipper_new Map.empty)" and ?rec = "(l_now env, line)"
  obtain m where m: "unit_entries v ops \<noteq> [] \<longrightarrow> m < length (unit_entries v ops)"
    "content (sh_files ?s) (log_path dir v) =
       concat (map (\<lambda>e. log_record (fst e) (snd e)) (drop m (unit_entries v ops)))"
    using snoc by auto
  have ok: "unit_name_ok u" "all_ok env" "l_open env (log_path dir u)" using snoc.prems by (auto simp: op op_ok_def)
  have run: "run_log dir r (ops @ [op]) (shipper_new Map.empty) = log_write env dir r u line ?s"
    by (simp add: run_log_def op)
  note w = live_write [OF ok(1) assms(2) ok(2,3), of r line ?s]
  show ?case
  proof (cases "u = v")
    case False
    then have "content (sh_files (run_log dir r (ops @ [op]) (shipper_new Map.empty))) (log_path dir v) =
        content (sh_files ?s) (log_path dir v)" using w unfolding run by simp
    moreover have "unit_entries v (ops @ [op]) = unit_entries v ops" using False by (simp add: op unit_entries_snoc)
    ultimately show ?thesis using m by (simp only:) blast
  next
    case True
    let ?es = "unit_entries v ops" and ?f = "\<lambda>e. log_record (fst e) (snd e)"
    have es: "unit_entries v (ops @ [op]) = ?es @ [?rec]" using True by (simp add: op unit_entries_snoc)
    have grown: "concat (map ?f (drop (min m (length ?es)) (?es @ [?rec]))) =
        content (sh_files ?s) (log_path dir v) @ ?f ?rec"
      using m(2) by (cases "m \<le> length ?es") (simp_all add: min_def)
    have fresh: "concat (map ?f (drop (length ?es) (?es @ [?rec]))) = ?f ?rec" by simp
    consider "content (sh_files (log_write env dir r u line ?s)) (log_path dir v) =
        content (sh_files ?s) (log_path dir v) @ ?f ?rec"
      | "content (sh_files (log_write env dir r u line ?s)) (log_path dir v) = ?f ?rec"
      using w True by auto
    then show ?thesis
    proof cases
      case 1
      then show ?thesis unfolding run es using grown by (intro exI [of _ "min m (length ?es)"]) simp
    next
      case 2
      then show ?thesis unfolding run es using fresh by (intro exI [of _ "length ?es"]) simp
    qed
  qed
qed

section \<open>Properties\<close>

text \<open>C36.  From the command line to the manager and back.  When a command asks the manager for
  something, its encoding fits a message, and the client is connected, the manager handles
  exactly that request, once, and the client prints exactly the manager's answer to it; an
  answer that cannot be encoded or is over the limit shows as a connection closed without an
  answer.\<close>

theorem client_sees_the_managers_answer:
  assumes "json_agrees cj js" and "p_control s = Some c" and "control_fd c i = Some fd"
    and "parse_command args = Ask r" and "cj_request cj r = Inr body" and "length body \<le> MAX_MESSAGE"
    and "connected_to js an i s w p"
    and "handle (an_env an) (an_loaded an) (js_texts js) r (p_sup s) = (sp, answer)"
  shows "p_sup (on_request js (with_message body an) i s) = sp
    \<and> client_run cj w p args =
      (case js_response js answer of
         Inl _ \<Rightarrow> Inl NO_ANSWER
       | Inr b \<Rightarrow> if length b \<le> MAX_MESSAGE then show_response r answer else Inl NO_ANSWER)"
proof -
  have req: "js_request js body = Inr r" "body \<noteq> []" using assms(1,5) by (auto simp: json_agrees_def)
  note m = on_request_reply [OF assms(2,3) req assms(6,8)]
  have exch: "client_exchange cj w p r =
      (case manager_reply js an i s body of (bytes, sent) \<Rightarrow>
         if bytes = [] then Inl NO_ANSWER
         else if sent > MAX_MESSAGE then
           Inl (''oxinit sent '' @ show_nat sent @ '' bytes, over the '' @ show_nat MAX_MESSAGE @ '' limit'')
         else (case ipc_decode (cj_response cj) bytes of Inl e \<Rightarrow> Inl (show_ipc_error e) | Inr a \<Rightarrow> Inr a))"
    using assms(5-7) by (simp add: client_exchange_def ipc_encode_def connected_to_def)
  have "client_run cj w p args =
      (case js_response js answer of
         Inl _ \<Rightarrow> Inl NO_ANSWER
       | Inr b \<Rightarrow> if length b \<le> MAX_MESSAGE then show_response r answer else Inl NO_ANSWER)"
  proof (cases "js_response js answer")
    case (Inl e)
    then show ?thesis using m(2) by (simp add: client_run_def assms(4) exch manager_reply_def)
  next
    case (Inr b)
    then have b: "cj_response cj b = Inr answer" "b \<noteq> []" using assms(1) by (auto simp: json_agrees_def)
    show ?thesis
      using m(2) Inr b by (simp add: client_run_def assms(4) exch manager_reply_def ipc_decode_def)
  qed
  with m(1) show ?thesis by blast
qed

definition sample_client_json :: client_json where
  "sample_client_json = \<lparr>cj_request = (\<lambda>r. if r = RList then Inr ''list'' else Inl ''no''),
     cj_response = (\<lambda>b. case b of c # m \<Rightarrow> Inr (RError m) | [] \<Rightarrow> Inl ''empty'')\<rparr>"

definition sample_server_json :: json where
  "sample_server_json = \<lparr>js_request = (\<lambda>b. if b = ''list'' then Inr RList else Inl ''bad''),
     js_response = (\<lambda>x. case x of RError m \<Rightarrow> Inr (CHR ''e'' # m) | _ \<Rightarrow> Inl ''no''), js_texts = (\<lambda>_. [])\<rparr>"

definition sample_world :: "(string \<Rightarrow> string + string \<times> nat) \<Rightarrow> client_world" where
  "sample_world peer = \<lparr>cw_version = ''1'', cw_file = (\<lambda>_. NotFound), cw_socket = None, cw_addr = (\<lambda>_. None),
     cw_connect = (\<lambda>_. None), cw_send = None, cw_peer = peer\<rparr>"

theorem client_sees_the_managers_answer_witness:
  "client_run sample_client_json
     (sample_world (\<lambda>body. Inr (manager_reply sample_server_json sample_answers 0
        (sample_pid1 (Some (fold control_step [CtAccept (Some 7)] control_bind))) body)))
     system_paths [''list''] = Inl NO_ANSWER"
proof -
  let ?s = "sample_pid1 (Some (fold control_step [CtAccept (Some 7)] control_bind))"
  let ?w = "sample_world (\<lambda>body. Inr (manager_reply sample_server_json sample_answers 0 ?s body))"
  have j: "json_agrees sample_client_json sample_server_json"
    by (auto simp: json_agrees_def sample_client_json_def sample_server_json_def split: response.splits if_splits)
  have c: "p_control ?s = Some (fold control_step [CtAccept (Some 7)] control_bind)"
    "control_fd (fold control_step [CtAccept (Some 7)] control_bind) 0 = Some 7"
    by (simp_all add: sample_pid1_def control_step_def control_accept_def control_bind_def MAX_CLIENTS_def
        control_fd_def control_client_def)
  have a: "parse_command [''list''] = Ask RList" by (simp add: parse_command_def)
  have b: "cj_request sample_client_json RList = Inr ''list''" "length ''list'' \<le> MAX_MESSAGE"
    by (simp_all add: sample_client_json_def MAX_MESSAGE_def)
  have w: "connected_to sample_server_json sample_answers 0 ?s ?w system_paths"
    by (simp add: connected_to_def sample_world_def)
  obtain sp answer where h: "handle (an_env sample_answers) (an_loaded sample_answers)
      (js_texts sample_server_json) RList (p_sup ?s) = (sp, answer)" by fastforce
  have "\<exists>us. answer = Units us" using h by (auto simp: handle_def)
  then show ?thesis
    using client_sees_the_managers_answer [OF j c a b w h] by (auto simp: sample_server_json_def)
qed

text \<open>C40.  What \<open>oxctl logs\<close> prints is what the log daemon wrote.  After any records of any units
  written from an empty directory, none holding a newline, it prints the records of the unit
  that are still in its live file, one to a line and in order, the last \<open>N\<close> of them with
  \<open>-n N\<close>; the record written last is always among them.\<close>

theorem logs_show_the_last_records:
  assumes "list_all (op_ok (pt_log_dir p) us) ops" and "unit_name_ok u"
    and "\<forall>(env, v, line) \<in> set ops. newline \<notin> set line" and "unit_entries u ops \<noteq> []"
    and "cw_file w (log_path (pt_log_dir p) u) =
      Contents (content (sh_files (run_log (pt_log_dir p) r ops (shipper_new Map.empty))) (log_path (pt_log_dir p) u))"
  shows "\<exists>m < length (unit_entries u ops). \<forall>n.
    client_logs w p u n = Inr (map printed
      (drop (max m (case n of None \<Rightarrow> 0 | Some k \<Rightarrow> length (unit_entries u ops) - k)) (unit_entries u ops)))"
proof -
  let ?es = "unit_entries u ops" and ?f = "\<lambda>e. log_record (fst e) (snd e)"
  obtain m where m: "m < length ?es" "content (sh_files (run_log (pt_log_dir p) r ops (shipper_new Map.empty)))
      (log_path (pt_log_dir p) u) = concat (map ?f (drop m ?es))"
    using live_run [OF assms(1,2), of r] assms(4) by blast
  have "\<forall>e \<in> set ?es. newline \<notin> set (snd e)" using assms(3) by (fastforce simp: unit_entries_def)
  then have "\<forall>e \<in> set (drop m ?es). newline \<notin> set (snd e)" by (meson in_set_dropD)
  note lines = text_lines_records [OF this]
  have cut: "drop (length ?es - m - k) (drop m ?es) = drop (max m (length ?es - k)) ?es" for k
  proof (cases "m \<le> length ?es - k")
    case True
    then show ?thesis by (simp add: max_def) (metis add.commute diff_diff_left le_add_diff_inverse)
  qed (use m(1) in \<open>simp add: max_def\<close>)
  have "client_logs w p u n = Inr (map printed
      (drop (max m (case n of None \<Rightarrow> 0 | Some k \<Rightarrow> length ?es - k)) ?es))" for n
    using cut by (cases n) (simp_all add: client_logs_def assms(5) m(2) lines Let_def drop_map)
  then show ?thesis using m(1) by blast
qed

theorem logs_show_the_last_records_witness:
  "client_logs ((sample_world (\<lambda>_. Inl []))\<lparr>cw_file := (\<lambda>path. Contents (content (sh_files
       (run_log SYSTEM_LOG_DIR rotation_default [(sample_log_env, ''a'', ''up''), (sample_log_env, ''b'', ''x''),
         (sample_log_env, ''a'', ''down'')] (shipper_new Map.empty))) path))\<rparr>)
     system_paths ''a'' (Some 1) = Inr [printed (\<lparr>ts_secs = 1, ts_micros = 9\<rparr>, ''down'')]"
proof -
  let ?ops = "[(sample_log_env, ''a'', ''up''), (sample_log_env, ''b'', ''x''), (sample_log_env, ''a'', ''down'')]"
  let ?w = "(sample_world (\<lambda>_. Inl []))\<lparr>cw_file := (\<lambda>path. Contents (content (sh_files
       (run_log SYSTEM_LOG_DIR rotation_default ?ops (shipper_new Map.empty))) path))\<rparr>"
  have d: "pt_log_dir system_paths = SYSTEM_LOG_DIR" by (simp add: system_paths_def)
  have o: "list_all (op_ok (pt_log_dir system_paths) {''a'', ''b''}) ?ops" "unit_name_ok ''a''"
    "\<forall>(env, v, line) \<in> set ?ops. newline \<notin> set line" "unit_entries ''a'' ?ops \<noteq> []"
    by (simp_all add: op_ok_def unit_name_ok_def all_ok_def sample_log_env_def log_record_def pad6_def
        show_nat.simps [of 1] show_nat.simps [of 9] show_nat.simps [of "Suc 0"] u64_max_def unit_entries_def)
  have f: "cw_file ?w (log_path (pt_log_dir system_paths) ''a'') = Contents (content (sh_files
      (run_log (pt_log_dir system_paths) rotation_default ?ops (shipper_new Map.empty))) (log_path (pt_log_dir system_paths) ''a''))"
    by (simp add: d)
  have "unit_entries ''a'' ?ops = [(\<lparr>ts_secs = 1, ts_micros = 9\<rparr>, ''up''), (\<lparr>ts_secs = 1, ts_micros = 9\<rparr>, ''down'')]"
    by (simp add: unit_entries_def sample_log_env_def)
  then show ?thesis
    using logs_show_the_last_records [where p = system_paths and r = rotation_default and w = ?w, OF o f] by (auto simp: max_def)
qed

end
