(* ===== verification/StartUp.thy ===== *)
theory StartUp
  imports SupervisorDeadlines Child CgroupTable Users Client
begin

text \<open>
  Coming up: \<open>main\<close>, \<open>boot\<close> and \<open>fallback\<close> of \<open>crates/oxinit/src/main.rs\<close>, the console shell
  (\<open>shell.rs\<close>) and \<open>boot\<close> of \<open>user.rs\<close>.  What the system answers is a \<open>host\<close>; what comes of
  it is an \<open>outcome\<close>: the loop with its first state, the fallback shell, or an exit.  What is
  said on the way, and the calls on sockets, are lists.
\<close>

section \<open>The host\<close>

datatype said = Out string | Err string

record host =
  ho_pid :: nat
  ho_args :: "string list"
  ho_version :: string
  ho_messages :: messages
  ho_mounts :: mount_env
  ho_fds :: fds
  ho_fd_limit :: nat
  ho_console :: "errno + string"
  ho_evidence :: evidence
  ho_lossy :: "string \<Rightarrow> string"
  ho_etc_hostname :: "string option"
  ho_sethostname :: "errno option"
  ho_nodename :: string
  ho_block :: "errno option"
  ho_signalfd :: "errno + nat"
  ho_timerfds :: "(errno + nat) \<times> (errno + nat)"
  ho_epoll :: "errno option"
  ho_ctl :: ctl
  ho_sock :: sock_kernel
  ho_notify_fd :: nat
  ho_control_fd :: nat
  ho_log_fd :: nat
  ho_socket_fd :: "32 word \<Rightarrow> nat"
  ho_cgroup_fd :: "32 word \<Rightarrow> nat"
  ho_cgroups :: kernel
  ho_placement :: "string option"
  ho_toml :: "string \<Rightarrow> string + raw_file"
  ho_files :: file_system
  ho_env :: env
  ho_isatty :: bool
  ho_shell :: "string + nat"
  ho_watchdog_toml :: "string \<Rightarrow> string + settings"
  ho_watchdog_files :: "string \<Rightarrow> file_answer"
  ho_cmdline :: string
  ho_uid :: nat
  ho_vars :: "string \<Rightarrow> string option"
  ho_accounts :: "string \<Rightarrow> string option"
  ho_private_dir :: "string option \<times> errno option"
  ho_subreaper :: "errno option"

text \<open>\<open>Looping\<close> is the call of \<open>run\<close>: the signal descriptor, the state, what epoll watches and
  the environment.\<close>

datatype outcome =
    Looping nat pid1 epoll environment
  | FellBack "nat option"
  | Exited bool

definition failed_with :: "host \<Rightarrow> init_error \<Rightarrow> said" where
  "failed_with w e = Err (''oxinit: '' @ show_init_error (ho_messages w) e)"

section \<open>Descriptors\<close>

definition open_signalfd :: "host \<Rightarrow> init_error + nat" where
  "open_signalfd w =
     (case ho_block w of
        Some e \<Rightarrow> Inl (IE_BlockSignals e)
      | None \<Rightarrow> (case ho_signalfd w of Inl e \<Rightarrow> Inl (IE_SignalFd e) | Inr fd \<Rightarrow> Inr fd))"

text \<open>\<open>Timers::new\<close>.\<close>

definition open_timers :: "host \<Rightarrow> init_error + (nat \<times> nat)" where
  "open_timers w =
     (case ho_timerfds w of
        (Inl e, _) \<Rightarrow> Inl (IE_Timer e)
      | (Inr m, Inl e) \<Rightarrow> Inl (IE_Timer e)
      | (Inr m, Inr wall) \<Rightarrow> Inr (m, wall))"

definition open_events :: "host \<Rightarrow> init_error + epoll" where
  "open_events w = (case ho_epoll w of Some e \<Rightarrow> Inl (IE_Epoll e) | None \<Rightarrow> Inr [])"

definition cgroup_fds :: "host \<Rightarrow> sup \<Rightarrow> (32 word \<times> nat) list" where
  "cgroup_fds w s =
     map (\<lambda>n. (of_nat n, ho_cgroup_fd w (of_nat n))) (filter (\<lambda>n. n < 2 ^ 32) [0..<length (cg_handles (s_cgroups s))])"

definition wiring_of :: "host \<Rightarrow> nat \<Rightarrow> nat \<times> nat \<Rightarrow> bool \<Rightarrow> logs \<Rightarrow> sup \<Rightarrow> wiring" where
  "wiring_of w signals timers has_control logs s =
     \<lparr>wr_signals = signals, wr_mono = fst timers, wr_wall = snd timers, wr_notify = ho_notify_fd w,
      wr_control = (if has_control then Some (ho_control_fd w) else None),
      wr_log = (if lg_listener logs then Some (ho_log_fd w) else None),
      wr_cgroups = cgroup_fds w s\<rparr>"

section \<open>What is said\<close>

definition report_mounts :: "host \<Rightarrow> mounts \<Rightarrow> said list" where
  "report_mounts w ms =
     (if mn_inherited ms = [] then []
      else [Out (''oxinit: already mounted, left alone: '' @ join_with '', '' (mn_inherited ms))])
     @ (if mn_refused ms = [] then []
        else [Err (''oxinit: not permitted to mount '' @ join_with '', '' (mn_refused ms) @ ''; continuing without ''
                @ (if length (mn_refused ms) = 1 then ''it'' else ''them''))])
     @ map (\<lambda>e. failed_with w (of_mount_error e)) (mn_failures ms)"

definition EMFILE :: errno where "EMFILE = OtherErrno 24"

definition console_lines :: "host \<Rightarrow> said list" where
  "console_lines w =
     (case console_attach (ho_fd_limit w) (case ho_console w of Inl _ \<Rightarrow> None | Inr f \<Rightarrow> Some f) (ho_fds w) of
        (_, True) \<Rightarrow> []
      | (_, False) \<Rightarrow> [failed_with w (IE_Console (case ho_console w of Inl e \<Rightarrow> e | Inr _ \<Rightarrow> EMFILE))])"

definition host_name :: "host \<Rightarrow> string \<times> bool" where
  "host_name w = set_hostname (ho_lossy w) (ho_etc_hostname w) (\<lambda>_. ho_sethostname w = None) (ho_nodename w)"

definition hostname_lines :: "host \<Rightarrow> said list" where
  "hostname_lines w =
     (case (host_name w, ho_sethostname w) of
        ((name, False), Some e) \<Rightarrow>
          [Err (''oxinit: '' @ show_init_error (ho_messages w) (IE_Hostname e)
             @ ''; using the name already set, '' @ name)]
      | _ \<Rightarrow> [])"

section \<open>The console shell\<close>

definition SHELL :: string where "SHELL = ''/bin/sh''"

text \<open>\<open>ChildSetup\<close> with the session set and everything else its default.\<close>

definition shell_setup :: "bool \<Rightarrow> child_setup" where
  "shell_setup isatty = \<lparr>cs_procs = None, cs_listen = [], cs_identity = None, cs_output = None, cs_session = isatty\<rparr>"

definition shell_spawn :: "string + nat \<Rightarrow> init_error + nat" where
  "shell_spawn answer = (case answer of Inl m \<Rightarrow> Inl (IE_Spawn SHELL m) | Inr pid \<Rightarrow> Inr pid)"

section \<open>Falling back\<close>

datatype doze = ReadSignals nat | SleepOneSecond

record fallback_input =
  fb_waits :: "wait_answer list"
  fb_shell :: "string + nat"

definition fallback_start :: "string + nat \<Rightarrow> nat option" where
  "fallback_start answer = (case shell_spawn answer of Inl _ \<Rightarrow> None | Inr pid \<Rightarrow> Some pid)"

definition fallback_turn :: "fallback_input \<Rightarrow> nat option \<Rightarrow> nat option" where
  "fallback_turn i child =
     (let dead = (\<exists>(pid, _) \<in> set (fst (reap_all (fb_waits i))). child = Some pid) in
      if dead \<or> child = None then fallback_start (fb_shell i) else child)"

definition fallback_doze :: "nat option \<Rightarrow> doze" where
  "fallback_doze signals = (case signals of Some fd \<Rightarrow> ReadSignals fd | None \<Rightarrow> SleepOneSecond)"

text \<open>What falling back says first.\<close>

definition fall_back :: "nat option \<Rightarrow> said list \<Rightarrow> sock_op list \<Rightarrow> outcome \<times> said list \<times> sock_op list" where
  "fall_back signals said h =
     (FellBack signals, said @ [Err ''oxinit: event loop unavailable; falling back to a console shell''], h)"

definition fallback :: "string + nat \<Rightarrow> fallback_input list \<Rightarrow> nat option" where
  "fallback first is = fold fallback_turn is (fallback_start first)"

section \<open>Booting as PID 1\<close>

definition system_source :: unit_source where
  "system_source = \<lparr>us_dirs = [VENDOR_DIR, ETC_DIR], us_scope = SystemScope, us_notify = SYSTEM_NOTIFY\<rparr>"

definition boot_lines :: "host \<Rightarrow> said list" where
  "boot_lines w =
     console_lines w
     @ (if env_is_container (detect (ho_evidence w))
        then [Out (''oxinit: pid 1 of '' @ show_environment (detect (ho_evidence w))
               @ ''; a shutdown will exit rather than reboot'')] else [])
     @ report_mounts w (mount_all (ho_mounts w)) @ hostname_lines w"

definition open_control :: "host \<Rightarrow> string \<Rightarrow> sock_op list \<Rightarrow> (control option \<times> said list) \<times> sock_op list" where
  "open_control w path h =
     (case control_socket (ho_sock w) path h of
        (Inr c, h1) \<Rightarrow> ((Some c, []), h1)
      | (Inl e, h1) \<Rightarrow> ((None, [failed_with w (IE_Control e), Err ''oxinit: continuing without a control socket'']), h1))"

definition open_cgroups :: "host \<Rightarrow> string \<Rightarrow> ctable \<times> said list" where
  "open_cgroups w root =
     (case fst (cgroups_open (ho_cgroups w) root (ho_pid w) (ho_placement w) []) of
        Inr (t, ls) \<Rightarrow> (t, map Out ls)
      | Inl e \<Rightarrow> (cgroups_unavailable,
          [Err (''oxinit: '' @ show_cgroup_error (ho_messages w) e), Err ''oxinit: continuing without cgroups'']))"

definition open_logs :: "host \<Rightarrow> string \<Rightarrow> sock_op list \<Rightarrow> (logs \<times> said list) \<times> sock_op list" where
  "open_logs w path h =
     (case log_socket (ho_sock w) path h of
        (Inr l, h1) \<Rightarrow> ((l, []), h1)
      | (Inl e, h1) \<Rightarrow> ((logs_unavailable, [failed_with w (IE_Logs e), Err ''oxinit: continuing without log shipping'']), h1))"

definition load_sup :: "host \<Rightarrow> string \<Rightarrow> unit_source \<Rightarrow> ctable \<Rightarrow> sup" where
  "load_sup w hostname source t =
     sup_load (ho_env w) (source_load (ho_toml w) (ho_files w) source hostname) hostname source timers_new (abs_table t)"

text \<open>Nothing in the start order is what leaves the console to a shell.\<close>

definition sup_is_empty :: "sup \<Rightarrow> bool" where
  "sup_is_empty s \<longleftrightarrow> s_order s = []"

definition start_units :: "host \<Rightarrow> sup \<Rightarrow> sup \<times> bool \<times> said list" where
  "start_units w s =
     (if sup_is_empty s
      then (s, (case shell_spawn (ho_shell w) of Inl _ \<Rightarrow> False | Inr _ \<Rightarrow> True),
            Err ''oxinit: nothing to start; falling back to a console shell''
            # (case shell_spawn (ho_shell w) of Inl e \<Rightarrow> [failed_with w e] | Inr _ \<Rightarrow> []))
      else (start_all (ho_env w) s, False, []))"

definition settle_sockets :: "host \<Rightarrow> sup \<Rightarrow> epoll \<Rightarrow> sup \<times> epoll" where
  "settle_sockets w s ep =
     (case sync_table (ho_ctl w) (ho_socket_fd w) s ep of (bs, ep1) \<Rightarrow> (s\<lparr>s_sockets := bs\<rparr>, ep1))"

definition pid1_new :: "sup \<Rightarrow> control option \<Rightarrow> logs \<Rightarrow> dev option \<Rightarrow> bool \<Rightarrow> pid1" where
  "pid1_new s control logs wd shell =
     \<lparr>p_sup = s, p_control = control, p_logs = logs, p_watchdog = wd, p_shell = shell, p_replies = [], p_down = []\<rparr>"

definition boot_watchdog :: "host \<Rightarrow> dev option" where
  "boot_watchdog w =
     configure (ho_watchdog_toml w) (ho_watchdog_files w) (ho_cmdline w) (env_is_container (detect (ho_evidence w)))"

text \<open>The second half: from a bound readiness socket on, only the wiring can fail.\<close>

definition boot_manager :: "host \<Rightarrow> nat \<Rightarrow> nat \<times> nat \<Rightarrow> epoll \<Rightarrow> sock_op list \<Rightarrow> outcome \<times> said list \<times> sock_op list" where
  "boot_manager w signals timers ep h =
     (case open_control w (control_path system_paths) h of ((control, said1), h1) \<Rightarrow>
      case open_cgroups w CGROUP_ROOT of (t, said2) \<Rightarrow>
      case open_logs w (log_socket_path system_paths) h1 of ((logs, said3), h2) \<Rightarrow>
      let s = load_sup w (fst (host_name w)) system_source t;
          said = said1 @ said2 @ said3 in
      case wire (ho_ctl w) (wiring_of w signals timers (control \<noteq> None) logs s) ep of
        (Inl e, _) \<Rightarrow> fall_back (Some signals) (said @ [failed_with w (IE_Epoll e)]) h2
      | (Inr errs, ep1) \<Rightarrow>
          (case start_units w s of (s1, shell, said4) \<Rightarrow>
           case settle_sockets w s1 ep1 of (s2, ep2) \<Rightarrow>
             (Looping signals (pid1_new s2 control logs (boot_watchdog w) shell) ep2 (detect (ho_evidence w)),
              said @ map (\<lambda>e. failed_with w (IE_Epoll e)) errs @ said4, h2)))"

definition boot :: "host \<Rightarrow> outcome \<times> said list \<times> sock_op list" where
  "boot w =
     (case open_signalfd w of
        Inl e \<Rightarrow> fall_back None (boot_lines w @ [failed_with w e]) []
      | Inr signals \<Rightarrow>
     (case open_timers w of
        Inl e \<Rightarrow> fall_back (Some signals) (boot_lines w @ [failed_with w e]) []
      | Inr timers \<Rightarrow>
     (case open_events w of
        Inl e \<Rightarrow> fall_back (Some signals) (boot_lines w @ [failed_with w e]) []
      | Inr ep \<Rightarrow>
     (case notify_bind (ho_sock w) (notify_path system_paths) [] of
        (Some e, h) \<Rightarrow> fall_back (Some signals) (boot_lines w @ [failed_with w (IE_Notify e)]) h
      | (None, h) \<Rightarrow>
          (case boot_manager w signals timers ep h of (out, said, h1) \<Rightarrow> (out, boot_lines w @ said, h1))))))"

section \<open>Starting a user's manager\<close>

text \<open>\<open>private_dir\<close>: making the directory, then its mode; \<open>answering\<close>: a socket, an address and a
  connection, all three, the first failure of which is an answer too.\<close>

definition private_dir :: "host \<Rightarrow> string option" where
  "private_dir w =
     (case ho_private_dir w of
        (Some m, _) \<Rightarrow> Some m
      | (None, chmod) \<Rightarrow> map_option (ms_errno (ho_messages w)) chmod)"

definition answering :: "host \<Rightarrow> string \<Rightarrow> sock_op list \<Rightarrow> bool \<times> sock_op list" where
  "answering w path h =
     (case sock_run (ho_sock w) [OpenSocket AfUnix Seqpacket True, UnixAddress path, ConnectTo path] h of
        (None, h') \<Rightarrow> (True, h')
      | (Some _, h') \<Rightarrow> (False, h'))"

definition own_cgroups :: "host \<Rightarrow> ctable \<times> said list" where
  "own_cgroups w =
     (case own_cgroup CGROUP_ROOT (ho_placement w) of
        None \<Rightarrow> (cgroups_unavailable, [Out ''oxinit: no cgroup v2 placement; running without cgroups''])
      | Some own \<Rightarrow>
          (case fst (cgroups_open (ho_cgroups w) own (ho_pid w) (ho_placement w) []) of
             Inr (t, ls) \<Rightarrow> (t, map Out ls)
           | Inl e \<Rightarrow> (cgroups_unavailable,
               [Out (''oxinit: '' @ own @ '' is not delegated to this user ('' @ show_cgroup_error (ho_messages w) e
                  @ ''); running without cgroups'')])))"

definition user_source :: "paths \<Rightarrow> string \<Rightarrow> unit_source" where
  "user_source p name =
     \<lparr>us_dirs = user_dirs (case pt_config_home p of None \<Rightarrow> [] | Some c \<Rightarrow> c), us_scope = UserScope name,
      us_notify = notify_path p\<rparr>"

definition give_up :: "outcome \<times> said list" where
  "give_up = (Exited False, [Err ''oxinit: the user manager cannot continue; exiting''])"

text \<open>The three that make the loop are all made before any is looked at.\<close>

definition user_descriptors ::
    "host \<Rightarrow> paths \<Rightarrow> sock_op list \<Rightarrow> (init_error + (nat \<times> nat) \<times> epoll) \<times> sock_op list" where
  "user_descriptors w p hq =
     (case notify_bind (ho_sock w) (notify_path p) hq of (bound, h) \<Rightarrow>
        ((case (open_timers w, open_events w, bound) of
            (Inl e, _, _) \<Rightarrow> Inl e
          | (_, Inl e, _) \<Rightarrow> Inl e
          | (_, _, Some e) \<Rightarrow> Inl (IE_Notify e)
          | (Inr timers, Inr ep, None) \<Rightarrow> Inr (timers, ep)), h))"

definition user_logs :: "host \<Rightarrow> string \<Rightarrow> sock_op list \<Rightarrow> (logs \<times> said list) \<times> sock_op list" where
  "user_logs w path h =
     (case log_socket (ho_sock w) path h of
        (Inr l, h1) \<Rightarrow> ((l, []), h1)
      | (Inl e, h1) \<Rightarrow> ((logs_unavailable,
          [Err (''oxinit: '' @ show_init_error (ho_messages w) (IE_Logs e) @ ''; continuing without log shipping'')]), h1))"

definition user_lines :: "string \<Rightarrow> unit_source \<Rightarrow> said list" where
  "user_lines name source =
     [Out (''oxinit: '' @ show_environment (UserManager name) @ '', units from '' @ join_with '', '' (us_dirs source))]"

definition user_manager ::
    "host \<Rightarrow> paths \<Rightarrow> string \<Rightarrow> nat \<Rightarrow> (nat \<times> nat) \<times> epoll \<Rightarrow> control \<Rightarrow> sock_op list \<Rightarrow> outcome \<times> said list \<times> sock_op list" where
  "user_manager w p name signals made control h =
     (case user_logs w (log_socket_path p) h of ((logs, said1), h1) \<Rightarrow>
      case own_cgroups w of (t, said2) \<Rightarrow>
      let source = user_source p name;
          said3 = user_lines name source;
          s = load_sup w (ho_lossy w (ho_nodename w)) source t;
          said = said1 @ said2 @ said3 in
      case wire (ho_ctl w) (wiring_of w signals (fst made) True logs s) (snd made) of
        (Inl e, _) \<Rightarrow> (Exited False, said @ [failed_with w (IE_Epoll e)], h1)
      | (Inr errs, ep1) \<Rightarrow>
          (case settle_sockets w (start_all (ho_env w) s) ep1 of (s2, ep2) \<Rightarrow>
             (Looping signals (pid1_new s2 (Some control) logs None False) ep2 (UserManager name),
              said @ map (\<lambda>e. failed_with w (IE_Epoll e)) errs, h1)))"

definition user_boot :: "host \<Rightarrow> outcome \<times> said list \<times> sock_op list" where
  "user_boot w =
     (if ho_uid w = 0
      then (Exited False, [Err ''oxinit: --user is for users; root's services are system units''], [])
      else case user_paths (ho_vars w) of
        Inl e \<Rightarrow> (Exited False, [Err (''oxinit: '' @ show_paths_error e)], [])
      | Inr p \<Rightarrow>
     (let name = name_of_system (ho_accounts w) (ho_uid w) in
      case private_dir w of
        Some m \<Rightarrow> (Exited False, [Err (''oxinit: '' @ pt_runtime_dir p @ '': '' @ m)], [])
      | None \<Rightarrow>
      case answering w (control_path p) [] of (answered, hq) \<Rightarrow>
      if answered
      then (Exited True, [Out (''oxinit: the user manager for '' @ name @ '' is already running'')], hq)
      else
        let said0 = (case ho_subreaper w of
              None \<Rightarrow> []
            | Some e \<Rightarrow> [Err (''oxinit: become a subreaper: '' @ ms_errno (ho_messages w) e @ ''; orphans will go to pid 1'')]) in
        case open_signalfd w of
          Inl e \<Rightarrow> (Exited False, said0 @ [failed_with w e], hq)
        | Inr signals \<Rightarrow>
       (case user_descriptors w p hq of
          (Inl e, h) \<Rightarrow> (Exited False, said0 @ [failed_with w e], h)
        | (Inr made, h) \<Rightarrow>
       (case control_socket (ho_sock w) (control_path p) h of
          (Inl e, h1) \<Rightarrow> (Exited False, said0 @ [failed_with w (IE_Control e)], h1)
        | (Inr control, h1) \<Rightarrow>
            (case user_manager w p name signals made control h1 of (out, said, h2) \<Rightarrow> (out, said0 @ said, h2))))))"

section \<open>The program\<close>

definition asks_version :: "string list \<Rightarrow> bool" where
  "asks_version args \<longleftrightarrow> ''--version'' \<in> set args \<or> ''-V'' \<in> set args"

definition init_main :: "host \<Rightarrow> outcome \<times> said list \<times> sock_op list" where
  "init_main w =
     (let init = (ho_pid w = 1) in
      if \<not> init \<and> asks_version (ho_args w) then (Exited True, [Out (''oxinit '' @ ho_version w)], [])
      else if \<not> init \<and> ''--user'' \<in> set (drop 1 (ho_args w)) then user_boot w
      else if \<not> init then
        (Exited False,
         [Err (''oxinit: running as pid '' @ show_nat (ho_pid w) @ '', not 1. oxinit is an init system; ''
            @ ''it is not meant to be run from a shell.'')], [])
      else boot w)"

text \<open>\<open>cannot_continue\<close>: what becomes of a loop that cannot go on.\<close>

definition cannot_continue :: "nat \<Rightarrow> environment \<Rightarrow> outcome \<times> said list" where
  "cannot_continue signals e =
     (if env_is_user e then give_up
      else (case fall_back (Some signals) [] [] of (out, said, _) \<Rightarrow> (out, said)))"

section \<open>Lemmas\<close>

lemma detect_not_user: "\<not> env_is_user (detect ev)"
  by (auto simp: detect_def env_is_user_def split: option.splits)

lemma register_until_none_iff:
  "epoll_ok ep \<Longrightarrow> fst (register_until ctl ps ep) = None \<longleftrightarrow>
     distinct (map fst ps) \<and> (\<forall>p \<in> set ps. ctl (fst p) = None \<and> source_of ep (fst p) = None)"
proof (induction ps arbitrary: ep)
  case Nil
  then show ?case by simp
next
  case (Cons q ps)
  obtain fd s where q: "q = (fd, s)" by (cases q)
  note add = ep_add_ok [OF Cons.prems, of ctl fd s False]
  show ?case
  proof (cases "source_of ep fd = None \<and> ctl fd = None")
    case True
    have look: "source_of (ep_put fd s False ep) x = (if x = fd then Some s else source_of ep x)" for x
      using epoll_table.look_register [OF Cons.prems] True by simp
    have ok: "epoll_ok (ep_put fd s False ep)" using epoll_table.ok_register [OF Cons.prems] True by simp
    show ?thesis using Cons.IH [OF ok] True add q by (auto simp: ep_register_def look)
  next
    case False
    then show ?thesis using add q by (auto simp: ep_register_def split: prod.splits option.splits if_splits)
  qed
qed

lemma wire_succeeds_iff:
  "\<not> isl (fst (wire ctl w [])) \<longleftrightarrow>
     distinct (map fst (required w)) \<and> (\<forall>p \<in> set (required w). ctl (fst p) = None)"
proof -
  have "\<not> isl (fst (wire ctl w [])) \<longleftrightarrow> fst (register_until ctl (required w) []) = None"
    by (auto simp: wire_def split: prod.splits option.splits)
  then show ?thesis
    using register_until_none_iff [OF epoll_table.ok_none, of ctl "required w"] epoll_table.look_none by auto
qed

text \<open>Everything that can stand between the start and the loop.\<close>

definition can_loop :: "host \<Rightarrow> nat \<Rightarrow> nat \<Rightarrow> nat \<Rightarrow> bool" where
  "can_loop w signals mo wa \<longleftrightarrow>
     distinct [signals, mo, wa, ho_notify_fd w]
     \<and> list_all (\<lambda>fd. ho_ctl w fd = None) [signals, mo, wa, ho_notify_fd w]"

lemma wire_of_succeeds:
  "\<not> isl (fst (wire (ho_ctl w) (wiring_of w signals (mo, wa) b logs s) [])) \<longleftrightarrow> can_loop w signals mo wa"
  by (auto simp: wire_succeeds_iff wiring_of_def required_def can_loop_def)

lemma boot_manager_out:
  "fst (boot_manager w signals (mo, wa) [] h) = FellBack (Some signals) \<and> \<not> can_loop w signals mo wa
   \<or> (\<exists>p ep. fst (boot_manager w signals (mo, wa) [] h) = Looping signals p ep (detect (ho_evidence w))) \<and> can_loop w signals mo wa"
proof -
  obtain control said1 h1 where c: "open_control w (control_path system_paths) h = ((control, said1), h1)"
    by (metis prod.exhaust)
  obtain t said2 where g: "open_cgroups w CGROUP_ROOT = (t, said2)" by fastforce
  obtain logs said3 h2 where l: "open_logs w (log_socket_path system_paths) h1 = ((logs, said3), h2)"
    by (metis prod.exhaust)
  let ?s = "load_sup w (fst (host_name w)) system_source t"
  obtain res ep1 where r: "wire (ho_ctl w) (wiring_of w signals (mo, wa) (control \<noteq> None) logs ?s) [] = (res, ep1)"
    by fastforce
  show ?thesis
    using wire_of_succeeds [of w signals mo wa "control \<noteq> None" logs ?s]
    by (cases res) (simp_all add: boot_manager_def c g l r fall_back_def Let_def split: prod.splits del: not_None_eq)
qed

text \<open>The state the loop begins with, of either manager.\<close>

definition loop_begins :: "host \<Rightarrow> nat \<Rightarrow> pid1 \<Rightarrow> epoll \<Rightarrow> bool" where
  "loop_begins w signals p ep \<longleftrightarrow> p_down p = [] \<and> open_signalfd w = Inr signals \<and>
     (\<exists>hostname source t timers logs b errs ep1 s1.
        open_timers w = Inr timers \<and>
        wire (ho_ctl w) (wiring_of w signals timers b logs (load_sup w hostname source t)) [] = (Inr errs, ep1)
        \<and> s1 \<in> {load_sup w hostname source t, start_all (ho_env w) (load_sup w hostname source t)}
        \<and> settle_sockets w s1 ep1 = (p_sup p, ep) \<and> p_logs p = logs \<and> b = (p_control p \<noteq> None))"

lemma boot_manager_begins:
  assumes "fst (boot_manager w signals timers [] h) = Looping signals' p ep e"
    and "open_signalfd w = Inr signals" and "open_timers w = Inr timers"
  shows "signals' = signals \<and> e = detect (ho_evidence w) \<and> loop_begins w signals p ep"
proof -
  obtain control said1 h1 where c: "open_control w (control_path system_paths) h = ((control, said1), h1)"
    by (metis prod.exhaust)
  obtain t said2 where g: "open_cgroups w CGROUP_ROOT = (t, said2)" by fastforce
  obtain logs said3 h2 where l: "open_logs w (log_socket_path system_paths) h1 = ((logs, said3), h2)"
    by (metis prod.exhaust)
  let ?s = "load_sup w (fst (host_name w)) system_source t"
  obtain res ep1 where r: "wire (ho_ctl w) (wiring_of w signals timers (control \<noteq> None) logs ?s) [] = (res, ep1)"
    by fastforce
  obtain s1 shell said4 where s1: "start_units w ?s = (s1, shell, said4)" by (metis prod_cases3)
  obtain s2 ep2 where s2: "settle_sockets w s1 ep1 = (s2, ep2)" by fastforce
  have k: "s1 \<in> {?s, start_all (ho_env w) ?s}" using s1 by (auto simp: start_units_def split: if_splits)
  show ?thesis
  proof (cases res)
    case (Inl e)
    then show ?thesis using assms
      by (simp add: boot_manager_def c g l r fall_back_def Let_def del: not_None_eq)
  next
    case (Inr errs)
    then have o: "p = pid1_new s2 control logs (boot_watchdog w) shell" "ep = ep2" "signals' = signals"
        "e = detect (ho_evidence w)"
      using assms by (simp_all add: boot_manager_def c g l r s1 s2 Let_def del: not_None_eq)
    have "loop_begins w signals p ep"
      unfolding loop_begins_def o(1,2) using r s2 k Inr assms(2,3)
      by (intro conjI exI [of _ "fst (host_name w)"] exI [of _ system_source] exI [of _ t] exI [of _ timers]
          exI [of _ logs] exI [of _ "control \<noteq> None"] exI [of _ errs] exI [of _ ep1] exI [of _ s1])
        (simp_all add: pid1_new_def del: not_None_eq)
    then show ?thesis using o by simp
  qed
qed

lemma boot_cases:
  obtains (signals) e where "open_signalfd w = Inl e" "fst (boot w) = FellBack None"
  | (early) signals where "open_signalfd w = Inr signals" "fst (boot w) = FellBack (Some signals)"
      "isl (open_timers w) \<or> ho_epoll w \<noteq> None \<or> fst (notify_bind (ho_sock w) (notify_path system_paths) []) \<noteq> None"
  | (manager) signals mo wa h where "open_signalfd w = Inr signals" "open_timers w = Inr (mo, wa)" "ho_epoll w = None"
      "notify_bind (ho_sock w) (notify_path system_paths) [] = (None, h)"
      "boot w = (case boot_manager w signals (mo, wa) [] h of (out, said, h1) \<Rightarrow> (out, boot_lines w @ said, h1))"
proof (cases "open_signalfd w")
  case (Inl e)
  then show ?thesis using that(1) by (simp add: boot_def fall_back_def)
next
  case sg: (Inr signals)
  show ?thesis
  proof (cases "isl (open_timers w) \<or> ho_epoll w \<noteq> None \<or> fst (notify_bind (ho_sock w) (notify_path system_paths) []) \<noteq> None")
    case True
    then have "fst (boot w) = FellBack (Some signals)"
      using sg by (auto simp: boot_def fall_back_def open_events_def split: sum.splits option.splits prod.splits)
    then show ?thesis using that(2) sg True by blast
  next
    case False
    then obtain mo wa h where f: "open_timers w = Inr (mo, wa)" "ho_epoll w = None"
      "notify_bind (ho_sock w) (notify_path system_paths) [] = (None, h)"
      by (metis (no_types, opaque_lifting) isl_def prod.exhaust sum.exhaust_sel fst_conv sum.disc(2) sum.collapse(2))
    then show ?thesis using that(3) sg by (simp add: boot_def open_events_def)
  qed
qed


lemma boot_returns_nothing:
  "fst (boot w) = FellBack (case open_signalfd w of Inl _ \<Rightarrow> None | Inr signals \<Rightarrow> Some signals)
   \<or> (\<exists>signals p ep. fst (boot w) = Looping signals p ep (detect (ho_evidence w)) \<and> loop_begins w signals p ep)"
proof (cases rule: boot_cases [of w])
  case (signals e)
  then show ?thesis by simp
next
  case (early sg)
  then show ?thesis by simp
next
  case (manager sg mo wa h)
  have out: "fst (boot w) = fst (boot_manager w sg (mo, wa) [] h)" unfolding manager(5) by (simp add: case_prod_beta)
  from boot_manager_out [of w sg mo wa h] show ?thesis
    unfolding out using manager(1,2) boot_manager_begins [of w sg "(mo, wa)" h] by auto
qed

text \<open>The arguments are read by \<open>main\<close> alone.\<close>

lemma parts_ignore_args:
  "failed_with (w\<lparr>ho_args := args\<rparr>) = failed_with w" "open_signalfd (w\<lparr>ho_args := args\<rparr>) = open_signalfd w"
  "open_timers (w\<lparr>ho_args := args\<rparr>) = open_timers w" "open_events (w\<lparr>ho_args := args\<rparr>) = open_events w"
  "host_name (w\<lparr>ho_args := args\<rparr>) = host_name w" "load_sup (w\<lparr>ho_args := args\<rparr>) = load_sup w"
  "boot_watchdog (w\<lparr>ho_args := args\<rparr>) = boot_watchdog w" "settle_sockets (w\<lparr>ho_args := args\<rparr>) = settle_sockets w"
  "cgroup_fds (w\<lparr>ho_args := args\<rparr>) = cgroup_fds w"
  by (simp_all add: fun_eq_iff failed_with_def open_signalfd_def open_timers_def open_events_def host_name_def
      load_sup_def boot_watchdog_def settle_sockets_def cgroup_fds_def
      cong del: sum.case_cong_weak option.case_cong_weak prod.case_cong_weak bool.case_cong_weak if_weak_cong)

lemma sequences_ignore_args:
  "console_lines (w\<lparr>ho_args := args\<rparr>) = console_lines w" "report_mounts (w\<lparr>ho_args := args\<rparr>) = report_mounts w"
  "hostname_lines (w\<lparr>ho_args := args\<rparr>) = hostname_lines w" "open_control (w\<lparr>ho_args := args\<rparr>) = open_control w"
  "open_cgroups (w\<lparr>ho_args := args\<rparr>) = open_cgroups w" "open_logs (w\<lparr>ho_args := args\<rparr>) = open_logs w"
  "wiring_of (w\<lparr>ho_args := args\<rparr>) = wiring_of w" "start_units (w\<lparr>ho_args := args\<rparr>) = start_units w"
  by (simp_all add: fun_eq_iff console_lines_def report_mounts_def hostname_lines_def open_control_def open_cgroups_def
      open_logs_def wiring_of_def start_units_def parts_ignore_args
      cong del: sum.case_cong_weak option.case_cong_weak prod.case_cong_weak bool.case_cong_weak if_weak_cong)

lemma boot_ignores_args: "boot (w\<lparr>ho_args := args\<rparr>) = boot w"
proof -
  have "boot_manager (w\<lparr>ho_args := args\<rparr>) = boot_manager w"
    by (simp add: fun_eq_iff boot_manager_def parts_ignore_args sequences_ignore_args
      cong del: sum.case_cong_weak option.case_cong_weak prod.case_cong_weak bool.case_cong_weak if_weak_cong)
  moreover have "boot_lines (w\<lparr>ho_args := args\<rparr>) = boot_lines w"
    by (simp add: boot_lines_def sequences_ignore_args)
  ultimately show ?thesis by (simp add: boot_def parts_ignore_args
      cong del: sum.case_cong_weak option.case_cong_weak prod.case_cong_weak bool.case_cong_weak if_weak_cong)
qed

lemma machine_loop_down:
  "p_down p = [] \<Longrightarrow> ExitStatus c \<notin> set (p_down (loop Machine js ts p))"
proof (induction ts arbitrary: p)
  case Nil
  then show ?case by simp
next
  case (Cons t ts)
  have "p_down (turn Machine js t p) = [] \<or> (\<exists>a. p_down (turn Machine js t p) = final_ops a Machine)"
    using Cons.prems by (auto simp: turn_down split: option.splits)
  then show ?case
  proof
    assume "p_down (turn Machine js t p) = []"
    then show ?thesis using Cons by simp
  next
    assume "\<exists>a. p_down (turn Machine js t p) = final_ops a Machine"
    then obtain a where a: "p_down (turn Machine js t p) = final_ops a Machine" by blast
    then have "loop Machine js ts (turn Machine js t p) = turn Machine js t p" by (cases ts) simp_all
    then show ?thesis using Cons.prems a by (simp add: final_ops_def)
  qed
qed

section \<open>Properties\<close>

text \<open>C27.  Exactly what PID 1 needs in order to run its loop.  Booting ends in the loop precisely when
  the signals could be blocked and read from a descriptor, both timers, the epoll descriptor
  and the readiness socket could be made, and those four could be registered; otherwise it
  ends in the fallback shell, which reads the signal descriptor if there is one.  Mounts, the
  console, the host name, the control and log sockets, cgroups, units, the watchdog and the
  shell have no say in it.\<close>

theorem what_boot_needs:
  "((\<exists>signals p ep e. fst (boot w) = Looping signals p ep e) \<longleftrightarrow>
     (\<exists>signals mo wa. open_signalfd w = Inr signals \<and> open_timers w = Inr (mo, wa) \<and> ho_epoll w = None
        \<and> fst (notify_bind (ho_sock w) (notify_path system_paths) []) = None \<and> can_loop w signals mo wa))
   \<and> ((\<exists>signals p ep e. fst (boot w) = Looping signals p ep e)
      \<or> fst (boot w) = FellBack (case open_signalfd w of Inl _ \<Rightarrow> None | Inr signals \<Rightarrow> Some signals))"
proof (cases rule: boot_cases [of w])
  case (signals e)
  then show ?thesis by auto
next
  case (early sg)
  then show ?thesis by auto
next
  case (manager sg mo wa h)
  have out: "fst (boot w) = fst (boot_manager w sg (mo, wa) [] h)" unfolding manager(5) by (simp add: case_prod_beta)
  from boot_manager_out [of w sg mo wa h] show ?thesis unfolding out using manager(1-4) by auto
qed

text \<open>C26.  PID 1 never returns from \<open>main\<close>, whatever it was given as arguments and whatever fails; on a
  machine nothing its loop does later ends the process, and a loop that cannot go on becomes
  the fallback shell.\<close>

theorem pid_one_never_returns:
  assumes "ho_pid w = 1"
  shows "fst (init_main w) \<noteq> Exited b \<and> init_main (w\<lparr>ho_args := args\<rparr>) = init_main w
    \<and> (\<forall>signals p ep e. fst (init_main w) = Looping signals p ep e \<longrightarrow>
         (\<exists>fb. fst (cannot_continue signals e) = FellBack fb)
         \<and> (e = Machine \<longrightarrow> (\<forall>c js ts. ExitStatus c \<notin> set (p_down (loop e js ts p)))))"
proof -
  have m: "init_main w = boot w" "init_main (w\<lparr>ho_args := args\<rparr>) = boot w"
    using assms by (simp_all add: init_main_def boot_ignores_args)
  have c: "fst (cannot_continue sg (detect (ho_evidence w))) = FellBack (Some sg)" for sg
    by (simp add: cannot_continue_def detect_not_user fall_back_def)
  show ?thesis
    unfolding m using boot_returns_nothing [of w] c machine_loop_down by (auto simp: loop_begins_def)
qed

text \<open>A host that grants everything and has no unit.\<close>

definition sample_host :: host where
  "sample_host = \<lparr>ho_pid = 1, ho_args = [''/sbin/init''], ho_version = ''0'',
     ho_messages = \<lparr>ms_errno = (\<lambda>_. ''e''), ms_io = (\<lambda>_. ''e'')\<rparr>,
     ho_mounts = \<lparr>me_stat = (\<lambda>_. None), me_mkdir = (\<lambda>_. None), me_mount = (\<lambda>_. None)\<rparr>,
     ho_fds = (\<lambda>_. Some ''pipe''), ho_fd_limit = 1024, ho_console = Inr ''console'',
     ho_evidence = \<lparr>ev_container = None, ev_exists = (\<lambda>_. False), ev_status = None\<rparr>,
     ho_lossy = id, ho_etc_hostname = None, ho_sethostname = None, ho_nodename = ''h'',
     ho_block = None, ho_signalfd = Inr 3, ho_timerfds = (Inr 4, Inr 5), ho_epoll = None, ho_ctl = (\<lambda>_. None),
     ho_sock = (\<lambda>_ _. None), ho_notify_fd = 7, ho_control_fd = 8, ho_log_fd = 9,
     ho_socket_fd = (\<lambda>i. 2 * unat i + 20), ho_cgroup_fd = (\<lambda>i. 2 * unat i + 21),
     ho_cgroups = sample_kernel\<lparr>kn_read := (\<lambda>_ _. None)\<rparr>, ho_placement = None,
     ho_toml = (\<lambda>_. Inl ''no''), ho_files = \<lparr>fs_read_dir = (\<lambda>_. Inr []), fs_read = (\<lambda>_. Inr '''')\<rparr>,
     ho_env = sample_env, ho_isatty = True, ho_shell = Inr 30,
     ho_watchdog_toml = (\<lambda>_. Inl ''no''), ho_watchdog_files = (\<lambda>_. file_answer.NotFound), ho_cmdline = '''',
     ho_uid = 0, ho_vars = (\<lambda>_. None), ho_accounts = (\<lambda>_. None), ho_private_dir = (None, None),
     ho_subreaper = None\<rparr>"

theorem pid_one_never_returns_witness:
  "fst (init_main (sample_host\<lparr>ho_args := [''init'', ''--user'', ''--version'']\<rparr>)) \<noteq> Exited True"
proof -
  have p: "ho_pid (sample_host\<lparr>ho_args := [''init'', ''--user'', ''--version'']\<rparr>) = 1" by (simp add: sample_host_def)
  show ?thesis using pid_one_never_returns [OF p, of True] by blast
qed

lemma start_all_guarded: "e_settime env \<Longrightarrow> guarded {} s \<Longrightarrow> guarded {} (start_all env s)"
proof -
  assume t: "e_settime env" and g: "guarded {} s"
  have "guarded {} (s\<lparr>s_pending := s_order s\<rparr>)"
    using g by (simp add: guarded_def cov_but_def alarms_def well_keyed_def down_all_def shutting_down_def get_inst_def)
  then have "guarded {} (handle_event env EvPump (s\<lparr>s_pending := s_order s\<rparr>))"
    using run_guarded [of "[(env, EvPump)]"] t by (simp add: run_events_def)
  then show ?thesis by (simp add: start_all_def handle_event_def)
qed

lemma loop_begins_guarded:
  assumes "loop_begins w signals p ep" and "e_settime (ho_env w)"
  shows "guarded {} (p_sup p)"
proof -
  obtain s1 ep1 hostname source t where s: "settle_sockets w s1 ep1 = (p_sup p, ep)"
    "s1 \<in> {load_sup w hostname source t, start_all (ho_env w) (load_sup w hostname source t)}"
    using assms(1) unfolding loop_begins_def by blast
  have "guarded {} (load_sup w hostname source t)"
    unfolding load_sup_def by (rule fresh_guarded [OF fresh_load])
  then have "guarded {} s1" using s(2) start_all_guarded [OF assms(2)] by auto
  moreover have "p_sup p = s1\<lparr>s_sockets := fst (sync_table (ho_ctl w) (ho_socket_fd w) s1 ep1)\<rparr>"
    using s(1) by (auto simp: settle_sockets_def split: prod.splits)
  ultimately show ?thesis
    by (simp add: guarded_def cov_but_def alarms_def well_keyed_def down_all_def shutting_down_def get_inst_def)
qed

lemma user_manager_begins:
  assumes "fst (user_manager w p0 name signals (timers, []) control h) = Looping signals' p ep e"
    and "open_signalfd w = Inr signals" and "open_timers w = Inr timers"
  shows "signals' = signals \<and> e = UserManager name \<and> loop_begins w signals p ep \<and> p_control p = Some control"
proof -
  obtain logs said1 h1 where l: "user_logs w (log_socket_path p0) h = ((logs, said1), h1)" by (metis prod.exhaust)
  obtain t said2 where g: "own_cgroups w = (t, said2)" by fastforce
  let ?s = "load_sup w (ho_lossy w (ho_nodename w)) (user_source p0 name) t"
  obtain res ep1 where r: "wire (ho_ctl w) (wiring_of w signals timers True logs ?s) [] = (res, ep1)" by fastforce
  obtain s2 ep2 where s2: "settle_sockets w (start_all (ho_env w) ?s) ep1 = (s2, ep2)" by fastforce
  show ?thesis
  proof (cases res)
    case (Inl e)
    then show ?thesis using assms by (simp add: user_manager_def l g r Let_def)
  next
    case (Inr errs)
    then have o: "p = pid1_new s2 (Some control) logs None False" "ep = ep2" "signals' = signals" "e = UserManager name"
      using assms by (simp_all add: user_manager_def l g r s2 Let_def)
    have "loop_begins w signals p ep"
      unfolding loop_begins_def o(1,2) using r s2 Inr assms(2,3)
      by (intro conjI exI [of _ "ho_lossy w (ho_nodename w)"] exI [of _ "user_source p0 name"] exI [of _ t]
          exI [of _ timers] exI [of _ logs] exI [of _ True] exI [of _ errs] exI [of _ ep1]
          exI [of _ "start_all (ho_env w) ?s"]) (simp_all add: pid1_new_def)
    then show ?thesis using o by (simp add: pid1_new_def)
  qed
qed

lemma user_descriptors_epoll:
  "user_descriptors w p hq = (Inr (timers, ep), h) \<Longrightarrow> ep = [] \<and> open_timers w = Inr timers"
  by (auto simp: user_descriptors_def open_events_def split: prod.splits sum.splits option.splits)

text \<open>What has happened when a user's manager reaches its loop.\<close>

lemma user_boot_begins:
  assumes "user_boot w = (Looping signals p ep e, said, h)"
  shows "loop_begins w signals p ep \<and> ho_uid w \<noteq> 0
    \<and> e = UserManager (name_of_system (ho_accounts w) (ho_uid w))
    \<and> (\<exists>p0 h0 h1 c. user_paths (ho_vars w) = Inr p0 \<and> \<not> fst (answering w (control_path p0) [])
         \<and> control_socket (ho_sock w) (control_path p0) h0 = (Inr c, h1)
         \<and> p_control p = Some c)"
proof -
  let ?n = "name_of_system (ho_accounts w) (ho_uid w)"
  have u: "ho_uid w \<noteq> 0" using assms by (cases "ho_uid w = 0") (simp_all add: user_boot_def)
  obtain p0 where p0: "user_paths (ho_vars w) = Inr p0"
    using assms u by (auto simp: user_boot_def split: sum.splits)
  have d: "private_dir w = None" using assms u p0 by (auto simp: user_boot_def Let_def split: option.splits)
  obtain hq where a: "answering w (control_path p0) [] = (False, hq)"
    using assms u p0 d by (cases "answering w (control_path p0) []"; cases "fst (answering w (control_path p0) [])")
      (simp_all add: user_boot_def Let_def)
  obtain sg where sg: "open_signalfd w = Inr sg"
    using assms u p0 d a by (cases "open_signalfd w") (auto simp: user_boot_def Let_def)
  obtain timers h0 where m: "user_descriptors w p0 hq = (Inr (timers, []), h0)"
    using assms u p0 d a sg user_descriptors_epoll [of w p0 hq]
    by (cases "user_descriptors w p0 hq"; cases "fst (user_descriptors w p0 hq)") (auto simp: user_boot_def Let_def)
  obtain c h1 where c: "control_socket (ho_sock w) (control_path p0) h0 = (Inr c, h1)"
    using assms u p0 d a sg m
    by (cases "control_socket (ho_sock w) (control_path p0) h0"; cases "fst (control_socket (ho_sock w) (control_path p0) h0)")
      (auto simp: user_boot_def Let_def)
  have "fst (user_manager w p0 ?n sg (timers, []) c h1) = Looping signals p ep e"
    using assms u p0 d a sg m c by (auto simp: user_boot_def Let_def split: prod.splits)
  from user_manager_begins [OF this sg] show ?thesis using u a p0 c user_descriptors_epoll [OF m] by auto
qed

lemma init_main_begins:
  assumes "fst (init_main w) = Looping signals p ep e"
  shows "loop_begins w signals p ep"
proof (cases "ho_pid w = 1")
  case True
  then show ?thesis using assms boot_returns_nothing [of w] by (auto simp: init_main_def)
next
  case False
  then have "fst (user_boot w) = Looping signals p ep e" using assms by (auto simp: init_main_def split: if_splits)
  then show ?thesis using user_boot_begins [of w signals p ep e] by (metis prod.collapse)
qed

lemma user_manager_out:
  "(\<exists>p ep. fst (user_manager w p0 name signals (timers, []) control h) = Looping signals p ep (UserManager name))
   \<or> fst (user_manager w p0 name signals (timers, []) control h) = Exited False"
  by (auto simp: user_manager_def Let_def split: prod.splits sum.splits)

lemma user_boot_out:
  assumes "\<And>p0. user_paths (ho_vars w) = Inr p0 \<Longrightarrow> \<not> (private_dir w = None \<and> fst (answering w (control_path p0) []))"
  shows "fst (user_boot w) = Exited False \<or> (\<exists>signals p ep e. fst (user_boot w) = Looping signals p ep e)"
proof (cases "ho_uid w = 0 \<or> isl (user_paths (ho_vars w)) \<or> private_dir w \<noteq> None")
  case True
  then show ?thesis by (auto simp: user_boot_def Let_def split: sum.splits option.splits)
next
  case False
  then obtain p0 where p0: "ho_uid w \<noteq> 0" "user_paths (ho_vars w) = Inr p0" "private_dir w = None"
    by (cases "user_paths (ho_vars w)") auto
  obtain hq where a: "answering w (control_path p0) [] = (False, hq)"
    using assms [OF p0(2)] p0(3) by (cases "answering w (control_path p0) []") auto
  show ?thesis
  proof (cases "open_signalfd w")
    case (Inl e)
    then show ?thesis using p0 a by (simp add: user_boot_def Let_def)
  next
    case sg: (Inr sg)
    obtain res h0 where d: "user_descriptors w p0 hq = (res, h0)" by fastforce
    show ?thesis
    proof (cases res)
      case (Inl e)
      then show ?thesis using p0 a sg d by (simp add: user_boot_def Let_def)
    next
      case (Inr made)
      then obtain timers where made: "made = (timers, [])"
        using d user_descriptors_epoll [of w p0 hq] by (cases made) auto
      obtain cres h1 where c: "control_socket (ho_sock w) (control_path p0) h0 = (cres, h1)" by fastforce
      show ?thesis
      proof (cases cres)
        case (Inl e)
        then show ?thesis using p0 a sg d \<open>res = Inr made\<close> made c by (simp add: user_boot_def Let_def)
      next
        case ctl: (Inr c0)
        have "fst (user_boot w) = fst (user_manager w p0 (name_of_system (ho_accounts w) (ho_uid w)) sg (timers, []) c0 h1)"
          using p0 a sg d \<open>res = Inr made\<close> made c ctl by (simp add: user_boot_def Let_def case_prod_beta)
        then show ?thesis using user_manager_out by metis
      qed
    qed
  qed
qed

text \<open>C28.  Whatever start-up came to, nothing waits without a deadline: from the state the loop of
  either manager begins with, over any turns in which the timer descriptor can be set, every
  unit that waits for something has the alarm of that wait pending.\<close>

theorem started_manager_is_never_stuck:
  assumes "fst (init_main w) = Looping signals p ep e" and "e_settime (ho_env w)"
    and "list_all (\<lambda>(env, ev). e_settime env) (loop_events e js ts p)"
    and "get_inst (p_sup (loop e js ts p)) n = Some i" and "deadline_of n i = Some a"
  shows "a \<in> pending_alarms (s_timers (p_sup (loop e js ts p)))"
proof -
  have "guarded {} (p_sup (loop e js ts p))"
    unfolding loop_sup using run_guarded [OF assms(3)] loop_begins_guarded [OF init_main_begins [OF assms(1)] assms(2)] by blast
  then have "covered (alarms (p_sup (loop e js ts p))) n i" using assms(4) by (simp add: guarded_def cov_but_def)
  then show ?thesis using assms(5) by (simp add: covered_deadline alarms_def)
qed

lemma user_boot_refuses:
  "ho_uid w = 0 \<Longrightarrow> fst (user_boot w) = Exited False"
  "ho_uid w \<noteq> 0 \<Longrightarrow> user_paths (ho_vars w) = Inl err \<Longrightarrow> fst (user_boot w) = Exited False"
  by (simp_all add: user_boot_def)

lemma user_boot_second:
  "ho_uid w \<noteq> 0 \<Longrightarrow> user_paths (ho_vars w) = Inr p0 \<Longrightarrow> private_dir w = None \<Longrightarrow> fst (answering w (control_path p0) []) \<Longrightarrow>
     fst (user_boot w) = Exited True \<and> snd (snd (user_boot w)) =
       [OpenSocket AfUnix Seqpacket True, UnixAddress (control_path p0), ConnectTo (control_path p0)]"
  by (auto simp: user_boot_def Let_def answering_def split: option.splits if_splits prod.splits)

lemma user_boot_first:
  assumes "ho_uid w \<noteq> 0" and "user_paths (ho_vars w) = Inr p0" and "\<not> (private_dir w = None \<and> fst (answering w (control_path p0) []))"
  shows "case user_boot w of
              (Looping signals p ep e, said, h) \<Rightarrow>
                \<not> fst (answering w (control_path p0) []) \<and> e = UserManager (name_of_system (ho_accounts w) (ho_uid w))
                \<and> p_control p = Some control_bind
                \<and> (\<exists>h0 h1. control_socket (ho_sock w) (control_path p0) h0 = (Inr control_bind, h1))
            | (Exited b, _, _) \<Rightarrow> \<not> b
            | (FellBack _, _, _) \<Rightarrow> False"
proof -
  have ctl: "c = control_bind" if "control_socket k path h = (Inr c, h1)" for k path h c h1
    using that by (simp add: control_socket_def split: prod.splits option.splits)
  have first: "\<not> (private_dir w = None \<and> fst (answering w (control_path p1) []))" if "user_paths (ho_vars w) = Inr p1" for p1
    using assms(2,3) that by simp
  obtain out said h where o: "user_boot w = (out, said, h)" by (metis prod_cases3)
  show ?thesis
  proof (cases out)
    case (Looping signals p ep e)
    have "user_boot w = (Looping signals p ep e, said, h)" using o Looping by simp
    from user_boot_begins [OF this] obtain q h0 h1 c
      where q: "user_paths (ho_vars w) = Inr q" and d: "control_socket (ho_sock w) (control_path q) h0 = (Inr c, h1)"
        and n: "p_control p = Some c" "\<not> fst (answering w (control_path q) [])" "e = UserManager (name_of_system (ho_accounts w) (ho_uid w))"
      by blast
    have "q = p0" using q assms(2) by simp
    then have c: "control_socket (ho_sock w) (control_path p0) h0 = (Inr c, h1)" "p_control p = Some c"
        "\<not> fst (answering w (control_path p0) [])" "e = UserManager (name_of_system (ho_accounts w) (ho_uid w))"
      using d n by simp_all
    have k: "c = control_bind" by (rule ctl [OF c(1)])
    have "\<exists>h0 h1. control_socket (ho_sock w) (control_path p0) h0 = (Inr control_bind, h1)"
      using c(1) unfolding k by blast
    then show ?thesis using c(2-4) k by (simp add: o Looping)
  next
    case (FellBack sg)
    then show ?thesis using o user_boot_out [OF first] by simp
  next
    case (Exited b)
    then show ?thesis using o user_boot_out [OF first] by simp
  qed
qed

text \<open>C29.  One manager per user.  Run by a user whose manager answers, the program exits with success and
  has made three calls on sockets only: a socket of its own, the address of the manager's control
  socket, and the connection that was answered.  Nothing was removed or bound, so the running
  manager's files are untouched.  Run by root it refuses; and when it does come to its loop, nobody answered, it is not root, and it holds a
  control socket of its own.\<close>

theorem one_manager_per_user:
  assumes "ho_pid w \<noteq> 1" and "''--user'' \<in> set (drop 1 (ho_args w))" and "\<not> asks_version (ho_args w)"
  shows "(if ho_uid w = 0 then fst (init_main w) = Exited False
      else case user_paths (ho_vars w) of Inl _ \<Rightarrow> fst (init_main w) = Exited False
      | Inr p0 \<Rightarrow>
          if private_dir w = None \<and> fst (answering w (control_path p0) []) then 
            fst (init_main w) = Exited True \<and> snd (snd (init_main w)) =
              [OpenSocket AfUnix Seqpacket True, UnixAddress (control_path p0), ConnectTo (control_path p0)]
          else case init_main w of
              (Looping signals p ep e, said, h) \<Rightarrow>
                \<not> fst (answering w (control_path p0) []) \<and> e = UserManager (name_of_system (ho_accounts w) (ho_uid w))
                \<and> p_control p = Some control_bind
                \<and> (\<exists>h0 h1. control_socket (ho_sock w) (control_path p0) h0 = (Inr control_bind, h1))
            | (Exited b, _, _) \<Rightarrow> \<not> b
            | (FellBack _, _, _) \<Rightarrow> False)"
proof -
  have m: "init_main w = user_boot w" using assms by (simp add: init_main_def)
  show ?thesis
  proof (cases "ho_uid w = 0")
    case True
    show ?thesis unfolding m if_P [OF True] by (rule user_boot_refuses(1) [OF True])
  next
    case u: False
    show ?thesis
    proof (cases "user_paths (ho_vars w)")
      case (Inl err)
      then show ?thesis using user_boot_refuses(2) [OF u Inl] m u by (simp only: if_False sum.case)
    next
      case p0: (Inr p0)
      then show ?thesis
        using user_boot_second [OF u p0] user_boot_first [OF u p0] m u
        by (cases "private_dir w = None \<and> fst (answering w (control_path p0) [])") (simp_all only: if_True if_False sum.case simp_thms)
    qed
  qed
qed

text \<open>The same host for a user with a session, whose manager answers or not.\<close>

definition sample_user_host :: "bool \<Rightarrow> host" where
  "sample_user_host running = sample_host\<lparr>ho_pid := 50, ho_args := [''oxinit'', ''--user''], ho_uid := 1000,
     ho_vars := (\<lambda>n. if n = ''XDG_RUNTIME_DIR'' then Some ''/run/user/1000'' else if n = ''HOME'' then Some ''/home/a'' else None),
     ho_sock := (\<lambda>_ op. case op of ConnectTo _ \<Rightarrow> if running then None else Some (OtherErrno 111) | _ \<Rightarrow> None)\<rparr>"

lemma sample_user_asks:
  "ho_pid (sample_user_host r) \<noteq> 1" "''--user'' \<in> set (drop 1 (ho_args (sample_user_host r)))"
  "\<not> asks_version (ho_args (sample_user_host r))"
  by (simp_all add: sample_user_host_def asks_version_def)

theorem one_manager_per_user_witness:
  "fst (init_main (sample_user_host True)) = Exited True
   \<and> ConnectTo ''/run/user/1000/oxinit/control.sock'' \<in> set (snd (snd (init_main (sample_user_host True))))"
proof -
  let ?w = "sample_user_host True"
  obtain p0 where p: "user_paths (ho_vars ?w) = Inr p0" "control_path p0 = ''/run/user/1000/oxinit/control.sock''"
    by (simp add: user_paths_def sample_user_host_def Let_def base_dir_def absolute_var_def path_is_absolute_def
        control_path_def path_join_def CONTROL_NAME_def)
  have a: "ho_uid ?w \<noteq> 0" "private_dir ?w = None" "fst (answering ?w (control_path p0) [])"
    by (simp_all add: sample_user_host_def sample_host_def private_dir_def answering_def)
  show ?thesis using one_manager_per_user [OF sample_user_asks, of True] a by (simp add: p)
qed

text \<open>On the first host, two clients: one asks for a reload that brings a service in, the other
  starts it.\<close>

definition sample_ask_json :: json where
  "sample_ask_json = \<lparr>js_request = (\<lambda>b. if b = ''r'' then Inr RReload else Inr (RStart ''s'')),
     js_response = (\<lambda>r. Inr ''ok''), js_texts = (\<lambda>_. [])\<rparr>"

definition sample_asking :: turn_input where
  "sample_asking = (let an = sample_answers\<lparr>an_loaded := sample_loaded Oneshot Always\<rparr> in
     (sample_turn 10)\<lparr>ti_sources :=
       [(Control, an\<lparr>an_accept := Some 50\<rparr>), (Client 0, an\<lparr>an_recv := (\<lambda>_. Some (''r'', 1))\<rparr>),
        (Control, an\<lparr>an_accept := Some 51\<rparr>), (Client 1, an\<lparr>an_recv := (\<lambda>_. Some (''s'', 1))\<rparr>)]\<rparr>)"

definition sample_blank :: sup where
  "sample_blank = (sample_sup (inst_new (sample_unit Oneshot Always)))\<lparr>s_instances := [], s_order := [],
     s_hostname := ''localhost'', s_source := system_source\<rparr>"

lemma sample_load: "load_sup sample_host ''localhost'' system_source cgroups_unavailable = sample_blank"
  by (simp add: load_sup_def source_load_def load_dirs_in_def load_dir_def unit_files_def sort_key_def
      system_source_def sample_host_def sup_load_def Let_def sample_blank_def sample_sup_def abs_unavailable)

lemma granted_run: "sock_run (\<lambda>_ _. None) ops h = (None, h @ ops)"
  by (induction ops arbitrary: h) simp_all

lemma sample_sockets:
  "\<exists>h. notify_bind (ho_sock sample_host) path [] = (None, h)"
  "\<exists>h1. open_control sample_host path h = ((Some control_bind, []), h1)"
  "\<exists>h1. open_logs sample_host path h = ((logs_bind, []), h1)"
  by (simp_all only: sample_host_def host.simps notify_bind_def open_control_def control_socket_def open_logs_def
      log_socket_def granted_run prod.case option.case sum.case prod.inject simp_thms)

lemma sample_descriptors:
  "open_signalfd sample_host = Inr 3" "open_timers sample_host = Inr (4, 5)" "open_events sample_host = Inr []"
  "host_name sample_host = (''localhost'', True)" "detect (ho_evidence sample_host) = Machine"
  by (simp_all add: open_signalfd_def open_timers_def open_events_def host_name_def set_hostname_def current_hostname_def Let_def
      detect_def EVIDENCE_def from_env_def from_marker_def from_capabilities_def sample_host_def)

lemma sample_no_cgroups: "\<exists>said. open_cgroups sample_host root = (cgroups_unavailable, said)"
  by (simp add: open_cgroups_def cgroups_open_def hierarchy_new_def cg_read_def sample_host_def)

lemma sample_boots:
  "\<exists>p ep. fst (init_main sample_host) = Looping 3 p ep Machine \<and> p_sup p = sample_blank
     \<and> p_control p = Some control_bind \<and> p_down p = []"
proof -
  let ?w = sample_host
  obtain h where nb: "notify_bind (ho_sock ?w) (notify_path system_paths) [] = (None, h)" using sample_sockets(1) by blast
  obtain h1 where c: "open_control ?w (control_path system_paths) h = ((Some control_bind, []), h1)"
    using sample_sockets(2) by blast
  obtain h2 where l: "open_logs ?w (log_socket_path system_paths) h1 = ((logs_bind, []), h2)"
    using sample_sockets(3) by blast
  obtain said where g: "open_cgroups ?w CGROUP_ROOT = (cgroups_unavailable, said)" using sample_no_cgroups by blast
  let ?wr = "wiring_of ?w 3 (4, 5) True logs_bind sample_blank"
  obtain errs ep where w: "wire (ho_ctl ?w) ?wr [] = (Inr errs, ep)"
    using wire_of_succeeds [of ?w 3 4 5 True logs_bind sample_blank]
    by (cases "wire (ho_ctl ?w) ?wr []"; cases "fst (wire (ho_ctl ?w) ?wr [])") (simp_all add: can_loop_def sample_host_def)
  have s: "start_units ?w sample_blank = (sample_blank, True, [Err ''oxinit: nothing to start; falling back to a console shell''])"
    by (simp add: start_units_def sup_is_empty_def sample_blank_def sample_host_def shell_spawn_def)
  have y: "settle_sockets ?w sample_blank ep = (sample_blank, ep)"
    by (simp add: settle_sockets_def sync_table_def sockets_ids_def sample_blank_def sample_sup_def)
  have "init_main ?w = boot ?w" by (simp add: init_main_def sample_host_def)
  moreover have "fst (boot ?w) = fst (boot_manager ?w 3 (4, 5) [] h)"
    by (simp add: boot_def sample_descriptors nb case_prod_beta)
  moreover have "fst (boot_manager ?w 3 (4, 5) [] h) =
      Looping 3 (pid1_new sample_blank (Some control_bind) logs_bind (boot_watchdog ?w) True) ep Machine"
    by (simp add: boot_manager_def c g l sample_descriptors sample_load w s y)
  ultimately show ?thesis by (simp add: pid1_new_def)
qed

lemma sample_asked:
  assumes "p_sup p = sample_blank" and "p_control p = Some control_bind"
  shows "loop_events Machine sample_ask_json [sample_asking] (p\<lparr>p_down := []\<rparr>) =
     [(sample_env, EvRequest (sample_loaded Oneshot Always) RReload),
      (sample_env, EvRequest (sample_loaded Oneshot Always) (RStart ''s'')), (sample_env, EvPump), (sample_env, EvSync)]"
  using assms
  by (simp add: sample_asking_def turn_events_def source_events_def request_event_def handle_source_def Let_def
      sample_turn_def sample_answers_def sample_ask_json_def on_connect_def control_accept_def control_bind_def
      MAX_CLIENTS_def control_fd_def control_client_def control_recv_def MAX_MESSAGE_def on_request_def
      control_close_def)

definition sample_waiting :: inst where
  "sample_waiting = entered_activating 7 (inst_new (sample_unit Oneshot Always))"

lemma sample_asked_sup:
  "get_inst (run_events [(sample_env, EvRequest (sample_loaded Oneshot Always) RReload),
      (sample_env, EvRequest (sample_loaded Oneshot Always) (RStart ''s'')), (sample_env, EvPump), (sample_env, EvSync)]
      sample_blank) ''s'' = Some sample_waiting"
proof -
  let ?i = "inst_new (sample_unit Oneshot Always)"
  let ?s = "sample_blank\<lparr>s_instances := [(''s'', ?i)]\<rparr>"
  have r: "fst (handle sample_env (sample_loaded Oneshot Always) texts RReload sample_blank) = ?s" for texts
    by (simp add: handle_def reload_def reload_one_def sample_loaded_def sample_blank_def sample_sup_def get_inst_def
        cgroups_add_def sample_unit_def retained_def Let_def)
  have st: "sup_start sample_env ''s'' ?s =
      sched sample_env (from_secs 90) (StartTimeout ''s'')
        (?s\<lparr>s_instances := [(''s'', sample_waiting)], s_trace := [Spawned ''s'' 7]\<rparr>)"
    by (simp add: sup_start_def shutting_down_def sample_blank_def sample_sup_def conflicting_with_def get_inst_def
        start_unit_def start_service_def sample_unit_def apply_resources_def output_ok_def spawn_def unit_service_def
        system_source_def SYSTEM_NOTIFY_def has_cgroup_def for_service_def service_env_def has_nul_def sample_env_def
        Let_def upd_inst_def bupdate_def emit_def inst_new_def sample_waiting_def)
  have q: "pump env t = t" if "s_shutdown t = None" "s_pending t = []" for env t
    using that by (subst pump_def) (simp add: shutting_down_def pump_loop.simps [of env t] next_startable_def)
  have h: "fst (handle sample_env l texts (RStart ''s'') ?s) = sup_start sample_env ''s'' ?s" for l texts
    by (simp add: handle_def get_inst_def shutting_down_def sample_blank_def sample_sup_def)
  show ?thesis
    unfolding run_events_Cons run_events_Nil handle_event_def event.case r h st
    by (simp add: q sched_def sample_blank_def sample_sup_def sync_sockets_def get_inst_def)
qed

theorem started_manager_is_never_stuck_witness:
  "\<exists>p ep. fst (init_main sample_host) = Looping 3 p ep Machine
     \<and> StartTimeout ''s'' \<in> pending_alarms (s_timers (p_sup (loop Machine sample_ask_json [sample_asking] p)))"
proof -
  obtain p ep where p: "fst (init_main sample_host) = Looping 3 p ep Machine" "p_sup p = sample_blank"
    "p_control p = Some control_bind" "p_down p = []" using sample_boots by blast
  have "p\<lparr>p_down := []\<rparr> = p" using p(4) by simp
  then have ev: "loop_events Machine sample_ask_json [sample_asking] p =
     [(sample_env, EvRequest (sample_loaded Oneshot Always) RReload),
      (sample_env, EvRequest (sample_loaded Oneshot Always) (RStart ''s'')), (sample_env, EvPump), (sample_env, EvSync)]"
    using sample_asked [OF p(2,3)] by simp
  have i: "get_inst (p_sup (loop Machine sample_ask_json [sample_asking] p)) ''s'' = Some sample_waiting"
    unfolding loop_sup ev p(2) by (rule sample_asked_sup)
  have t: "e_settime (ho_env sample_host)"
    "list_all (\<lambda>(env, ev). e_settime env) (loop_events Machine sample_ask_json [sample_asking] p)"
    unfolding ev by (simp_all add: sample_host_def sample_env_def)
  have d: "deadline_of ''s'' sample_waiting = Some (StartTimeout ''s'')"
    by (simp add: deadline_of_def sample_waiting_def)
  show ?thesis using started_manager_is_never_stuck [OF p(1) t i d] p(1) by blast
qed

section \<open>What the loop watches first\<close>

text \<open>Starting units binds nothing and registers nothing.\<close>

definition bindings :: "sup \<Rightarrow> bound list \<times> cgroups" where
  "bindings s = (s_sockets s, s_cgroups s)"

lemma bindings_small [simp]:
  "bindings (upd_inst n f s) = bindings s" "bindings (sched env d a s) = bindings s" "bindings (emit es s) = bindings s"
  "bindings (dequeue n s) = bindings s" "bindings (s\<lparr>s_pending := q\<rparr>) = bindings s"
  by (simp_all add: bindings_def upd_inst_def sched_def emit_def dequeue_def)

lemma bindings_signal [simp]: "bindings (signal_unit env n c s) = bindings s"
  by (auto simp: signal_unit_def Let_def split: option.splits)

lemma bindings_stop [simp]: "bindings (sup_stop env n c s) = bindings s"
  by (auto simp: sup_stop_def Let_def split: option.splits)

lemma bindings_arm [simp]: "bindings (sup_arm env n nx s) = bindings s"
  by (auto simp: sup_arm_def bindings_def Let_def split: option.splits prod.splits)

lemma bindings_start_unit [simp]: "bindings (start_unit env n s) = bindings s"
  by (auto simp: start_unit_def start_service_def Let_def split: option.splits kind.splits sum.splits)

lemma bindings_start [simp]: "bindings (sup_start env n s) = bindings s"
proof -
  have "bindings (fold (stop_conflicting env) ns s) = bindings s" for ns
    by (induction ns arbitrary: s) (simp_all add: stop_conflicting_def split: option.splits)
  then show ?thesis by (simp add: sup_start_def)
qed

lemma bindings_pump_loop: "bindings (pump_loop env s) = bindings s"
  by (induction env s rule: pump_loop.induct) (subst pump_loop.simps, auto split: option.splits)

lemma bindings_start_all [simp]: "bindings (start_all env s) = bindings s"
  by (simp add: start_all_def pump_def bindings_pump_loop)

definition unarmed :: "sup \<Rightarrow> bool" where
  "unarmed s \<longleftrightarrow> list_all (\<lambda>b. \<not> bd_armed b) (s_sockets s)"

lemma unarmed_load: "unarmed (load_sup w hostname source t)"
proof -
  have step: "unarmed s \<Longrightarrow> unarmed (add_instance env nu s)" "unarmed s \<Longrightarrow> unarmed (bind_unit env us n s)" for env nu us n s
    by (auto simp: unarmed_def add_instance_def bind_unit_def sockets_bind_def list_all_iff split: prod.splits option.splits)
  have add: "unarmed s \<Longrightarrow> unarmed (fold (add_instance env) nus s)" for env nus s
    by (induction nus arbitrary: s) (simp_all add: step)
  have bind: "unarmed s \<Longrightarrow> unarmed (fold (bind_unit env us) ns s)" for env us ns s
    by (induction ns arbitrary: s) (simp_all add: step)
  show ?thesis unfolding load_sup_def sup_load_def Let_def by (auto intro!: add bind) (simp_all add: unarmed_def)
qed

text \<open>Open descriptors have different numbers: the five or six fixed ones, one per bound socket and
  one per cgroup.\<close>

definition fds_apart :: "host \<Rightarrow> nat \<Rightarrow> nat \<times> nat \<Rightarrow> bool" where
  "fds_apart w signals timers \<longleftrightarrow>
     (let fixed = [signals, fst timers, snd timers, ho_notify_fd w, ho_control_fd w, ho_log_fd w] in
      distinct fixed \<and> inj (ho_socket_fd w) \<and> inj (ho_cgroup_fd w)
      \<and> range (ho_socket_fd w) \<inter> range (ho_cgroup_fd w) = {}
      \<and> set fixed \<inter> (range (ho_socket_fd w) \<union> range (ho_cgroup_fd w)) = {})"

lemma descriptors_subset:
  "set (descriptors (wiring_of w signals timers b logs s)) \<subseteq>
     {signals, fst timers, snd timers, ho_notify_fd w, ho_control_fd w, ho_log_fd w} \<union> range (ho_cgroup_fd w)"
  by (auto simp: descriptors_def required_def optional_def wiring_of_def cgroup_fds_def)

lemma cgroup_fds_distinct: "inj (ho_cgroup_fd w) \<Longrightarrow> distinct (map snd (cgroup_fds w s))"
proof -
  assume i: "inj (ho_cgroup_fd w)"
  have "inj_on (\<lambda>n. ho_cgroup_fd w (of_nat n)) {n. n < 2 ^ 32}"
  proof (rule inj_onI)
    fix x y :: nat
    assume xy: "x \<in> {n. n < 2 ^ 32}" "y \<in> {n. n < 2 ^ 32}" "ho_cgroup_fd w (of_nat x) = ho_cgroup_fd w (of_nat y)"
    have "(of_nat x :: 32 word) = of_nat y" using i xy(3) by (simp add: inj_eq)
    then show "x = y" using xy(1,2) unat_of_nat32 by (metis mem_Collect_eq)
  qed
  then show ?thesis by (simp add: cgroup_fds_def distinct_map comp_def inj_on_def)
qed

lemma descriptors_distinct:
  assumes "fds_apart w signals timers"
  shows "distinct (descriptors (wiring_of w signals timers b logs s))"
proof -
  have c: "distinct (map snd (cgroup_fds w s))" using assms cgroup_fds_distinct by (simp add: fds_apart_def Let_def)
  have r: "set (map snd (cgroup_fds w s)) \<subseteq> range (ho_cgroup_fd w)" by (auto simp: cgroup_fds_def)
  have f: "x \<notin> set (map snd (cgroup_fds w s))"
    if "x \<in> {signals, fst timers, snd timers, ho_notify_fd w, ho_control_fd w, ho_log_fd w}" for x
    using assms that r by (auto simp: fds_apart_def Let_def)
  have d: "distinct [signals, fst timers, snd timers, ho_notify_fd w, ho_control_fd w, ho_log_fd w]"
    using assms by (simp add: fds_apart_def Let_def)
  have "map fst (optional (wiring_of w signals timers b logs s)) =
      (if b then [ho_control_fd w] else []) @ (if lg_listener logs then [ho_log_fd w] else []) @ map snd (cgroup_fds w s)"
    by (simp add: optional_def wiring_of_def comp_def case_prod_beta)
  moreover have "map fst (required (wiring_of w signals timers b logs s)) = [signals, fst timers, snd timers, ho_notify_fd w]"
    by (simp add: required_def wiring_of_def)
  ultimately show ?thesis using c f d by (auto simp: descriptors_def)
qed

lemma in_step_at_first:
  assumes "wire ctl wr [] = (Inr errs, ep)" and "distinct (descriptors wr)" and "unarmed s"
    and "set (descriptors wr) \<inter> range fd_of = {}"
  shows "in_step fd_of (s_sockets s) ep"
proof -
  have none: "source_of ep (fd_of i) = None" for i
  proof (rule ccontr)
    assume "source_of ep (fd_of i) \<noteq> None"
    then obtain src where "source_of ep (fd_of i) = Some src" by blast
    then have "(fd_of i, src) \<in> set (required wr) \<or> (\<exists>p. (fd_of i, src, p) \<in> set (optional wr) \<and> ctl (fd_of i) = None)"
      using wire_sources [OF assms(1,2), of "fd_of i" src] by (simp only: simp_thms)
    then have "fd_of i \<in> set (descriptors wr)" unfolding descriptors_def by force
    then show False using assms(4) by blast
  qed
  have "\<not> sockets_armed (s_sockets s) i" for i
    using assms(3) by (auto simp: sockets_armed_def sockets_get_def unarmed_def list_all_length)
  then show ?thesis using conjunct1 [OF wire_table [OF assms(1,2)]] none unfolding in_step_def by simp
qed

lemma sync_length: "sync_table ctl fd_of s ep = (bs, ep') \<Longrightarrow> length bs = length (s_sockets s)"
proof -
  assume r: "sync_table ctl fd_of s ep = (bs, ep')"
  have one: "length (fst (sync_one ctl fd_of s x st)) = length (fst st)" for x st
    by (cases x; cases st)
      (auto simp: sync_one_def sockets_set_armed_def Let_def split: option.splits prod.splits)
  have "length (fst (fold (sync_one ctl fd_of s) xs st)) = length (fst st)" for xs st
    by (induction xs arbitrary: st) (simp_all add: one)
  from this [of "sockets_ids (s_sockets s)" "(s_sockets s, ep)"] show ?thesis
    using r by (simp add: sync_table_def)
qed

lemma option_is: "(\<And>src. z = Some src \<longleftrightarrow> c \<and> src = v) \<Longrightarrow> z = (if c then Some v else None)"
  by (cases z) auto

text \<open>What wiring leaves, when the descriptors are apart.\<close>

lemma fds_apart_facts:
  assumes "fds_apart w signals timers"
  shows "distinct [signals, fst timers, snd timers, ho_notify_fd w, ho_control_fd w, ho_log_fd w]"
    "x \<in> {signals, fst timers, snd timers, ho_notify_fd w, ho_control_fd w, ho_log_fd w} \<Longrightarrow>
       x \<notin> range (ho_socket_fd w) \<and> x \<notin> range (ho_cgroup_fd w)"
    "ho_cgroup_fd w i \<notin> range (ho_socket_fd w)" "ho_cgroup_fd w i = ho_cgroup_fd w j \<longleftrightarrow> i = j"
    "ho_socket_fd w i = ho_socket_fd w j \<longleftrightarrow> i = j"
  using assms by (auto simp: fds_apart_def Let_def inj_eq)

definition cgroup_entries :: "host \<Rightarrow> sup \<Rightarrow> (nat \<times> event_source \<times> bool) list" where
  "cgroup_entries w s = map (\<lambda>(i, fd). (fd, CgroupEvent i, True)) (cgroup_fds w s)"

lemma cgroup_entry: "(x, src, q) \<in> set (cgroup_entries w s) \<Longrightarrow> \<exists>i. x = ho_cgroup_fd w i \<and> src = CgroupEvent i"
  by (auto simp: cgroup_entries_def cgroup_fds_def)

lemma wiring_entries:
  "set (required (wiring_of w signals timers b logs s)) =
     {(signals, Signals), (fst timers, MonoTimer), (snd timers, WallTimer), (ho_notify_fd w, NotifySocket)}"
  "set (optional (wiring_of w signals timers b logs s)) =
     (if b then {(ho_control_fd w, Control, False)} else {})
     \<union> (if lg_listener logs then {(ho_log_fd w, LogSocket, False)} else {}) \<union> set (cgroup_entries w s)"
  by (simp_all add: required_def optional_def wiring_of_def cgroup_entries_def)

lemma wiring_look:
  assumes "wire (ho_ctl w) (wiring_of w signals timers b logs s) [] = (Inr errs, ep)" and "fds_apart w signals timers"
  shows "source_of ep x = Some src \<longleftrightarrow>
      (x, src) \<in> {(signals, Signals), (fst timers, MonoTimer), (snd timers, WallTimer), (ho_notify_fd w, NotifySocket)}
      \<or> ho_ctl w x = None \<and> (b \<and> x = ho_control_fd w \<and> src = Control
          \<or> lg_listener logs \<and> x = ho_log_fd w \<and> src = LogSocket \<or> (\<exists>q. (x, src, q) \<in> set (cgroup_entries w s)))"
  unfolding wire_sources [OF assms(1) descriptors_distinct [OF assms(2)]] wiring_entries by (auto split: if_splits)

lemma wiring_watches:
  assumes "wire (ho_ctl w) (wiring_of w signals timers b logs s) [] = (Inr errs, ep)" and "fds_apart w signals timers"
  shows "map (source_of ep) [signals, fst timers, snd timers, ho_notify_fd w] =
        map Some [Signals, MonoTimer, WallTimer, NotifySocket]"
    and "source_of ep (ho_control_fd w) = (if b \<and> ho_ctl w (ho_control_fd w) = None then Some Control else None)"
    and "source_of ep (ho_log_fd w) = (if lg_listener logs \<and> ho_ctl w (ho_log_fd w) = None then Some LogSocket else None)"
    and "(i, ho_cgroup_fd w i) \<in> set (cgroup_fds w s) \<Longrightarrow>
      source_of ep (ho_cgroup_fd w i) = (if ho_ctl w (ho_cgroup_fd w i) = None then Some (CgroupEvent i) else None)"
proof -
  note look = wiring_look [OF assms]
  note f = fds_apart_facts [OF assms(2)]
  show "map (source_of ep) [signals, fst timers, snd timers, ho_notify_fd w] =
        map Some [Signals, MonoTimer, WallTimer, NotifySocket]"
    using look [of signals Signals] look [of "fst timers" MonoTimer] look [of "snd timers" WallTimer]
      look [of "ho_notify_fd w" NotifySocket] by simp
  have "(ho_control_fd w, src, q) \<notin> set (cgroup_entries w s)" for src q
    using cgroup_entry f(2) [of "ho_control_fd w"] by fast
  then show "source_of ep (ho_control_fd w) = (if b \<and> ho_ctl w (ho_control_fd w) = None then Some Control else None)"
    using f(1) by (intro option_is) (auto simp: look)
  have "(ho_log_fd w, src, q) \<notin> set (cgroup_entries w s)" for src q
    using cgroup_entry f(2) [of "ho_log_fd w"] by fast
  then show "source_of ep (ho_log_fd w) = (if lg_listener logs \<and> ho_ctl w (ho_log_fd w) = None then Some LogSocket else None)"
    using f(1) by (intro option_is) (auto simp: look)
  assume i: "(i, ho_cgroup_fd w i) \<in> set (cgroup_fds w s)"
  have c: "(\<exists>q. (ho_cgroup_fd w i, src, q) \<in> set (cgroup_entries w s)) \<longleftrightarrow> src = CgroupEvent i" for src
  proof
    assume "\<exists>q. (ho_cgroup_fd w i, src, q) \<in> set (cgroup_entries w s)"
    then show "src = CgroupEvent i" using cgroup_entry f(4) by metis
  next
    assume "src = CgroupEvent i"
    then show "\<exists>q. (ho_cgroup_fd w i, src, q) \<in> set (cgroup_entries w s)" using i by (force simp: cgroup_entries_def)
  qed
  have "ho_cgroup_fd w i \<notin> {signals, fst timers, snd timers, ho_notify_fd w, ho_control_fd w, ho_log_fd w}"
    using f(2) by blast
  then show "source_of ep (ho_cgroup_fd w i) = (if ho_ctl w (ho_cgroup_fd w i) = None then Some (CgroupEvent i) else None)"
    by (intro option_is) (simp add: look c)
qed

lemma settle_result:
  "settle_sockets w s ep = (s', ep') \<Longrightarrow>
     s' = s\<lparr>s_sockets := s_sockets s'\<rparr> \<and> sync_table (ho_ctl w) (ho_socket_fd w) s ep = (s_sockets s', ep')"
  by (auto simp: settle_sockets_def split: prod.splits)

lemma first_sync:
  assumes "wire (ho_ctl w) (wiring_of w signals timers b logs (load_sup w hostname source t)) [] = (Inr errs, ep1)"
    and "fds_apart w signals timers" and "bindings s1 = bindings (load_sup w hostname source t)"
    and "sync_table (ho_ctl w) (ho_socket_fd w) s1 ep1 = (bs, ep)" and "length bs \<le> 2 ^ 32"
  shows "bs = map (\<lambda>n. synced (ho_ctl w) (ho_socket_fd w) s1 n (s_sockets s1 ! n)) [0..<length (s_sockets s1)]
    \<and> in_step (ho_socket_fd w) bs ep \<and> (\<forall>x. x \<notin> range (ho_socket_fd w) \<longrightarrow> source_of ep x = source_of ep1 x)"
proof (rule sync_table_result)
  note d = descriptors_distinct [OF assms(2)]
  have "unarmed s1" using unarmed_load [of w hostname source t] assms(3) by (simp add: unarmed_def bindings_def)
  moreover have "x \<notin> range (ho_socket_fd w)"
    if "x \<in> set (descriptors (wiring_of w signals timers b logs (load_sup w hostname source t)))" for x
    using subsetD [OF descriptors_subset that]
  proof (rule UnE)
    assume "x \<in> {signals, fst timers, snd timers, ho_notify_fd w, ho_control_fd w, ho_log_fd w}"
    then show ?thesis using fds_apart_facts(2) [OF assms(2)] by blast
  next
    assume "x \<in> range (ho_cgroup_fd w)"
    then obtain i where "x = ho_cgroup_fd w i" by (rule rangeE)
    then show ?thesis using fds_apart_facts(3) [OF assms(2)] by simp
  qed
  then have "set (descriptors (wiring_of w signals timers b logs (load_sup w hostname source t))) \<inter> range (ho_socket_fd w) = {}"
    by (simp only: disjoint_iff) blast
  ultimately show "in_step (ho_socket_fd w) (s_sockets s1) ep1" by (rule in_step_at_first [OF assms(1) d])
  show "ho_socket_fd w i = ho_socket_fd w j \<Longrightarrow> i = j" for i j using fds_apart_facts(5) [OF assms(2)] by blast
  show "length (s_sockets s1) \<le> 2 ^ 32" using sync_length [OF assms(4)] assms(5) by simp
qed (rule assms(4))

text \<open>C30.  The loop starts with everything watched, and only once.  When either manager comes to its
  loop, the four descriptors it cannot do without are registered under their own names; the
  control socket, the log socket and each cgroup are, exactly when there is one and the kernel
  takes it; and of the sockets of socket units precisely those marked as armed are, an idle
  service's whenever the kernel takes it.\<close>

theorem loop_starts_with_everything_watched:
  assumes "fst (init_main w) = Looping signals p ep e" and "open_timers w = Inr timers"
    and "fds_apart w signals timers" and "length (s_sockets (p_sup p)) \<le> 2 ^ 32"
  shows "map (source_of ep) [signals, fst timers, snd timers, ho_notify_fd w] =
        map Some [Signals, MonoTimer, WallTimer, NotifySocket]
    \<and> source_of ep (ho_control_fd w) = (if p_control p \<noteq> None \<and> ho_ctl w (ho_control_fd w) = None then Some Control else None)
    \<and> source_of ep (ho_log_fd w) = (if lg_listener (p_logs p) \<and> ho_ctl w (ho_log_fd w) = None then Some LogSocket else None)
    \<and> in_step (ho_socket_fd w) (s_sockets (p_sup p)) ep
    \<and> list_all (\<lambda>(i, fd). source_of ep fd = (if ho_ctl w fd = None then Some (CgroupEvent i) else None)) (cgroup_fds w (p_sup p))
    \<and> list_all (\<lambda>n. ho_ctl w (ho_socket_fd w (of_nat n)) \<noteq> None
          \<or> bd_armed (s_sockets (p_sup p) ! n) = want_armed (p_sup p) (bd_service (s_sockets (p_sup p) ! n)))
        [0..<length (s_sockets (p_sup p))]"
proof -
  from init_main_begins [OF assms(1)] obtain hostname source t timers' logs b errs ep1 s1 where l0:
    "open_timers w = Inr timers'"
    "wire (ho_ctl w) (wiring_of w signals timers' b logs (load_sup w hostname source t)) [] = (Inr errs, ep1)"
    "s1 \<in> {load_sup w hostname source t, start_all (ho_env w) (load_sup w hostname source t)}"
    "settle_sockets w s1 ep1 = (p_sup p, ep)" "p_logs p = logs" "b = (p_control p \<noteq> None)"
    unfolding loop_begins_def by blast
  have "timers' = timers" using l0(1) assms(2) by simp
  note l = l0(2-6) [unfolded this]
  let ?s0 = "load_sup w hostname source t" and ?fd = "ho_socket_fd w"
  have b1: "bindings s1 = bindings ?s0" using l(2) by auto
  have y: "p_sup p = s1\<lparr>s_sockets := s_sockets (p_sup p)\<rparr>" "sync_table (ho_ctl w) ?fd s1 ep1 = (s_sockets (p_sup p), ep)"
    using settle_result [OF l(3)] by blast+
  note r = first_sync [OF l(1) assms(3) b1 y(2) assms(4)]
  have same: "source_of ep x = source_of ep1 x" if "x \<notin> range ?fd" for x using r that by blast
  note f = fds_apart_facts [OF assms(3)] and g = wiring_watches [OF l(1) assms(3)]
  have req: "map (source_of ep) [signals, fst timers, snd timers, ho_notify_fd w] =
        map Some [Signals, MonoTimer, WallTimer, NotifySocket]"
    using g(1) f(2) by (simp add: same)
  have "source_of ep (ho_control_fd w) = source_of ep1 (ho_control_fd w)" "source_of ep (ho_log_fd w) = source_of ep1 (ho_log_fd w)"
    using same f(2) by blast+
  then have ctl: "source_of ep (ho_control_fd w) = (if p_control p \<noteq> None \<and> ho_ctl w (ho_control_fd w) = None then Some Control else None)"
    "source_of ep (ho_log_fd w) = (if lg_listener (p_logs p) \<and> ho_ctl w (ho_log_fd w) = None then Some LogSocket else None)"
    using g(2,3) unfolding l(4,5) by simp_all
  have "s_cgroups (p_sup p) = s_cgroups s1" by (subst y(1)) simp
  then have c: "cgroup_fds w (p_sup p) = cgroup_fds w ?s0" using b1 by (simp add: cgroup_fds_def bindings_def)
  have "source_of ep fd = (if ho_ctl w fd = None then Some (CgroupEvent i) else None)" if "(i, fd) \<in> set (cgroup_fds w ?s0)" for i fd
  proof -
    have "fd = ho_cgroup_fd w i" using that by (auto simp: cgroup_fds_def)
    then show ?thesis using that g(4) same f(3) by simp
  qed
  then have grps: "list_all (\<lambda>(i, fd). source_of ep fd = (if ho_ctl w fd = None then Some (CgroupEvent i) else None)) (cgroup_fds w (p_sup p))"
    unfolding c by (auto simp: list_all_iff)
  have "get_inst (p_sup p) = get_inst s1" by (subst y(1)) (simp add: fun_eq_iff get_inst_def)
  then have want: "want_armed (p_sup p) = want_armed s1" by (simp add: fun_eq_iff want_armed_def)
  have armed: "list_all (\<lambda>n. ho_ctl w (?fd (of_nat n)) \<noteq> None
          \<or> bd_armed (s_sockets (p_sup p) ! n) = want_armed (p_sup p) (bd_service (s_sockets (p_sup p) ! n)))
        [0..<length (s_sockets (p_sup p))]"
    unfolding want conjunct1 [OF r] by (simp add: list_all_iff synced_def)
  show ?thesis by (intro conjI req ctl conjunct1 [OF conjunct2 [OF r]] grps armed)
qed

theorem loop_starts_with_everything_watched_witness:
  "\<exists>p ep. fst (init_main sample_host) = Looping 3 p ep Machine \<and> source_of ep 5 = Some WallTimer
     \<and> source_of ep 8 = Some Control"
proof -
  obtain p ep where p: "fst (init_main sample_host) = Looping 3 p ep Machine" "p_sup p = sample_blank"
    "p_control p = Some control_bind" using sample_boots by blast
  have apart: "fds_apart sample_host 3 (4, 5)"
    by (auto simp: fds_apart_def sample_host_def inj_def unsigned_word_eqI) presburger+
  have len: "length (s_sockets (p_sup p)) \<le> 2 ^ 32" by (simp add: p(2) sample_blank_def sample_sup_def)
  have f: "ho_control_fd sample_host = 8" "ho_ctl sample_host 8 = None" by (simp_all add: sample_host_def)
  show ?thesis
    using loop_starts_with_everything_watched [OF p(1) sample_descriptors(2) apart len] p(1,3) f by auto
qed

text \<open>The fallback keeps a shell and leaves no zombies.  In every turn all children that have ended
  are waited for, up to the first answer that says there are no more; a shell that is not
  among them is kept, one that is, or that never started, is replaced if another can be
  started; so a turn leaves no shell only when starting one failed in it.\<close>

theorem fallback_keeps_a_shell:
  assumes "fb_waits i = map (\<lambda>(pid, code, signal). WaitChild pid code signal) dead @ q"
    and "q = [] \<or> (\<exists>a \<in> {WaitNone, WaitError}. hd q = a)"
  shows "fst (reap_all (fb_waits i)) = dead
    \<and> fallback first (is @ [i]) =
        (case fallback first is of
           Some pid \<Rightarrow> if pid \<in> fst ` set dead then fallback_start (fb_shell i) else Some pid
         | None \<Rightarrow> fallback_start (fb_shell i))
    \<and> (fallback first (is @ [i]) = None \<longrightarrow> isl (fb_shell i))"
proof -
  have "reap_all (map (\<lambda>(pid, code, signal). WaitChild pid code signal) dead @ q) = (dead, tl q)"
    using assms(2)
  proof (induction dead)
    case Nil
    then show ?case by (cases q) auto
  next
    case (Cons d dead)
    then show ?case by (cases d) simp
  qed
  then have r: "fst (reap_all (fb_waits i)) = dead" by (simp add: assms(1))
  have "(\<exists>x \<in> set dead. case x of (pid, _) \<Rightarrow> a = pid) \<longleftrightarrow> a \<in> fst ` set dead" for a :: nat
    by force
  then have t: "fallback_turn i child = (case child of
           Some pid \<Rightarrow> if pid \<in> fst ` set dead then fallback_start (fb_shell i) else Some pid
         | None \<Rightarrow> fallback_start (fb_shell i))" for child
    by (cases child) (simp_all add: fallback_turn_def r Let_def)
  have "fallback_start a = None \<Longrightarrow> isl a" for a
    by (cases a) (simp_all add: fallback_start_def shell_spawn_def)
  then show ?thesis using r t [of "fallback first is"]
    by (auto simp: fallback_def split: option.splits if_splits)
qed

theorem fallback_keeps_a_shell_witness:
  "fallback (Inr 5) [\<lparr>fb_waits = [WaitChild 9 (Some 0) None, WaitChild 5 None (Some 9), WaitNone], fb_shell = Inr 6\<rparr>] = Some 6"
  using fallback_keeps_a_shell [of "\<lparr>fb_waits = [WaitChild 9 (Some 0) None, WaitChild 5 None (Some 9), WaitNone], fb_shell = Inr 6\<rparr>"
      "[(9, Some 0, None), (5, None, Some 9)]" "[WaitNone]" "Inr 5" "[]"]
  by (simp add: fallback_def fallback_start_def shell_spawn_def)

end
