(* ===== verification/Recovery.thy ===== *)
theory Recovery
  imports StartUp
begin

text \<open>
  What the loop of \<open>crates/oxinit/src/main.rs\<close> does about what should not happen: a handler that
  panics is caught and the loop goes on, an epoll that fails or a kernel that will not go down
  ends in the fallback shell.  \<open>MainLoop\<close> is the loop in which none of it happens, and the
  first lemma of the last section says so.  Where a handler panics is not modelled: it leaves
  whatever it may write to in any state.
\<close>

section \<open>Catching\<close>

text \<open>What the closure around a handler borrows to write.  The watchdog is not in it, nor is what
  ends the manager.\<close>

record leftover =
  lo_sup :: sup
  lo_control :: "control option"
  lo_logs :: logs
  lo_shell :: bool
  lo_replies :: "(nat \<times> string) list"

definition left_behind :: "leftover \<Rightarrow> pid1 \<Rightarrow> pid1" where
  "left_behind l s =
     s\<lparr>p_sup := lo_sup l, p_control := lo_control l, p_logs := lo_logs l, p_shell := lo_shell l,
       p_replies := lo_replies l\<rparr>"

definition leave_sup :: "sup \<Rightarrow> pid1 \<Rightarrow> pid1" where
  "leave_sup sp s = s\<lparr>p_sup := sp\<rparr>"

definition leave_watchdog :: "dev \<Rightarrow> pid1 \<Rightarrow> pid1" where
  "leave_watchdog d s = s\<lparr>p_watchdog := Some d\<rparr>"

text \<open>\<open>catch_unwind\<close> and the report after it; the state a panic left, if there was one.\<close>

definition caught ::
    "string \<Rightarrow> ('l \<Rightarrow> pid1 \<Rightarrow> pid1) \<Rightarrow> 'l option \<Rightarrow> (pid1 \<Rightarrow> pid1) \<Rightarrow> pid1 \<Rightarrow> pid1 \<times> said list" where
  "caught what leave panicked f s =
     (case panicked of
        None \<Rightarrow> (f s, [])
      | Some l \<Rightarrow> (leave l s, [Err (''oxinit: '' @ what @ '' panicked; continuing'')]))"

section \<open>A turn\<close>

record rough =
  ro_turn :: turn_input
  ro_wait :: "string option"
  ro_sources :: "nat \<Rightarrow> leftover option"
  ro_pump :: "sup option"
  ro_sync :: "sup option"
  ro_watchdog :: "dev option"
  ro_reboot :: "string option"

text \<open>The sources are handled one by one; \<open>panics\<close> tells by its place which of them panics.\<close>

fun handle_all ::
    "environment \<Rightarrow> json \<Rightarrow> (nat \<Rightarrow> leftover option) \<Rightarrow> (event_source \<times> answers) list \<Rightarrow> pid1
     \<Rightarrow> pid1 \<times> said list" where
  "handle_all e js panics [] s = (s, [])"
| "handle_all e js panics (sa # sas) s =
     (let (s1, m1) = caught ''handler'' left_behind (panics 0) (handle_source e js sa) s;
          (s2, m2) = handle_all e js (\<lambda>k. panics (Suc k)) sas s1 in
      (s2, m1 @ m2))"

fun show_action :: "action \<Rightarrow> string" where
  "show_action PowerOff = ''power off''"
| "show_action Reboot = ''reboot''"
| "show_action Halt = ''halt''"

text \<open>A kernel that refuses to go down: the filesystems are sealed and the watchdog was let go, but
  the manager is still there.\<close>

definition settle_down :: "nat \<Rightarrow> environment \<Rightarrow> rough \<Rightarrow> pid1 \<Rightarrow> pid1 \<times> said list \<times> outcome option" where
  "settle_down signals e r s =
     (case settled (ti_settle (ro_turn r)) (p_sup s) of
        None \<Rightarrow> (s, [], None)
      | Some a \<Rightarrow>
          (case (if env_exits e then None else ro_reboot r) of
             None \<Rightarrow> (go_down e (ti_settle (ro_turn r)) s, [], None)
           | Some m \<Rightarrow>
               (let (out, said) = cannot_continue signals e in
                (s\<lparr>p_watchdog := fst (finalize a e (p_watchdog s))\<rparr>,
                 [Err (''oxinit: '' @ show_action a @ '': '' @ m),
                  Err ''oxinit: cannot go down; staying up with everything stopped''] @ said,
                 Some out))))"

text \<open>A turn up to the question whether everything has stopped.\<close>

definition handle_turn :: "environment \<Rightarrow> json \<Rightarrow> rough \<Rightarrow> pid1 \<Rightarrow> pid1 \<times> said list" where
  "handle_turn e js r s =
     (let t = ro_turn r;
          (s1, m1) = handle_all e js (ro_sources r) (ti_sources t) s;
          (s2, m2) = caught ''start queue'' leave_sup (ro_pump r) (on_sup (pump (ti_pump t))) s1;
          (s3, m3) = caught ''socket reconciliation'' leave_sup (ro_sync r)
            (on_sup (sync_sockets (ti_sync t))) s2;
          (s4, m4) = (if p_watchdog s3 = None then (s3, [])
            else caught ''watchdog'' leave_watchdog (ro_watchdog r) (feed_watchdog (ti_dev t)) s3) in
      (s4, m1 @ m2 @ m3 @ m4))"

definition rough_turn ::
    "nat \<Rightarrow> environment \<Rightarrow> json \<Rightarrow> rough \<Rightarrow> pid1 \<Rightarrow> pid1 \<times> said list \<times> outcome option" where
  "rough_turn signals e js r s =
     (case ro_wait r of
        Some m \<Rightarrow>
          (let (out, said) = cannot_continue signals e in (s, Err (''oxinit: '' @ m) # said, Some out))
      | None \<Rightarrow>
          (let (s4, m4) = handle_turn e js r s; (s5, m5, out) = settle_down signals e r s4 in
           (s5, m4 @ m5, out)))"

fun rough_loop ::
    "nat \<Rightarrow> environment \<Rightarrow> json \<Rightarrow> rough list \<Rightarrow> pid1 \<Rightarrow> pid1 \<times> said list \<times> outcome option" where
  "rough_loop signals e js [] s = (s, [], None)"
| "rough_loop signals e js (r # rs) s =
     (if p_down s \<noteq> [] then (s, [], None)
      else case rough_turn signals e js r s of
        (s1, m1, Some out) \<Rightarrow> (s1, m1, Some out)
      | (s1, m1, None) \<Rightarrow>
          (case rough_loop signals e js rs s1 of (s2, m2, out) \<Rightarrow> (s2, m1 @ m2, out)))"

section \<open>When nothing goes wrong\<close>

definition calm :: "rough \<Rightarrow> bool" where
  "calm r \<longleftrightarrow> ro_wait r = None \<and> ro_sources r = (\<lambda>_. None) \<and> ro_pump r = None \<and> ro_sync r = None
     \<and> ro_watchdog r = None \<and> ro_reboot r = None"

lemma caught_simps [simp]:
  "caught what leave None f s = (f s, [])"
  "fst (caught what leave (Some l) f s) = leave l s"
  by (simp_all add: caught_def)

lemma handle_all_calm: "handle_all e js (\<lambda>_. None) sas s = (fold (handle_source e js) sas s, [])"
  by (induction sas arbitrary: s) simp_all

lemma feed_nothing [simp]: "p_watchdog s = None \<Longrightarrow> feed_watchdog de s = s"
  by (simp add: feed_watchdog_def)

lemma calm_turn:
  assumes "calm r"
  shows "rough_turn signals e js r s = (turn e js (ro_turn r) s, [], None)"
proof -
  have "settle_down signals e r s' = (go_down e (ti_settle (ro_turn r)) s', [], None)" for s'
    using assms by (auto simp: settle_down_def calm_def go_down_def split: option.splits)
  then show ?thesis using assms by (simp add: rough_turn_def handle_turn_def calm_def turn_def handle_all_calm Let_def)
qed

text \<open>The loop of \<open>MainLoop\<close> is the one in which nothing goes wrong.\<close>

theorem calm_loop:
  "list_all calm rs \<Longrightarrow> rough_loop signals e js rs s = (loop e js (map ro_turn rs) s, [], None)"
  by (induction rs arbitrary: s) (simp_all add: calm_turn)

section \<open>What a panic cannot reach\<close>

text \<open>A panic leaves the shutdown under way as it is.  In the source only \<open>begin_shutdown\<close> writes
  it, and only when there is none.\<close>

definition keeps_shutdown :: "shutdown \<Rightarrow> rough \<Rightarrow> bool" where
  "keeps_shutdown sd r \<longleftrightarrow>
     (\<forall>k l. ro_sources r k = Some l \<longrightarrow> s_shutdown (lo_sup l) = Some sd)
     \<and> (\<forall>sp. ro_pump r = Some sp \<or> ro_sync r = Some sp \<longrightarrow> s_shutdown sp = Some sd)"

lemma left_behind_simps [simp]:
  "p_watchdog (left_behind l s) = p_watchdog s" "p_down (left_behind l s) = p_down s"
  "p_sup (left_behind l s) = lo_sup l"
  "p_watchdog (leave_sup sp s) = p_watchdog s" "p_down (leave_sup sp s) = p_down s"
  "p_sup (leave_sup sp s) = sp"
  "p_down (leave_watchdog d s) = p_down s" "p_sup (leave_watchdog d s) = p_sup s"
  by (simp_all add: left_behind_def leave_sup_def leave_watchdog_def)

lemma on_signals_watchdog [simp]: "p_watchdog (fold (on_signal e) gs s) = p_watchdog s"
  by (induction gs arbitrary: s) (simp_all add: on_signal_def on_child_def split: option.splits)

lemma control_reply_watchdog [simp]: "p_watchdog (control_reply c i b s) = p_watchdog s"
  by (simp add: control_reply_def split: option.splits)

lemma handle_source_watchdog [simp]: "p_watchdog (handle_source e js sa s) = p_watchdog s"
  by (cases "fst sa")
    (auto simp: handle_source_def on_sup_def on_signals_def on_connect_def on_request_def on_shipper_def
      on_shipper_gone_def Let_def split: option.splits prod.splits bool.splits sum.splits)

lemma on_sup_keeps [simp]:
  "p_watchdog (on_sup f s) = p_watchdog s" "p_down (on_sup f s) = p_down s"
  by (simp_all add: on_sup_def)

lemma feed_watchdog_down [simp]: "p_down (feed_watchdog de s) = p_down s"
  by (simp add: feed_watchdog_def Let_def split: option.splits)

lemma caught_keeps:
  "(\<And>s. p_watchdog (f s) = p_watchdog s \<and> p_down (f s) = p_down s) \<Longrightarrow>
   (\<And>l s. p_watchdog (leave l s) = p_watchdog s \<and> p_down (leave l s) = p_down s) \<Longrightarrow>
     p_watchdog (fst (caught what leave panicked f s)) = p_watchdog s
     \<and> p_down (fst (caught what leave panicked f s)) = p_down s"
  by (cases panicked) simp_all

lemma caught_shutdown:
  "(\<And>s. s_shutdown (p_sup s) = Some sd \<Longrightarrow> s_shutdown (p_sup (f s)) = Some sd) \<Longrightarrow>
   (\<And>l. panicked = Some l \<Longrightarrow> s_shutdown (p_sup (leave l s)) = Some sd) \<Longrightarrow>
   s_shutdown (p_sup s) = Some sd \<Longrightarrow>
     s_shutdown (p_sup (fst (caught what leave panicked f s))) = Some sd"
  by (cases panicked) simp_all

lemma handle_all_keeps:
  "p_watchdog (fst (handle_all e js panics sas s)) = p_watchdog s
   \<and> p_down (fst (handle_all e js panics sas s)) = p_down s"
  by (induction sas arbitrary: s panics) (simp_all add: Let_def split_beta caught_keeps)

lemma handle_all_shutdown:
  assumes "s_shutdown (p_sup s) = Some sd" and "\<And>k l. panics k = Some l \<Longrightarrow> s_shutdown (lo_sup l) = Some sd"
  shows "s_shutdown (p_sup (fst (handle_all e js panics sas s))) = Some sd"
  using assms
proof (induction sas arbitrary: s panics)
  case (Cons sa sas)
  have "s_shutdown (p_sup (fst (caught ''handler'' left_behind (panics 0) (handle_source e js sa) s))) = Some sd"
    using Cons.prems by (intro caught_shutdown) (simp_all add: handle_source_sup run_keeps_shutdown)
  from Cons.IH [OF this, of "\<lambda>k. panics (Suc k)"] Cons.prems(2) show ?case
    by (simp add: Let_def split_beta)
qed simp

text \<open>Whatever panics, a turn comes to the watchdog, and only a panic there can stop the tick.\<close>

lemma handle_turn_ticks:
  "ro_watchdog r = None \<Longrightarrow>
     \<exists>b c. p_watchdog (fst (handle_turn e js r s)) = map_option (dev_tick (ti_dev (ro_turn r)) b c) (p_watchdog s)"
  by (auto simp: handle_turn_def Let_def split_beta handle_all_keeps caught_keeps feed_watchdog_def
      split: option.splits)

lemma handle_turn_down: "p_down (fst (handle_turn e js r s)) = p_down s"
proof -
  have "p_down (fst (caught what leave_watchdog q (feed_watchdog de) s')) = p_down s'" for what q de s'
    by (cases q) simp_all
  then show ?thesis by (simp add: handle_turn_def Let_def split_beta handle_all_keeps caught_keeps)
qed

lemma sup_event_shutdown:
  "s_shutdown s = Some sd \<Longrightarrow> s_shutdown (pump env s) = Some sd"
  "s_shutdown s = Some sd \<Longrightarrow> s_shutdown (sync_sockets env s) = Some sd"
  using run_keeps_shutdown [of s sd "[(env, EvPump)]"] run_keeps_shutdown [of s sd "[(env, EvSync)]"]
  by (simp_all add: handle_event_def)

lemma handle_turn_shutdown:
  assumes "s_shutdown (p_sup s) = Some sd" and "keeps_shutdown sd r"
  shows "s_shutdown (p_sup (fst (handle_turn e js r s))) = Some sd"
proof -
  note k = assms(2) [unfolded keeps_shutdown_def]
  let ?t = "ro_turn r"
  define s1 where "s1 = fst (handle_all e js (ro_sources r) (ti_sources ?t) s)"
  define s2 where "s2 = fst (caught ''start queue'' leave_sup (ro_pump r) (on_sup (pump (ti_pump ?t))) s1)"
  define s3 where "s3 = fst (caught ''socket reconciliation'' leave_sup (ro_sync r)
    (on_sup (sync_sockets (ti_sync ?t))) s2)"
  have "s_shutdown (p_sup s1) = Some sd"
    unfolding s1_def using assms(1) k by (intro handle_all_shutdown) auto
  then have "s_shutdown (p_sup s2) = Some sd"
    unfolding s2_def using k by (intro caught_shutdown) (auto simp: sup_event_shutdown)
  then have s3: "s_shutdown (p_sup s3) = Some sd"
    unfolding s3_def using k by (intro caught_shutdown) (auto simp: sup_event_shutdown)
  have "p_sup (fst (caught what leave_watchdog q (feed_watchdog de) s')) = p_sup s'" for what q de s'
    by (cases q) simp_all
  then show ?thesis
    using s3 by (simp add: handle_turn_def Let_def split_beta s3_def s2_def s1_def)
qed

section \<open>Properties\<close>

lemma smooth_turn:
  assumes "ro_wait r = None" and "ro_reboot r = None"
  shows "fst (rough_turn signals e js r s) = go_down e (ti_settle (ro_turn r)) (fst (handle_turn e js r s))"
    and "snd (snd (rough_turn signals e js r s)) = None"
proof -
  have "settle_down signals e r s' = (go_down e (ti_settle (ro_turn r)) s', [], None)" for s'
    using assms by (auto simp: settle_down_def go_down_def split: option.splits)
  then show "fst (rough_turn signals e js r s) = go_down e (ti_settle (ro_turn r)) (fst (handle_turn e js r s))"
    and "snd (snd (rough_turn signals e js r s)) = None"
    using assms by (simp_all add: rough_turn_def split_beta Let_def)
qed

lemma smooth_loop_Cons:
  fixes e js
  assumes "ro_wait r = None" and "ro_reboot r = None" and "p_down s = []"
  defines "s1 \<equiv> go_down e (ti_settle (ro_turn r)) (fst (handle_turn e js r s))"
  shows "fst (rough_loop signals e js (r # rs) s) = fst (rough_loop signals e js rs s1)"
    and "snd (snd (rough_loop signals e js (r # rs) s)) = snd (snd (rough_loop signals e js rs s1))"
  using smooth_turn [OF assms(1,2), of signals e js s] assms(3)
  by (auto simp: s1_def split: prod.splits option.splits)

lemma loop_stopped: "p_down s \<noteq> [] \<Longrightarrow> rough_loop signals e js rs s = (s, [], None)"
  by (cases rs) simp_all

lemma smooth_loop_end:
  "\<forall>r \<in> set rs. ro_wait r = None \<and> ro_reboot r = None \<Longrightarrow> snd (snd (rough_loop signals e js rs s)) = None"
proof (induction rs arbitrary: s)
  case (Cons r rs)
  then show ?case
    by (cases "p_down s = []") (simp_all add: smooth_loop_Cons(2) loop_stopped del: rough_loop.simps(2))
qed simp

lemma rough_loop_ticks:
  assumes "\<forall>r \<in> set rs. ro_wait r = None \<and> ro_reboot r = None \<and> ro_watchdog r = None"
    and "p_down (fst (rough_loop signals e js rs s)) = []" and "p_down s = []"
  shows "\<exists>seen. length seen = length rs
    \<and> p_watchdog (fst (rough_loop signals e js rs s))
      = map_option (run_ticks (zip (map (\<lambda>r. ti_dev (ro_turn r)) rs) seen)) (p_watchdog s)"
  using assms
proof (induction rs arbitrary: s)
  case Nil
  then show ?case by (simp add: run_ticks_def option.map_id [unfolded id_def])
next
  case (Cons r rs)
  define s0 where "s0 = fst (handle_turn e js r s)"
  define s1 where "s1 = go_down e (ti_settle (ro_turn r)) s0"
  have r: "ro_wait r = None" "ro_reboot r = None" "ro_watchdog r = None" using Cons.prems(1) by simp_all
  have l: "fst (rough_loop signals e js (r # rs) s) = fst (rough_loop signals e js rs s1)"
    unfolding s1_def s0_def by (rule smooth_loop_Cons(1) [OF r(1,2) Cons.prems(3)])
  have up: "p_down s1 = []" using Cons.prems(2) l by (cases "p_down s1 = []") (simp_all add: loop_stopped)
  then have "settled (ti_settle (ro_turn r)) (p_sup s0) = None"
    by (auto simp: s1_def go_down_down split: option.splits)
  then have s1: "s1 = s0" by (simp add: s1_def go_down_def)
  obtain b c where "p_watchdog s0 = map_option (dev_tick (ti_dev (ro_turn r)) b c) (p_watchdog s)"
    using handle_turn_ticks [OF r(3)] s0_def by blast
  moreover obtain seen where "length seen = length rs"
    "p_watchdog (fst (rough_loop signals e js rs s1))
      = map_option (run_ticks (zip (map (\<lambda>r. ti_dev (ro_turn r)) rs) seen)) (p_watchdog s1)"
    using Cons.IH [of s1] Cons.prems(1,2) l up by auto
  ultimately show ?case
    unfolding l s1 by (intro exI [of _ "(b, c) # seen"]) (auto simp: run_ticks_def option.map_comp o_def)
qed

lemma rough_loop_goes_down:
  assumes "\<forall>r \<in> set rs. ro_wait r = None \<and> ro_reboot r = None \<and> keeps_shutdown sd r"
    and "s_shutdown (p_sup s) = Some sd" and "p_down s = []"
    and "\<exists>r \<in> set rs. e_now (ti_settle (ro_turn r)) > sd_started sd + from_secs 90"
  shows "p_down (fst (rough_loop signals e js rs s)) = final_ops (sd_action sd) e"
  using assms
proof (induction rs arbitrary: s)
  case (Cons r rs)
  define s0 where "s0 = fst (handle_turn e js r s)"
  define s1 where "s1 = go_down e (ti_settle (ro_turn r)) s0"
  have r: "ro_wait r = None" "ro_reboot r = None" "keeps_shutdown sd r" using Cons.prems(1) by simp_all
  have l: "fst (rough_loop signals e js (r # rs) s) = fst (rough_loop signals e js rs s1)"
    unfolding s1_def s0_def by (rule smooth_loop_Cons(1) [OF r(1,2) Cons.prems(3)])
  have sd: "s_shutdown (p_sup s0) = Some sd" unfolding s0_def by (rule handle_turn_shutdown [OF Cons.prems(2) r(3)])
  have d0: "p_down s0 = []" using Cons.prems(3) by (simp add: s0_def handle_turn_down)
  show ?case
  proof (cases "settled (ti_settle (ro_turn r)) (p_sup s0)")
    case None
    then have "\<not> e_now (ti_settle (ro_turn r)) > sd_started sd + from_secs 90"
      using sd by (auto simp: settled_def shutdown_overdue_def elapsed_def DEADLINE_def split: if_splits)
    moreover have "s1 = s0" using None by (simp add: s1_def go_down_def)
    ultimately show ?thesis using Cons.IH [of s0] Cons.prems(1,4) sd d0 l by auto
  next
    case (Some a)
    then have "a = sd_action sd" using settled_action [OF sd, of "ti_settle (ro_turn r)"] by simp
    then have "p_down s1 = final_ops (sd_action sd) e" using Some by (simp add: s1_def go_down_down)
    then show ?thesis unfolding l by (simp add: loop_stopped)
  qed
qed simp

text \<open>C23.  Panics do not stop the loop.  Whatever the handlers, the start queue and the socket
  reconciliation leave when they panic, in any turns: as long as epoll waits and the kernel
  does not refuse to go down, the loop neither falls back nor exits by itself, every turn
  ticks the watchdog once, and a shutdown under way still ends, with its own action, by the
  first turn past its deadline.\<close>

theorem panics_do_not_stop_the_loop:
  assumes "\<forall>r \<in> set rs. ro_wait r = None \<and> ro_reboot r = None" and "p_down s = []"
    and "rough_loop signals e js rs s = (l, said, fin)"
  shows "fin = None
    \<and> (p_down l = [] \<and> (\<forall>r \<in> set rs. ro_watchdog r = None) \<longrightarrow>
        (\<exists>seen. length seen = length rs
          \<and> p_watchdog l = map_option (run_ticks (zip (map (\<lambda>r. ti_dev (ro_turn r)) rs) seen)) (p_watchdog s)))
    \<and> (\<forall>sd. s_shutdown (p_sup s) = Some sd \<and> (\<forall>r \<in> set rs. keeps_shutdown sd r)
          \<and> (\<exists>r \<in> set rs. e_now (ti_settle (ro_turn r)) > sd_started sd + from_secs 90) \<longrightarrow>
        p_down l = final_ops (sd_action sd) e)"
proof -
  have l: "l = fst (rough_loop signals e js rs s)" and fin: "fin = snd (snd (rough_loop signals e js rs s))"
    using assms(3) by simp_all
  have "fin = None" unfolding fin by (rule smooth_loop_end [OF assms(1)])
  moreover have "p_down l = [] \<and> (\<forall>r \<in> set rs. ro_watchdog r = None) \<longrightarrow>
      (\<exists>seen. length seen = length rs
        \<and> p_watchdog l = map_option (run_ticks (zip (map (\<lambda>r. ti_dev (ro_turn r)) rs) seen)) (p_watchdog s))"
    unfolding l using assms(1,2) by (intro impI rough_loop_ticks) auto
  moreover have "p_down l = final_ops (sd_action sd) e"
    if "s_shutdown (p_sup s) = Some sd" "\<forall>r \<in> set rs. keeps_shutdown sd r"
      "\<exists>r \<in> set rs. e_now (ti_settle (ro_turn r)) > sd_started sd + from_secs 90" for sd
    unfolding l using assms(1,2) that by (intro rough_loop_goes_down) auto
  ultimately show ?thesis by blast
qed

definition sample_leftover :: "sup \<Rightarrow> leftover" where
  "sample_leftover sp = \<lparr>lo_sup = sp, lo_control = None, lo_logs = logs_bind, lo_shell = False, lo_replies = []\<rparr>"

definition halting :: sup where
  "halting = (p_sup (sample_pid1 None))\<lparr>s_shutdown := Some \<lparr>sd_action = Halt, sd_started = 0\<rparr>\<rparr>"

definition sample_rough :: "nat \<Rightarrow> rough" where
  "sample_rough now = \<lparr>ro_turn = (sample_turn now)\<lparr>ti_sources := [(MonoTimer, sample_answers)]\<rparr>, ro_wait = None,
     ro_sources = (\<lambda>_. Some (sample_leftover halting)), ro_pump = Some halting, ro_sync = None,
     ro_watchdog = None, ro_reboot = None\<rparr>"

theorem panics_do_not_stop_the_loop_witness:
  "p_down (fst (rough_loop 4 Machine sample_json [sample_rough 0, sample_rough (from_secs 91)]
     ((sample_pid1 None)\<lparr>p_sup := halting\<rparr>))) = [SyncDisks, RemountReadOnly, RebootCommand Halt]"
proof -
  let ?rs = "[sample_rough 0, sample_rough (from_secs 91)]" and ?s = "(sample_pid1 None)\<lparr>p_sup := halting\<rparr>"
  obtain l said fin where l: "rough_loop 4 Machine sample_json ?rs ?s = (l, said, fin)"
    by (metis prod.exhaust)
  have h: "s_shutdown (p_sup ?s) = Some \<lparr>sd_action = Halt, sd_started = 0\<rparr>"
    "\<forall>r \<in> set ?rs. keeps_shutdown \<lparr>sd_action = Halt, sd_started = 0\<rparr> r"
    "\<forall>r \<in> set ?rs. ro_wait r = None \<and> ro_reboot r = None" "p_down ?s = []"
    by (simp_all add: halting_def keeps_shutdown_def sample_rough_def sample_leftover_def sample_pid1_def)
  have "\<exists>r \<in> set ?rs. e_now (ti_settle (ro_turn r)) > 0 + from_secs 90"
    by (simp add: sample_rough_def sample_turn_def time_unit_defs)
  then have "p_down l = final_ops Halt Machine"
    using panics_do_not_stop_the_loop [OF h(3,4) l] h(1,2) by fastforce
  then show ?thesis using l by (simp add: final_ops_def del: rough_loop.simps)
qed

text \<open>On a machine the loop ends in no exit: whatever panics and whatever fails, it goes on, or it
  falls back to the shell with the signal descriptor it has, or it goes down by a reboot.\<close>

lemma cannot_continue_machine: "fst (cannot_continue signals Machine) = FellBack (Some signals)"
  by (simp add: cannot_continue_def fall_back_def env_is_user_def)

lemma settle_down_machine:
  assumes "settle_down signals Machine r s = (l, said, fin)" and "\<forall>c. ExitStatus c \<notin> set (p_down s)"
  shows "fin \<in> {None, Some (FellBack (Some signals))} \<and> (\<forall>c. ExitStatus c \<notin> set (p_down l))"
proof (cases "settled (ti_settle (ro_turn r)) (p_sup s)")
  case None
  then show ?thesis using assms by (simp add: settle_down_def)
next
  case (Some a)
  show ?thesis
  proof (cases "ro_reboot r")
    case None
    then have "l = go_down Machine (ti_settle (ro_turn r)) s" "fin = None"
      using assms(1) Some by (simp_all add: settle_down_def env_exits_def)
    then show ?thesis using Some by (simp add: go_down_down final_ops_def)
  next
    case (Some m)
    then show ?thesis
      using assms \<open>settled _ _ = Some a\<close> cannot_continue_machine [of signals]
      by (auto simp: settle_down_def env_exits_def split_beta Let_def)
  qed
qed

theorem machine_never_exits:
  assumes "rough_loop signals Machine js rs s = (l, said, fin)" and "\<forall>c. ExitStatus c \<notin> set (p_down s)"
  shows "fin \<in> {None, Some (FellBack (Some signals))} \<and> (\<forall>c. ExitStatus c \<notin> set (p_down l))"
  using assms
proof (induction rs arbitrary: s l said fin)
  case (Cons r rs)
  obtain s1 m1 out where t: "rough_turn signals Machine js r s = (s1, m1, out)"
    by (cases "rough_turn signals Machine js r s") auto
  have one: "out \<in> {None, Some (FellBack (Some signals))} \<and> (\<forall>c. ExitStatus c \<notin> set (p_down s1))"
  proof (cases "ro_wait r")
    case None
    have "settle_down signals Machine r (fst (handle_turn Machine js r s))
        = (s1, drop (length (snd (handle_turn Machine js r s))) m1, out)"
      using t None by (auto simp: rough_turn_def split: prod.splits)
    then show ?thesis using settle_down_machine Cons.prems(2) by (metis handle_turn_down)
  next
    case (Some m)
    then show ?thesis
      using t Cons.prems(2) cannot_continue_machine [of signals] by (auto simp: rough_turn_def split_beta Let_def)
  qed
  show ?case
  proof (cases "p_down s = [] \<and> out = None")
    case True
    then obtain said2 where "rough_loop signals Machine js rs s1 = (l, said2, fin)"
      using Cons.prems(1) t by (auto split: prod.splits)
    then show ?thesis using Cons.IH one by blast
  next
    case False
    then show ?thesis using Cons.prems t one by (auto split: if_splits)
  qed
qed simp

end
