(* ===== verification/LogMain.thy ===== *)
theory LogMain
  imports LogDaemon Client
begin

text \<open>
  The log daemon as a program: \<open>main\<close>, \<open>run\<close>, \<open>connect\<close>, \<open>ready\<close>, \<open>serve\<close> and \<open>accept\<close> of
  \<open>crates/oxlogd/src/main.rs\<close>, around the files of \<open>LogDaemon\<close>.  A source is known by its place
  in the list, so what its descriptor answers is listed in the order of the sources.
\<close>

section \<open>One round of serving\<close>

text \<open>\<open>oxinit_log::MAX_MESSAGE\<close>.\<close>

definition MAX_NAME :: nat where "MAX_NAME = 256"

datatype poll_outcome = Polled | PollInterrupted | PollFailed string

text \<open>The bytes of a message and the descriptors attached to it.\<close>

datatype recv_outcome = RecvFailed string | Received string "nat list"

record log_round =
  lr_poll :: poll_outcome
  lr_reads :: "pipe_read option list"
  lr_message :: "recv_outcome option"
  lr_env :: log_env

fun with_reads :: "source list \<Rightarrow> pipe_read option list \<Rightarrow> (source \<times> pipe_read option) list" where
  "with_reads [] rs = []"
| "with_reads (src # srcs) [] = (src, None) # with_reads srcs []"
| "with_reads (src # srcs) (r # rs) = (src, r) # with_reads srcs rs"

definition shipped_source :: "string \<Rightarrow> source" where
  "shipped_source u = \<lparr>src_unit = u, src_partial = []\<rparr>"

datatype message_outcome = AcceptedSource "source list" | AcceptedClosed

definition accept_source ::
    "(string \<Rightarrow> string) \<Rightarrow> recv_outcome \<Rightarrow> source list \<Rightarrow> string + message_outcome" where
  "accept_source lossy answer srcs =
     (case answer of
        RecvFailed e \<Rightarrow> Inl (''recvmsg: '' @ e)
      | Received bytes fds \<Rightarrow>
          let payload = take MAX_NAME bytes in
          if payload = [] then Inr AcceptedClosed
          else if fds = [] then Inr (AcceptedSource srcs)
          else Inr (AcceptedSource (srcs @ [shipped_source (lossy payload)])))"

datatype serving =
    Serving "source list" shipper
  | Served shipper
  | ServeFailed string shipper

definition serve_round ::
    "(string \<Rightarrow> string) \<Rightarrow> string \<Rightarrow> rotation \<Rightarrow> log_round \<Rightarrow> source list \<Rightarrow> shipper \<Rightarrow> serving" where
  "serve_round lossy dir r rd srcs s =
     (case lr_poll rd of
        PollInterrupted \<Rightarrow> Serving srcs s
      | PollFailed e \<Rightarrow> ServeFailed (''poll: '' @ e) s
      | Polled \<Rightarrow>
          (case drain_ready (lr_env rd) dir r (with_reads srcs (lr_reads rd)) s of
             (kept, s1) \<Rightarrow>
               (case lr_message rd of
                  None \<Rightarrow> Serving kept s1
                | Some answer \<Rightarrow>
                    (case accept_source lossy answer kept of
                       Inl e \<Rightarrow> ServeFailed e s1
                     | Inr (AcceptedSource srcs') \<Rightarrow> Serving srcs' s1
                     | Inr AcceptedClosed \<Rightarrow> Served (snd (drain_all (lr_env rd) dir r kept s1))))))"

fun serve_from ::
    "(string \<Rightarrow> string) \<Rightarrow> string \<Rightarrow> rotation \<Rightarrow> log_round list \<Rightarrow> source list \<Rightarrow> shipper \<Rightarrow> serving" where
  "serve_from lossy dir r [] srcs s = Serving srcs s"
| "serve_from lossy dir r (rd # rds) srcs s =
     (case serve_round lossy dir r rd srcs s of
        Serving srcs' s' \<Rightarrow> serve_from lossy dir r rds srcs' s'
      | Served s' \<Rightarrow> Served s'
      | ServeFailed e s' \<Rightarrow> ServeFailed e s')"

section \<open>Starting\<close>

record daemon_world =
  dw_version :: string
  dw_vars :: "string \<Rightarrow> string option"
  dw_mkdir :: "string \<Rightarrow> string option"
  dw_socket :: "string option"
  dw_addr :: "string \<Rightarrow> string option"
  dw_connect :: "string \<Rightarrow> string option"
  dw_unbound :: bool
  dw_lossy :: "string \<Rightarrow> string"
  dw_files :: "string \<Rightarrow> string option"

text \<open>The value of \<open>--dir\<close>: the argument after the first one that is \<open>--dir\<close>.\<close>

definition dir_argument :: "string list \<Rightarrow> string option" where
  "dir_argument argv =
     (case dropWhile (\<lambda>a. a \<noteq> ''--dir'') argv of
        flag # d # rest \<Rightarrow> Some d
      | rest \<Rightarrow> None)"

definition daemon_connect :: "daemon_world \<Rightarrow> paths \<Rightarrow> string option" where
  "daemon_connect w p =
     (case dw_socket w of
        Some e \<Rightarrow> Some (''socket: '' @ e)
      | None \<Rightarrow>
          let path = log_socket_path p in
          (case dw_addr w path of
             Some e \<Rightarrow> Some (path @ '': '' @ e)
           | None \<Rightarrow>
               (case dw_connect w path of
                  Some e \<Rightarrow> Some (''connect '' @ path @ '': '' @ e @ [newline] @ ''is oxinit running'' @
                    (if is_user p then '' for this user'' else '' as PID 1, and are you root'') @ ''?'')
                | None \<Rightarrow> None)))"

definition SHIPPING_MESSAGE :: string where
  "SHIPPING_MESSAGE = ''READY=1'' @ [newline] @ ''STATUS=shipping'' @ [newline]"

text \<open>\<open>ready\<close>: the datagrams it sends, each with the address it goes to.\<close>

definition daemon_ready :: "daemon_world \<Rightarrow> (string \<times> string) list" where
  "daemon_ready w =
     (case dw_vars w ''NOTIFY_SOCKET'' of
        None \<Rightarrow> []
      | Some path \<Rightarrow> if dw_unbound w then [(path, SHIPPING_MESSAGE)] else [])"

datatype daemon_outcome =
    DaemonVersion string
  | DaemonFailed string
  | DaemonServing string "(string \<times> string) list"

definition daemon_start :: "daemon_world \<Rightarrow> string list \<Rightarrow> daemon_outcome" where
  "daemon_start w argv =
     (if ''--version'' \<in> set argv \<or> ''-V'' \<in> set argv then DaemonVersion (''oxlogd '' @ dw_version w)
      else
        (case (if ''--user'' \<in> set argv then user_paths (dw_vars w) else Inr system_paths) of
           Inl e \<Rightarrow> DaemonFailed (''--user: '' @ show_paths_error e)
         | Inr p \<Rightarrow>
             let dir = (case dir_argument argv of None \<Rightarrow> pt_log_dir p | Some d \<Rightarrow> d) in
             (case dw_mkdir w dir of
                Some e \<Rightarrow> DaemonFailed (''create '' @ dir @ '': '' @ e)
              | None \<Rightarrow>
                  (case daemon_connect w p of
                     Some e \<Rightarrow> DaemonFailed e
                   | None \<Rightarrow> DaemonServing dir (daemon_ready w)))))"

text \<open>\<open>main\<close>: the exit code and the complaint, once serving ended.\<close>

datatype daemon_exit = DaemonSuccess | DaemonFailure string | DaemonRunning

definition daemon_main :: "daemon_world \<Rightarrow> string list \<Rightarrow> log_round list \<Rightarrow> daemon_exit" where
  "daemon_main w argv rds =
     (case daemon_start w argv of
        DaemonVersion v \<Rightarrow> DaemonSuccess
      | DaemonFailed e \<Rightarrow> DaemonFailure (''oxlogd: '' @ e)
      | DaemonServing dir sent \<Rightarrow>
          (case serve_from (dw_lossy w) dir rotation_default rds [] (shipper_new (dw_files w)) of
             Serving srcs s \<Rightarrow> DaemonRunning
           | Served s \<Rightarrow> DaemonSuccess
           | ServeFailed e s \<Rightarrow> DaemonFailure (''oxlogd: '' @ e)))"

section \<open>What is read is what is logged\<close>

text \<open>The lines one read emits, and the source after it; the files do not matter for either.\<close>

definition drain_lines :: "pipe_read \<Rightarrow> source \<Rightarrow> string list" where
  "drain_lines rd src =
     (case rd of
        Eof \<Rightarrow> (if src_partial src = [] then [] else [src_partial src])
      | Data buf \<Rightarrow> fst (push_chunk (src_partial src) buf)
      | Retry \<Rightarrow> []
      | ReadError \<Rightarrow> [])"

definition after_read :: "pipe_read \<Rightarrow> source \<Rightarrow> source list" where
  "after_read rd src =
     (case rd of
        Eof \<Rightarrow> []
      | Data buf \<Rightarrow> [src\<lparr>src_partial := snd (push_chunk (src_partial src) buf)\<rparr>]
      | Retry \<Rightarrow> [src]
      | ReadError \<Rightarrow> [])"

definition round_ops :: "log_env \<Rightarrow> (source \<times> pipe_read option) list \<Rightarrow> log_op list" where
  "round_ops env srs = concat (map (\<lambda>(src, rd).
     (case rd of None \<Rightarrow> [] | Some x \<Rightarrow> map (\<lambda>l. (env, src_unit src, l)) (drain_lines x src))) srs)"

definition kept_sources :: "(source \<times> pipe_read option) list \<Rightarrow> source list" where
  "kept_sources srs = concat (map (\<lambda>(src, rd). (case rd of None \<Rightarrow> [src] | Some x \<Rightarrow> after_read x src)) srs)"

definition flush_ops :: "log_env \<Rightarrow> source list \<Rightarrow> log_op list" where
  "flush_ops env srcs = concat (map (\<lambda>src.
     (if src_partial src = [] then [] else [(env, src_unit src, src_partial src)])) srcs)"

lemma run_log_append: "run_log dir r (xs @ ys) s = run_log dir r ys (run_log dir r xs s)"
  by (simp add: run_log_def)

lemma run_log_lines: "run_log dir r (map (\<lambda>l. (env, u, l)) ls) s = write_lines env dir r u ls s"
  by (simp add: run_log_def write_lines_def fold_map o_def)

lemma drain_run:
  "drain env dir r rd src s = (src', s', alive) \<Longrightarrow>
     s' = run_log dir r (map (\<lambda>l. (env, src_unit src, l)) (drain_lines rd src)) s
     \<and> (if alive then [src'] else []) = after_read rd src"
  by (auto simp: drain_def drain_lines_def after_read_def run_log_lines flush_partial_def split_beta
      run_log_def write_lines_def fold_map o_def Let_def split: pipe_read.splits if_splits)

lemma drain_ready_run:
  "drain_ready env dir r srs s = (kept_sources srs, run_log dir r (round_ops env srs) s)"
proof (induction srs arbitrary: s)
  case Nil
  then show ?case by (simp add: kept_sources_def round_ops_def run_log_def)
next
  case (Cons sr srs)
  obtain src rd where sr: "sr = (src, rd)" by (cases sr)
  show ?case
  proof (cases rd)
    case None
    then show ?thesis using Cons.IH sr by (simp add: kept_sources_def round_ops_def)
  next
    case (Some x)
    obtain src' s1 alive where d: "drain env dir r x src s = (src', s1, alive)" by (cases "drain env dir r x src s")
    show ?thesis
      using drain_run [OF d] Cons.IH [of s1] sr Some d
      by (auto simp: kept_sources_def round_ops_def run_log_append split: if_splits)
  qed
qed

lemma drain_all_run: "snd (drain_all env dir r srcs s) = run_log dir r (flush_ops env srcs) s"
proof (induction srcs arbitrary: s)
  case Nil
  then show ?case by (simp add: drain_all_def flush_ops_def run_log_def)
next
  case (Cons src srcs)
  have "snd (drain_all env dir r (src # srcs) s)
      = snd (drain_all env dir r srcs (if src_partial src = [] then s
          else log_write env dir r (src_unit src) (src_partial src) s))"
    by (simp add: drain_all_def flush_partial_def)
  then show ?case by (simp add: Cons.IH flush_ops_def run_log_def)
qed

text \<open>What of a list of records is the unit's, and what the sources hold of it.\<close>

definition lines_of :: "string \<Rightarrow> log_op list \<Rightarrow> string list" where
  "lines_of u ops = map snd (unit_entries u ops)"

definition held_text :: "string \<Rightarrow> source list \<Rightarrow> string" where
  "held_text u srcs = concat (map src_partial (filter (\<lambda>src. src_unit src = u) srcs))"

definition heard_in :: "string \<Rightarrow> (source \<times> pipe_read option) list \<Rightarrow> string" where
  "heard_in u srs = concat (map (\<lambda>(src, rd).
     (case rd of Some (Data buf) \<Rightarrow> if src_unit src = u then buf else [] | _ \<Rightarrow> [])) srs)"

definition pipes :: "string \<Rightarrow> source list \<Rightarrow> nat" where
  "pipes u srcs = length (filter (\<lambda>src. src_unit src = u) srcs)"

abbreviation text_of :: "string \<Rightarrow> string" where
  "text_of s \<equiv> filter (\<lambda>c. c \<noteq> newline) s"

lemma lines_of_simps [simp]:
  "lines_of u [] = []"
  "lines_of u (xs @ ys) = lines_of u xs @ lines_of u ys"
  "lines_of u (map (\<lambda>l. (env, v, l)) ls) = (if v = u then ls else [])"
  by (auto simp: lines_of_def unit_entries_def o_def)

lemma pipes_simps [simp]:
  "pipes u [] = 0"
  "pipes u (src # srcs) = (if src_unit src = u then 1 else 0) + pipes u srcs"
  "pipes u (xs @ ys) = pipes u xs + pipes u ys"
  by (simp_all add: pipes_def)

lemma held_text_simps [simp]:
  "held_text u [] = []"
  "held_text u (src # srcs) = (if src_unit src = u then src_partial src else []) @ held_text u srcs"
  "held_text u (xs @ ys) = held_text u xs @ held_text u ys"
  by (simp_all add: held_text_def)

lemma held_none: "pipes u srcs = 0 \<Longrightarrow> held_text u srcs = []"
  by (simp only: pipes_def held_text_def length_0_conv list.map concat.simps)

lemma round_Cons [simp]:
  "round_ops env ((src, rd) # srs) =
     (case rd of None \<Rightarrow> [] | Some x \<Rightarrow> map (\<lambda>l. (env, src_unit src, l)) (drain_lines x src)) @ round_ops env srs"
  "heard_in u ((src, rd) # srs) =
     (case rd of Some (Data buf) \<Rightarrow> if src_unit src = u then buf else [] | _ \<Rightarrow> []) @ heard_in u srs"
  "kept_sources ((src, rd) # srs) = (case rd of None \<Rightarrow> [src] | Some x \<Rightarrow> after_read x src) @ kept_sources srs"
  "round_ops env [] = []" "heard_in u [] = []" "kept_sources [] = []"
  by (simp_all add: round_ops_def heard_in_def kept_sources_def)

lemma pipes_drained: "pipes u (after_read rd src) \<le> pipes u [src]"
  by (auto simp: after_read_def split: pipe_read.splits)

lemma pipes_kept: "pipes u (kept_sources srs) \<le> pipes u (map fst srs)"
proof (induction srs)
  case (Cons sr srs)
  obtain src rd where "sr = (src, rd)" by (cases sr)
  then show ?case
    using Cons pipes_drained [of u "the rd" src] by (cases rd) auto
qed simp

lemma round_bytes_none:
  assumes "pipes u (map fst srs) = 0"
  shows "lines_of u (round_ops env srs) = [] \<and> heard_in u srs = [] \<and> held_text u (kept_sources srs) = []"
proof -
  have "lines_of u (round_ops env srs) = [] \<and> heard_in u srs = []"
    using assms by (induction srs) (auto split: option.splits pipe_read.splits if_splits)
  then show ?thesis using held_none pipes_kept [of u srs] assms by simp
qed

lemma drained_bytes:
  "rd \<noteq> ReadError \<Longrightarrow> src_unit src = u \<Longrightarrow>
     src_partial src @ text_of (case rd of Data buf \<Rightarrow> buf | _ \<Rightarrow> []) = concat (drain_lines rd src) @ held_text u (after_read rd src)"
  using push_chunk_bytes [of "src_partial src"]
  by (auto simp: drain_lines_def after_read_def held_text_def split: pipe_read.splits)

lemma round_bytes:
  assumes "pipes u (map fst srs) \<le> 1" and "\<forall>(src, rd) \<in> set srs. rd \<noteq> Some ReadError"
  shows "held_text u (map fst srs) @ text_of (heard_in u srs) =
      concat (lines_of u (round_ops env srs)) @ held_text u (kept_sources srs)"
  using assms
proof (induction srs)
  case (Cons sr srs)
  obtain src rd where sr: "sr = (src, rd)" by (cases sr)
  show ?case
  proof (cases "src_unit src = u")
    case True
    then have none: "pipes u (map fst srs) = 0" using Cons.prems(1) sr by simp
    show ?thesis
      using round_bytes_none [OF none, of env] held_none [OF none] drained_bytes [of "the rd" src u] True Cons.prems(2) sr
      by (cases rd) (auto split: pipe_read.splits)
  next
    case False
    then have "pipes u (after_read x src) = 0" for x using pipes_drained [of u x src] by simp
    then show ?thesis using Cons sr False held_none
      by (cases rd) (auto split: pipe_read.splits)
  qed
qed simp

text \<open>
  The reference for the records of one unit: its pipes' reads one after the other, each with
  the time of its round, through one splitter.  The end of a pipe and the end of the daemon
  (at time \<open>fin\<close>) emit the unfinished line; a failed read forgets it.
\<close>

fun said_entries :: "timestamp \<Rightarrow> string \<Rightarrow> (timestamp \<times> pipe_read) list \<Rightarrow> (timestamp \<times> string) list" where
  "said_entries fin p [] = (if p = [] then [] else [(fin, p)])"
| "said_entries fin p ((t, Data buf) # rs) =
     map (Pair t) (fst (push_chunk p buf)) @ said_entries fin (snd (push_chunk p buf)) rs"
| "said_entries fin p ((t, Eof) # rs) = (if p = [] then [] else [(t, p)]) @ said_entries fin [] rs"
| "said_entries fin p ((t, Retry) # rs) = said_entries fin p rs"
| "said_entries fin p ((t, ReadError) # rs) = said_entries fin [] rs"

definition reads_in :: "string \<Rightarrow> timestamp \<Rightarrow> (source \<times> pipe_read option) list \<Rightarrow> (timestamp \<times> pipe_read) list" where
  "reads_in u t srs = concat (map (\<lambda>(src, rd).
     (case rd of Some x \<Rightarrow> if src_unit src = u then [(t, x)] else [] | None \<Rightarrow> [])) srs)"

lemma reads_in_simps [simp]:
  "reads_in u t [] = []"
  "reads_in u t ((src, rd) # srs) =
     (case rd of Some x \<Rightarrow> if src_unit src = u then [(t, x)] else [] | None \<Rightarrow> []) @ reads_in u t srs"
  by (simp_all add: reads_in_def)

lemma unit_entries_ops [simp]:
  "unit_entries u [] = []" "unit_entries u (xs @ ys) = unit_entries u xs @ unit_entries u ys"
  "unit_entries u (map (\<lambda>l. (env, v, l)) ls) = (if v = u then map (Pair (l_now env)) ls else [])"
  by (auto simp: unit_entries_def o_def)

lemma round_entries_none:
  assumes "pipes u (map fst srs) = 0"
  shows "unit_entries u (round_ops env srs) = [] \<and> reads_in u t srs = []"
  using assms by (induction srs) (auto split: option.splits if_splits)

lemma round_entries:
  assumes "pipes u (map fst srs) \<le> 1"
  shows "said_entries fin (held_text u (map fst srs)) (reads_in u (l_now env) srs @ rest)
    = unit_entries u (round_ops env srs) @ said_entries fin (held_text u (kept_sources srs)) rest"
  using assms
proof (induction srs)
  case (Cons sr srs)
  obtain src rd where sr: "sr = (src, rd)" by (cases sr)
  show ?case
  proof (cases "src_unit src = u")
    case True
    then have none: "pipes u (map fst srs) = 0" using Cons.prems sr by simp
    then have "pipes u (kept_sources srs) = 0" using pipes_kept [of u srs] by simp
    note held = held_none [OF none] held_none [OF this] and quiet = round_entries_none [OF none]
    show ?thesis
    proof (cases rd)
      case None
      then show ?thesis using held quiet True sr by simp
    next
      case (Some x)
      then show ?thesis using held quiet True sr
        by (cases x) (simp_all add: drain_lines_def after_read_def del: push_chunk_def)
    qed
  next
    case False
    then have "pipes u (after_read x src) = 0" for x using pipes_drained [of u x src] by simp
    then show ?thesis using Cons sr False held_none by (cases rd) simp_all
  qed
qed simp

lemma flush_entries:
  assumes "pipes u srcs \<le> 1"
  shows "unit_entries u (flush_ops env srcs) = said_entries (l_now env) (held_text u srcs) []"
  using assms
proof (induction srcs)
  case (Cons src srcs)
  have f: "flush_ops env (src # srcs) =
      (if src_partial src = [] then [] else [(env, src_unit src, src_partial src)]) @ flush_ops env srcs"
    by (simp add: flush_ops_def)
  have one: "unit_entries u [(env, v, l)] = (if v = u then [(l_now env, l)] else [])" for v l
    by (simp add: unit_entries_def)
  show ?case
  proof (cases "src_unit src = u")
    case True
    then have "pipes u srcs = 0" using Cons.prems by simp
    then show ?thesis using Cons.IH True by (simp add: f one held_none)
  next
    case False
    then show ?thesis using Cons by (simp add: f one)
  qed
qed (simp add: flush_ops_def)

section \<open>A whole run\<close>

text \<open>The rounds of a run with the sources each began with, and what was heard of a unit.\<close>

fun served_rounds ::
    "(string \<Rightarrow> string) \<Rightarrow> string \<Rightarrow> rotation \<Rightarrow> log_round list \<Rightarrow> source list \<Rightarrow> shipper \<Rightarrow> (source list \<times> log_round) list" where
  "served_rounds lossy dir r [] srcs s = []"
| "served_rounds lossy dir r (rd # rds) srcs s =
     (srcs, rd) # (case serve_round lossy dir r rd srcs s of
        Serving srcs' s' \<Rightarrow> served_rounds lossy dir r rds srcs' s'
      | Served s' \<Rightarrow> []
      | ServeFailed e s' \<Rightarrow> [])"

definition heard :: "string \<Rightarrow> (source list \<times> log_round) list \<Rightarrow> string" where
  "heard u trace = concat (map (\<lambda>(srcs, rd).
     (if lr_poll rd = Polled then heard_in u (with_reads srcs (lr_reads rd)) else [])) trace)"

definition reads_of :: "string \<Rightarrow> (source list \<times> log_round) list \<Rightarrow> (timestamp \<times> pipe_read) list" where
  "reads_of u trace = concat (map (\<lambda>(srcs, rd).
     (if lr_poll rd = Polled then reads_in u (l_now (lr_env rd)) (with_reads srcs (lr_reads rd)) else [])) trace)"

definition end_time_of :: "(source list \<times> log_round) list \<Rightarrow> timestamp" where
  "end_time_of trace = l_now (lr_env (snd (List.last trace)))"

text \<open>A round in which every call on the files succeeds, no read fails, and a message names a
  unit by a name a unit can have.\<close>

definition round_ok :: "(string \<Rightarrow> string) \<Rightarrow> log_round \<Rightarrow> bool" where
  "round_ok lossy rd \<longleftrightarrow> all_ok (lr_env rd) \<and> (\<forall>p. l_open (lr_env rd) p) \<and> Some ReadError \<notin> set (lr_reads rd)
     \<and> (case lr_message rd of
          Some (Received bytes fds) \<Rightarrow> take MAX_NAME bytes = [] \<or> unit_name_ok (lossy (take MAX_NAME bytes))
        | _ \<Rightarrow> True)"

lemma fst_with_reads [simp]: "map fst (with_reads srcs rs) = srcs"
  by (induction srcs rs rule: with_reads.induct) auto

lemma with_reads_read: "(src, Some x) \<in> set (with_reads srcs rs) \<Longrightarrow> Some x \<in> set rs"
  by (induction srcs rs rule: with_reads.induct) auto

lemma unit_with_reads: "(src, rd) \<in> set (with_reads srcs rs) \<Longrightarrow> src \<in> set srcs"
  by (induction srcs rs rule: with_reads.induct) auto

lemma kept_units: "src \<in> set (kept_sources srs) \<Longrightarrow> \<exists>src' \<in> fst ` set srs. src_unit src' = src_unit src"
  by (induction srs) (auto simp: after_read_def split: option.splits pipe_read.splits)

lemma round_ops_writes:
  "all_ok env \<Longrightarrow> \<forall>p. l_open env p \<Longrightarrow> \<forall>src \<in> fst ` set srs. unit_name_ok (src_unit src) \<Longrightarrow>
     list_all (op_writes dir) (round_ops env srs)"
  by (auto simp: round_ops_def op_writes_def list_all_iff split: option.splits)

lemma flush_ops_writes:
  "all_ok env \<Longrightarrow> \<forall>p. l_open env p \<Longrightarrow> \<forall>src \<in> set srcs. unit_name_ok (src_unit src) \<Longrightarrow>
     list_all (op_writes dir) (flush_ops env srcs)"
  by (auto simp: flush_ops_def op_writes_def list_all_iff)

lemma flush_bytes: "concat (lines_of u (flush_ops env srcs)) = held_text u srcs"
proof (induction srcs)
  case (Cons src srcs)
  have "lines_of u [(env, v, l)] = (if v = u then [l] else [])" for v l
    by (simp add: lines_of_def unit_entries_def)
  moreover have "flush_ops env (src # srcs) =
      (if src_partial src = [] then [] else [(env, src_unit src, src_partial src)]) @ flush_ops env srcs"
    by (simp add: flush_ops_def)
  ultimately show ?case using Cons.IH by (cases "src_unit src = u") simp_all
qed (simp add: flush_ops_def)

text \<open>One round, read through the records it adds.\<close>

lemma serve_round_run:
  "serve_round lossy dir r rd srcs s =
     (case lr_poll rd of
        PollInterrupted \<Rightarrow> Serving srcs s
      | PollFailed e \<Rightarrow> ServeFailed (''poll: '' @ e) s
      | Polled \<Rightarrow>
          let kept = kept_sources (with_reads srcs (lr_reads rd));
              s1 = run_log dir r (round_ops (lr_env rd) (with_reads srcs (lr_reads rd))) s in
          (case lr_message rd of
             None \<Rightarrow> Serving kept s1
           | Some answer \<Rightarrow>
               (case accept_source lossy answer kept of
                  Inl e \<Rightarrow> ServeFailed e s1
                | Inr (AcceptedSource srcs') \<Rightarrow> Serving srcs' s1
                | Inr AcceptedClosed \<Rightarrow> Served (run_log dir r (flush_ops (lr_env rd) kept) s1))))"
  by (simp add: serve_round_def drain_ready_run drain_all_run Let_def
      split: poll_outcome.splits option.splits sum.splits message_outcome.splits)

lemma accept_source_held:
  "accept_source lossy answer kept = Inr (AcceptedSource srcs') \<Longrightarrow> held_text u srcs' = held_text u kept"
  by (auto simp: accept_source_def shipped_source_def Let_def split: recv_outcome.splits if_splits)

lemma accept_source_units:
  assumes "accept_source lossy answer kept = Inr (AcceptedSource srcs')" and "round_ok lossy rd"
    and "lr_message rd = Some answer" and "\<forall>src \<in> set kept. unit_name_ok (src_unit src)"
  shows "\<forall>src \<in> set srcs'. unit_name_ok (src_unit src)"
  using assms by (auto simp: accept_source_def shipped_source_def round_ok_def Let_def split: recv_outcome.splits if_splits)

text \<open>One round of reading: what it writes is in the directory, and together with what is still held
  it is what was held before and what was heard.\<close>

lemma polled_round:
  fixes srcs rd
  defines "srs \<equiv> with_reads srcs (lr_reads rd)"
  assumes "round_ok lossy rd" and "pipes u srcs \<le> 1" and "\<forall>src \<in> set srcs. unit_name_ok (src_unit src)"
  shows "list_all (op_writes dir) (round_ops (lr_env rd) srs)"
    and "\<forall>src \<in> set (kept_sources srs). unit_name_ok (src_unit src)"
    and "held_text u srcs @ text_of (heard_in u srs)
      = concat (lines_of u (round_ops (lr_env rd) srs)) @ held_text u (kept_sources srs)"
proof -
  have env: "all_ok (lr_env rd)" "\<forall>p. l_open (lr_env rd) p" using assms(2) by (simp_all add: round_ok_def)
  have units: "\<forall>src \<in> fst ` set srs. unit_name_ok (src_unit src)"
    using assms(4) unit_with_reads unfolding srs_def by fastforce
  show "list_all (op_writes dir) (round_ops (lr_env rd) srs)" by (rule round_ops_writes [OF env units])
  show "\<forall>src \<in> set (kept_sources srs). unit_name_ok (src_unit src)"
    using kept_units [of _ srs] units by metis
  have "\<forall>(src, x) \<in> set srs. x \<noteq> Some ReadError"
    using assms(2) with_reads_read unfolding srs_def by (auto simp: round_ok_def)
  then show "held_text u srcs @ text_of (heard_in u srs)
      = concat (lines_of u (round_ops (lr_env rd) srs)) @ held_text u (kept_sources srs)"
    using round_bytes [of u srs "lr_env rd"] assms(3) by (simp add: srs_def)
qed

lemma serve_ops:
  assumes "serve_from lossy dir r rds srcs s = Served s'"
    and "\<forall>(srcs', rd) \<in> set (served_rounds lossy dir r rds srcs s). pipes u srcs' \<le> 1 \<and> round_ok lossy rd"
    and "\<forall>src \<in> set srcs. unit_name_ok (src_unit src)"
  shows "\<exists>ops. s' = run_log dir r ops s \<and> list_all (op_writes dir) ops
    \<and> concat (lines_of u ops) = held_text u srcs @ text_of (heard u (served_rounds lossy dir r rds srcs s))
    \<and> unit_entries u ops = said_entries (end_time_of (served_rounds lossy dir r rds srcs s)) (held_text u srcs)
        (reads_of u (served_rounds lossy dir r rds srcs s))"
  using assms
proof (induction rds arbitrary: srcs s)
  case (Cons rd rds)
  let ?trace = "served_rounds lossy dir r (rd # rds) srcs s"
  have ok: "pipes u srcs \<le> 1" "round_ok lossy rd" using Cons.prems(2) by auto
  show ?case
  proof (cases "lr_poll rd")
    case PollInterrupted
    then have "serve_round lossy dir r rd srcs s = Serving srcs s" by (simp add: serve_round_run)
    moreover from this have "served_rounds lossy dir r rds srcs s \<noteq> []" using Cons.prems(1) by (cases rds) simp_all
    ultimately show ?thesis using Cons PollInterrupted by (simp add: heard_def reads_of_def end_time_of_def)
  next
    case PollFailed
    then show ?thesis using Cons.prems(1) by (simp add: serve_round_run)
  next
    case Polled
    let ?srs = "with_reads srcs (lr_reads rd)"
    let ?kept = "kept_sources ?srs" and ?ops = "round_ops (lr_env rd) ?srs"
    let ?s1 = "run_log dir r ?ops s"
    have env: "all_ok (lr_env rd)" "\<forall>p. l_open (lr_env rd) p" using ok(2) by (simp_all add: round_ok_def)
    note kept = polled_round(2) [OF ok(2,1) Cons.prems(3)] and w = polled_round(1) [OF ok(2,1) Cons.prems(3)]
      and bytes = polled_round(3) [OF ok(2,1) Cons.prems(3)]
    have ents: "said_entries fin (held_text u srcs) (reads_in u (l_now (lr_env rd)) ?srs @ rest)
        = unit_entries u ?ops @ said_entries fin (held_text u ?kept) rest" for fin rest
      using round_entries [of u ?srs fin "lr_env rd" rest] ok(1) by simp
    have one: "pipes u ?kept \<le> 1" using pipes_kept [of u ?srs] ok(1) by simp
    have go_on: ?thesis
      if n: "serve_round lossy dir r rd srcs s = Serving srcs' ?s1"
        and h: "held_text u srcs' = held_text u ?kept" and k: "\<forall>src \<in> set srcs'. unit_name_ok (src_unit src)" for srcs'
    proof -
      have t: "?trace = (srcs, rd) # served_rounds lossy dir r rds srcs' ?s1" using n by simp
      let ?rest = "served_rounds lossy dir r rds srcs' ?s1"
      have "\<exists>ops. s' = run_log dir r ops ?s1 \<and> list_all (op_writes dir) ops
          \<and> concat (lines_of u ops) = held_text u srcs' @ text_of (heard u ?rest)
          \<and> unit_entries u ops = said_entries (end_time_of ?rest) (held_text u srcs') (reads_of u ?rest)"
        by (rule Cons.IH) (use Cons.prems n k in auto)
      then obtain ops where o: "s' = run_log dir r ops ?s1" "list_all (op_writes dir) ops"
          "concat (lines_of u ops) = held_text u srcs' @ text_of (heard u ?rest)"
          "unit_entries u ops = said_entries (end_time_of ?rest) (held_text u srcs') (reads_of u ?rest)"
        by blast
      have "?rest \<noteq> []" using Cons.prems(1) n by (cases rds) simp_all
      then have "end_time_of ?trace = end_time_of ?rest" unfolding t by (simp add: end_time_of_def)
      moreover have "reads_of u ?trace = reads_in u (l_now (lr_env rd)) ?srs @ reads_of u ?rest"
        using Polled unfolding t by (simp add: reads_of_def)
      ultimately have e: "unit_entries u (?ops @ ops)
          = said_entries (end_time_of ?trace) (held_text u srcs) (reads_of u ?trace)"
        using o(4) h by (simp add: ents)
      have "s' = run_log dir r (?ops @ ops) s" using o(1) by (simp add: run_log_append)
      moreover have "list_all (op_writes dir) (?ops @ ops)" using w o(2) by simp
      moreover have "concat (lines_of u (?ops @ ops)) = held_text u srcs @ text_of (heard u ?trace)"
        using o(3) bytes h Polled unfolding t by (simp add: heard_def)
      ultimately show ?thesis using e by blast
    qed
    show ?thesis
    proof (cases "lr_message rd")
      case None
      show ?thesis by (rule go_on [of ?kept]) (use Polled None kept in \<open>simp_all add: serve_round_run Let_def\<close>)
    next
      case (Some answer)
      show ?thesis
      proof (cases "accept_source lossy answer ?kept")
        case (Inl e)
        then show ?thesis using Cons.prems(1) Polled Some by (simp add: serve_round_run Let_def)
      next
        case (Inr m)
        show ?thesis
        proof (cases m)
          case (AcceptedSource srcs')
          then have a: "accept_source lossy answer ?kept = Inr (AcceptedSource srcs')" using Inr by simp
          show ?thesis
            by (rule go_on [of srcs'])
              (use Polled Some a accept_source_held [OF a] accept_source_units [OF a ok(2) Some kept]
               in \<open>simp_all add: serve_round_run Let_def\<close>)
        next
          case AcceptedClosed
          let ?last = "flush_ops (lr_env rd) ?kept"
          have n: "serve_round lossy dir r rd srcs s = Served (run_log dir r ?last ?s1)"
            using Polled Some Inr AcceptedClosed by (simp add: serve_round_run Let_def)
          then have "s' = run_log dir r (?ops @ ?last) s" using Cons.prems(1) by (simp add: run_log_append)
          moreover have "list_all (op_writes dir) (?ops @ ?last)"
            using w flush_ops_writes [OF env kept] by simp
          moreover have "concat (lines_of u (?ops @ ?last)) = held_text u srcs @ text_of (heard u ?trace)"
            using bytes n Polled by (simp add: heard_def flush_bytes)
          moreover have "unit_entries u (?ops @ ?last) = said_entries (end_time_of ?trace) (held_text u srcs) (reads_of u ?trace)"
            using n Polled ents [of "l_now (lr_env rd)" "[]"] flush_entries [OF one]
            by (simp add: reads_of_def end_time_of_def)
          ultimately show ?thesis by blast
        qed
      qed
    qed
  qed
qed simp

section \<open>Properties\<close>

text \<open>C37.  What a service says is in its log when the daemon ends.  Serving from an empty directory
  until the manager closes the socket, in rounds where no call on the files and no read
  fails and with at most one open pipe of the unit at a time: the records of the unit are
  the lines of what was read from its pipes, each with the time of the round it ended in,
  and they are in its files, packed as the rotation packs them, so that only segments older
  than the generations kept are gone.  The lines, one after the other, are exactly the bytes
  read without the newlines: nothing is lost, reordered or invented, whatever the reads, the
  restarts of the service and the other units, and the unfinished line at the end of a pipe
  or of the daemon is there too.\<close>

theorem everything_said_is_logged:
  fixes lossy dir r rds u
  defines "s0 \<equiv> shipper_new Map.empty"
  defines "trace \<equiv> served_rounds lossy dir r rds [] s0"
  defines "es \<equiv> said_entries (end_time_of trace) [] (reads_of u trace)"
  assumes "serve_from lossy dir r rds [] s0 = Served s" and "unit_name_ok u" and "rt_max_size r < u64_max"
    and "\<forall>(srcs, rd) \<in> set trace. pipes u srcs \<le> 1 \<and> round_ok lossy rd"
  shows "content (sh_files s) (log_path dir u) = segment (pack (rt_max_size r) (records es)) 0
    \<and> (\<forall>n \<in> {1..rt_keep r}. content (sh_files s) (generation dir u n) = segment (pack (rt_max_size r) (records es)) n)
    \<and> concat (rev (pack (rt_max_size r) (records es))) = concat (records es)
    \<and> concat (map snd es) = text_of (heard u trace)
    \<and> (\<forall>e \<in> set es. newline \<notin> set (snd e))"
proof -
  obtain ops where ops: "s = run_log dir r ops s0" "list_all (op_writes dir) ops"
      "concat (lines_of u ops) = text_of (heard u trace)" "unit_entries u ops = es"
    using serve_ops [OF assms(4) assms(7) [unfolded trace_def]] by (auto simp: trace_def es_def)
  have "holds r dir u (pack (rt_max_size r) (records es)) (sh_files s)"
    using run_log_packed [OF ops(2) assms(6,5)] ops(1,4) by (simp add: s0_def)
  moreover have words: "concat (map snd es) = text_of (heard u trace)" using ops(3,4) by (simp add: lines_of_def)
  moreover have "newline \<notin> set (snd e)" if "e \<in> set es" for e
  proof -
    have "set (snd e) \<subseteq> set (concat (map snd es))" using that by auto
    then show ?thesis using words by auto
  qed
  ultimately show ?thesis by (simp add: holds_def concat_pack)
qed

definition sample_rounds :: "log_round list" where
  "sample_rounds =
     [\<lparr>lr_poll = Polled, lr_reads = [], lr_message = Some (Received ''web'' [5]), lr_env = sample_log_env\<rparr>,
      \<lparr>lr_poll = Polled, lr_reads = [Some (Data ''up'')], lr_message = None, lr_env = sample_log_env\<rparr>,
      \<lparr>lr_poll = PollInterrupted, lr_reads = [], lr_message = None, lr_env = sample_log_env\<rparr>,
      \<lparr>lr_poll = Polled, lr_reads = [Some (Data (newline # ''half''))], lr_message = Some (Received [] []),
        lr_env = sample_log_env\<rparr>]"

theorem everything_said_is_logged_witness:
  "\<exists>s. serve_from (\<lambda>b. b) ''/l'' rotation_default sample_rounds [] (shipper_new Map.empty) = Served s
     \<and> content (sh_files s) (log_path ''/l'' ''web'')
       = log_record (l_now sample_log_env) ''up'' @ log_record (l_now sample_log_env) ''half''"
proof -
  let ?s0 = "shipper_new Map.empty"
  let ?trace = "served_rounds (\<lambda>b. b) ''/l'' rotation_default sample_rounds [] ?s0"
  note d = sample_rounds_def serve_round_run accept_source_def shipped_source_def MAX_NAME_def after_read_def drain_lines_def
    push_chunk_def push_loop.simps MAX_LINE_def
  obtain s where s: "serve_from (\<lambda>b. b) ''/l'' rotation_default sample_rounds [] ?s0 = Served s"
    by (simp add: d)
  moreover have "\<forall>(srcs, rd) \<in> set ?trace. pipes ''web'' srcs \<le> 1 \<and> round_ok (\<lambda>b. b) rd"
    by (simp add: d) (simp add: round_ok_def all_ok_def sample_log_env_def unit_name_ok_def MAX_NAME_def)
  moreover have es: "said_entries (end_time_of ?trace) [] (reads_of ''web'' ?trace)
      = [(l_now sample_log_env, ''up''), (l_now sample_log_env, ''half'')]"
    by (simp add: d reads_of_def end_time_of_def)
  moreover have "unit_name_ok ''web''" "rt_max_size rotation_default < u64_max"
    by (simp_all add: unit_name_ok_def rotation_default_def u64_max_def)
  moreover have "length (log_record (l_now sample_log_env) ''up'') + length (log_record (l_now sample_log_env) ''half'')
      \<le> rt_max_size rotation_default"
    by (simp add: log_record_def sample_log_env_def pad6_def show_nat.simps [of "Suc 0"] show_nat.simps [of 9]
        rotation_default_def)
  then have "pack (rt_max_size rotation_default) (records [(l_now sample_log_env, ''up''), (l_now sample_log_env, ''half'')])
      = [log_record (l_now sample_log_env) ''up'' @ log_record (l_now sample_log_env) ''half'']"
    by (simp add: pack_def records_def)
  ultimately show ?thesis
    using everything_said_is_logged [of "\<lambda>b. b" "''/l''" rotation_default sample_rounds s "''web''"] by simp
qed

text \<open>The daemon says it is ready only with the socket connected and the directory there, and only
  to the address it was given.\<close>

lemma ready_only_when_connected:
  "daemon_start w argv = DaemonServing dir sent \<Longrightarrow>
     dw_socket w = None \<and> dw_mkdir w dir = None \<and> (\<exists>p. daemon_connect w p = None \<and> dw_connect w (log_socket_path p) = None)
     \<and> (\<forall>(to, message) \<in> set sent. dw_vars w ''NOTIFY_SOCKET'' = Some to \<and> message = SHIPPING_MESSAGE)"
  by (auto simp: daemon_start_def daemon_connect_def daemon_ready_def Let_def split: if_splits option.splits sum.splits)

text \<open>A failing read drops the source with the line it held: what was read of that line is not
  written, unlike at the end of the pipe.\<close>

lemma read_error_loses_the_partial:
  "drain env dir r ReadError src s = (src, s, False)"
  "src_partial src \<noteq> [] \<Longrightarrow> fst (snd (drain env dir r Eof src s)) = log_write env dir r (src_unit src) (src_partial src) s"
  by (simp_all add: drain_def flush_partial_def)

end
