(* ===== verification/Xtask.thy ===== *)
theory Xtask
  imports Sockets Loader
begin

text \<open>
  The build and boot driver, \<open>crates/xtask/src/main.rs\<close>: this theory holds what its commands
  share.  A command is a function from the calls made so far to a result and the calls made
  afterwards; what the world answers is a \<open>workshop\<close>, whose fields see every call made up to
  and including the one they answer.  Progress lines are left out.
\<close>

named_theorems xt_returns \<open>when a sequence of calls returns a value\<close>

section \<open>Calls\<close>

datatype call =
    RunProgram string "string list" "string option"
  | CaptureOutput string "string list"
  | SpawnChild string "string list"
  | PollChild
  | KillChild
  | ReapChild
  | SleepMillis nat
  | ReadText string
  | WriteText string string
  | CopyFile string string
  | SetExecutable string
  | LinkTo string string
  | MakeDirs string
  | ListDir string
  | DropFile string
  | DropTree string
  | DropDir string
  | MoveFile string string

datatype run_error = NoProgram | RunError string

text \<open>A finished process: whether it succeeded, its status as printed, its two streams.\<close>

record process_output =
  po_ok :: bool
  po_status :: string
  po_stdout :: string
  po_stderr :: string

text \<open>\<open>wk_lossy\<close> is \<open>from_utf8_lossy\<close>, \<open>wk_debug\<close> the quoted form of a string, \<open>wk_uppercase\<close> is
  \<open>to_uppercase\<close>; \<open>wk_aarch64\<close> is the \<open>cfg!\<close> of the host and \<open>wk_manifest\<close> the crate's
  directory.\<close>

record workshop =
  wk_vars :: "string \<Rightarrow> string option"
  wk_aarch64 :: bool
  wk_manifest :: string
  wk_lossy :: "string \<Rightarrow> string"
  wk_debug :: "string \<Rightarrow> string"
  wk_uppercase :: "string \<Rightarrow> string"
  wk_exists :: "call list \<Rightarrow> string \<Rightarrow> bool"
  wk_is_dir :: "call list \<Rightarrow> string \<Rightarrow> bool"
  wk_status :: "call list \<Rightarrow> run_error + bool \<times> string"
  wk_output :: "call list \<Rightarrow> string + process_output"
  wk_spawn :: "call list \<Rightarrow> run_error option"
  wk_poll :: "call list \<Rightarrow> string + bool"
  wk_file :: "call list \<Rightarrow> string option"
  wk_text :: "call list \<Rightarrow> string + string"
  wk_entries :: "call list \<Rightarrow> string + (string + string) list"

type_synonym 'a xt = "call list \<Rightarrow> (string + 'a) \<times> call list"

section \<open>Sequencing\<close>

definition xreturn :: "'a \<Rightarrow> 'a xt" where
  "xreturn x h = (Inr x, h)"

definition xfail :: "string \<Rightarrow> 'a xt" where
  "xfail e h = (Inl e, h)"

definition xbind :: "'a xt \<Rightarrow> ('a \<Rightarrow> 'b xt) \<Rightarrow> 'b xt" where
  "xbind m k h = (case m h of (Inl e, h1) \<Rightarrow> (Inl e, h1) | (Inr x, h1) \<Rightarrow> k x h1)"

definition xseq :: "'a xt \<Rightarrow> 'b xt \<Rightarrow> 'b xt" where
  "xseq m k = xbind m (\<lambda>_. k)"

definition xlift :: "string + 'a \<Rightarrow> 'a xt" where
  "xlift r h = (r, h)"

text \<open>\<open>let _ = m\<close>, and \<open>if let Ok(x) = m\<close>.\<close>

definition xignore :: "'a xt \<Rightarrow> unit xt" where
  "xignore m h = (Inr (), snd (m h))"

definition xif_ok :: "'a xt \<Rightarrow> ('a \<Rightarrow> unit xt) \<Rightarrow> unit xt" where
  "xif_ok m k h = (case m h of (Inl e, h1) \<Rightarrow> (Inr (), h1) | (Inr x, h1) \<Rightarrow> k x h1)"

text \<open>What a call returned, as a value: the failure does not end the caller.\<close>

definition xcatch :: "'a xt \<Rightarrow> (string + 'a) xt" where
  "xcatch m h = (Inr (fst (m h)), snd (m h))"

fun xfor :: "('a \<Rightarrow> unit xt) \<Rightarrow> 'a list \<Rightarrow> unit xt" where
  "xfor f [] = xreturn ()"
| "xfor f (x # xs) = xseq (f x) (xfor f xs)"

text \<open>A file system call and the words its failure is reported with.\<close>

definition file_call :: "workshop \<Rightarrow> call \<Rightarrow> string \<Rightarrow> unit xt" where
  "file_call w c what h =
     (let h1 = h @ [c] in
      (case wk_file w h1 of None \<Rightarrow> Inr () | Some e \<Rightarrow> Inl (what @ '': '' @ e), h1))"

definition read_text :: "workshop \<Rightarrow> string \<Rightarrow> string xt" where
  "read_text w path h =
     (let h1 = h @ [ReadText path] in
      (case wk_text w h1 of Inr text \<Rightarrow> Inr text | Inl e \<Rightarrow> Inl (''read '' @ path @ '': '' @ e), h1))"

definition nap :: "nat \<Rightarrow> unit xt" where
  "nap ms h = (Inr (), h @ [SleepMillis ms])"

definition exists_at :: "workshop \<Rightarrow> string \<Rightarrow> bool xt" where
  "exists_at w p h = (Inr (wk_exists w h p), h)"

definition is_dir_at :: "workshop \<Rightarrow> string \<Rightarrow> bool xt" where
  "is_dir_at w p h = (Inr (wk_is_dir w h p), h)"

section \<open>Programs\<close>

text \<open>\<open>run\<close>, with the working directory when one is set.\<close>

definition run_command :: "workshop \<Rightarrow> string \<Rightarrow> string list \<Rightarrow> string option \<Rightarrow> unit xt" where
  "run_command w prog args cwd h =
     (let h1 = h @ [RunProgram prog args cwd] in
      (case wk_status w h1 of
         Inl NoProgram \<Rightarrow> Inl (prog @ '' not found; is it installed?'')
       | Inl (RunError e) \<Rightarrow> Inl (''run '' @ prog @ '': '' @ e)
       | Inr (ok, shown) \<Rightarrow> if ok then Inr () else Inl (prog @ '' failed with '' @ shown), h1))"

text \<open>\<open>Command::output\<close>.\<close>

definition output_of :: "workshop \<Rightarrow> string \<Rightarrow> string list \<Rightarrow> string \<Rightarrow> process_output xt" where
  "output_of w prog args what h =
     (let h1 = h @ [CaptureOutput prog args] in
      (case wk_output w h1 of Inl e \<Rightarrow> Inl (''run '' @ what @ '': '' @ e) | Inr out \<Rightarrow> Inr out, h1))"

definition capture :: "workshop \<Rightarrow> string \<Rightarrow> string list \<Rightarrow> string xt" where
  "capture w prog args =
     xbind (output_of w prog args prog) (\<lambda>out.
       if po_ok out then xreturn (wk_lossy w (po_stdout out))
       else xfail (prog @ '' failed with '' @ po_status out))"

definition cargo :: "workshop \<Rightarrow> string" where
  "cargo w = (case wk_vars w ''CARGO'' of Some c \<Rightarrow> c | None \<Rightarrow> ''cargo'')"

text \<open>\<open>root\<close>: the second ancestor of the crate's directory.\<close>

definition workspace_root :: "workshop \<Rightarrow> string" where
  "workspace_root w =
     (case path_parent (wk_manifest w) of
        None \<Rightarrow> ''.''
      | Some p \<Rightarrow> (case path_parent p of None \<Rightarrow> ''.'' | Some q \<Rightarrow> q))"

definition in_root :: "workshop \<Rightarrow> string \<Rightarrow> string" where
  "in_root w p = path_join (workspace_root w) p"

section \<open>Arguments and architectures\<close>

text \<open>\<open>flag\<close>: the argument after the first one with the name.\<close>

fun flag :: "string list \<Rightarrow> string \<Rightarrow> string + string option" where
  "flag [] name = Inr None"
| "flag (arg # rest) name =
     (if arg = name
      then (case rest of value # _ \<Rightarrow> Inr (Some value) | [] \<Rightarrow> Inl (name @ '' needs a value''))
      else flag rest name)"

record architecture =
  ar_name :: string
  ar_target :: string
  ar_qemu :: string
  ar_machine :: "string list"
  ar_console :: string
  ar_timeout :: nat

definition X86_64 :: architecture where
  "X86_64 = \<lparr>ar_name = ''x86_64'', ar_target = ''x86_64-unknown-linux-musl'', ar_qemu = ''qemu-system-x86_64'',
     ar_machine = [], ar_console = ''ttyS0'', ar_timeout = 90\<rparr>"

definition AARCH64 :: architecture where
  "AARCH64 = \<lparr>ar_name = ''aarch64'', ar_target = ''aarch64-unknown-linux-musl'', ar_qemu = ''qemu-system-aarch64'',
     ar_machine = [''-M'', ''virt'', ''-cpu'', ''cortex-a57''], ar_console = ''ttyAMA0'', ar_timeout = 300\<rparr>"

definition ARCHES :: "architecture list" where
  "ARCHES = [X86_64, AARCH64]"

definition default_arch :: "workshop \<Rightarrow> string" where
  "default_arch w = (if wk_aarch64 w then ''aarch64'' else ''x86_64'')"

definition find_arch :: "workshop \<Rightarrow> string list \<Rightarrow> string + architecture" where
  "find_arch w args =
     (case flag args ''--arch'' of
        Inl e \<Rightarrow> Inl e
      | Inr given \<Rightarrow>
          let wanted = (case given of
                 Some name \<Rightarrow> name
               | None \<Rightarrow> (case wk_vars w ''OXINIT_ARCH'' of Some name \<Rightarrow> name | None \<Rightarrow> default_arch w)) in
          (case find (\<lambda>a. ar_name a = wanted) ARCHES of
             Some a \<Rightarrow> Inr a
           | None \<Rightarrow> Inl (''unknown --arch `'' @ wanted @ ''`; known: '' @ join_with '', '' (map ar_name ARCHES))))"

definition per_arch :: "workshop \<Rightarrow> architecture \<Rightarrow> string \<Rightarrow> string option" where
  "per_arch w a name =
     (case wk_vars w (name @ ''_'' @ wk_uppercase w (ar_name a)) of
        Some p \<Rightarrow> Some p
      | None \<Rightarrow> wk_vars w name)"

definition in_tree :: "workshop \<Rightarrow> string \<Rightarrow> string option xt" where
  "in_tree w relative =
     xbind (exists_at w (in_root w relative)) (\<lambda>here. xreturn (if here then Some (in_root w relative) else None))"

definition existing_shell :: "workshop \<Rightarrow> string \<Rightarrow> string option xt" where
  "existing_shell w path =
     xbind (exists_at w path) (\<lambda>here. if here then xreturn (Some path) else xfail (''no shell at '' @ path))"

definition find_shell :: "workshop \<Rightarrow> architecture \<Rightarrow> string list \<Rightarrow> string option xt" where
  "find_shell w a args =
     xbind (xlift (flag args ''--shell'')) (\<lambda>given. case given of
        Some path \<Rightarrow> existing_shell w path
      | None \<Rightarrow> (case per_arch w a ''OXINIT_SHELL'' of
            Some path \<Rightarrow> existing_shell w path
          | None \<Rightarrow> xbind (in_tree w (''target/busybox-'' @ ar_name a)) (\<lambda>found. case found of
                Some path \<Rightarrow> existing_shell w path
              | None \<Rightarrow> xreturn None)))"

definition no_kernel :: "workshop \<Rightarrow> architecture \<Rightarrow> string" where
  "no_kernel w a =
     ''no '' @ ar_name a @ '' kernel image. Pass --kernel PATH, set $OXINIT_KERNEL_'' @ wk_uppercase w (ar_name a) @
     '' or $OXINIT_KERNEL, or put one at '' @ in_root w (''target/vmlinuz-'' @ ar_name a) @ ''.'' @ [newline] @
     ''On Linux the running kernel is usually at /boot/vmlinuz-$(uname -r); Alpine publishes both '' @
     ''architectures under releases/<arch>/netboot/.''"

definition find_kernel :: "workshop \<Rightarrow> architecture \<Rightarrow> string list \<Rightarrow> string xt" where
  "find_kernel w a args =
     xbind (xlift (flag args ''--kernel'')) (\<lambda>given. case given of
        Some path \<Rightarrow> xreturn path
      | None \<Rightarrow> (case per_arch w a ''OXINIT_KERNEL'' of
            Some path \<Rightarrow> xreturn path
          | None \<Rightarrow> xbind (in_tree w (''target/vmlinuz-'' @ ar_name a)) (\<lambda>found. case found of
                Some path \<Rightarrow> xreturn path
              | None \<Rightarrow> xfail (no_kernel w a))))"

definition build_package :: "workshop \<Rightarrow> architecture \<Rightarrow> string \<Rightarrow> string xt" where
  "build_package w a package =
     (let binary = path_join (path_join (path_join (in_root w ''target'') (ar_target a)) ''release'') package in
      xseq (run_command w (cargo w) [''build'', ''--release'', ''--target'', ar_target a, ''-p'', package]
              (Some (workspace_root w)))
        (xbind (exists_at w binary) (\<lambda>here.
           if here then xreturn binary else xfail (''expected a binary at '' @ binary))))"

definition xbuild :: "workshop \<Rightarrow> architecture \<Rightarrow> string xt" where
  "xbuild w a = build_package w a ''oxinit''"

section \<open>Quoting\<close>

text \<open>\<open>str::replace\<close> of one character, and \<open>shell_quote\<close>.\<close>

definition replace_char :: "char \<Rightarrow> string \<Rightarrow> string \<Rightarrow> string" where
  "replace_char c r s = concat (map (\<lambda>x. if x = c then r else [x]) s)"

definition shell_quote :: "string \<Rightarrow> string" where
  "shell_quote path = [squote] @ replace_char squote [squote, backslash, squote, squote] path @ [squote]"

definition cpio_script :: "string \<Rightarrow> string \<Rightarrow> string" where
  "cpio_script staging img =
     ''cd '' @ shell_quote staging @ '' && find . | cpio --quiet -o -H newc | gzip -9 > '' @ shell_quote img"

section \<open>Searching text\<close>

text \<open>\<open>str::find\<close>, \<open>contains\<close>, and \<open>replacen(_, _, 1)\<close>.\<close>

fun find_text :: "string \<Rightarrow> string \<Rightarrow> nat option" where
  "find_text needle [] = (if needle = [] then Some 0 else None)"
| "find_text needle (c # s) =
     (case strip_prefix needle (c # s) of
        Some _ \<Rightarrow> Some 0
      | None \<Rightarrow> map_option Suc (find_text needle s))"

definition has_text :: "string \<Rightarrow> string \<Rightarrow> bool" where
  "has_text s needle \<longleftrightarrow> find_text needle s \<noteq> None"

definition replace_first :: "string \<Rightarrow> string \<Rightarrow> string \<Rightarrow> string" where
  "replace_first s needle by =
     (case find_text needle s of None \<Rightarrow> s | Some i \<Rightarrow> take i s @ by @ drop (i + length needle) s)"

section \<open>When a sequence returns\<close>

lemma xreturn_returns [xt_returns]: "xreturn x h = (Inr y, h') \<longleftrightarrow> x = y \<and> h = h'"
  by (simp add: xreturn_def)

lemma xfail_returns [xt_returns]: "xfail e h \<noteq> (Inr y, h')"
  by (simp add: xfail_def)

lemma xbind_returns [xt_returns]:
  "xbind m k h = (Inr y, h') \<longleftrightarrow> (\<exists>x h1. m h = (Inr x, h1) \<and> k x h1 = (Inr y, h'))"
  by (auto simp: xbind_def split: prod.splits sum.splits)

lemma xseq_returns [xt_returns]:
  "xseq m k h = (Inr y, h') \<longleftrightarrow> (\<exists>x h1. m h = (Inr x, h1) \<and> k h1 = (Inr y, h'))"
  by (simp add: xseq_def xbind_returns)

lemma xlift_returns [xt_returns]: "xlift r h = (Inr y, h') \<longleftrightarrow> r = Inr y \<and> h' = h"
  by (auto simp: xlift_def)

lemma xignore_returns [xt_returns]: "xignore m h = (Inr y, h') \<longleftrightarrow> h' = snd (m h)"
  by (auto simp: xignore_def)

lemma file_call_returns [xt_returns]:
  "file_call w c what h = (Inr y, h') \<longleftrightarrow> h' = h @ [c] \<and> wk_file w h' = None"
  by (auto simp: file_call_def Let_def split: option.splits)

lemma read_text_returns [xt_returns]:
  "read_text w path h = (Inr y, h') \<longleftrightarrow> h' = h @ [ReadText path] \<and> wk_text w h' = Inr y"
  by (auto simp: read_text_def Let_def split: sum.splits)

lemma exists_at_returns [xt_returns]: "exists_at w p h = (Inr y, h') \<longleftrightarrow> y = wk_exists w h p \<and> h' = h"
  by (auto simp: exists_at_def)

lemma run_command_returns [xt_returns]:
  "run_command w prog args cwd h = (Inr y, h') \<longleftrightarrow>
     h' = h @ [RunProgram prog args cwd] \<and> (\<exists>shown. wk_status w h' = Inr (True, shown))"
  by (auto simp: run_command_def Let_def split: sum.splits run_error.splits)

lemma is_dir_at_returns [xt_returns]: "is_dir_at w p h = (Inr y, h') \<longleftrightarrow> y = wk_is_dir w h p \<and> h' = h"
  by (auto simp: is_dir_at_def)

section \<open>Which calls a sequence makes\<close>

text \<open>Whatever it returns, a sequence adds calls, and only such calls.\<close>

named_theorems xt_calls \<open>which calls a sequence makes\<close>

definition makes_only :: "(call \<Rightarrow> bool) \<Rightarrow> 'a xt \<Rightarrow> bool" where
  "makes_only P m \<longleftrightarrow> (\<forall>h. \<exists>cs. snd (m h) = h @ cs \<and> list_all P cs)"

lemma makes_onlyD: "makes_only P m \<Longrightarrow> m h = (r, h') \<Longrightarrow> \<exists>cs. h' = h @ cs \<and> list_all P cs"
  unfolding makes_only_def by (metis snd_conv)

lemma makes_only_weaken: "makes_only P m \<Longrightarrow> (\<And>c. P c \<Longrightarrow> Q c) \<Longrightarrow> makes_only Q m"
  unfolding makes_only_def by (metis list.pred_mono_strong)

lemma makes_only_bind [xt_calls]:
  assumes "makes_only P m" and "\<And>x. makes_only P (k x)"
  shows "makes_only P (xbind m k)"
  unfolding makes_only_def
proof
  fix h
  obtain r h1 where m: "m h = (r, h1)" by (cases "m h")
  then obtain cs where cs: "h1 = h @ cs" "list_all P cs" using makes_onlyD [OF assms(1)] by blast
  show "\<exists>cs. snd (xbind m k h) = h @ cs \<and> list_all P cs"
  proof (cases r)
    case (Inl e)
    then show ?thesis using m cs by (simp add: xbind_def)
  next
    case (Inr x)
    obtain ds where "snd (k x h1) = h1 @ ds" "list_all P ds" using assms(2) [of x] by (auto simp: makes_only_def)
    then show ?thesis using m cs Inr by (intro exI [of _ "cs @ ds"]) (simp add: xbind_def)
  qed
qed

lemma makes_only_basic [xt_calls]:
  "makes_only P (xreturn x)" "makes_only P (xfail e)" "makes_only P (xlift r)"
  "makes_only P (exists_at w p)" "makes_only P (is_dir_at w p)"
  by (simp_all add: makes_only_def xreturn_def xfail_def xlift_def exists_at_def is_dir_at_def)

lemma makes_only_seq [xt_calls]: "makes_only P m \<Longrightarrow> makes_only P k \<Longrightarrow> makes_only P (xseq m k)"
  by (simp add: xseq_def makes_only_bind)

lemma makes_only_one [xt_calls]:
  "P c \<Longrightarrow> makes_only P (file_call w c what)"
  "P (ReadText path) \<Longrightarrow> makes_only P (read_text w path)"
  "P (SleepMillis ms) \<Longrightarrow> makes_only P (nap ms)"
  "P (RunProgram prog args cwd) \<Longrightarrow> makes_only P (run_command w prog args cwd)"
  "P (CaptureOutput prog args) \<Longrightarrow> makes_only P (output_of w prog args what)"
  by (simp_all add: makes_only_def file_call_def read_text_def nap_def run_command_def output_of_def Let_def)

lemma makes_only_ignore [xt_calls]: "makes_only P m \<Longrightarrow> makes_only P (xignore m)"
  by (simp add: makes_only_def xignore_def)

lemma makes_only_catch [xt_calls]: "makes_only P m \<Longrightarrow> makes_only P (xcatch m)"
  by (simp add: makes_only_def xcatch_def)

lemma makes_only_if_ok [xt_calls]:
  assumes "makes_only P m" and "\<And>x. makes_only P (k x)"
  shows "makes_only P (xif_ok m k)"
proof -
  have "snd (xif_ok m k h) = snd (xbind m k h)" for h
    by (auto simp: xif_ok_def xbind_def split: prod.splits sum.splits)
  then show ?thesis using makes_only_bind [OF assms] by (simp add: makes_only_def)
qed

lemma makes_only_for [xt_calls]: "(\<And>x. x \<in> set xs \<Longrightarrow> makes_only P (f x)) \<Longrightarrow> makes_only P (xfor f xs)"
  by (induction xs) (simp_all add: xt_calls)

lemma makes_only_if [xt_calls]:
  "(b \<Longrightarrow> makes_only P m) \<Longrightarrow> (\<not> b \<Longrightarrow> makes_only P k) \<Longrightarrow> makes_only P (if b then m else k)"
  by simp

end
