(* ===== verification/XtaskSuites.thy ===== *)
theory XtaskSuites
  imports Xtask
begin

text \<open>
  What the boot tests look for in a log, and \<open>check\<close>, which compares the two: the suites and the
  watchdog cases of \<open>crates/xtask/src/main.rs\<close>.
\<close>

section \<open>The suites\<close>

definition EXPECTED :: "(string \<times> string) list" where
  "EXPECTED =
     [(''Run /init as init process'', ''the kernel reached oxinit''),
      (''oxinit-m1: banner on'', ''M1: units load and specifiers expand''),
      (''oxinit: reached target default'', ''M1: the graph resolved''),
      (''is ready'', ''M2: sd_notify readiness''),
      (''missed its watchdog deadline'', ''M2: the watchdog fires''),
      (''uid=65534(nobody)'', ''M3: privilege drop, with supplementary groups''),
      (''groups=900(oxinit)'', ''M3: setgroups, not just setgid''),
      (''forked and is ready'', ''M3: forking readiness from cgroup.populated''),
      (''limited: memory'', ''M3: memory.current and pids.current''),
      (''0::/init.scope'', ''M5: PID 1 parked before delegation''),
      (''did not stop in time; killing its cgroup'', ''M3: escalation to cgroup.kill''),
      (''listening for echo-socket on /run/echo.sock'', ''M4: sockets bind before anything starts''),
      (''LISTEN_PID='', ''M4: descriptor passing''),
      (''is mine, serving `echo-socket` on fd 3'', ''M4: LISTEN_FDNAMES''),
      (''got '' @ [dquote] @ ''echo: hello'' @ [dquote], ''M4: an activated service answered''),
      (''listening for knock-socket on /run/knock.sock'', ''M14: a datagram socket binds''),
      (''datagram on `knock-socket`, got '' @ [dquote] @ ''knock'' @ [dquote], ''M14: and a datagram activates the service, which reads what woke it''),
      (''oxinit: logs: shipper connected'', ''M7: oxlogd took the log socket''),
      (''chatty.log: seen-out'', ''M7: a service'' @ [squote] @ ''s stdout landed in its own file, timestamped''),
      (''chatty.log: seen-err'', ''M7: and its stderr, in the order it was written''),
      (''chatty.log: seen-last'', ''M7: including the last line before it exited''),
      (''oxinit: tick-timer will start stamp in 2s'', ''M8: a timer arms with on-boot''),
      (''oxinit: nightly will start stamp at '', ''M14: a calendar schedule arms at a wall-clock moment, not in a delay''),
      (''oxinit: tick-timer elapsed; starting stamp'', ''M8: and fires''),
      (''oxinit-m8: stamp fired'', ''M8: the service it named ran''),
      (''requires `broken`, which failed; not starting'', ''M11: a failed requirement fails the unit that needed it''),
      (''beta conflicts with alpha; stopping it'', ''M11: conflicts is enforced, and symmetric '' @ em_dash @ '' alpha never mentions beta''),
      (''oxinit: started beta'', ''M11: and the excluding unit came up''),
      (''oxinit: tick-timer will start stamp in 3s'', ''M8: and re-arms with interval, so it fires again''),
      (''flaky exited with status 1, restarting in 200ms (restart 1)'', ''M13: the restart policy fires, from the first failure''),
      (''restarting in 400ms (restart 2)'', ''M13: and the backoff doubles''),
      (''restarting in 800ms (restart 3)'', ''M13: and keeps doubling, which nothing had ever run''),
      (''signalled terminated abnormally, restarting in'', ''M13: on-abnormal sees a signal death as abnormal''),
      (''oxinit: started signalled as pid'', ''M13: and restarts for it''),
      (''hangs-back missed its watchdog deadline'', ''M13: a watchdog miss''),
      (''hangs-back stopped, restarting in'', ''M13: takes the restart policy, unlike a requested stop''),
      (''oxinit-m13: specifiers.service runs as nobody'', ''M13: %N and %u expand against a running machine''),
      (''reloaded'', ''M5: oxctl reload, which no boot had ever run''),
      (''oxinit: the user manager for nobody, units from'', ''M18: a user manager started, for the user it runs as''),
      (''oxinit-user: nobody is nobody'', ''M18: a user unit ran as the manager'' @ [squote] @ ''s user, and %u is that user''),
      (''oxinit: user-probe is ready'', ''M18: sd_notify reached the user manager'' @ [squote] @ ''s own socket''),
      (''oxinit: the user manager for nobody: everything stopped; exiting'', ''M18: a user manager stops its units and exits when asked to''),
      (''lingers stopped; not restarting, the machine is going down'', ''M16: a stop that completes mid-shutdown does not take the restart policy, which used to hang PID 1 until the whole-shutdown deadline''),
      (''oxinit: shutting down to power off'', ''M5: SIGTERM is handled''),
      (''oxinit: syncing'', ''M5: the machine flushes before going down''),
      (''oxinit: power off'', ''M5: reboot(2) with the right command'')]"

definition SEQUENCE :: "(string \<times> string \<times> string) list" where
  "SEQUENCE =
     [(''oxinit: slow did not start in time'', ''oxinit-m11: patient started'', ''M11: `after` waits for activation to finish, not just for a start to be issued''),
      (''oxinit: the user manager for nobody: everything stopped; exiting'', ''oxinit: syncing'', ''M18: the user manager is gone before the machine goes down'')]"

definition FORBIDDEN :: "string list" where
  "FORBIDDEN =
     [''panicked'',
      ''Kernel panic'',
      ''can'' @ [squote] @ ''t access tty'',
      ''chatty-out'']"

definition EXPECTED_DISTRO :: "(string \<times> string) list" where
  "EXPECTED_DISTRO =
     [(''oxinit-m10: alpine 3.22'', ''M10: the root filesystem is the distribution'' @ [squote] @ ''s, not xtask'' @ [squote] @ ''s''),
      (''ld-musl'', ''M10: a service was a dynamically linked binary and found its interpreter'')]"

definition EXPECTED_CONTAINER :: "(string \<times> string) list" where
  "EXPECTED_CONTAINER =
     [(''oxinit: pid 1 of a container'', ''M6: the runtime was detected''),
      (''oxinit-m1: banner on'', ''M6: the runtime'' @ [squote] @ ''s stdio was kept '' @ em_dash @ '' this log exists at all''),
      (''already mounted, left alone: /proc'', ''M6: the runtime'' @ [squote] @ ''s mounts are tolerated, not reported as failures''),
      (''oxinit: reached target default'', ''the graph resolved''),
      (''is ready'', ''sd_notify readiness''),
      (''uid=65534(nobody)'', ''the privilege drop''),
      (''got '' @ [dquote] @ ''echo: hello'' @ [dquote], ''socket activation''),
      (''oxinit: shutting down to power off'', ''M6: the runtime'' @ [squote] @ ''s stop signal is an ordered shutdown''),
      (''power off: exiting with status 0'', ''M6: exiting, rather than a reboot(2) that is not oxinit'' @ [squote] @ ''s to do''),
      (''oxinit: logs: shipper connected'', ''M7: oxlogd took the log socket'')]"

definition EXPECTED_PRIVILEGED :: "(string \<times> string) list" where
  "EXPECTED_PRIVILEGED =
     [(''oxinit: pid 1 is in'', ''M5: init.scope, in a container'' @ [squote] @ ''s own cgroup namespace''),
      (''limited: memory'', ''M3: the [resources] limits landed'')]"

definition FORBIDDEN_CONTAINER :: "string list" where
  "FORBIDDEN_CONTAINER =
     [''panicked'']"

section \<open>The watchdog cases\<close>

datatype watchdog_outcome = StaysUpAfter string nat | Resets

record watchdog_case =
  wc_name :: string
  wc_config :: string
  wc_cmdline :: string
  wc_confirm :: string
  wc_end :: "string \<times> nat"
  wc_expected :: "(string \<times> string) list"
  wc_forbidden :: "string list"
  wc_outcome :: watchdog_outcome

definition FED_CASE :: watchdog_case where
  "FED_CASE =
     \<lparr>wc_name = ''fed'', wc_config = ''timeout-sec = '' @ [dquote] @ ''4s'' @ [dquote] @ [newline] @ ''boot-unit = '' @ [dquote] @ ''confirm'' @ [dquote] @ [newline] @ ''boot-sec = '' @ [dquote] @ ''1min'' @ [dquote] @ [newline],
      wc_cmdline = '''', wc_confirm = ''/bin/true'', wc_end = (''USR1'', 14),
      wc_expected =
       [(''oxinit: watchdog: /dev/watchdog0, 4 s timeout; the boot has 60 s to reach confirm'', ''the configuration was read from /etc''),
        (''looking again as it may yet appear'', ''a device whose driver is a module is waited for, not given up on''),
        (''oxinit: watchdog: feeding /dev/watchdog0, 4 s timeout'', ''the device opened once its driver loaded, with the timeout asked for''),
        (''oxinit: watchdog: the boot is confirmed'', ''a oneshot that ran to a clean exit confirms the boot''),
        (''oxinit: watchdog: stopped'', ''a halt disarms the watchdog with the magic close''),
        (''oxinit: halt'', ''the halt itself, after fourteen fed seconds'')],
      wc_forbidden = [''did not reach'', ''panicked'', ''Kernel panic''],
      wc_outcome = StaysUpAfter (''oxinit: halt'') 12\<rparr>"

definition OVERDUE_CASE :: watchdog_case where
  "OVERDUE_CASE =
     \<lparr>wc_name = ''overdue'', wc_config = ''timeout-sec = '' @ [dquote] @ ''4s'' @ [dquote] @ [newline] @ ''boot-unit = '' @ [dquote] @ ''confirm'' @ [dquote] @ [newline] @ ''boot-sec = '' @ [dquote] @ ''5min'' @ [dquote] @ [newline],
      wc_cmdline = ''oxinit.watchdog.boot-sec=8s'', wc_confirm = ''/bin/false'', wc_end = (''TERM'', 60),
      wc_expected =
       [(''the boot has 8 s to reach confirm'', ''the kernel command line overrode the file'' @ [squote] @ ''s boot-sec''),
        (''oxinit: watchdog: feeding /dev/watchdog0, 4 s timeout'', ''the device was fed while the deadline ran''),
        (''oxinit: watchdog: the boot did not reach confirm within 8 s'', ''a boot unit that failed never confirms the boot'')],
      wc_forbidden = [''the boot is confirmed'', ''oxinit: syncing'', ''oxinit: power off'', ''panicked'', ''Kernel panic''],
      wc_outcome = Resets\<rparr>"

definition WATCHDOG_CASES :: "watchdog_case list" where
  "WATCHDOG_CASES = [FED_CASE, OVERDUE_CASE]"

section \<open>Checking a log\<close>

definition check_expected :: "string \<Rightarrow> (string \<times> string) list \<Rightarrow> string list \<Rightarrow> string list" where
  "check_expected text expected failures = fold (\<lambda>(needle, proves) fs.
     if has_text text needle then fs
     else fs @ [''missing `'' @ needle @ ''` '' @ em_dash @ '' '' @ proves]) expected failures"

definition check_forbidden :: "string \<Rightarrow> string list \<Rightarrow> string list \<Rightarrow> string list" where
  "check_forbidden text forbidden failures = fold (\<lambda>needle fs.
     if has_text text needle then fs @ [''log contains `'' @ needle @ ''`''] else fs) forbidden failures"

definition check_sequence :: "string \<Rightarrow> (string \<times> string \<times> string) list \<Rightarrow> string list \<Rightarrow> string list" where
  "check_sequence text sequence failures = fold (\<lambda>(first, second, proves) fs.
     (case (find_text first text, find_text second text) of
        (Some a, Some b) \<Rightarrow>
          if a < b then fs
          else fs @ [''`'' @ second @ ''` came before `'' @ first @ ''` '' @ em_dash @ '' '' @ proves]
      | _ \<Rightarrow> fs @ [''`'' @ first @ ''` and `'' @ second @ ''` are not both present '' @ em_dash @ '' '' @ proves]))
     sequence failures"

definition failed_checks :: "string list \<Rightarrow> string \<Rightarrow> string" where
  "failed_checks failures what =
     show_nat (length failures) @ '' '' @ what @ '' failed:'' @ [newline] @ ''  '' @
     join_with ([newline] @ ''  '') failures"

definition check_log ::
    "string \<Rightarrow> (string \<times> string) list \<Rightarrow> string list \<Rightarrow> (string \<times> string \<times> string) list \<Rightarrow> string list \<Rightarrow> string + unit" where
  "check_log text expected forbidden sequence failures =
     (let fs = check_sequence text sequence (check_forbidden text forbidden (check_expected text expected failures)) in
      if fs = [] then Inr () else Inl (failed_checks fs ''check(s)''))"

section \<open>Searching\<close>

lemma find_text_Some:
  "find_text needle s = Some i \<longleftrightarrow>
     (\<exists>rest. drop i s = needle @ rest) \<and> i \<le> length s \<and> (\<forall>j < i. \<nexists>rest. drop j s = needle @ rest)"
proof (induction s arbitrary: i)
  case Nil
  then show ?case by auto
next
  case (Cons c s)
  show ?case
  proof (cases "strip_prefix needle (c # s)")
    case (Some rest)
    then have here: "c # s = needle @ rest" by (simp add: strip_prefix_Some)
    show ?thesis
    proof
      assume "find_text needle (c # s) = Some i"
      then have "i = 0" using Some by simp
      then show "(\<exists>rest. drop i (c # s) = needle @ rest) \<and> i \<le> length (c # s)
        \<and> (\<forall>j < i. \<nexists>rest. drop j (c # s) = needle @ rest)" using here by auto
    next
      assume "(\<exists>rest. drop i (c # s) = needle @ rest) \<and> i \<le> length (c # s)
        \<and> (\<forall>j < i. \<nexists>rest. drop j (c # s) = needle @ rest)"
      then have "i = 0" using here by (metis drop0 gr_zeroI)
      then show "find_text needle (c # s) = Some i" using Some by simp
    qed
  next
    case None
    then have here: "c # s \<noteq> needle @ rest" for rest using strip_prefix_Some [of needle "c # s" rest] by simp
    have "find_text needle (c # s) = map_option Suc (find_text needle s)" using None by simp
    then show ?thesis
      using Cons.IH here by (cases i) (auto simp: less_Suc_eq_0_disj)
  qed
qed

lemma find_text_None: "find_text needle s = None \<longleftrightarrow> (\<nexists>a b. s = a @ needle @ b)"
proof (induction s)
  case (Cons c s)
  have iff: "(\<exists>a b. c # s = a @ needle @ b) \<longleftrightarrow> (\<exists>b. c # s = needle @ b) \<or> (\<exists>a b. s = a @ needle @ b)"
  proof
    assume "\<exists>a b. c # s = a @ needle @ b"
    then obtain a b where "c # s = a @ needle @ b" by blast
    then show "(\<exists>b. c # s = needle @ b) \<or> (\<exists>a b. s = a @ needle @ b)" by (cases a) auto
  next
    assume "(\<exists>b. c # s = needle @ b) \<or> (\<exists>a b. s = a @ needle @ b)"
    then show "\<exists>a b. c # s = a @ needle @ b" by (metis append.left_neutral append_Cons)
  qed
  show ?case
  proof (cases "strip_prefix needle (c # s)")
    case None
    then have "\<nexists>b. c # s = needle @ b" using strip_prefix_Some [of needle "c # s"] by simp
    then show ?thesis using Cons.IH None iff by simp
  next
    case (Some b)
    then have "\<exists>b. c # s = needle @ b" using strip_prefix_Some [of needle "c # s" b] by blast
    then show ?thesis using Some iff by simp
  qed
qed auto

lemma has_text_iff: "has_text s needle \<longleftrightarrow> (\<exists>a b. s = a @ needle @ b)"
  by (simp add: has_text_def find_text_None)

section \<open>When a check passes\<close>

lemma check_fold_Nil:
  assumes "\<And>x fs. x \<in> set xs \<Longrightarrow> f x fs = [] \<longleftrightarrow> fs = [] \<and> P x"
  shows "fold f xs fs = [] \<longleftrightarrow> fs = [] \<and> (\<forall>x \<in> set xs. P x)"
  using assms by (induction xs arbitrary: fs) auto

lemma check_expected_Nil:
  "check_expected text expected fs = [] \<longleftrightarrow> fs = [] \<and> (\<forall>(needle, proves) \<in> set expected. has_text text needle)"
  unfolding check_expected_def by (rule check_fold_Nil) (auto split: if_splits)

lemma check_forbidden_Nil:
  "check_forbidden text forbidden fs = [] \<longleftrightarrow> fs = [] \<and> (\<forall>needle \<in> set forbidden. \<not> has_text text needle)"
  unfolding check_forbidden_def by (rule check_fold_Nil) (auto split: if_splits)

definition comes_before :: "string \<Rightarrow> string \<Rightarrow> string \<Rightarrow> bool" where
  "comes_before text first second \<longleftrightarrow> (\<exists>a b. find_text first text = Some a \<and> find_text second text = Some b \<and> a < b)"

lemma check_sequence_Nil:
  "check_sequence text sequence fs = [] \<longleftrightarrow>
     fs = [] \<and> (\<forall>(first, second, proves) \<in> set sequence. comes_before text first second)"
  unfolding check_sequence_def
  by (rule check_fold_Nil) (auto simp: comes_before_def split: option.splits if_splits)

lemma check_log_passes:
  "check_log text expected forbidden sequence failures = Inr () \<longleftrightarrow>
     failures = [] \<and> (\<forall>(needle, proves) \<in> set expected. has_text text needle)
     \<and> (\<forall>needle \<in> set forbidden. \<not> has_text text needle)
     \<and> (\<forall>(first, second, proves) \<in> set sequence. comes_before text first second)"
  by (auto simp: check_log_def Let_def check_sequence_Nil check_forbidden_Nil check_expected_Nil)

lemma check_log_suite:
  "check_log text (expected @ extra) forbidden sequence failures = Inr () \<longleftrightarrow>
     check_log text expected forbidden sequence failures = Inr () \<and> (\<forall>(needle, proves) \<in> set extra. has_text text needle)"
  by (auto simp: check_log_passes)

text \<open>The suite has grown past the number its comments give.\<close>

lemma expected_count: "length EXPECTED = 46"
  by (simp add: EXPECTED_def)

end
