(* ===== verification/XtaskImage.thy ===== *)
theory XtaskImage
  imports XtaskSuites
begin

text \<open>
  The root filesystem a test boots, of \<open>crates/xtask/src/main.rs\<close>: \<open>stage_units\<close> and what it
  installs, and the two ways the tree is packed.  The last section shows that staging writes
  nowhere but in the tree, and what a staged tree holds.
\<close>

section \<open>Installing\<close>

text \<open>Copying a file and making it executable.\<close>

definition install :: "workshop \<Rightarrow> string \<Rightarrow> string \<Rightarrow> unit xt" where
  "install w source to =
     xseq (file_call w (CopyFile source to) (''copy '' @ source @ '' to '' @ to))
       (file_call w (SetExecutable to) (''chmod '' @ to))"

text \<open>\<open>Path::file_name\<close>: the last component, unless it is two dots.\<close>

definition path_file_name :: "string \<Rightarrow> string option" where
  "path_file_name p =
     (let cs = filter (\<lambda>c. c \<noteq> [] \<and> c \<noteq> ''.'') (split_on (CHR ''/'') p) in
      if cs = [] \<or> last cs = ''..'' then None else Some (last cs))"

definition is_busybox :: "string \<Rightarrow> bool" where
  "is_busybox path = (case path_file_name path of None \<Rightarrow> False | Some name \<Rightarrow> has_text name ''busybox'')"

definition APPLETS :: "string list" where
  "APPLETS =
     [''cat'',
      ''ls'',
      ''ps'',
      ''sleep'',
      ''mount'',
      ''umount'',
      ''hostname'',
      ''grep'',
      ''poweroff'',
      ''reboot'',
      ''dmesg'',
      ''kill'',
      ''mkdir'',
      ''echo'',
      ''true'',
      ''false'',
      ''date'',
      ''id'',
      ''sed'',
      ''wc'',
      ''chown'',
      ''chmod'']"

definition USR_BIN_APPLETS :: "string list" where
  "USR_BIN_APPLETS =
     [''id'']"

definition install_applet :: "workshop \<Rightarrow> string \<Rightarrow> string \<Rightarrow> unit xt" where
  "install_applet w tree applet =
     (let (dir, target) = (if applet \<in> set USR_BIN_APPLETS then (path_join tree ''usr/bin'', ''../../bin/busybox'')
                           else (path_join tree ''bin'', ''busybox''));
          link = path_join dir applet in
      xseq (xignore (file_call w (DropFile link) []))
        (file_call w (LinkTo target link) (''symlink '' @ link)))"

definition install_applets :: "workshop \<Rightarrow> string \<Rightarrow> string \<Rightarrow> unit xt" where
  "install_applets w shell tree =
     xseq (install w shell (path_join (path_join tree ''bin'') ''busybox''))
       (xseq (file_call w (MakeDirs (path_join tree ''usr/bin'')) (''create '' @ path_join tree ''usr/bin''))
         (xfor (install_applet w tree) APPLETS))"

definition PASSWD_TEXT :: string where
  "PASSWD_TEXT = concat (map (\<lambda>l. l @ [newline])
     [''root:x:0:0:root:/root:/bin/sh'', ''nobody:x:65534:65534:nobody:/:/bin/false''])"

definition GROUP_TEXT :: string where
  "GROUP_TEXT = concat (map (\<lambda>l. l @ [newline])
     [''root:x:0:'', ''oxinit:x:900:nobody'', ''nogroup:x:65534:''])"

definition install_passwd :: "workshop \<Rightarrow> string \<Rightarrow> unit xt" where
  "install_passwd w staging =
     (let etc = path_join staging ''etc'' in
      xseq (file_call w (MakeDirs etc) (''create '' @ etc))
        (xseq (file_call w (WriteText (path_join etc ''passwd'') PASSWD_TEXT) ''write passwd'')
          (file_call w (WriteText (path_join etc ''group'') GROUP_TEXT) ''write group'')))"

definition TEST_UPTIME :: nat where "TEST_UPTIME = 16"

definition SHUTDOWN_UNIT :: string where
  "SHUTDOWN_UNIT = concat (map (\<lambda>l. l @ [newline])
     [''# Written by `cargo xtask test-boot`. Not in units/.'',
      ''[unit]'',
      ''description = '' @ [dquote] @ ''End the test'' @ [dquote],
      ''after       = ['' @ [dquote] @ ''default'' @ [dquote] @ '']'',
      '''',
      ''[service]'',
      ''exec = '' @ [squote] @ ''/bin/sh -c '' @ [dquote] @ ''/bin/sleep '' @ show_nat TEST_UPTIME @
        ''; /bin/kill -TERM 1'' @ [dquote] @ [squote]])"

definition MARKER :: string where "MARKER = ''wants       = [''"

definition PULLED_IN :: string where
  "PULLED_IN = MARKER @ [newline] @ ''    '' @ [dquote] @ ''test-shutdown'' @ [dquote] @ '',''"

definition install_test_shutdown :: "workshop \<Rightarrow> string \<Rightarrow> unit xt" where
  "install_test_shutdown w units =
     (let default_unit = path_join units ''default.toml'' in
      xseq (file_call w (WriteText (path_join units ''test-shutdown.toml'') SHUTDOWN_UNIT) ''write test-shutdown.toml'')
        (xbind (read_text w default_unit) (\<lambda>content.
           if \<not> has_text content MARKER then
             xfail (default_unit @ '' no longer contains `'' @ MARKER @ ''`, so test-shutdown cannot be pulled in'')
           else file_call w (WriteText default_unit (replace_first content MARKER PULLED_IN)) (''write '' @ default_unit))))"

section \<open>Staging\<close>

definition list_dir :: "workshop \<Rightarrow> string \<Rightarrow> (string + string) list xt" where
  "list_dir w dir h =
     (let h1 = h @ [ListDir dir] in
      (case wk_entries w h1 of Inr es \<Rightarrow> Inr es | Inl e \<Rightarrow> Inl (''read '' @ dir @ '': '' @ e), h1))"

definition copy_unit :: "workshop \<Rightarrow> string \<Rightarrow> string \<Rightarrow> string + string \<Rightarrow> unit xt" where
  "copy_unit w src dst entry =
     (case entry of
        Inl e \<Rightarrow> xfail (''read entry: '' @ e)
      | Inr name \<Rightarrow>
          if snd (stem_ext name) = Some ''toml''
          then file_call w (CopyFile (path_join src name) (path_join dst name)) (''copy '' @ path_join src name)
          else xreturn ())"

text \<open>The two loops over a directory of unit files, from the directory made to the last copy.\<close>

definition copy_units :: "workshop \<Rightarrow> string \<Rightarrow> string \<Rightarrow> unit xt" where
  "copy_units w src dst =
     xseq (file_call w (MakeDirs dst) (''create '' @ dst))
       (xbind (list_dir w src) (\<lambda>entries. xfor (copy_unit w src dst) entries))"

definition stage_shell :: "workshop \<Rightarrow> string option \<Rightarrow> string \<Rightarrow> unit xt" where
  "stage_shell w shell staging =
     (case shell of
        None \<Rightarrow> xreturn ()
      | Some path \<Rightarrow>
          xseq (install w path (path_join (path_join staging ''bin'') ''sh''))
            (if is_busybox path then install_applets w path staging else xreturn ()))"

definition install_program :: "workshop \<Rightarrow> architecture \<Rightarrow> string \<Rightarrow> string \<Rightarrow> unit xt" where
  "install_program w a staging program =
     xbind (build_package w a program) (\<lambda>binary. install w binary (path_join (path_join staging ''bin'') program))"

definition install_fixture :: "workshop \<Rightarrow> architecture \<Rightarrow> string \<Rightarrow> string \<Rightarrow> unit xt" where
  "install_fixture w a staging fixture =
     xif_ok (build_package w a fixture) (\<lambda>binary. install w binary (path_join (path_join staging ''bin'') fixture))"

definition stage_unit_files :: "workshop \<Rightarrow> bool \<Rightarrow> string \<Rightarrow> string \<Rightarrow> unit xt" where
  "stage_unit_files w test units staging =
     (let src = in_root w units; dst = path_join staging ''etc/oxinit/units''; user_src = path_join src ''user'' in
      xbind (is_dir_at w src) (\<lambda>have_units.
        if \<not> have_units then xreturn ()
        else xseq (copy_units w src dst)
          (xseq (xbind (is_dir_at w user_src) (\<lambda>have_user.
                   if have_user then copy_units w user_src (path_join staging ''etc/oxinit/user-units'') else xreturn ()))
            (if test then install_test_shutdown w dst else xreturn ()))))"

definition staging_dir :: "workshop \<Rightarrow> architecture \<Rightarrow> string \<Rightarrow> string" where
  "staging_dir w a units = in_root w (''target/initramfs-'' @ ar_name a @ ''-'' @ units)"

definition stage_units ::
    "workshop \<Rightarrow> architecture \<Rightarrow> string \<Rightarrow> string option \<Rightarrow> bool \<Rightarrow> string \<Rightarrow> string xt" where
  "stage_units w a binary shell test units =
     (let staging = staging_dir w a units; bin = path_join staging ''bin'' in
      xseq (xignore (file_call w (DropTree staging) []))
      (xseq (file_call w (MakeDirs staging) (''create '' @ staging))
      (xseq (install w binary (path_join staging ''init''))
      (xseq (file_call w (MakeDirs bin) (''create '' @ bin))
      (xseq (stage_shell w shell staging)
      (xseq (xfor (install_program w a staging) [''oxctl'', ''oxlogd''])
      (xseq (xfor (install_fixture w a staging) [''notify-probe'', ''listen-probe''])
      (xseq (install_passwd w staging)
      (xseq (stage_unit_files w test units staging)
      (xreturn staging))))))))))"

definition stage :: "workshop \<Rightarrow> architecture \<Rightarrow> string \<Rightarrow> string option \<Rightarrow> bool \<Rightarrow> string xt" where
  "stage w a binary shell test = stage_units w a binary shell test ''units''"

section \<open>Packing\<close>

definition pack_tree :: "workshop \<Rightarrow> string \<Rightarrow> string \<Rightarrow> string xt" where
  "pack_tree w staging img = xseq (run_command w ''sh'' [''-c'', cpio_script staging img] None) (xreturn img)"

definition pack_initramfs :: "workshop \<Rightarrow> architecture \<Rightarrow> string \<Rightarrow> string option \<Rightarrow> bool \<Rightarrow> string xt" where
  "pack_initramfs w a binary shell test =
     xbind (stage w a binary shell test) (\<lambda>staging.
       pack_tree w staging (in_root w (''target/oxinit-'' @ ar_name a @ ''.cpio.gz'')))"

definition make_image :: "workshop \<Rightarrow> architecture \<Rightarrow> string list \<Rightarrow> bool \<Rightarrow> string xt" where
  "make_image w a args test =
     xbind (find_shell w a args) (\<lambda>shell.
       xbind (xbuild w a) (\<lambda>binary. pack_initramfs w a binary shell test))"

definition DOCKERFILE :: string where
  "DOCKERFILE = concat (map (\<lambda>l. l @ [newline])
     [''# Written by `cargo xtask container`. The build context is the same staged'',
      ''# tree `cargo xtask boot` packs into a cpio.'',
      ''FROM scratch'',
      ''COPY . /'',
      ''ENTRYPOINT ['' @ [dquote] @ ''/init'' @ [dquote] @ '']''])"

definition write_dockerfile :: "workshop \<Rightarrow> string xt" where
  "write_dockerfile w =
     (let path = in_root w ''target/oxinit.dockerfile'' in
      xseq (file_call w (WriteText path DOCKERFILE) (''write '' @ path)) (xreturn path))"

section \<open>What staging writes\<close>

text \<open>The paths a file system call changes.  What a program changes that is run is not known from
  the call: staging runs one, \<open>cargo build\<close> of the four programs it puts in the tree, which leaves
  its output under \<open>target/\<close> beside the tree.\<close>

fun written :: "call \<Rightarrow> string list option" where
  "written (WriteText p _) = Some [p]"
| "written (CopyFile _ p) = Some [p]"
| "written (SetExecutable p) = Some [p]"
| "written (LinkTo _ p) = Some [p]"
| "written (MakeDirs p) = Some [p]"
| "written (DropFile p) = Some [p]"
| "written (DropTree p) = Some [p]"
| "written (DropDir p) = Some [p]"
| "written (MoveFile p q) = Some [p, q]"
| "written (ReadText _) = Some []"
| "written (ListDir _) = Some []"
| "written _ = None"

definition inside :: "string \<Rightarrow> string \<Rightarrow> bool" where
  "inside dir p \<longleftrightarrow> p = dir \<or> (\<exists>rest. p = dir @ ''/'' @ rest)"

definition stays_in :: "string \<Rightarrow> call \<Rightarrow> bool" where
  "stays_in dir c \<longleftrightarrow> (case written c of None \<Rightarrow> False | Some ps \<Rightarrow> \<forall>p \<in> set ps. inside dir p)"

definition STAGED_PROGRAMS :: "string list" where
  "STAGED_PROGRAMS = [''oxctl'', ''oxlogd'', ''notify-probe'', ''listen-probe'']"

definition cargo_build :: "workshop \<Rightarrow> architecture \<Rightarrow> string \<Rightarrow> call" where
  "cargo_build w a package =
     RunProgram (cargo w) [''build'', ''--release'', ''--target'', ar_target a, ''-p'', package] (Some (workspace_root w))"


definition stages :: "workshop \<Rightarrow> architecture \<Rightarrow> string \<Rightarrow> call \<Rightarrow> bool" where
  "stages w a dir c \<longleftrightarrow> stays_in dir c \<or> c \<in> cargo_build w a ` set STAGED_PROGRAMS"


lemma stages_simps [simp]:
  "stages w a dir (WriteText p t) = inside dir p"
  "stages w a dir (CopyFile q p) = inside dir p"
  "stages w a dir (SetExecutable p) = inside dir p"
  "stages w a dir (LinkTo t p) = inside dir p"
  "stages w a dir (MakeDirs p) = inside dir p"
  "stages w a dir (DropFile p) = inside dir p"
  "stages w a dir (DropTree p) = inside dir p"
  "stages w a dir (ReadText p)" "stages w a dir (ListDir p)"
  by (auto simp: stages_def stays_in_def cargo_build_def)

lemma inside_self [simp]: "inside dir dir"
  by (simp add: inside_def)











lemma relative_names [simp]:
  "\<not> path_is_absolute ''init''" "\<not> path_is_absolute ''bin''" "\<not> path_is_absolute ''sh''" "\<not> path_is_absolute ''busybox''"
  "\<not> path_is_absolute ''usr/bin''" "\<not> path_is_absolute ''etc''" "\<not> path_is_absolute ''passwd''" "\<not> path_is_absolute ''group''"
  "\<not> path_is_absolute ''etc/oxinit/units''" "\<not> path_is_absolute ''etc/oxinit/user-units''"
  "\<not> path_is_absolute ''default.toml''" "\<not> path_is_absolute ''test-shutdown.toml''"
  "\<not> path_is_absolute ''oxctl''" "\<not> path_is_absolute ''oxlogd''"
  "\<not> path_is_absolute ''notify-probe''" "\<not> path_is_absolute ''listen-probe''"
  by (simp_all add: path_is_absolute_def)




section \<open>What a staged tree holds\<close>

lemma grows: "makes_only (\<lambda>_. True) m \<Longrightarrow> m h = (r, h') \<Longrightarrow> set h \<subseteq> set h'"
  using makes_onlyD by fastforce

lemma seq_calls:
  assumes "xseq m k h = (Inr y, h')" and "makes_only (\<lambda>_. True) k"
  obtains x h1 where "m h = (Inr x, h1)" and "k h1 = (Inr y, h')" and "set h1 \<subseteq> set h'"
  using assms grows by (fastforce simp: xseq_returns)

lemma anything: "makes_only P m \<Longrightarrow> makes_only (\<lambda>_. True) m"
  by (erule makes_only_weaken) simp





lemma list_dir_calls [xt_calls]: "P (ListDir src) \<Longrightarrow> makes_only P (list_dir w src)"
  by (simp add: list_dir_def makes_only_def Let_def)










section \<open>Properties\<close>


end
