(* ===== verification/XtaskRuns.thy ===== *)
theory XtaskRuns
  imports XtaskImage
begin

text \<open>
  Commands of \<open>crates/xtask/src/main.rs\<close> that boot or fetch: booting under QEMU, the boot tests,
  the watchdog cases, and fetching what a boot needs.
\<close>

section \<open>Waiting\<close>

text \<open>\<open>try_wait\<close>: whether the child has exited.\<close>

definition poll_child :: "workshop \<Rightarrow> bool xt" where
  "poll_child w h = (let h1 = h @ [PollChild] in (wk_poll w h1, h1))"

definition put_down :: "unit xt" where
  "put_down h = (Inr (), h @ [KillChild, ReapChild])"

fun wait_polls :: "workshop \<Rightarrow> nat \<Rightarrow> bool xt" where
  "wait_polls w 0 = xseq put_down (xreturn False)"
| "wait_polls w (Suc n) =
     xbind (xcatch (poll_child w)) (\<lambda>r. case r of
        Inr True \<Rightarrow> xreturn True
      | Inr False \<Rightarrow> xseq (nap 100) (wait_polls w n)
      | Inl e \<Rightarrow> xfail (''wait for qemu: '' @ e))"

definition wait_for :: "workshop \<Rightarrow> nat \<Rightarrow> bool xt" where
  "wait_for w seconds = wait_polls w (seconds * 10)"

definition spawn_child :: "workshop \<Rightarrow> string \<Rightarrow> string list \<Rightarrow> (run_error \<Rightarrow> string) \<Rightarrow> unit xt" where
  "spawn_child w prog args message h =
     (let h1 = h @ [SpawnChild prog args] in
      (case wk_spawn w h1 of None \<Rightarrow> Inr () | Some e \<Rightarrow> Inl (message e), h1))"

text \<open>Where the source does not single a missing program out, its error is printed like any other.\<close>

definition spawn_words :: "string \<Rightarrow> run_error \<Rightarrow> string" where
  "spawn_words prog e =
     (case e of NoProgram \<Rightarrow> prog @ '' not found; is it installed?'' | RunError m \<Rightarrow> ''run '' @ prog @ '': '' @ m)"

definition NOT_FOUND_TEXT :: string where "NOT_FOUND_TEXT = ''No such file or directory (os error 2)''"

definition plain_spawn_words :: "string \<Rightarrow> run_error \<Rightarrow> string" where
  "plain_spawn_words prog e =
     ''run '' @ prog @ '': '' @ (case e of NoProgram \<Rightarrow> NOT_FOUND_TEXT | RunError m \<Rightarrow> m)"

definition clean_failures :: "architecture \<Rightarrow> bool \<Rightarrow> string list" where
  "clean_failures a clean =
     (if clean then []
      else [''qemu had to be killed after '' @ show_nat (ar_timeout a) @ ''s: the machine never powered off''])"

section \<open>Booting\<close>

definition qemu_args :: "architecture \<Rightarrow> string \<Rightarrow> string \<Rightarrow> string list \<Rightarrow> string \<Rightarrow> string \<Rightarrow> string list" where
  "qemu_args a kern img devices log cmdline =
     ar_machine a @ [''-kernel'', kern, ''-initrd'', img] @ devices
     @ [''-display'', ''none'', ''-serial'', ''file:'' @ log, ''-append'', cmdline, ''-m'', ''512'']"

definition boot_command :: "workshop \<Rightarrow> string list \<Rightarrow> unit xt" where
  "boot_command w args =
     xbind (xlift (find_arch w args)) (\<lambda>a.
     xbind (find_kernel w a args) (\<lambda>kernel.
     xbind (make_image w a args False) (\<lambda>img.
       run_command w (ar_qemu a)
         (ar_machine a @ [''-kernel'', kernel, ''-initrd'', img, ''-nographic'', ''-m'', ''512'', ''-append'',
            ''console='' @ ar_console a]) None)))"

definition test_boot :: "workshop \<Rightarrow> architecture \<Rightarrow> string list \<Rightarrow> unit xt" where
  "test_boot w a args =
     xbind (find_kernel w a args) (\<lambda>kernel.
     xbind (make_image w a args True) (\<lambda>img.
       let log = in_root w (''target/test-boot-'' @ ar_name a @ ''.log'') in
       xseq (xignore (file_call w (DropFile log) []))
       (xseq (spawn_child w (ar_qemu a)
                (qemu_args a kernel img [] log (''console='' @ ar_console a @ '' --version -V''))
                (spawn_words (ar_qemu a)))
       (xbind (wait_for w (ar_timeout a)) (\<lambda>clean.
        xbind (read_text w log) (\<lambda>content.
          xlift (check_log content EXPECTED FORBIDDEN SEQUENCE (clean_failures a clean))))))))"

fun refuse_one_arch_flags :: "string list \<Rightarrow> string list \<Rightarrow> string + unit" where
  "refuse_one_arch_flags args [] = Inr ()"
| "refuse_one_arch_flags args (name # names) =
     (case flag args name of
        Inl e \<Rightarrow> Inl e
      | Inr (Some _) \<Rightarrow> Inl (name @ '' names one architecture'' @ [squote] @ ''s file; with `--arch all` use '' @
          ''$OXINIT_KERNEL_<ARCH> and $OXINIT_SHELL_<ARCH>, or the defaults under target/'')
      | Inr None \<Rightarrow> refuse_one_arch_flags args names)"

text \<open>What each of a list of trials reports, under its name.\<close>

fun collect_failures :: "('a \<Rightarrow> string) \<Rightarrow> ('a \<Rightarrow> unit xt) \<Rightarrow> 'a list \<Rightarrow> string list xt" where
  "collect_failures name f [] = xreturn []"
| "collect_failures name f (x # xs) =
     xbind (xcatch (f x)) (\<lambda>r.
     xbind (collect_failures name f xs) (\<lambda>rest.
       xreturn ((case r of Inl e \<Rightarrow> [name x @ '': '' @ e] | Inr _ \<Rightarrow> []) @ rest)))"

definition none_failed :: "string list \<Rightarrow> unit xt" where
  "none_failed failures = (if failures = [] then xreturn () else xfail (join_with [newline] failures))"

definition test_boot_all :: "workshop \<Rightarrow> string list \<Rightarrow> unit xt" where
  "test_boot_all w args =
     xbind (xlift (flag args ''--arch'')) (\<lambda>given.
       if given \<noteq> Some ''all'' then xbind (xlift (find_arch w args)) (\<lambda>a. test_boot w a args)
       else xseq (xlift (refuse_one_arch_flags args [''--kernel'', ''--shell'']))
         (xbind (collect_failures ar_name (\<lambda>a. test_boot w a args) ARCHES) none_failed))"

section \<open>Fetching\<close>

definition ALPINE :: string where "ALPINE = ''v3.22''"
definition MIRROR :: string where "MIRROR = ''https://dl-cdn.alpinelinux.org/alpine''"
definition PACKAGE_PREFIX :: string where "PACKAGE_PREFIX = ''busybox-static-''"

definition download :: "workshop \<Rightarrow> string \<Rightarrow> string \<Rightarrow> unit xt" where
  "download w url to = run_command w ''curl'' [''-sfL'', ''-o'', to, url] None"

text \<open>The first match of the prefix that an \<open>.apk\<close> follows, up to the end of the first such.\<close>

fun find_package :: "string \<Rightarrow> string option" where
  "find_package [] = None"
| "find_package (c # s) =
     (case strip_prefix PACKAGE_PREFIX (c # s) of
        None \<Rightarrow> find_package s
      | Some _ \<Rightarrow>
          (case find_text ''.apk'' (c # s) of
             Some end \<Rightarrow> Some (take (end + 4) (c # s))
           | None \<Rightarrow> find_package s))"

definition fetch_kernel :: "workshop \<Rightarrow> architecture \<Rightarrow> unit xt" where
  "fetch_kernel w a =
     (let kernel = path_join (in_root w ''target'') (''vmlinuz-'' @ ar_name a) in
      xbind (exists_at w kernel) (\<lambda>here.
        if here then xreturn ()
        else download w (MIRROR @ ''/'' @ ALPINE @ ''/releases/'' @ ar_name a @ ''/netboot/vmlinuz-lts'') kernel))"

definition fetch_shell :: "workshop \<Rightarrow> architecture \<Rightarrow> unit xt" where
  "fetch_shell w a =
     (let target = in_root w ''target''; shell = path_join target (''busybox-'' @ ar_name a);
          index = MIRROR @ ''/'' @ ALPINE @ ''/main/'' @ ar_name a @ ''/''; apk = path_join target ''busybox-static.apk'' in
      xbind (exists_at w shell) (\<lambda>here.
        if here then xreturn ()
        else
          xbind (capture w ''curl'' [''-sfL'', index]) (\<lambda>listing. case find_package listing of
             None \<Rightarrow> xfail (''no busybox-static package listed at '' @ index)
           | Some package \<Rightarrow>
               xseq (download w (index @ package) apk)
               (xseq (run_command w ''tar'' [''xzf'', apk, ''bin/busybox.static''] (Some target))
               (xseq (file_call w (MoveFile (path_join target ''bin/busybox.static'') shell) ''move busybox.static'')
               (xseq (xignore (file_call w (DropDir (path_join target ''bin'')) []))
               (xseq (xignore (file_call w (DropFile apk) []))
                 (file_call w (SetExecutable shell) (''chmod '' @ shell)))))))))"

definition fetch :: "workshop \<Rightarrow> string list \<Rightarrow> unit xt" where
  "fetch w args =
     xbind (xlift (find_arch w args)) (\<lambda>a.
       let target = in_root w ''target'' in
       xseq (file_call w (MakeDirs target) (''create '' @ target))
         (xseq (fetch_kernel w a) (fetch_shell w a)))"

section \<open>A distribution\<close>

definition DISTRO_IMAGE :: string where "DISTRO_IMAGE = ''alpine:3.22''"

definition DISTRO_SCRIPT :: string where
  "DISTRO_SCRIPT = concat (map (\<lambda>l. l @ [newline])
     [''#!/bin/sh'',
      ''# Written by `cargo xtask test-distro`. Runs inside the distribution'' @ [squote] @ ''s image.'',
      ''set -e'',
      '''',
      ''apk add --no-cache cpio >/dev/null 2>&1'',
      '''',
      ''mkdir -p /rootfs'',
      ''# The distribution'' @ [squote] @ ''s own root, minus the pseudo-filesystems the kernel and'',
      ''# oxinit provide, and minus the tree being built.'',
      ''for d in bin etc lib sbin usr var srv media mnt opt home root; do'',
      ''    [ -e '' @ [dquote] @ ''/$d'' @ [dquote] @ '' ] && cp -a '' @ [dquote] @ ''/$d'' @ [dquote] @ '' /rootfs/'',
      ''done'',
      ''mkdir -p /rootfs/proc /rootfs/sys /rootfs/dev /rootfs/run /rootfs/tmp /rootfs/var/log'',
      '''',
      ''# oxinit on top. Not /etc/passwd or /etc/group: those are the distribution'' @ [squote] @ ''s.'',
      ''cp -a /overlay/init /rootfs/init'',
      ''cp -a /overlay/bin/. /rootfs/bin/'',
      ''mkdir -p /rootfs/etc/oxinit'',
      ''cp -a /overlay/etc/oxinit/units /rootfs/etc/oxinit/'',
      ''cp -a /overlay/etc/oxinit/user-units /rootfs/etc/oxinit/'',
      '''',
      ''# The one group the privilege-drop unit needs, added rather than substituted.'',
      ''echo '' @ [squote] @ ''oxinit:x:900:nobody'' @ [squote] @ '' >> /rootfs/etc/group'',
      '''',
      ''# A unit that can only pass on a real userspace: it reads the distribution'' @ [squote] @ ''s'',
      ''# own release file, and asks the dynamic loader what /bin/sh needs to run.'',
      ''cat > /rootfs/etc/oxinit/units/userspace.toml <<'' @ [squote] @ ''UNIT'' @ [squote],
      ''# Written by `cargo xtask test-distro`. Not in units/.'',
      ''[unit]'',
      ''description = '' @ [dquote] @ ''What userland this is'' @ [dquote],
      '''',
      ''[service]'',
      ''type = '' @ [dquote] @ ''oneshot'' @ [dquote],
      ''exec = '' @ [squote] @ [squote] @ [squote] @ ''/bin/sh -c '' @ [dquote] @ ''/bin/echo oxinit-m10: alpine $(/bin/cat /etc/alpine-release); /usr/bin/ldd /bin/sh'' @ [dquote] @ [squote] @ [squote] @ [squote],
      ''UNIT'',
      '''',
      ''sed -i '' @ [squote] @ ''s|^wants       = '' @ [backslash] @ ''[|wants       = ['' @ [backslash] @ ''n    '' @ [dquote] @ ''userspace'' @ [dquote] @ '',|'' @ [squote] @ '' /rootfs/etc/oxinit/units/default.toml'',
      ''grep -q '' @ [squote] @ [dquote] @ ''userspace'' @ [dquote] @ [squote] @ '' /rootfs/etc/oxinit/units/default.toml || {'',
      ''    echo '' @ [dquote] @ ''build.sh: could not pull userspace into default'' @ [dquote] @ '' >&2'',
      ''    exit 1'',
      ''}'',
      '''',
      ''cd /rootfs'',
      ''find . | cpio --quiet -o -H newc | gzip -9 > '' @ [dquote] @ ''/out/$1'' @ [dquote],
      ''echo '' @ [dquote] @ ''build.sh: packed $(find . | wc -l) paths from $(cat /etc/alpine-release)'' @ [dquote]])"

definition engine_of :: "string list \<Rightarrow> string + string" where
  "engine_of args =
     (case flag args ''--engine'' of Inl e \<Rightarrow> Inl e | Inr None \<Rightarrow> Inr ''docker'' | Inr (Some e) \<Rightarrow> Inr e)"

definition test_distro :: "workshop \<Rightarrow> string list \<Rightarrow> unit xt" where
  "test_distro w args =
     xbind (xlift (find_arch w args)) (\<lambda>a.
     xbind (xlift (engine_of args)) (\<lambda>engine.
     xbind (find_kernel w a args) (\<lambda>kernel.
     xbind (xbuild w a) (\<lambda>binary.
     xbind (stage w a binary None True) (\<lambda>overlay.
       let name = ''oxinit-distro-'' @ ar_name a @ ''.cpio.gz''; img = path_join (in_root w ''target'') name;
           script = in_root w ''target/oxinit-distro.sh'';
           log = in_root w (''target/test-distro-'' @ ar_name a @ ''.log'') in
       xseq (file_call w (WriteText script DISTRO_SCRIPT) (''write '' @ script))
       (xseq (run_command w engine
          [''run'', ''--rm'', ''-v'', overlay @ '':/overlay:ro'', ''-v'', script @ '':/build.sh:ro'',
           ''-v'', in_root w ''target'' @ '':/out'', DISTRO_IMAGE, ''/bin/sh'', ''/build.sh'', name] None)
       (xseq (xignore (file_call w (DropFile log) []))
       (xseq (spawn_child w (ar_qemu a) (qemu_args a kernel img [] log (''console='' @ ar_console a))
                (plain_spawn_words (ar_qemu a)))
       (xbind (wait_for w (ar_timeout a)) (\<lambda>clean.
        xbind (read_text w log) (\<lambda>content.
          xlift (check_log content (EXPECTED @ EXPECTED_DISTRO) FORBIDDEN SEQUENCE (clean_failures a clean)))))))))))))"

section \<open>The hardware watchdog\<close>

definition WATCHDOG_KERNEL_SCRIPT :: string where
  "WATCHDOG_KERNEL_SCRIPT = concat (map (\<lambda>l. l @ [newline])
     [''#!/bin/sh'',
      ''# Written by `cargo xtask test-watchdog`. Runs inside the distribution'' @ [squote] @ ''s image.'',
      ''set -e'',
      ''apk add --no-cache linux-virt >/dev/null'',
      ''cp /boot/vmlinuz-virt /out/vmlinuz-virt-x86_64'',
      ''module=$(find /lib/modules -name '' @ [squote] @ ''i6300esb.ko*'' @ [squote] @ '' | head -n 1)'',
      ''case '' @ [dquote] @ ''$module'' @ [dquote] @ '' in'',
      ''    *.gz) gunzip -c '' @ [dquote] @ ''$module'' @ [dquote] @ '' > /out/i6300esb-x86_64.ko ;;'',
      ''    *) cp '' @ [dquote] @ ''$module'' @ [dquote] @ '' /out/i6300esb-x86_64.ko ;;'',
      ''esac'',
      ''echo '' @ [dquote] @ ''build.sh: $(ls /lib/modules) with $(basename '' @ [dquote] @ ''$module'' @ [dquote] @ '')'' @ [dquote]])"

definition watchdog_kernel :: "workshop \<Rightarrow> string \<Rightarrow> (string \<times> string) xt" where
  "watchdog_kernel w engine =
     (let target = in_root w ''target''; kernel = path_join target ''vmlinuz-virt-x86_64'';
          module = path_join target ''i6300esb-x86_64.ko''; script = path_join target ''oxinit-watchdog-kernel.sh'' in
      xbind (exists_at w kernel) (\<lambda>have_kernel.
      xbind (exists_at w module) (\<lambda>have_module.
        if have_kernel \<and> have_module then xreturn (kernel, module)
        else
          xseq (file_call w (WriteText script WATCHDOG_KERNEL_SCRIPT) (''write '' @ script))
          (xseq (run_command w engine
             [''run'', ''--rm'', ''--platform'', ''linux/amd64'', ''-v'', script @ '':/build.sh:ro'', ''-v'', target @ '':/out'',
              DISTRO_IMAGE, ''/bin/sh'', ''/build.sh''] None)
            (xreturn (kernel, module))))))"

definition unit_text :: "string list \<Rightarrow> string" where
  "unit_text ls = concat (map (\<lambda>l. l @ [newline]) ls)"

definition quoted :: "string \<Rightarrow> string" where
  "quoted s = [dquote] @ s @ [dquote]"

definition watchdog_units :: "watchdog_case \<Rightarrow> (string \<times> string) list" where
  "watchdog_units c =
     [(''default.toml'',
       unit_text [''[unit]'',
         ''wants = ['' @ quoted ''load-watchdog'' @ '', '' @ quoted ''confirm'' @ '', '' @ quoted ''end'' @ '']'', '''', ''[target]'']),
      (''load-watchdog.toml'',
       unit_text [''[service]'', ''type = '' @ quoted ''oneshot'', ''exec = '' @ quoted ''/bin/insmod /i6300esb.ko'']),
      (''confirm.toml'',
       unit_text [''[unit]'', ''after = ['' @ quoted ''load-watchdog'' @ '']'', '''', ''[service]'',
         ''type = '' @ quoted ''oneshot'', ''exec = '' @ quoted (wc_confirm c)]),
      (''end.toml'',
       unit_text [''[unit]'', ''after = ['' @ quoted ''confirm'' @ '']'', '''', ''[service]'',
         ''exec = '' @ [squote] @ ''/bin/sh -c '' @ quoted (''/bin/sleep '' @ show_nat (snd (wc_end c)) @
           ''; /bin/kill -'' @ fst (wc_end c) @ '' 1'') @ [squote]])]"

definition stage_watchdog ::
    "workshop \<Rightarrow> architecture \<Rightarrow> watchdog_case \<Rightarrow> string \<Rightarrow> string \<Rightarrow> string \<Rightarrow> string xt" where
  "stage_watchdog w a c module binary shell =
     xbind (stage_units w a binary (Some shell) False ''watchdog'') (\<lambda>staging.
       let link = path_join staging ''bin/insmod''; etc = path_join staging ''etc/oxinit''; units = path_join etc ''units'' in
       xseq (xignore (file_call w (DropFile link) []))
       (xseq (file_call w (LinkTo ''busybox'' link) (''symlink '' @ link))
       (xseq (file_call w (CopyFile module (path_join staging ''i6300esb.ko'')) ''copy module'')
       (xseq (file_call w (MakeDirs units) (''create '' @ units))
       (xseq (file_call w (WriteText (path_join etc ''watchdog.toml'') (wc_config c)) ''write watchdog.toml'')
       (xseq (xfor (\<lambda>(name, content). file_call w (WriteText (path_join units name) content) (''write '' @ name)) (watchdog_units c))
         (xreturn staging)))))))"

text \<open>\<open>read_log\<close>: what cannot be read is empty.\<close>

definition read_log :: "workshop \<Rightarrow> string \<Rightarrow> string xt" where
  "read_log w log h =
     (let h1 = h @ [ReadText log] in (Inr (case wk_text w h1 of Inr t \<Rightarrow> t | Inl _ \<Rightarrow> []), h1))"

fun look_for_line :: "workshop \<Rightarrow> string \<Rightarrow> string \<Rightarrow> nat \<Rightarrow> bool xt" where
  "look_for_line w log line 0 = xreturn False"
| "look_for_line w log line (Suc n) =
     xbind (read_log w log) (\<lambda>content.
       if has_text content line then xreturn True
       else xbind (xcatch (poll_child w)) (\<lambda>r.
         if r = Inr True then xreturn False else xseq (nap 100) (look_for_line w log line n)))"

definition judge_outcome :: "workshop \<Rightarrow> architecture \<Rightarrow> string \<Rightarrow> watchdog_outcome \<Rightarrow> string list xt" where
  "judge_outcome w a log outcome =
     (case outcome of
        Resets \<Rightarrow>
          xbind (wait_for w (ar_timeout a)) (\<lambda>exited.
            xreturn (if exited then []
              else [''qemu was still running after '' @ show_nat (ar_timeout a) @ ''s: nothing reset it'']))
      | StaysUpAfter line seconds \<Rightarrow>
          xbind (look_for_line w log line (ar_timeout a * 10)) (\<lambda>seen.
          xbind (if seen
                 then xseq (nap (seconds * 1000))
                   (xbind (xcatch (poll_child w)) (\<lambda>r.
                      xreturn (if r = Inr False then []
                        else [''qemu exited within '' @ show_nat seconds @ ''s of `'' @ line @
                              ''`: the watchdog was still armed''])))
                 else xreturn [''`'' @ line @ ''` never appeared, or qemu exited first'']) (\<lambda>failures.
            xseq put_down (xreturn failures))))"

definition watchdog_trial ::
    "workshop \<Rightarrow> architecture \<Rightarrow> string \<Rightarrow> string \<Rightarrow> string \<Rightarrow> string \<Rightarrow> watchdog_case \<Rightarrow> unit xt" where
  "watchdog_trial w a kern module binary shell c =
     xbind (stage_watchdog w a c module binary shell) (\<lambda>staging.
       let img = in_root w (''target/oxinit-watchdog-'' @ wc_name c @ ''.cpio.gz'');
           log = in_root w (''target/test-watchdog-'' @ wc_name c @ ''.log'') in
       xseq (pack_tree w staging img)
       (xseq (xignore (file_call w (DropFile log) []))
       (xseq (spawn_child w (ar_qemu a)
                (qemu_args a kern img [''-device'', ''i6300esb'', ''-no-reboot''] log
                   (''console='' @ ar_console a @ '' '' @ wc_cmdline c))
                (plain_spawn_words (ar_qemu a)))
       (xbind (judge_outcome w a log (wc_outcome c)) (\<lambda>failures.
        xbind (read_log w log) (\<lambda>content.
          xlift (check_log content (wc_expected c) (wc_forbidden c) [] failures)))))))"

definition test_watchdog :: "workshop \<Rightarrow> string list \<Rightarrow> unit xt" where
  "test_watchdog w args =
     xbind (xlift (find_arch w args)) (\<lambda>a.
       if ar_name a \<noteq> ''x86_64'' then
         xfail (''test-watchdog is x86_64 only: its watchdog is QEMU'' @ [squote] @ ''s i6300esb'')
       else
         xbind (xlift (engine_of args)) (\<lambda>engine.
         xbind (find_shell w a args) (\<lambda>found. case found of
            None \<Rightarrow> xfail ''test-watchdog needs busybox: run `cargo xtask fetch` or pass --shell PATH''
          | Some shell \<Rightarrow>
              xbind (watchdog_kernel w engine) (\<lambda>(kernel, module).
              xbind (xbuild w a) (\<lambda>binary.
              xbind (collect_failures wc_name (watchdog_trial w a kernel module binary shell) WATCHDOG_CASES)
                none_failed)))))"

end
