(* ===== verification/XtaskMain.thy ===== *)
theory XtaskMain
  imports XtaskRuns
begin

text \<open>
  The container and the demo, and \<open>main\<close>, of \<open>crates/xtask/src/main.rs\<close>; then what a shell
  makes of a path that was quoted for it.
\<close>

section \<open>Talking to a container engine\<close>

definition exec_in :: "workshop \<Rightarrow> string \<Rightarrow> string \<Rightarrow> string list \<Rightarrow> string xt" where
  "exec_in w engine name argv =
     xbind (output_of w engine ([''exec'', name] @ argv) (engine @ '' exec'')) (\<lambda>out.
       if po_ok out then xreturn (wk_lossy w (po_stdout out))
       else xfail (engine @ '' exec '' @ join_with '' '' argv @ '': '' @ trim (wk_lossy w (po_stderr out))))"

definition logs_of :: "workshop \<Rightarrow> string \<Rightarrow> string \<Rightarrow> string xt" where
  "logs_of w engine name =
     xbind (output_of w engine [''logs'', name] (engine @ '' logs'')) (\<lambda>out.
       xreturn (wk_lossy w (po_stdout out) @ wk_lossy w (po_stderr out)))"

definition inspect_named :: "workshop \<Rightarrow> string \<Rightarrow> string \<Rightarrow> string \<Rightarrow> string xt" where
  "inspect_named w engine name format =
     xbind (output_of w engine [''inspect'', ''-f'', format, name] (engine @ '' inspect'')) (\<lambda>out.
       xreturn (trim (wk_lossy w (po_stdout out))))"

definition removal :: "string \<Rightarrow> string \<Rightarrow> call" where
  "removal engine name = RunProgram engine [''rm'', ''-f'', name] None"

definition remove_named :: "workshop \<Rightarrow> string \<Rightarrow> string \<Rightarrow> unit xt" where
  "remove_named w engine name h = (Inr (), h @ [removal engine name])"

fun line_polls :: "workshop \<Rightarrow> string \<Rightarrow> string \<Rightarrow> string \<Rightarrow> nat \<Rightarrow> bool xt" where
  "line_polls w engine name needle 0 = xreturn False"
| "line_polls w engine name needle (Suc n) =
     xbind (logs_of w engine name) (\<lambda>content.
       if has_text content needle then xreturn True
       else xseq (nap 200) (line_polls w engine name needle n))"

definition wait_for_line_in :: "workshop \<Rightarrow> string \<Rightarrow> string \<Rightarrow> string \<Rightarrow> nat \<Rightarrow> bool xt" where
  "wait_for_line_in w engine name needle seconds = line_polls w engine name needle (seconds * 5)"

section \<open>The container\<close>

definition CONTAINER_IMAGE :: string where "CONTAINER_IMAGE = ''oxinit:test''"
definition CONTAINER_NAME :: string where "CONTAINER_NAME = ''oxinit-container-test''"
definition BOOTED :: string where "BOOTED = ''oxinit: reached target default''"
definition BOOT_TIMEOUT :: nat where "BOOT_TIMEOUT = 30"
definition STOP_GRACE :: nat where "STOP_GRACE = 30"
definition TICKER :: string where "TICKER = ''/var/log/oxinit/ticker.log''"

text \<open>The closure \<open>count\<close> of \<open>survives_a_shipper_restart\<close>.\<close>

definition count_ticks :: "workshop \<Rightarrow> string \<Rightarrow> nat xt" where
  "count_ticks w engine =
     xbind (exec_in w engine CONTAINER_NAME [''/bin/sh'', ''-c'', ''/bin/wc -l < '' @ TICKER]) (\<lambda>out.
       case parse_uint usize_max (trim out) of
         Some n \<Rightarrow> xreturn n
       | None \<Rightarrow> xfail (''`wc -l < '' @ TICKER @ ''` said `'' @ trim out @ ''`''))"

definition survives_a_shipper_restart :: "workshop \<Rightarrow> string \<Rightarrow> string list xt" where
  "survives_a_shipper_restart w engine =
     xbind (count_ticks w engine) (\<lambda>before.
       if before = 0 then
         xreturn [TICKER @ '' was empty before the restart, so the rest proves nothing'']
       else
         xseq (exec_in w engine CONTAINER_NAME [''/bin/oxctl'', ''restart'', ''oxlogd''])
         (xseq (nap 5000)
         (xbind (count_ticks w engine) (\<lambda>after.
            xreturn (if after \<le> before then
                [TICKER @ '' stopped at '' @ show_nat before @ '' lines across an oxlogd restart; '' @
                 ''the descriptor was not handed to the replacement'']
              else [])))))"

definition STATUS_FORMAT :: string where "STATUS_FORMAT = ''{{.State.ExitCode}}''"

definition stop_and_ask :: "workshop \<Rightarrow> string \<Rightarrow> string \<Rightarrow> string \<Rightarrow> string xt" where
  "stop_and_ask w engine name grace =
     xseq (run_command w engine [''stop'', ''-t'', grace, name] None) (inspect_named w engine name STATUS_FORMAT)"

definition drive :: "workshop \<Rightarrow> string \<Rightarrow> bool \<Rightarrow> unit xt" where
  "drive w engine privileged =
     xbind (wait_for_line_in w engine CONTAINER_NAME BOOTED BOOT_TIMEOUT) (\<lambda>booted.
     xbind (survives_a_shipper_restart w engine) (\<lambda>lost.
     xbind (stop_and_ask w engine CONTAINER_NAME (show_nat STOP_GRACE)) (\<lambda>status.
     xbind (logs_of w engine CONTAINER_NAME) (\<lambda>content.
       let failures = (if booted then [] else [''the container never logged `'' @ BOOTED @ ''`'']) @ lost @
             (if status = ''0'' then [] else [''exit code '' @ status @ '', not 0. 137 is SIGKILL '' @ em_dash @
                '' the runtime gave up waiting, which is what M6 exists to fix'']) in
       xlift (check_log content (if privileged then EXPECTED_CONTAINER @ EXPECTED_PRIVILEGED else EXPECTED_CONTAINER)
                FORBIDDEN_CONTAINER [] failures)))))"

definition build_image :: "workshop \<Rightarrow> string \<Rightarrow> string \<Rightarrow> string \<Rightarrow> string \<Rightarrow> unit xt" where
  "build_image w engine tag dockerfile staging =
     run_command w engine [''build'', ''-q'', ''-t'', tag, ''-f'', dockerfile, staging] None"

definition start_args :: "bool \<Rightarrow> string list" where
  "start_args privileged =
     [''run'', ''-d'', ''--name'', CONTAINER_NAME] @ (if privileged then [''--privileged''] else []) @ [CONTAINER_IMAGE]"

text \<open>What is done with the result of a run, whatever it is.\<close>

definition then_remove :: "workshop \<Rightarrow> string \<Rightarrow> string \<Rightarrow> unit xt \<Rightarrow> unit xt" where
  "then_remove w engine name m =
     xbind (xcatch m) (\<lambda>result. xseq (remove_named w engine name) (xlift result))"

definition container :: "workshop \<Rightarrow> string list \<Rightarrow> unit xt" where
  "container w args =
     xbind (xlift (engine_of args)) (\<lambda>engine.
     xbind (xlift (find_arch w args)) (\<lambda>a.
     xbind (find_shell w a args) (\<lambda>shell.
     xbind (xbuild w a) (\<lambda>binary.
     xbind (stage_units w a binary shell False ''units'') (\<lambda>staging.
     xbind (write_dockerfile w) (\<lambda>dockerfile.
       let privileged = ''--privileged'' \<in> set args in
       xseq (build_image w engine CONTAINER_IMAGE dockerfile staging)
       (xseq (remove_named w engine CONTAINER_NAME)
       (xseq (run_command w engine (start_args privileged) None)
         (then_remove w engine CONTAINER_NAME (drive w engine privileged))))))))))"

section \<open>The demo\<close>

definition DEMO_IMAGE :: string where "DEMO_IMAGE = ''oxinit:demo''"
definition DEMO_NAME :: string where "DEMO_NAME = ''oxinit-demo''"

definition demo :: "workshop \<Rightarrow> string list \<Rightarrow> unit xt" where
  "demo w args =
     xbind (xlift (engine_of args)) (\<lambda>engine.
     xbind (xlift (find_arch w args)) (\<lambda>a.
     xbind (xlift (flag args ''--tag'')) (\<lambda>given.
     xbind (find_shell w a args) (\<lambda>shell.
       let tag = (case given of None \<Rightarrow> DEMO_IMAGE | Some t \<Rightarrow> t) in
       if shell = None then
         xfail (''the demo needs a shell in the image. Run `cargo xtask fetch --arch '' @ ar_name a @ ''` first.'')
       else
         xbind (xbuild w a) (\<lambda>binary.
         xbind (stage_units w a binary shell False ''demo'') (\<lambda>staging.
         xbind (write_dockerfile w) (\<lambda>dockerfile.
         xseq (build_image w engine tag dockerfile staging)
           (if ''--build-only'' \<in> set args then xreturn ()
            else xseq (remove_named w engine DEMO_NAME)
              (run_command w engine [''run'', ''--rm'', ''--name'', DEMO_NAME, ''-p'', ''8080:8080'', tag] None)))))))))"

definition DEMO_UNITS :: "string list" where
  "DEMO_UNITS = [''clock'', ''counter'', ''logs'', ''webhook-socket'']"

definition demo_failures ::
    "workshop \<Rightarrow> string \<Rightarrow> string \<Rightarrow> string \<Rightarrow> string \<Rightarrow> string \<Rightarrow> string list" where
  "demo_failures w listing logged earlier answer status =
     concat (map (\<lambda>u. if has_text listing u then [] else [''`oxctl list` does not mention `'' @ u @ ''`'']) DEMO_UNITS)
     @ (if has_text logged ''tick '' then [] else [''`oxctl logs counter` shows no ticks''])
     @ (if has_text earlier ''inactive'' then [] else [''`webhook` was already running before anything connected''])
     @ (if has_text answer ''oxinit started this service because you connected'' then []
        else [''curl localhost:8080 said '' @ wk_debug w answer])
     @ (if status = ''0'' then []
        else [''exit code '' @ status @ '', not 0 '' @ em_dash @ '' the README promises a clean stop''])"

definition drive_demo :: "workshop \<Rightarrow> string \<Rightarrow> unit xt" where
  "drive_demo w engine =
     xbind (wait_for_line_in w engine DEMO_NAME ''oxinit: reached target default'' 30) (\<lambda>booted.
       if \<not> booted then xfail ''the demo never reached its default target''
       else
         xbind (exec_in w engine DEMO_NAME [''/bin/oxctl'', ''list'']) (\<lambda>listing.
         xbind (exec_in w engine DEMO_NAME [''/bin/oxctl'', ''logs'', ''counter'']) (\<lambda>logged.
         xbind (exec_in w engine DEMO_NAME [''/bin/oxctl'', ''status'', ''webhook'']) (\<lambda>before.
         xbind (capture w ''curl'' [''-s'', ''--max-time'', ''10'', ''http://localhost:8080'']) (\<lambda>answer.
         xbind (stop_and_ask w engine DEMO_NAME ''30'') (\<lambda>status.
           let failures = demo_failures w listing logged before answer status in
           if failures = [] then xreturn ()
           else xfail (failed_checks failures ''README claim(s)'')))))))"

definition test_demo :: "workshop \<Rightarrow> string list \<Rightarrow> unit xt" where
  "test_demo w args =
     xbind (xlift (engine_of args)) (\<lambda>engine.
       xseq (demo w (args @ [''--build-only'']))
       (xseq (remove_named w engine DEMO_NAME)
       (xseq (run_command w engine [''run'', ''-d'', ''--name'', DEMO_NAME, ''-p'', ''8080:8080'', DEMO_IMAGE] None)
         (then_remove w engine DEMO_NAME (drive_demo w engine)))))"

section \<open>The command line\<close>

definition XTASK_USAGE :: string where
  "XTASK_USAGE = join_with [newline]
     [''usage: cargo xtask <command>'',
      '''',
      ''commands:'',
      ''  build      build oxinit for x86_64-unknown-linux-musl'',
      ''  image      build and pack an initramfs, printing its path; does not boot'',
      ''  boot       build, pack an initramfs, and boot it under QEMU'',
      ''  test-boot  boot with a timeout and assert on the serial log'',
      ''  container  build a container image, run it, and assert on its output'',
      ''  demo       build the demo image and run it, the way the README says to'',
      ''  test-demo  build the demo image and check every claim the README makes'',
      ''  test-distro'',
      ''             boot a real distribution userspace and assert on the serial log'',
      ''  test-watchdog'',
      ''             boot with QEMU'' @ [squote] @ ''s i6300esb: fed until a halt that disarms it,'',
      ''             then a boot that never confirms itself and is reset'',
      ''  fetch      download the kernel and busybox a boot needs, into target/'',
      '''',
      ''options:'',
      ''  --arch NAME     x86_64 (default), aarch64, or `all` for test-boot, which'',
      ''                  boots every supported target in turn. Both are supported'',
      ''                  targets; the host'' @ [squote] @ ''s own is the one QEMU can accelerate.'',
      '''',
      ''boot options:'',
      ''  --kernel PATH   kernel image; falls back to $OXINIT_KERNEL_<ARCH>, then'',
      ''                  $OXINIT_KERNEL, then target/vmlinuz-<arch>'',
      ''  --shell PATH    statically linked shell to place at /bin/sh, normally'',
      ''                  busybox; falls back to $OXINIT_SHELL_<ARCH>, then'',
      ''                  $OXINIT_SHELL. It has to match --arch. Without one, the'',
      ''                  image holds only /init and oxinit has no shell to spawn.'',
      '''',
      ''container options:'',
      ''  --engine NAME   docker (default) or podman'',
      ''  --privileged    run with full capabilities and a writable cgroupfs, and'',
      ''                  additionally assert that cgroups work'',
      '''',
      ''Ctrl-A X exits QEMU.'']"

datatype xtask_end = XtaskDone | XtaskPrinted string | XtaskFailed string

definition silently :: "unit xt \<Rightarrow> call list \<Rightarrow> xtask_end \<times> call list" where
  "silently m h = (case m h of (Inr _, h1) \<Rightarrow> (XtaskDone, h1) | (Inl e, h1) \<Rightarrow> (XtaskFailed (''xtask: '' @ e), h1))"

definition printing :: "string xt \<Rightarrow> call list \<Rightarrow> xtask_end \<times> call list" where
  "printing m h = (case m h of (Inr p, h1) \<Rightarrow> (XtaskPrinted p, h1) | (Inl e, h1) \<Rightarrow> (XtaskFailed (''xtask: '' @ e), h1))"

definition xtask_main :: "workshop \<Rightarrow> string list \<Rightarrow> call list \<Rightarrow> xtask_end \<times> call list" where
  "xtask_main w args h =
     (let cmd = (case args of [] \<Rightarrow> [] | c # _ \<Rightarrow> c); rest = drop 1 args in
      if cmd = ''boot'' then silently (boot_command w rest) h
      else if cmd = ''build'' then printing (xbind (xlift (find_arch w rest)) (xbuild w)) h
      else if cmd = ''image'' then printing (xbind (xlift (find_arch w rest)) (\<lambda>a. make_image w a rest False)) h
      else if cmd = ''test-boot'' then silently (test_boot_all w rest) h
      else if cmd = ''container'' then silently (container w rest) h
      else if cmd = ''demo'' then silently (demo w rest) h
      else if cmd = ''test-demo'' then silently (test_demo w rest) h
      else if cmd = ''test-distro'' then silently (test_distro w rest) h
      else if cmd = ''test-watchdog'' then silently (test_watchdog w rest) h
      else if cmd = ''fetch'' then silently (fetch w rest) h
      else if cmd \<in> {[], ''help'', ''--help'', ''-h''} then (XtaskPrinted XTASK_USAGE, h)
      else (XtaskFailed (''xtask: unknown command `'' @ cmd @ ''`'' @ [newline, newline] @ XTASK_USAGE), h))"

section \<open>Quoting\<close>

lemma replace_char_plain: "c \<notin> set s \<Longrightarrow> replace_char c r s = s"
  by (induction s) (auto simp: replace_char_def)

lemma replace_char_split: "c \<notin> set a \<Longrightarrow> replace_char c r (a @ c # b) = a @ r @ replace_char c r b"
  using replace_char_plain [of c a r] by (simp add: replace_char_def)

lemma shell_quote_plain: "squote \<notin> set p \<Longrightarrow> shell_quote p = squote # p @ [squote]"
  by (simp add: shell_quote_def replace_char_plain)

lemma shell_quote_split:
  "squote \<notin> set a \<Longrightarrow> shell_quote (a @ squote # b) = squote # a @ squote # backslash # squote # shell_quote b"
  by (simp add: shell_quote_def replace_char_split)

text \<open>A path that goes into a script comes out of the shell as it was: \<open>word\<close> is how a shell
  reads the rest of a word, with what follows the word, and all that is used of it is how
  it reads a part in single quotes and a character after a backslash.\<close>

theorem shell_reads_the_path_back:
  fixes word :: "string \<Rightarrow> string \<times> string"
  assumes quotes: "\<And>s r. squote \<notin> set s \<Longrightarrow> word (squote # s @ squote # r) = (s @ fst (word r), snd (word r))"
    and escape: "\<And>r. word (backslash # squote # r) = (squote # fst (word r), snd (word r))"
  shows "word (shell_quote path @ r) = (path @ fst (word r), snd (word r))"
proof (induction path rule: length_induct)
  case (1 path)
  show ?case
  proof (cases "split_once squote path")
    case None
    then show ?thesis using quotes [of path r] by (simp add: split_once_None shell_quote_plain)
  next
    case (Some ab)
    then obtain a b where ab: "path = a @ squote # b" "squote \<notin> set a"
      by (cases ab) (simp add: split_once_Some)
    then have "word (shell_quote b @ r) = (b @ fst (word r), snd (word r))" using 1 by simp
    then show ?thesis
      using ab quotes [of a "backslash # squote # shell_quote b @ r"] escape [of "shell_quote b @ r"]
      by (simp add: shell_quote_split)
  qed
qed

text \<open>A reader of words: blanks end one.\<close>

function sample_word :: "string \<Rightarrow> string \<times> string" where
  "sample_word s =
     (case s of
        [] \<Rightarrow> ([], [])
      | c # r \<Rightarrow>
          if c = CHR '' '' then ([], s)
          else if c = squote then
            (let (w, rest) = sample_word (drop 1 (dropWhile (\<lambda>x. x \<noteq> squote) r)) in (takeWhile (\<lambda>x. x \<noteq> squote) r @ w, rest))
          else if c = backslash \<and> r \<noteq> [] then (let (w, rest) = sample_word (drop 1 r) in (hd r # w, rest))
          else (let (w, rest) = sample_word r in (c # w, rest)))"
  by pat_completeness auto
termination
proof (relation "measure length")
  fix s :: string and c r
  assume "s = c # r"
  moreover have "length (dropWhile (\<lambda>x. x \<noteq> squote) r) \<le> length r" by (rule length_dropWhile_le)
  ultimately show "(drop 1 (dropWhile (\<lambda>x. x \<noteq> squote) r), s) \<in> measure length" by simp
qed auto

declare sample_word.simps [simp del]

theorem shell_reads_the_path_back_witness:
  "sample_word (shell_quote ''it's/here'' @ '' && ls'') = (''it's/here'', '' && ls'')"
proof -
  have "sample_word (squote # s @ squote # r) = (s @ fst (sample_word r), snd (sample_word r))" if "squote \<notin> set s" for s r
    using that by (subst sample_word.simps) (simp add: takeWhile_tail dropWhile_append split_beta)
  moreover have "sample_word (backslash # squote # r) = (squote # fst (sample_word r), snd (sample_word r))" for r
    by (subst sample_word.simps) (simp add: split_beta)
  moreover have "sample_word '' && ls'' = ([], '' && ls'')" by (subst sample_word.simps) simp
  ultimately show ?thesis
    using shell_reads_the_path_back [of sample_word "''it's/here''" "'' && ls''"] by simp
qed

section \<open>Waiting\<close>

lemma xcatch_returns [xt_returns]: "xcatch m h = (Inr r, h') \<longleftrightarrow> m h = (r, h')"
  by (cases "m h") (auto simp: xcatch_def)

lemma nap_returns [xt_returns]: "nap ms h = (Inr y, h') \<longleftrightarrow> h' = h @ [SleepMillis ms]"
  by (auto simp: nap_def)

lemma poll_child_returns [xt_returns]: "poll_child w h = (r, h') \<longleftrightarrow> h' = h @ [PollChild] \<and> r = wk_poll w h'"
  by (auto simp: poll_child_def Let_def)

lemma put_down_returns [xt_returns]: "put_down h = (Inr y, h') \<longleftrightarrow> h' = h @ [KillChild, ReapChild]"
  by (auto simp: put_down_def)

lemma spawn_child_returns [xt_returns]:
  "spawn_child w prog args f h = (Inr y, h') \<longleftrightarrow> h' = h @ [SpawnChild prog args] \<and> wk_spawn w h' = None"
  by (auto simp: spawn_child_def Let_def split: option.splits)

lemma read_log_returns [xt_returns]:
  "read_log w log h = (Inr t, h') \<longleftrightarrow>
     h' = h @ [ReadText log] \<and> t = (case wk_text w h' of Inr t \<Rightarrow> t | Inl _ \<Rightarrow> [])"
  by (auto simp: read_log_def Let_def)

text \<open>Only looking and napping.\<close>

definition patient :: "call \<Rightarrow> bool" where
  "patient c \<longleftrightarrow> c = PollChild \<or> (\<exists>ms. c = SleepMillis ms)"

lemma patient_simps [simp]: "patient PollChild" "patient (SleepMillis ms)"
  by (simp_all add: patient_def)

text \<open>At most \<open>n\<close> looks, a tenth of a second apart; an exit that was seen is the end of it, and
  the child is killed only when none was.\<close>

lemma wait_polls_exit:
  "wait_polls w n h = (Inr True, h') \<Longrightarrow>
     \<exists>cs. h' = h @ cs @ [PollChild] \<and> list_all patient cs \<and> length (filter (\<lambda>c. c = PollChild) cs) < n
       \<and> wk_poll w h' = Inr True"
proof (induction n arbitrary: h)
  case 0
  then show ?case by (simp add: xt_returns)
next
  case (Suc n)
  let ?h = "h @ [PollChild]"
  show ?case
  proof (cases "wk_poll w ?h")
    case (Inl e)
    then show ?thesis using Suc.prems by (simp add: xt_returns)
  next
    case (Inr exited)
    show ?thesis
    proof (cases exited)
      case True
      then show ?thesis using Suc.prems Inr by (intro exI [of _ "[]"]) (simp add: xt_returns)
    next
      case False
      then have "wait_polls w n (?h @ [SleepMillis 100]) = (Inr True, h')" using Suc.prems Inr by (simp add: xt_returns)
      then obtain cs where "h' = ?h @ SleepMillis 100 # cs @ [PollChild]" "list_all patient cs"
          "length (filter (\<lambda>c. c = PollChild) cs) < n" "wk_poll w h' = Inr True"
        using Suc.IH by fastforce
      then show ?thesis by (intro exI [of _ "PollChild # SleepMillis 100 # cs"]) simp
    qed
  qed
qed

lemma wait_polls_returns: "\<exists>r h'. wait_polls w n h = (r, h') \<and> (r = Inr False \<longrightarrow> (\<exists>cs. h' = h @ cs @ [KillChild, ReapChild]))"
proof (induction n arbitrary: h)
  case 0
  then show ?case by (simp add: xseq_def xbind_def put_down_def xreturn_def)
next
  case (Suc n)
  obtain r h' where "wait_polls w n (h @ [PollChild, SleepMillis 100]) = (r, h')"
      "r = Inr False \<longrightarrow> (\<exists>cs. h' = (h @ [PollChild, SleepMillis 100]) @ cs @ [KillChild, ReapChild])"
    using Suc.IH by blast
  then show ?case
    by (cases "wk_poll w (h @ [PollChild])")
      (auto simp: xseq_def xbind_def xcatch_def poll_child_def nap_def xreturn_def xfail_def Let_def split: bool.splits)
qed

section \<open>Reports\<close>

text \<open>An engine that cannot run a command in the container ends \<open>drive\<close> at once: that the boot
  was never seen is not reported, the container is not stopped, its log not looked at.\<close>

lemma drive_forgets_the_boot:
  assumes "wait_for_line_in w engine CONTAINER_NAME BOOTED BOOT_TIMEOUT h = (Inr False, h1)"
    and "count_ticks w engine h1 = (Inl e, h2)"
  shows "drive w engine privileged h = (Inl e, h2)"
  using assms by (simp add: drive_def survives_a_shipper_restart_def xbind_def)

text \<open>\<open>test-demo\<close> runs the default image, whatever \<open>--tag\<close> the image was built under.\<close>

lemma test_demo_runs_the_default_tag:
  assumes "test_demo w args h = (Inr (), h')"
  shows "\<exists>engine h1. wk_status w (h1 @ [RunProgram engine
      [''run'', ''-d'', ''--name'', DEMO_NAME, ''-p'', ''8080:8080'', DEMO_IMAGE] None]) \<in> range Inr"
  using assms by (auto simp: test_demo_def xt_returns)

text \<open>A container that was started is removed, however the test of it ends.\<close>

lemma then_remove_last: "last (snd (then_remove w engine name m h)) = removal engine name"
  by (cases "m h") (auto simp: then_remove_def xbind_def xseq_def xcatch_def remove_named_def xlift_def split: sum.splits)

end
