(* ===== verification/XtaskTests.thy ===== *)
theory XtaskTests
  imports XtaskMain
begin

text \<open>
  What the tests of \<open>crates/xtask/src/main.rs\<close> that pass have seen, and a workshop in which they
  pass: the suites ask for nothing that they forbid.
\<close>

section \<open>What a passing test has seen\<close>

lemma find_kernel_calls: "makes_only (\<lambda>_. True) (find_kernel w a args)"
  by (simp add: find_kernel_def in_tree_def xt_calls split: option.splits)

text \<open>C38.  A boot test passes only for a machine that turned itself off and said everything.  When
  \<open>test_boot\<close> succeeds, QEMU was started and seen to exit by a poll within the time limit of
  the architecture, without being killed; the log read after that holds every expected
  line, none of the forbidden ones, and the ordered pairs in their order.\<close>

theorem passing_boot_test:
  assumes "test_boot w a args h = (Inr (), h')"
  shows "\<exists>before qemu_args cs content.
      h' = before @ SpawnChild (ar_qemu a) qemu_args # cs
        @ [PollChild, ReadText (in_root w (''target/test-boot-'' @ ar_name a @ ''.log''))]
    \<and> list_all patient cs \<and> length (filter (\<lambda>c. c = PollChild) cs) < ar_timeout a * 10
    \<and> wk_poll w (butlast h') = Inr True \<and> wk_text w h' = Inr content
    \<and> (\<forall>(needle, proves) \<in> set EXPECTED. has_text content needle)
    \<and> (\<forall>needle \<in> set FORBIDDEN. \<not> has_text content needle)
    \<and> (\<forall>(first, second, proves) \<in> set SEQUENCE. comes_before content first second)"
proof -
  let ?log = "in_root w (''target/test-boot-'' @ ar_name a @ ''.log'')"
  obtain h1 qargs h2 clean content where
      spawn: "wk_spawn w (h1 @ [SpawnChild (ar_qemu a) qargs]) = None"
    and wait: "wait_for w (ar_timeout a) (h1 @ [SpawnChild (ar_qemu a) qargs]) = (Inr clean, h2)"
    and log: "h' = h2 @ [ReadText ?log]" "wk_text w h' = Inr content"
    and check: "check_log content EXPECTED FORBIDDEN SEQUENCE (clean_failures a clean) = Inr ()"
    using assms by (auto simp: test_boot_def Let_def xt_returns)
  note passed = check [unfolded check_log_passes]
  have "clean" using passed by (auto simp: clean_failures_def split: if_splits)
  then have "wait_polls w (ar_timeout a * 10) (h1 @ [SpawnChild (ar_qemu a) qargs]) = (Inr True, h2)"
    using wait by (simp add: wait_for_def)
  from wait_polls_exit [OF this] obtain cs where
      cs: "h2 = (h1 @ [SpawnChild (ar_qemu a) qargs]) @ cs @ [PollChild]" "list_all patient cs"
      "length (filter (\<lambda>c. c = PollChild) cs) < ar_timeout a * 10" "wk_poll w h2 = Inr True"
    by blast
  have "h' = h1 @ SpawnChild (ar_qemu a) qargs # cs @ [PollChild, ReadText ?log]"
    using log(1) cs(1) by simp
  moreover have "butlast h' = h2" using log(1) by simp
  ultimately show ?thesis using cs(2,3,4) log(2) passed
    by (intro exI [of _ h1] exI [of _ qargs] exI [of _ cs] exI [of _ content]) simp
qed

text \<open>\<open>--arch all\<close> stops for nothing and passes only when every architecture did.\<close>

lemma collect_failures_none:
  "collect_failures name f xs h = (Inr [], h') \<Longrightarrow> \<forall>x \<in> set xs. \<exists>h1 h2. f x h1 = (Inr (), h2)"
proof (induction xs arbitrary: h)
  case (Cons x xs)
  then obtain r h1 rest h2 where f: "f x h = (r, h1)" and c: "collect_failures name f xs h1 = (Inr rest, h2)"
      and e: "(case r of Inl e \<Rightarrow> [name x @ '': '' @ e] | Inr _ \<Rightarrow> []) @ rest = []" "h2 = h'"
    by (auto simp: xt_returns)
  then have "rest = []" "\<exists>u. r = Inr u" by (auto split: sum.splits)
  then show ?case using Cons.IH c f e(2) by auto
qed simp

lemma all_means_all:
  assumes "flag args ''--arch'' = Inr (Some ''all'')" and "test_boot_all w args h = (Inr (), h')"
  shows "\<forall>a \<in> set ARCHES. \<exists>h1 h2. test_boot w a args h1 = (Inr (), h2)"
proof -
  obtain failures h1 h2 where "collect_failures ar_name (\<lambda>a. test_boot w a args) ARCHES h1 = (Inr failures, h2)"
      "none_failed failures h2 = (Inr (), h')"
    using assms by (auto simp: test_boot_all_def xt_returns)
  then show ?thesis using collect_failures_none by (fastforce simp: none_failed_def xt_returns split: if_splits)
qed

lemma look_for_line_seen:
  "look_for_line w log line n h = (Inr True, h') \<Longrightarrow>
     \<exists>cs content. h' = h @ cs @ [ReadText log] \<and> wk_text w h' = Inr content \<and> has_text content line"
  if line: "line \<noteq> []"
proof (induction n arbitrary: h)
  case 0
  then show ?case by (simp add: xt_returns)
next
  case (Suc n)
  let ?h = "h @ [ReadText log]"
  have nil: "\<not> has_text [] line" using line by (simp add: has_text_def)
  show ?case
  proof (cases "has_text (case wk_text w ?h of Inr t \<Rightarrow> t | Inl _ \<Rightarrow> []) line")
    case True
    then obtain content where "wk_text w ?h = Inr content" "has_text content line"
      using nil by (cases "wk_text w ?h") auto
    moreover have "h' = ?h" using Suc.prems True by (simp add: xt_returns)
    ultimately show ?thesis by (intro exI [of _ "[]"] exI [of _ content]) simp
  next
    case False
    have "look_for_line w log line n (?h @ [PollChild, SleepMillis 100]) = (Inr True, h')"
      using Suc.prems False by (auto simp: xt_returns split: if_splits)
    from Suc.IH [OF this] obtain cs content where "h' = (?h @ [PollChild, SleepMillis 100]) @ cs @ [ReadText log]"
        "wk_text w h' = Inr content" "has_text content line"
      by blast
    then show ?thesis by (intro exI [of _ "ReadText log # PollChild # SleepMillis 100 # cs"] exI [of _ content]) simp
  qed
qed

text \<open>What each outcome of a watchdog case means for the calls from the start of QEMU on.\<close>

definition outcome_seen :: "workshop \<Rightarrow> string \<Rightarrow> watchdog_outcome \<Rightarrow> call list \<Rightarrow> call list \<Rightarrow> bool" where
  "outcome_seen w log outcome h h' \<longleftrightarrow>
     (case outcome of
        Resets \<Rightarrow> \<exists>cs. h' = h @ cs @ [PollChild] \<and> list_all patient cs \<and> wk_poll w h' = Inr True
      | StaysUpAfter line seconds \<Rightarrow>
          \<exists>cs content. h' = h @ cs @ [ReadText log, SleepMillis (seconds * 1000), PollChild, KillChild, ReapChild]
            \<and> wk_text w (h @ cs @ [ReadText log]) = Inr content \<and> has_text content line
            \<and> wk_poll w (h @ cs @ [ReadText log, SleepMillis (seconds * 1000), PollChild]) = Inr False)"

lemma judge_outcome_passes:
  assumes "judge_outcome w a log outcome h = (Inr [], h')" and "\<And>s. outcome \<noteq> StaysUpAfter [] s"
  shows "outcome_seen w log outcome h h'"
proof (cases outcome)
  case Resets
  then have "wait_polls w (ar_timeout a * 10) h = (Inr True, h')"
    using assms(1) by (auto simp: judge_outcome_def xt_returns wait_for_def split: if_splits)
  then show ?thesis using wait_polls_exit Resets by (fastforce simp: outcome_seen_def)
next
  case (StaysUpAfter line seconds)
  have line: "line \<noteq> []" using assms(2) StaysUpAfter by auto
  obtain h1 where seen: "look_for_line w log line (ar_timeout a * 10) h = (Inr True, h1)"
      "h' = h1 @ [SleepMillis (seconds * 1000), PollChild, KillChild, ReapChild]"
      "wk_poll w (h1 @ [SleepMillis (seconds * 1000), PollChild]) = Inr False"
    using assms(1) StaysUpAfter by (auto simp: judge_outcome_def xt_returns split: if_splits)
  from look_for_line_seen [OF line seen(1)] obtain cs content where
      "h1 = h @ cs @ [ReadText log]" "wk_text w h1 = Inr content" "has_text content line" by blast
  then show ?thesis using seen StaysUpAfter
    by (auto simp: outcome_seen_def intro!: exI [of _ cs] exI [of _ content])
qed

text \<open>A watchdog case passes only when the machine did what the case is about.  For a case of
  the list, a trial that succeeds started QEMU with the watchdog device and without reboots,
  and then saw its outcome: it exited by itself, or the line came and the machine was still
  running the given seconds later; and the log read last holds what the case expects and
  nothing that it forbids.\<close>

theorem passing_watchdog_trial:
  assumes "watchdog_trial w a kern module binary shell c h = (Inr (), h')" and "c \<in> set WATCHDOG_CASES"
  shows "\<exists>before qargs h2. {''-device'', ''i6300esb'', ''-no-reboot''} \<subseteq> set qargs
    \<and> outcome_seen w (in_root w (''target/test-watchdog-'' @ wc_name c @ ''.log'')) (wc_outcome c)
        (before @ [SpawnChild (ar_qemu a) qargs]) h2
    \<and> h' = h2 @ [ReadText (in_root w (''target/test-watchdog-'' @ wc_name c @ ''.log''))]
    \<and> (\<exists>content. wk_text w h' = Inr content
        \<and> (\<forall>(needle, proves) \<in> set (wc_expected c). has_text content needle)
        \<and> (\<forall>needle \<in> set (wc_forbidden c). \<not> has_text content needle))"
proof -
  let ?log = "in_root w (''target/test-watchdog-'' @ wc_name c @ ''.log'')"
  obtain h1 img h2 failures where
      judged: "judge_outcome w a ?log (wc_outcome c)
        (h1 @ [SpawnChild (ar_qemu a) (qemu_args a kern img [''-device'', ''i6300esb'', ''-no-reboot''] ?log
           (''console='' @ ar_console a @ '' '' @ wc_cmdline c))]) = (Inr failures, h2)"
    and h': "h' = h2 @ [ReadText ?log]"
    and check: "check_log (case wk_text w h' of Inr t \<Rightarrow> t | Inl _ \<Rightarrow> []) (wc_expected c) (wc_forbidden c) [] failures = Inr ()"
    using assms(1) by (auto simp: watchdog_trial_def Let_def xt_returns)
  note passed = check [unfolded check_log_passes]
  have case_facts: "wc_outcome c \<noteq> StaysUpAfter [] s \<and> (\<exists>x \<in> set (wc_expected c). fst x \<noteq> [])" for s
    using assms(2) by (auto simp: WATCHDOG_CASES_def FED_CASE_def OVERDUE_CASE_def)
  then obtain needle where "needle \<noteq> []" "has_text (case wk_text w h' of Inr t \<Rightarrow> t | Inl _ \<Rightarrow> []) needle"
    using passed by fastforce
  then obtain content where content: "wk_text w h' = Inr content"
    by (cases "wk_text w h'") (auto simp: has_text_def)
  have "outcome_seen w ?log (wc_outcome c) (h1 @ [SpawnChild (ar_qemu a)
      (qemu_args a kern img [''-device'', ''i6300esb'', ''-no-reboot''] ?log (''console='' @ ar_console a @ '' '' @ wc_cmdline c))]) h2"
    using judge_outcome_passes judged passed case_facts by blast
  moreover have "{''-device'', ''i6300esb'', ''-no-reboot''} \<subseteq> set (qemu_args a kern img
      [''-device'', ''i6300esb'', ''-no-reboot''] ?log (''console='' @ ar_console a @ '' '' @ wc_cmdline c))"
    by (simp add: qemu_args_def)
  ultimately show ?thesis using passed h' content by fastforce
qed

section \<open>A workshop in which everything succeeds\<close>

text \<open>Every call succeeds, every file is there, the child has exited when it is asked after, and
  every text read is the same.\<close>

definition sample_output :: process_output where
  "sample_output = \<lparr>po_ok = True, po_status = ''exit status: 0'', po_stdout = [], po_stderr = []\<rparr>"

definition sample_workshop :: "string \<Rightarrow> workshop" where
  "sample_workshop content =
     \<lparr>wk_vars = (\<lambda>_. None), wk_aarch64 = False, wk_manifest = ''/w/crates/xtask'', wk_lossy = (\<lambda>b. b),
      wk_debug = (\<lambda>s. s), wk_uppercase = (\<lambda>s. s), wk_exists = (\<lambda>_ _. True), wk_is_dir = (\<lambda>_ _. True),
      wk_status = (\<lambda>_. Inr (True, ''exit status: 0'')), wk_output = (\<lambda>_. Inr sample_output), wk_spawn = (\<lambda>_. None),
      wk_poll = (\<lambda>_. Inr True), wk_file = (\<lambda>_. None), wk_text = (\<lambda>_. Inr content), wk_entries = (\<lambda>_. Inr [])\<rparr>"

text \<open>A sequence that returns a value with a property, whatever came before it.\<close>

definition yields :: "'a xt \<Rightarrow> ('a \<Rightarrow> bool) \<Rightarrow> bool" where
  "yields m P \<longleftrightarrow> (\<forall>h. \<exists>x h'. m h = (Inr x, h') \<and> P x)"

named_theorems xt_yields \<open>sequences that return\<close>

lemma yields_bind: "yields m P \<Longrightarrow> (\<And>x. P x \<Longrightarrow> yields (k x) Q) \<Longrightarrow> yields (xbind m k) Q"
  unfolding yields_def xbind_returns by metis

lemma yields_seq [xt_yields]: "yields m (\<lambda>_. True) \<Longrightarrow> yields k Q \<Longrightarrow> yields (xseq m k) Q"
  unfolding xseq_def by (erule yields_bind) simp

lemma yields_basic [xt_yields]:
  "P x \<Longrightarrow> yields (xreturn x) P" "P x \<Longrightarrow> yields (xlift (Inr x)) P"
  by (simp_all add: yields_def xreturn_def xlift_def)

lemma yields_ignore [xt_yields]: "P () \<Longrightarrow> yields (xignore m) P"
  by (simp add: yields_def xignore_def)

lemma yields_for [xt_yields]: "(\<And>x. x \<in> set xs \<Longrightarrow> yields (f x) (\<lambda>_. True)) \<Longrightarrow> yields (xfor f xs) (\<lambda>_. True)"
  by (induction xs) (simp_all add: xt_yields)

lemma sample_yields [xt_yields]:
  "yields (file_call (sample_workshop t) c what) (\<lambda>_. True)"
  "yields (read_text (sample_workshop t) p) (\<lambda>x. x = t)"
  "yields (read_log (sample_workshop t) p) (\<lambda>x. x = t)"
  "yields (run_command (sample_workshop t) prog args cwd) (\<lambda>_. True)"
  "yields (spawn_child (sample_workshop t) prog args f) (\<lambda>_. True)"
  "yields (exists_at (sample_workshop t) p) (\<lambda>x. x = True)"
  "yields (is_dir_at (sample_workshop t) p) (\<lambda>x. x = True)"
  "yields (list_dir (sample_workshop t) p) (\<lambda>x. x = [])"
  by (auto simp add: yields_def xt_returns sample_workshop_def list_dir_def Let_def)

lemma sample_build [xt_yields]: "yields (build_package (sample_workshop t) a p) (\<lambda>_. True)"
  unfolding build_package_def Let_def by (intro xt_yields yields_bind [OF sample_yields(6)]) (simp add: xt_yields)

lemma sample_install [xt_yields]: "yields (install (sample_workshop t) p q) (\<lambda>_. True)"
  unfolding install_def by (intro xt_yields)

lemma sample_copy_units [xt_yields]: "yields (copy_units (sample_workshop t) p q) (\<lambda>_. True)"
  unfolding copy_units_def by (intro xt_yields yields_bind [OF sample_yields(8)]) (simp add: xt_yields)

lemma sample_shell [xt_yields]: "yields (stage_shell (sample_workshop t) shell d) (\<lambda>_. True)"
proof -
  have "yields (install_applet (sample_workshop t) d x) (\<lambda>_. True)" for x
    by (simp add: install_applet_def Let_def xt_yields split: prod.splits)
  then show ?thesis
    by (cases shell) (simp_all add: stage_shell_def install_applets_def xt_yields)
qed

lemma sample_programs [xt_yields]:
  "yields (install_program (sample_workshop t) a d p) (\<lambda>_. True)"
  "yields (install_fixture (sample_workshop t) a d p) (\<lambda>_. True)"
proof -
  show "yields (install_program (sample_workshop t) a d p) (\<lambda>_. True)"
    unfolding install_program_def by (rule yields_bind [OF sample_build]) (rule sample_install)
  have "\<exists>x h'. build_package (sample_workshop t) a p h = (Inr x, h')" for h
    using sample_build [of t a p] by (auto simp: yields_def)
  moreover have "\<exists>h'. install (sample_workshop t) q r h = (Inr (), h')" for q r h
    using sample_install [of t q r] by (auto simp: yields_def)
  ultimately show "yields (install_fixture (sample_workshop t) a d p) (\<lambda>_. True)"
    unfolding yields_def install_fixture_def xif_ok_def by (metis (no_types, lifting) case_prod_conv sum.case(2))
qed

lemma sample_unit_files:
  assumes "has_text t MARKER"
  shows "yields (stage_unit_files (sample_workshop t) test units d) (\<lambda>_. True)"
proof -
  have "yields (install_test_shutdown (sample_workshop t) q) (\<lambda>_. True)" for q
    unfolding install_test_shutdown_def Let_def
    by (intro xt_yields yields_bind [OF sample_yields(2)]) (simp add: assms xt_yields)
  then show ?thesis
    unfolding stage_unit_files_def Let_def
    by (intro yields_bind [OF sample_yields(7)]) (simp add: xt_yields yields_bind [OF sample_yields(7)])
qed

lemma sample_staging:
  assumes "has_text t MARKER"
  shows "yields (stage_units (sample_workshop t) a binary shell test units) (\<lambda>_. True)"
proof -
  have "yields (install_passwd (sample_workshop t) d) (\<lambda>_. True)" for d
    unfolding install_passwd_def Let_def by (intro xt_yields)
  then show ?thesis
    unfolding stage_units_def Let_def
    by (intro xt_yields sample_unit_files [OF assms]) simp_all
qed

lemma sample_existing: "yields (existing_shell (sample_workshop t) p) (\<lambda>_. True)"
  unfolding existing_shell_def by (rule yields_bind [OF sample_yields(6)]) (simp add: xt_yields)

lemma sample_tree: "yields (in_tree (sample_workshop t) r) (\<lambda>x. x \<noteq> None)"
  unfolding in_tree_def by (rule yields_bind [OF sample_yields(6)]) (simp add: xt_yields)

lemma sample_per_arch: "per_arch (sample_workshop t) a name = None"
  by (simp add: per_arch_def sample_workshop_def)

lemma sample_find_kernel: "yields (find_kernel (sample_workshop t) a []) (\<lambda>_. True)"
  unfolding find_kernel_def flag.simps
  by (rule yields_bind [where P = "\<lambda>x. x = None"])
    (auto simp: xt_yields sample_per_arch intro!: yields_bind [OF sample_tree])

lemma sample_image:
  assumes "has_text t MARKER"
  shows "yields (make_image (sample_workshop t) a [] test) (\<lambda>_. True)"
proof -
  have "yields (find_shell (sample_workshop t) a []) (\<lambda>_. True)"
    unfolding find_shell_def flag.simps
    by (rule yields_bind [where P = "\<lambda>x. x = None"])
      (auto simp: xt_yields sample_per_arch sample_existing intro!: yields_bind [OF sample_tree])
  moreover have "yields (pack_tree (sample_workshop t) d img) (\<lambda>_. True)" for d img
    unfolding pack_tree_def by (intro xt_yields) simp
  ultimately show ?thesis
    unfolding make_image_def xbuild_def pack_initramfs_def stage_def
    by (intro yields_bind [where P = "\<lambda>_. True"] xt_yields sample_staging assms)
qed

lemma sample_wait: "yields (wait_for (sample_workshop t) (Suc n)) (\<lambda>x. x = True)"
proof -
  have "wk_poll (sample_workshop t) h = Inr True" for h by (simp add: sample_workshop_def)
  then have "yields (wait_polls (sample_workshop t) (Suc m)) (\<lambda>x. x = True)" for m
    by (auto simp: yields_def xt_returns)
  moreover have "Suc n * 10 = Suc (n * 10 + 9)" by simp
  ultimately show ?thesis unfolding wait_for_def by presburger
qed

section \<open>A log that passes\<close>

lemma has_text_line:
  assumes "newline \<notin> set needle" and "needle \<noteq> []"
  shows "has_text (l @ newline # r) needle \<longleftrightarrow> has_text l needle \<or> has_text r needle"
proof
  assume "has_text (l @ newline # r) needle"
  then obtain a b where e: "l @ newline # r = a @ needle @ b" by (auto simp: has_text_iff)
  then consider us where "l = a @ us" "us @ newline # r = needle @ b" | us where "a = l @ us" "newline # r = us @ needle @ b"
    by (auto simp: append_eq_append_conv2)
  then show "has_text l needle \<or> has_text r needle"
  proof cases
    case 1
    then consider vs where "us = needle @ vs" | vs where "needle = us @ vs" "newline # r = vs @ b"
      by (auto simp: append_eq_append_conv2)
    then show ?thesis
    proof cases
      case 1
      then show ?thesis using \<open>l = a @ us\<close> by (auto simp: has_text_iff)
    next
      case 2
      then have "vs = []" using assms(1) by (cases vs) auto
      then show ?thesis using 2(1) \<open>l = a @ us\<close> by (metis append_Nil2 has_text_iff)
    qed
  next
    case 2
    then have "us \<noteq> []" using assms by (cases needle) auto
    then obtain vs where "r = vs @ needle @ b" using 2(2) by (cases us) auto
    then show ?thesis by (auto simp: has_text_iff)
  qed
next
  assume "has_text l needle \<or> has_text r needle"
  then show "has_text (l @ newline # r) needle"
    by (auto simp: has_text_iff) (metis append.assoc append_Cons)+
qed

definition log_of :: "string list \<Rightarrow> string" where
  "log_of ls = concat (map (\<lambda>l. l @ [newline]) ls)"

lemma has_text_log:
  assumes "newline \<notin> set needle" and "needle \<noteq> []"
  shows "has_text (log_of ls) needle \<longleftrightarrow> (\<exists>l \<in> set ls. has_text l needle)"
proof (induction ls)
  case Nil
  then show ?case using assms(2) by (simp add: log_of_def has_text_def)
next
  case (Cons l ls)
  have "log_of (l # ls) = l @ newline # log_of ls" by (simp add: log_of_def)
  then show ?case using Cons.IH has_text_line [OF assms] by simp
qed

lemma has_text_self: "has_text s s"
  by (auto simp: has_text_iff intro: exI [of _ "[]"])

lemma has_text_log_line: "l \<in> set ls \<Longrightarrow> has_text (log_of ls) l"
proof -
  assume "l \<in> set ls"
  then obtain xs ys where "ls = xs @ l # ys" by (meson split_list)
  then have "log_of ls = log_of xs @ l @ newline # log_of ys" by (simp add: log_of_def)
  then show ?thesis by (auto simp: has_text_iff)
qed

lemma comes_before_prefix:
  assumes "s = p @ a @ q" and "length b \<le> length a" and "\<not> has_text (p @ a) b" and "has_text s b"
  shows "comes_before s a b"
proof -
  have "has_text s a" using assms(1) by (auto simp: has_text_iff)
  then obtain i j where i: "find_text a s = Some i" and j: "find_text b s = Some j"
    using assms(4) by (auto simp: has_text_def)
  have "\<exists>rest. drop (length p) s = a @ rest" using assms(1) by simp
  then have "i \<le> length p" using i find_text_Some [of a s i] by (meson not_le)
  obtain rest where rest: "drop j s = b @ rest" using j find_text_Some by blast
  have "\<not> j \<le> length p"
  proof
    assume le: "j \<le> length p"
    have "take (length (p @ a) - j) (b @ rest) = drop j (p @ a)"
      using rest assms(1) le by (metis append.assoc drop_take append_eq_conv_conj length_append)
    then have "drop j (p @ a) = b @ take (length (p @ a) - j - length b) rest"
      using le assms(2) by simp
    then have "p @ a = take j (p @ a) @ b @ take (length (p @ a) - j - length b) rest"
      by (metis append_take_drop_id)
    then have "has_text (p @ a) b" unfolding has_text_iff by blast
    then show False using assms(3) by simp
  qed
  then show ?thesis using i j \<open>i \<le> length p\<close> by (auto simp: comes_before_def)
qed

text \<open>The expected lines after the ones the order is about.\<close>

definition SLOW_LINE :: string where "SLOW_LINE = ''oxinit: slow did not start in time''"
definition PATIENT_LINE :: string where "PATIENT_LINE = ''oxinit-m11: patient started''"
definition USER_LINE :: string where
  "USER_LINE = ''oxinit: the user manager for nobody: everything stopped; exiting''"
definition SYNC_LINE :: string where "SYNC_LINE = ''oxinit: syncing''"

definition FIRST_LINES :: "string list" where
  "FIRST_LINES = [MARKER, SLOW_LINE, USER_LINE, PATIENT_LINE]"

definition BOOT_LOG :: string where
  "BOOT_LOG = log_of (FIRST_LINES @ map fst EXPECTED)"

lemmas line_defs = SLOW_LINE_def PATIENT_LINE_def USER_LINE_def SYNC_LINE_def MARKER_def

lemma has_text_chars: "has_text s needle \<Longrightarrow> set needle \<subseteq> set s"
  by (auto simp: has_text_iff)

lemma first_lines_free:
  "\<forall>l \<in> set FIRST_LINES. \<not> has_text l ''panicked'' \<and> CHR ''K'' \<notin> set l \<and> squote \<notin> set l \<and> \<not> has_text l ''chatty-out''"
  by (simp add: FIRST_LINES_def line_defs has_text_def)

lemma expected_no_panic: "\<forall>x \<in> set EXPECTED. \<not> has_text (fst x) ''panicked''"
  by (simp add: EXPECTED_def has_text_def)

lemma expected_no_chatty: "\<forall>x \<in> set EXPECTED. \<not> has_text (fst x) ''chatty-out''"
  by (simp add: EXPECTED_def has_text_def)

lemma expected_chars: "\<forall>x \<in> set EXPECTED. CHR ''K'' \<notin> set (fst x) \<and> squote \<notin> set (fst x)"
  by (simp add: EXPECTED_def)

lemma expected_sync: "SYNC_LINE \<in> set (map fst EXPECTED)"
  by (simp add: EXPECTED_def SYNC_LINE_def)

lemma boot_log_forbidden: "\<forall>needle \<in> set FORBIDDEN. \<not> has_text BOOT_LOG needle"
proof -
  have l: "\<not> has_text l ''panicked'' \<and> CHR ''K'' \<notin> set l \<and> squote \<notin> set l \<and> \<not> has_text l ''chatty-out''"
    if "l \<in> set (FIRST_LINES @ map fst EXPECTED)" for l
    using that first_lines_free expected_no_panic expected_no_chatty expected_chars by auto
  have "\<not> has_text l needle" if "needle \<in> set FORBIDDEN" "l \<in> set (FIRST_LINES @ map fst EXPECTED)" for needle l
    using that(1) l [OF that(2)] has_text_chars [of l needle] by (auto simp: FORBIDDEN_def)
  moreover have "newline \<notin> set needle \<and> needle \<noteq> []" if "needle \<in> set FORBIDDEN" for needle
    using that by (auto simp: FORBIDDEN_def)
  ultimately show ?thesis unfolding BOOT_LOG_def using has_text_log by blast
qed

lemma boot_log_order: "comes_before BOOT_LOG SLOW_LINE PATIENT_LINE" "comes_before BOOT_LOG USER_LINE SYNC_LINE"
proof -
  let ?rest = "log_of (map fst EXPECTED)"
  have log: "BOOT_LOG = (MARKER @ [newline]) @ SLOW_LINE @ newline # USER_LINE @ newline # PATIENT_LINE @ newline # ?rest"
      "BOOT_LOG = (MARKER @ newline # SLOW_LINE @ [newline]) @ USER_LINE @ newline # PATIENT_LINE @ newline # ?rest"
    by (simp_all add: BOOT_LOG_def FIRST_LINES_def log_of_def)
  have "PATIENT_LINE \<in> set (FIRST_LINES @ map fst EXPECTED)" by (simp add: FIRST_LINES_def)
  moreover have "SYNC_LINE \<in> set (FIRST_LINES @ map fst EXPECTED)" using expected_sync by (metis UnI2 set_append)
  ultimately have lines: "has_text BOOT_LOG PATIENT_LINE" "has_text BOOT_LOG SYNC_LINE"
    unfolding BOOT_LOG_def by (simp_all only: has_text_log_line)
  show "comes_before BOOT_LOG SLOW_LINE PATIENT_LINE"
    by (rule comes_before_prefix [OF log(1) _ _ lines(1)]) (simp_all add: line_defs has_text_def)
  show "comes_before BOOT_LOG USER_LINE SYNC_LINE"
    by (rule comes_before_prefix [OF log(2) _ _ lines(2)]) (simp_all add: line_defs has_text_def)
qed

lemma boot_log_passes: "check_log BOOT_LOG EXPECTED FORBIDDEN SEQUENCE [] = Inr ()"
proof -
  have "\<forall>(needle, proves) \<in> set EXPECTED. has_text BOOT_LOG needle"
  proof (rule ballI, clarify)
    fix needle proves
    assume "(needle, proves) \<in> set EXPECTED"
    then have "needle \<in> set (FIRST_LINES @ map fst EXPECTED)" by force
    then show "has_text BOOT_LOG needle" unfolding BOOT_LOG_def by (rule has_text_log_line)
  qed
  moreover obtain p1 p2 where pairs: "SEQUENCE = [(SLOW_LINE, PATIENT_LINE, p1), (USER_LINE, SYNC_LINE, p2)]"
    by (simp add: SEQUENCE_def line_defs)
  have "\<forall>(first, second, proves) \<in> set SEQUENCE. comes_before BOOT_LOG first second"
    unfolding pairs using boot_log_order by simp
  ultimately show ?thesis using boot_log_forbidden by (simp only: check_log_passes simp_thms)
qed

lemma boot_log_marker: "has_text BOOT_LOG MARKER"
  unfolding BOOT_LOG_def by (intro has_text_log_line) (simp add: FIRST_LINES_def)

section \<open>The tests that pass there\<close>

lemma sample_test_boot: "yields (test_boot (sample_workshop BOOT_LOG) X86_64 []) (\<lambda>_. True)"
proof -
  have wait: "yields (wait_for (sample_workshop BOOT_LOG) (ar_timeout X86_64)) (\<lambda>x. x = True)"
    using sample_wait [of BOOT_LOG 89] by (simp add: X86_64_def)
  show ?thesis
    unfolding test_boot_def Let_def
    by (intro yields_bind [OF sample_find_kernel] yields_bind [OF sample_image [OF boot_log_marker]] yields_bind [OF wait]
        yields_bind [OF sample_yields(2)] yields_seq xt_yields) (simp_all add: clean_failures_def boot_log_passes xt_yields)
qed

theorem passing_boot_test_witness:
  "\<exists>h' cs. fst (test_boot (sample_workshop BOOT_LOG) X86_64 [] []) = Inr ()
     \<and> list_all patient cs \<and> length (filter (\<lambda>c. c = PollChild) cs) < 900
     \<and> wk_text (sample_workshop BOOT_LOG) h' = Inr BOOT_LOG \<and> has_text BOOT_LOG ''is ready''"
proof -
  obtain h' where h: "test_boot (sample_workshop BOOT_LOG) X86_64 [] [] = (Inr (), h')"
    using sample_test_boot by (auto simp: yields_def)
  have "(''is ready'', ''M2: sd_notify readiness'') \<in> set EXPECTED" by (simp add: EXPECTED_def)
  moreover have "ar_timeout X86_64 * 10 = 900" by (simp add: X86_64_def)
  moreover have "wk_text (sample_workshop BOOT_LOG) x = Inr BOOT_LOG" for x by (simp add: sample_workshop_def)
  ultimately show ?thesis using passing_boot_test [OF h] h by fastforce
qed



definition OVERDUE_LOG :: string where
  "OVERDUE_LOG = log_of (MARKER # map fst (wc_expected OVERDUE_CASE))"

lemma overdue_log_passes:
  "check_log OVERDUE_LOG (wc_expected OVERDUE_CASE) (wc_forbidden OVERDUE_CASE) [] [] = Inr ()"
proof -
  have l: "\<forall>l \<in> set (MARKER # map fst (wc_expected OVERDUE_CASE)). \<forall>needle \<in> set (wc_forbidden OVERDUE_CASE). \<not> has_text l needle"
    by (simp add: OVERDUE_CASE_def MARKER_def has_text_def)
  have n: "\<forall>needle \<in> set (wc_forbidden OVERDUE_CASE). newline \<notin> set needle \<and> needle \<noteq> []"
    by (simp add: OVERDUE_CASE_def)
  have "\<forall>needle \<in> set (wc_forbidden OVERDUE_CASE). \<not> has_text OVERDUE_LOG needle"
    unfolding OVERDUE_LOG_def using l n has_text_log by blast
  moreover have "\<forall>(needle, proves) \<in> set (wc_expected OVERDUE_CASE). has_text OVERDUE_LOG needle"
  proof (rule ballI, clarify)
    fix needle proves
    assume "(needle, proves) \<in> set (wc_expected OVERDUE_CASE)"
    then have "needle \<in> set (MARKER # map fst (wc_expected OVERDUE_CASE))" by force
    then show "has_text OVERDUE_LOG needle" unfolding OVERDUE_LOG_def by (rule has_text_log_line)
  qed
  ultimately show ?thesis by (simp add: check_log_passes)
qed

lemma overdue_log_marker: "has_text OVERDUE_LOG MARKER"
  unfolding OVERDUE_LOG_def by (intro has_text_log_line) simp

lemma sample_watchdog:
  "yields (watchdog_trial (sample_workshop OVERDUE_LOG) X86_64 ''k'' ''m'' ''b'' ''s'' OVERDUE_CASE) (\<lambda>_. True)"
proof -
  let ?w = "sample_workshop OVERDUE_LOG"
  have stage: "yields (stage_watchdog ?w X86_64 OVERDUE_CASE ''m'' ''b'' ''s'') (\<lambda>_. True)"
    unfolding stage_watchdog_def Let_def
    by (intro yields_bind [OF sample_staging [OF overdue_log_marker]] xt_yields) (auto simp: xt_yields split: prod.splits)
  have judge: "yields (judge_outcome ?w X86_64 log (wc_outcome OVERDUE_CASE)) (\<lambda>x. x = [])" for log
  proof -
    have t: "ar_timeout X86_64 = Suc 89" and o: "wc_outcome OVERDUE_CASE = Resets"
      by (simp_all add: X86_64_def OVERDUE_CASE_def)
    show ?thesis
      unfolding judge_outcome_def o watchdog_outcome.case t
      by (rule yields_bind [OF sample_wait]) (simp add: xt_yields)
  qed
  have pack: "yields (pack_tree ?w d img) (\<lambda>_. True)" for d img
    unfolding pack_tree_def by (intro xt_yields) simp
  show ?thesis
    unfolding watchdog_trial_def Let_def
    by (intro yields_bind [OF stage] yields_bind [OF judge] yields_bind [OF sample_yields(3)] yields_seq pack xt_yields)
      (simp_all add: overdue_log_passes xt_yields)
qed

theorem passing_watchdog_trial_witness:
  "\<exists>h' before qargs h2 log.
     watchdog_trial (sample_workshop OVERDUE_LOG) X86_64 ''k'' ''m'' ''b'' ''s'' OVERDUE_CASE [] = (Inr (), h')
     \<and> ''-no-reboot'' \<in> set qargs
     \<and> outcome_seen (sample_workshop OVERDUE_LOG) log Resets (before @ [SpawnChild (ar_qemu X86_64) qargs]) h2"
proof -
  obtain h' where h: "watchdog_trial (sample_workshop OVERDUE_LOG) X86_64 ''k'' ''m'' ''b'' ''s'' OVERDUE_CASE [] = (Inr (), h')"
    using sample_watchdog by (auto simp: yields_def)
  have "OVERDUE_CASE \<in> set WATCHDOG_CASES" by (simp add: WATCHDOG_CASES_def)
  moreover have "wc_outcome OVERDUE_CASE = Resets" by (simp add: OVERDUE_CASE_def)
  ultimately show ?thesis using passing_watchdog_trial [OF h] h by fastforce
qed

end
