(* ===== verification/LowLevel.thy ===== *)
theory LowLevel
  imports Probes
begin

text \<open>
  Small routines at the edge of the system: \<open>left_its_cgroup\<close> and \<open>terminate_cgroup\<close> of
  \<open>crates/oxinit/src/supervisor.rs\<close>, \<open>read_signals\<close> and \<open>write_all\<close> of \<open>sys/raw.rs\<close>, and the
  two ends of a socket in \<open>crates/listen-probe\<close>, with \<open>report\<close> and \<open>still_connected\<close>.  What \<open>Supervisor\<close> takes as the answer \<open>e_left\<close>
  is computed here from the text of \<open>/proc/PID/cgroup\<close>.
\<close>

section \<open>Where a process is\<close>

text \<open>The normal components of a path, and the ancestors of an absolute one with the leading slash
  stripped, the path first, the empty one left out.\<close>

definition path_components :: "string \<Rightarrow> string list" where
  "path_components p = filter (\<lambda>c. c \<noteq> [] \<and> c \<noteq> ''.'') (split_on (CHR ''/'') p)"

definition ancestor_tails :: "string \<Rightarrow> string list list" where
  "ancestor_tails p =
     (if path_is_absolute p
      then (let cs = path_components p in map (\<lambda>n. take n cs) (rev [1..<Suc (length cs)]))
      else [])"

text \<open>\<open>Path::ends_with\<close>, on components.\<close>

definition ends_with :: "'a list \<Rightarrow> 'a list \<Rightarrow> bool" where
  "ends_with cs tail \<longleftrightarrow> length tail \<le> length cs \<and> drop (length cs - length tail) cs = tail"

definition unified_path :: "string \<Rightarrow> string option" where
  "unified_path content = find_map (strip_prefix ''0::'') (text_lines content)"

text \<open>The first argument is the text of the file, if it could be read.\<close>

definition left_its_cgroup :: "string option \<Rightarrow> string \<Rightarrow> bool" where
  "left_its_cgroup content cgroup =
     (case content of
        None \<Rightarrow> False
      | Some t \<Rightarrow>
          (case unified_path t of
             None \<Rightarrow> False
           | Some path \<Rightarrow> \<not> list_ex (ends_with (path_components cgroup)) (ancestor_tails path)))"

text \<open>\<open>terminate\<close>: a number that is no pid is not signalled; \<open>kill\<close> is the kernel's answer.\<close>

definition terminate_pid :: "(nat \<Rightarrow> bool) \<Rightarrow> nat \<Rightarrow> bool" where
  "terminate_pid kill pid \<longleftrightarrow> 0 < pid \<and> pid < 2 ^ 31 \<and> kill pid"

definition terminate_cgroup :: "(nat \<Rightarrow> bool) \<Rightarrow> string + nat list \<Rightarrow> nat" where
  "terminate_cgroup kill pids =
     length (filter (terminate_pid kill) (case pids of Inl e \<Rightarrow> [] | Inr ps \<Rightarrow> ps))"

section \<open>Signals\<close>

definition SIGINFO_SIZE :: nat where "SIGINFO_SIZE = 128"

text \<open>\<open>u32::from_ne_bytes\<close> on the little-endian targets.\<close>

definition le_u32 :: "string \<Rightarrow> nat" where
  "le_u32 b = foldr (\<lambda>c n. scalar c + 256 * n) b 0"

text \<open>\<open>as_chunks\<close>: the whole records, what is left over dropped.\<close>

function whole_records :: "string \<Rightarrow> string list" where
  "whole_records b =
     (if length b < SIGINFO_SIZE then [] else take SIGINFO_SIZE b # whole_records (drop SIGINFO_SIZE b))"
  by pat_completeness auto
termination
  by (relation "measure length") (auto simp: SIGINFO_SIZE_def)

declare whole_records.simps [simp del]

definition read_signals :: "string + string \<Rightarrow> string + nat list" where
  "read_signals answer =
     (case answer of
        Inl e \<Rightarrow> Inl e
      | Inr bytes \<Rightarrow> Inr (map (\<lambda>r. le_u32 (take 4 r)) (whole_records (take (SIGINFO_SIZE * 8) bytes))))"

section \<open>Writing everything\<close>

datatype write_outcome = Wrote nat | WriteInterrupted | WriteFailed string

text \<open>The loop of \<open>write_all\<close> over what the kernel answers: the chunks that went out, and the end;
  \<open>None\<close> when the answers run out before it does.\<close>

fun write_all :: "write_outcome list \<Rightarrow> string \<Rightarrow> string list \<times> (string + unit) option" where
  "write_all answers [] = ([], Some (Inr ()))"
| "write_all [] (c # buf) = ([], None)"
| "write_all (answer # answers) (c # buf) =
     (case answer of
        WriteInterrupted \<Rightarrow> write_all answers (c # buf)
      | WriteFailed e \<Rightarrow> ([], Some (Inl e))
      | Wrote n \<Rightarrow>
          if n = 0 then ([], Some (Inl ''write zero''))
          else (let (out, r) = write_all answers (drop n (c # buf)) in (take n (c # buf) # out, r)))"

section \<open>The ends of a socket\<close>

definition HTTP_BODY :: string where
  "HTTP_BODY = ''oxinit started this service because you connected.'' @ [newline] @ ''It was not running a moment ago.'' @ [newline]"

abbreviation crlf :: string where "crlf \<equiv> [creturn, newline]"

definition http_response :: string where
  "http_response =
     ''HTTP/1.1 200 OK'' @ crlf @ ''Content-Type: text/plain'' @ crlf @ ''Content-Length: '' @ show_nat (length HTTP_BODY) @ crlf @
     ''Connection: close'' @ crlf @ crlf @ HTTP_BODY"

text \<open>What a serving mode sends when nothing fails, from the bytes it reads first: \<open>serve\<close> echoes,
  \<open>http\<close> ignores them, \<open>recv\<close> answers nothing.\<close>

definition http_probe :: "string list \<Rightarrow> nat \<Rightarrow> string \<Rightarrow> string + unit \<Rightarrow> string + unit \<Rightarrow> string + string" where
  "http_probe envp mine name conn write =
     (case inherited envp mine name of
        Inl e \<Rightarrow> Inl e
      | Inr i \<Rightarrow>
          (case conn of
             Inl e \<Rightarrow> Inl (''accept: '' @ e)
           | Inr _ \<Rightarrow> (case write of Inl e \<Rightarrow> Inl (''write: '' @ e) | Inr _ \<Rightarrow> Inr http_response)))"

definition recv_probe ::
    "(string \<Rightarrow> string) \<Rightarrow> string list \<Rightarrow> nat \<Rightarrow> string \<Rightarrow> string + string \<Rightarrow> string + string" where
  "recv_probe lossy envp mine name datagram =
     (case inherited envp mine name of
        Inl e \<Rightarrow> Inl e
      | Inr i \<Rightarrow> (case datagram of Inl e \<Rightarrow> Inl (''recv: '' @ e) | Inr b \<Rightarrow> Inr (lossy (take 64 b))))"

definition send_probe :: "string option \<Rightarrow> string option \<Rightarrow> string \<Rightarrow> string + string \<times> string" where
  "send_probe unbound sent path =
     (case unbound of
        Some e \<Rightarrow> Inl (''socket: '' @ e)
      | None \<Rightarrow> (case sent of Some e \<Rightarrow> Inl (''send to '' @ path @ '': '' @ e) | None \<Rightarrow> Inr (path, ''knock'')))"

text \<open>\<open>connect\<close>: what is sent, and the reply read to its end.\<close>

definition connect_probe ::
    "string option \<Rightarrow> string option \<Rightarrow> string + string \<Rightarrow> string \<Rightarrow> string + string \<times> string" where
  "connect_probe connected wrote reply path =
     (case connected of
        Some e \<Rightarrow> Inl (''connect '' @ path @ '': '' @ e)
      | None \<Rightarrow>
          (case wrote of
             Some e \<Rightarrow> Inl (''write: '' @ e)
           | None \<Rightarrow> (case reply of Inl e \<Rightarrow> Inl (''read: '' @ e) | Inr answer \<Rightarrow> Inr (''hello'', answer))))"

section \<open>A process at or below its cgroup has not left it\<close>

lemma ancestor_tails_set:
  "tail \<in> set (ancestor_tails p) \<longleftrightarrow> path_is_absolute p \<and> tail \<noteq> [] \<and> (\<exists>rest. path_components p = tail @ rest)"
proof -
  have "(\<exists>n \<in> {1..<Suc (length cs)}. tail = take n cs) \<longleftrightarrow> tail \<noteq> [] \<and> (\<exists>rest. cs = tail @ rest)" for cs :: "string list"
  proof
    assume "\<exists>n \<in> {1..<Suc (length cs)}. tail = take n cs"
    then obtain n where "1 \<le> n" "n \<le> length cs" "tail = take n cs" by auto
    then show "tail \<noteq> [] \<and> (\<exists>rest. cs = tail @ rest)" by (auto intro: exI [of _ "drop n cs"])
  next
    assume "tail \<noteq> [] \<and> (\<exists>rest. cs = tail @ rest)"
    then show "\<exists>n \<in> {1..<Suc (length cs)}. tail = take n cs"
      by (intro bexI [of _ "length tail"]) (auto simp: Suc_le_eq)
  qed
  then show ?thesis by (auto simp: ancestor_tails_def Let_def image_iff simp del: upt_Suc)
qed

lemma ends_with_append [simp]: "ends_with (a @ tail) tail"
  by (simp add: ends_with_def)

lemma ends_with_iff: "ends_with cs tail \<longleftrightarrow> (\<exists>a. cs = a @ tail)"
  by (metis append_take_drop_id ends_with_append ends_with_def)

lemma left_its_cgroup_iff:
  assumes "unified_path t = Some path"
  shows "left_its_cgroup (Some t) cgroup \<longleftrightarrow>
     \<not> (path_is_absolute path \<and> (\<exists>tail rest mount. tail \<noteq> [] \<and> path_components path = tail @ rest
          \<and> path_components cgroup = mount @ tail))"
  using assms by (auto simp: left_its_cgroup_def list_ex_iff ends_with_iff ancestor_tails_set)

lemma below_is_not_left:
  assumes "unified_path t = Some path" and "path_is_absolute path"
    and "path_components cgroup = mount @ unit_path" and "unit_path \<noteq> []" and "path_components path = unit_path @ below"
  shows "\<not> left_its_cgroup (Some t) cgroup"
  using assms left_its_cgroup_iff [OF assms(1)] by blast

text \<open>A cgroup of the same name directly under the root counts as the unit's own.\<close>

lemma namesake_is_not_left:
  "\<not> left_its_cgroup (Some (''0::/web'' @ [newline])) ''/sys/fs/cgroup/oxinit/web''"
  by (simp add: left_its_cgroup_def unified_path_def text_lines_def strip_cr_def ancestor_tails_def path_is_absolute_def
      path_components_def ends_with_def Let_def)

section \<open>Signals come out as they went in\<close>

definition signal_record :: "nat \<Rightarrow> string \<Rightarrow> string" where
  "signal_record n rest = map (\<lambda>i. char_of (n div 256 ^ i)) [0..<4] @ rest"

lemma le_u32_record:
  assumes "n < 2 ^ 32"
  shows "le_u32 (take 4 (signal_record n rest)) = n"
proof -
  let ?a = "n div 256" and ?b = "n div 65536" and ?c = "n div 16777216"
  have upt: "[0..<4] = [0, 1, 2, 3]" by (simp add: upt_rec)
  have b: "?b = ?a div 256" and c: "?c = ?b div 256" by (simp_all add: div_mult2_eq [symmetric])
  have "?c < 256" using assms by (simp add: less_mult_imp_div_less)
  then have c': "?c mod 256 = ?c" by simp
  moreover have "x mod 256 + 256 * (x div 256) = x" for x :: nat by simp
  ultimately have "n mod 256 + 256 * (?a mod 256 + 256 * (?b mod 256 + 256 * (?c mod 256))) = n"
    by (metis b c)
  then show ?thesis
    by (simp add: le_u32_def signal_record_def upt scalar_def c')
qed

lemma whole_records_concat:
  "\<forall>r \<in> set rs. length r = SIGINFO_SIZE \<Longrightarrow> whole_records (concat rs) = rs"
  by (induction rs) (simp_all add: whole_records.simps [of "[]"] whole_records.simps [of "_ @ _"] SIGINFO_SIZE_def)

text \<open>Up to eight pending signals are read in one go, in their order.\<close>

lemma signals_come_out:
  assumes "\<forall>(n, rest) \<in> set ps. n < 2 ^ 32 \<and> length rest = SIGINFO_SIZE - 4" and "length ps \<le> 8"
  shows "read_signals (Inr (concat (map (\<lambda>(n, rest). signal_record n rest) ps))) = Inr (map fst ps)"
proof -
  let ?rs = "map (\<lambda>(n, rest). signal_record n rest) ps"
  have len: "\<forall>r \<in> set ?rs. length r = SIGINFO_SIZE"
    using assms(1) by (auto simp: signal_record_def SIGINFO_SIZE_def)
  then have "length (concat ?rs) = length ps * SIGINFO_SIZE" by (induction ps) auto
  then have "take (SIGINFO_SIZE * 8) (concat ?rs) = concat ?rs" using assms(2) by (simp add: SIGINFO_SIZE_def)
  moreover have "map (\<lambda>r. le_u32 (take 4 r)) ?rs = map fst ps" using assms(1) le_u32_record by auto
  ultimately show ?thesis using whole_records_concat [OF len] by (simp add: read_signals_def)
qed

lemma write_all_prefix:
  "write_all answers buf = (out, r) \<Longrightarrow> \<exists>rest. buf = concat out @ rest \<and> (r = Some (Inr ()) \<longrightarrow> rest = [])"
proof (induction answers arbitrary: buf out r)
  case Nil
  then show ?case by (cases buf) auto
next
  case (Cons answer answers)
  show ?case
  proof (cases buf)
    case (Cons c cs)
    show ?thesis
    proof (cases answer)
      case (Wrote n)
      show ?thesis
      proof (cases "n = 0")
        case False
        obtain out' where o: "write_all answers (drop n buf) = (out', r)" "out = take n buf # out'"
          using Cons.prems Cons Wrote False by (auto split: prod.splits)
        then show ?thesis using Cons.IH [OF o(1)] by (metis append.assoc append_take_drop_id concat.simps(2))
      qed (use Cons.prems Cons Wrote in auto)
    qed (use Cons.prems Cons Cons.IH in auto)
  qed (use Cons.prems in auto)
qed

section \<open>What a signal prints\<close>

text \<open>\<open>report\<close>, which \<open>SIGUSR2\<close> asks for: every unit, on a line of its own.\<close>

definition report_line :: "string \<Rightarrow> inst \<Rightarrow> string" where
  "report_line name i =
     ''  '' @ name @ '' ('' @ kind_name (u_kind (in_unit i)) @ ''): '' @ show_state (in_state i)
     @ (case in_child i of None \<Rightarrow> '''' | Some pid \<Rightarrow> '', pid '' @ show_nat pid)
     @ (if in_restarts i > 0 then '', '' @ show_nat (in_restarts i) @ '' restart(s)'' else '''')
     @ (case in_status i of None \<Rightarrow> '''' | Some text \<Rightarrow> '', '' @ text)"

definition report_lines :: "sup \<Rightarrow> string list" where
  "report_lines s =
     (''oxinit: '' @ show_nat (length (s_instances s)) @ '' units'')
     # map (\<lambda>(name, i). report_line name i) (s_instances s)"

section \<open>Whether a shipper is there\<close>

text \<open>\<open>still_connected\<close>: it never sends anything, so a read of nothing is the end of it, and an
  error is not.\<close>

definition still_connected :: "bool \<Rightarrow> errno + nat \<Rightarrow> bool" where
  "still_connected connected answer \<longleftrightarrow> connected \<and> answer \<noteq> Inr 0"

lemma only_the_end_disconnects: "still_connected True (Inl e)" "\<not> still_connected True (Inr 0)"
  by (simp_all add: still_connected_def)

end
