(* ===== verification/SupervisorRefines.thy ===== *)
theory SupervisorRefines
  imports SupervisorQueue
begin

text \<open>
  The supervisor refines a guarded specification of its instances.  The specification says,
  for one event and the state the supervisor was in when it arrived, which moves an instance
  may make: a process that ended is the instance's own, a message counts only for the sender
  and readiness only while the unit is activating, a start has a reason and does not happen
  during a shutdown, a deadline moves the unit only when it is due, a restart request and a
  queue entry exist before they are acted on.  Every handler, over any events on a machine
  just loaded, moves each instance along it, and only a reload replaces, adds or drops one.
\<close>

section \<open>What an event may ask for\<close>

definition alarm_due :: "env \<Rightarrow> sup \<Rightarrow> alarm \<Rightarrow> bool" where
  "alarm_due env s a \<longleftrightarrow> (\<exists>t \<le> e_now env. (t, a) \<in> set (tm_heap (s_timers s)))"

definition wall_alarm_due :: "env \<Rightarrow> sup \<Rightarrow> alarm \<Rightarrow> bool" where
  "wall_alarm_due env s a \<longleftrightarrow> (\<exists>t \<le> e_unix env. (t, a) \<in> set (tm_wall (s_timers s)))"

text \<open>\<open>t\<close> is a timer unit that starts \<open>n\<close>.\<close>

definition timer_starts :: "sup \<Rightarrow> string \<Rightarrow> string \<Rightarrow> bool" where
  "timer_starts s t n \<longleftrightarrow> (\<exists>u ti. unit_of s t = Some u \<and> unit_timer u = Some ti \<and> ti_service ti = n)"

text \<open>The event asks for a start of a unit that is in this state.\<close>

fun asks :: "env \<Rightarrow> sup \<Rightarrow> event \<Rightarrow> string \<Rightarrow> state \<Rightarrow> bool" where
  "asks env s EvTimer n st \<longleftrightarrow> alarm_due env s (AlarmRestart n) \<and> st = Restarting
     \<or> (\<exists>t. alarm_due env s (TimerElapsed t) \<and> timer_starts s t n) \<and> is_idle st"
| "asks env s EvWallTimer n st \<longleftrightarrow> (\<exists>t. wall_alarm_due env s (TimerElapsed t) \<and> timer_starts s t n) \<and> is_idle st"
| "asks env s (EvSocket ident) n st \<longleftrightarrow>
     ident < length (s_sockets s) \<and> bd_service (s_sockets s ! ident) = n \<and> is_idle st"
| "asks env s (EvRequest l (RStart m)) n st \<longleftrightarrow> m = n"
| "asks env s (EvRequest l (RRestart m)) n st \<longleftrightarrow> m = n \<and> is_idle st"
| "asks env s EvPump n st \<longleftrightarrow> n \<in> set (s_pending s)"
| "asks env s (EvSigchld reaped) n st \<longleftrightarrow> n \<in> set (s_pending_restart s) \<and> (is_idle st \<or> st = Restarting)"
| "asks env s (EvCgroup ident) n st \<longleftrightarrow> n \<in> set (s_pending_restart s) \<and> (is_idle st \<or> st = Restarting)"
| "asks env s ev n st \<longleftrightarrow> False"

text \<open>The event stops the unit for this cause.\<close>

fun stops :: "env \<Rightarrow> sup \<Rightarrow> event \<Rightarrow> string \<Rightarrow> stop_cause \<Rightarrow> inst \<Rightarrow> bool" where
  "stops env s (EvRequest l (RStop m)) n cause i \<longleftrightarrow> m = n \<and> cause = Requested"
| "stops env s (EvRequest l (RRestart m)) n cause i \<longleftrightarrow> m = n \<and> cause = Requested \<and> \<not> shutting_down s"
| "stops env s (EvShutdown a) n cause i \<longleftrightarrow> cause = Requested \<and> \<not> shutting_down s"
| "stops env s EvTimer n cause i \<longleftrightarrow> cause = WatchdogMissed \<and>
     (in_state i = Activating \<and> alarm_due env s (StartTimeout n)
      \<or> alarm_due env s (WatchdogCheck n) \<and> (\<exists>limit. Option.bind (unit_service (in_unit i)) sv_watchdog_sec = Some limit
           \<and> watchdog_expired (e_now env) limit i))"
| "stops env s ev n cause i \<longleftrightarrow> False"

definition conflict_between :: "sup \<Rightarrow> string \<Rightarrow> string \<Rightarrow> bool" where
  "conflict_between s m n \<longleftrightarrow>
     (\<exists>u. unit_of s m = Some u \<and> n \<in> set (conflicts (u_deps u))) \<or>
     (\<exists>u. unit_of s n = Some u \<and> m \<in> set (conflicts (u_deps u)))"

text \<open>The unit's cgroup is empty, as far as the event shows.\<close>

fun emptied :: "env \<Rightarrow> sup \<Rightarrow> event \<Rightarrow> string \<Rightarrow> inst \<Rightarrow> bool" where
  "emptied env s (EvSigchld reaped) n i \<longleftrightarrow> in_child i = None \<and> \<not> (has_cgroup s n \<and> e_populated env n)"
| "emptied env s (EvCgroup ident) n i \<longleftrightarrow> cgroup_unit s ident = Some n \<and> e_events env ident = Some False"
| "emptied env s ev n i \<longleftrightarrow> False"

text \<open>An end that schedules a restart, which a shutdown takes back.\<close>

definition unless_down :: "sup \<Rightarrow> inst \<times> duration option \<Rightarrow> inst" where
  "unless_down s jd = (if snd jd \<noteq> None \<and> shutting_down s then cancel_restart (fst jd) else fst jd)"

text \<open>What a message alone does.\<close>

definition spoken :: "env \<Rightarrow> message \<Rightarrow> inst \<Rightarrow> inst" where
  "spoken env m i =
     (let i1 = (case m_status m of None \<Rightarrow> i | Some st \<Rightarrow> i\<lparr>in_status := Some st\<rparr>) in
      if m_watchdog m then pinged (e_now env) i1 else i1)"

text \<open>What starting the unit makes of it: the child is one that forking for this unit returned.\<close>

definition begun :: "env \<Rightarrow> inst \<Rightarrow> inst \<Rightarrow> bool" where
  "begun env i j \<longleftrightarrow>
     (case unit_service (in_unit i) of
        None \<Rightarrow> j = entered_active (e_now env) i
      | Some sv \<Rightarrow> j = failed_to_start i \<or>
          (\<exists>r pid. e_fork env r = Some pid \<and> sr_unit r = u_name (in_unit i) \<and> sr_exec r = sv_exec sv \<and>
             j = (if sv_ty sv = Simple then entered_active (e_now env) (entered_activating pid i)
                  else entered_activating pid i)))"

section \<open>The specification\<close>

inductive allowed_step :: "env \<Rightarrow> sup \<Rightarrow> event \<Rightarrow> string \<Rightarrow> inst \<Rightarrow> inst \<Rightarrow> bool"
  for env :: env and s :: sup and ev :: event and n :: string where
  al_heard: "ev = EvNotify ms \<Longrightarrow> m \<in> set ms \<Longrightarrow> in_child i = Some (m_pid m) \<Longrightarrow>
     \<not> (m_ready m \<and> in_state i = Activating) \<Longrightarrow> allowed_step env s ev n i (spoken env m i)"
| al_ready: "ev = EvNotify ms \<Longrightarrow> m \<in> set ms \<Longrightarrow> in_child i = Some (m_pid m) \<Longrightarrow> m_ready m \<Longrightarrow>
     in_state i = Activating \<Longrightarrow> allowed_step env s ev n i (entered_active (e_now env) (spoken env m i))"
| al_start: "\<not> shutting_down s \<Longrightarrow> asks env s ev n (in_state i) \<Longrightarrow>
     k = i \<or> conflict_between s n n \<and> \<not> is_idle (in_state i) \<and> k = stopped_inst env Requested i \<Longrightarrow>
     begun env k j \<Longrightarrow> allowed_step env s ev n i j"
| al_requirement: "ev = EvPump \<Longrightarrow> \<not> shutting_down s \<Longrightarrow> n \<in> set (s_pending s) \<Longrightarrow>
     requires (u_deps (in_unit i)) \<noteq> [] \<Longrightarrow> allowed_step env s ev n i (failed_to_start i)"
| al_conflict: "\<not> shutting_down s \<Longrightarrow> asks env s ev m st \<Longrightarrow> m \<noteq> n \<Longrightarrow> conflict_between s m n \<Longrightarrow>
     \<not> is_idle (in_state i) \<Longrightarrow> allowed_step env s ev n i (stopped_inst env Requested i)"
| al_stop: "stops env s ev n cause i \<Longrightarrow> allowed_step env s ev n i (stopped_inst env cause i)"
| al_timed_out: "ev = EvTimer \<Longrightarrow> alarm_due env s (StopTimeout n) \<Longrightarrow> in_state i = Deactivating \<Longrightarrow>
     allowed_step env s ev n i (stop_timed_out i)"
| al_forked: "ev = EvSigchld reaped \<Longrightarrow> (pid, code, signal) \<in> set reaped \<Longrightarrow> in_child i = Some pid \<Longrightarrow>
     inst_ty i = Some Forking \<Longrightarrow> in_state i = Activating \<Longrightarrow>
     j = (if has_cgroup s n \<and> from_status code signal = CleanExit \<and> e_populated env n
          then forked_away (e_now env) i else failed_to_start i) \<Longrightarrow> allowed_step env s ev n i j"
| al_exit: "ev = EvSigchld reaped \<Longrightarrow> (pid, code, signal) \<in> set reaped \<Longrightarrow> in_child i = Some pid \<Longrightarrow>
     \<not> (inst_ty i = Some Forking \<and> in_state i = Activating) \<Longrightarrow>
     allowed_step env s ev n i (unless_down s (on_exit (e_now env) (from_status code signal) i))"
| al_emptied: "emptied env s ev n i \<Longrightarrow> in_state i = Deactivating \<Longrightarrow>
     allowed_step env s ev n i (unless_down s (deactivated (e_now env) i))"
| al_vanished: "ev = EvCgroup ident \<Longrightarrow> cgroup_unit s ident = Some n \<Longrightarrow> e_events env ident = Some False \<Longrightarrow>
     in_state i = Active \<Longrightarrow> in_child i = None \<Longrightarrow>
     allowed_step env s ev n i (fst (on_exit (e_now env) AbnormalExit i))"

inductive_cases allowed_stepE: "allowed_step env s ev n i j"

text \<open>What a reload makes of the instance of \<open>n\<close>.\<close>

definition reloaded :: "loaded \<Rightarrow> string \<Rightarrow> inst option \<Rightarrow> inst option" where
  "reloaded l n io =
     (if l_errors l \<noteq> [] then io
      else case (bget (l_units l) n, io) of
        (None, None) \<Rightarrow> None
      | (None, Some i) \<Rightarrow> if is_idle (in_state i) then None else Some i
      | (Some u, None) \<Rightarrow> Some (inst_new u)
      | (Some u, Some i) \<Rightarrow> if in_unit i = u \<or> \<not> is_idle (in_state i) then Some i else Some (inst_new u))"

lemma spoken_fields [simp]:
  "in_unit (spoken env m i) = in_unit i" "in_state (spoken env m i) = in_state i"
  "in_child (spoken env m i) = in_child i" "in_stop_cause (spoken env m i) = in_stop_cause i"
  "in_restarts (spoken env m i) = in_restarts i" "in_killed (spoken env m i) = in_killed i"
  by (auto simp: spoken_def pinged_def Let_def split: option.splits)

lemma stopped_unit [simp]: "in_unit (stopped_inst env c i) = in_unit i"
  by (auto simp: stopped_inst_def inst_op_defs)

lemma allowed_step_unit: "allowed_step env s ev n i j \<Longrightarrow> in_unit j = in_unit i"
  by (erule allowed_stepE)
    (auto simp: begun_def unless_down_def inst_op_defs split: option.splits if_splits)

lemma allowed_steps_unit: "(allowed_step env s ev n)\<^sup>*\<^sup>* i j \<Longrightarrow> in_unit j = in_unit i"
  by (induction rule: rtranclp_induct) (simp_all add: allowed_step_unit)

section \<open>What every operation keeps\<close>

lemma cgroups_kept [simp]:
  "s_cgroups (upd_inst n f s) = s_cgroups s" "s_cgroups (sched env d a s) = s_cgroups s"
  "s_cgroups (emit es s) = s_cgroups s" "s_cgroups (dequeue n s) = s_cgroups s"
  "s_cgroups (signal_unit env n c s) = s_cgroups s" "s_cgroups (sup_arm env n nx s) = s_cgroups s"
  by (auto simp: upd_inst_def sched_def emit_def dequeue_def signal_unit_def sup_arm_def Let_def
      split: option.splits prod.splits)

lemma restarts_kept [simp]:
  "s_pending_restart (emit es s) = s_pending_restart s" "s_pending_restart (dequeue n s) = s_pending_restart s"
  "s_pending_restart (signal_unit env n c s) = s_pending_restart s"
  "s_pending_restart (sup_arm env n nx s) = s_pending_restart s"
  by (auto simp: emit_def dequeue_def signal_unit_def sup_arm_def Let_def split: option.splits prod.splits)

lemma stop_kept [simp]:
  "s_cgroups (sup_stop env n c s) = s_cgroups s" "s_pending_restart (sup_stop env n c s) = s_pending_restart s"
  by (auto simp: sup_stop_def Let_def split: option.splits)

lemma conflicting_kept [simp]:
  "s_cgroups (fold (stop_conflicting env) ns s) = s_cgroups s"
  "s_pending_restart (fold (stop_conflicting env) ns s) = s_pending_restart s"
  "set (s_pending (fold (stop_conflicting env) ns s)) \<subseteq> set (s_pending s)"
proof -
  have one: "s_cgroups (stop_conflicting env m s) = s_cgroups s"
    "s_pending_restart (stop_conflicting env m s) = s_pending_restart s"
    "set (s_pending (stop_conflicting env m s)) \<subseteq> set (s_pending s)" for m s
    by (auto simp: stop_conflicting_def split: option.splits)
  show "s_cgroups (fold (stop_conflicting env) ns s) = s_cgroups s"
    "s_pending_restart (fold (stop_conflicting env) ns s) = s_pending_restart s"
    by (induction ns arbitrary: s) (simp_all add: one)
  show "set (s_pending (fold (stop_conflicting env) ns s)) \<subseteq> set (s_pending s)"
    by (induction ns arbitrary: s) (use one(3) in \<open>auto, blast\<close>)
qed

lemma start_kept [simp]:
  "s_cgroups (start_unit env n s) = s_cgroups s" "s_pending_restart (start_unit env n s) = s_pending_restart s"
  by (auto simp: start_unit_def start_service_def Let_def split: option.splits kind.splits sum.splits)

definition kept :: "event \<Rightarrow> sup \<Rightarrow> sup \<Rightarrow> bool" where
  "kept ev s t \<longleftrightarrow> ikeys t = ikeys s \<and> s_cgroups t = s_cgroups s
     \<and> ((\<forall>a. ev \<noteq> EvShutdown a) \<longrightarrow> s_shutdown t = s_shutdown s)
     \<and> set (s_pending t) \<subseteq> set (s_pending s)
     \<and> (\<forall>m \<in> set (s_pending_restart t). m \<in> set (s_pending_restart s) \<or> (\<exists>l. ev = EvRequest l (RRestart m)))"

lemma kept_refl [simp]: "kept ev s s"
  by (simp add: kept_def)

lemma kept_trans: "kept ev s t \<Longrightarrow> kept ev t u \<Longrightarrow> kept ev s u"
  by (auto simp: kept_def)

lemma ikeys_start_unit [simp]: "ikeys (start_unit env n s) = ikeys s"
  by (auto simp: start_unit_def start_service_def Let_def split: option.splits kind.splits sum.splits)

lemma kept_ops [simp]:
  "kept ev s (upd_inst n f s)" "kept ev s (sched env d a s)" "kept ev s (emit es s)" "kept ev s (dequeue n s)"
  "kept ev s (sup_arm env n nx s)" "kept ev s (sup_stop env n c s)" "kept ev s (start_unit env n s)"
  "kept ev s (fold (stop_conflicting env) ns s)" "kept ev s (s\<lparr>s_pending := []\<rparr>)" "kept ev s (s\<lparr>s_timers := t\<rparr>)"
  "kept ev s (s\<lparr>s_pending_restart := filter P (s_pending_restart s)\<rparr>)" "kept ev s (sync_sockets env s)"
  using conflicting_kept(3) by (auto simp: kept_def) (auto simp: dequeue_def sync_sockets_def)

section \<open>The simulation\<close>

definition follows :: "env \<Rightarrow> event \<Rightarrow> sup \<Rightarrow> sup \<Rightarrow> bool" where
  "follows env ev s0 s \<longleftrightarrow> kept ev s0 s
     \<and> (\<forall>n. rel_option ((allowed_step env s0 ev n)\<^sup>*\<^sup>*) (get_inst s0 n) (get_inst s n))"

lemma follows_refl [simp]: "follows env ev s s"
  by (simp add: follows_def option.rel_refl)

lemma get_None_ikeys: "get_inst s n = None \<longleftrightarrow> n \<notin> set (ikeys s)"
  by (simp add: get_inst_def ikeys_def bget_None_iff)

lemma follows_same:
  "follows env ev s0 s \<Longrightarrow> kept ev s t \<Longrightarrow> get_inst t = get_inst s \<Longrightarrow> follows env ev s0 t"
  using kept_trans by (auto simp: follows_def)

lemma follows_step:
  assumes f: "follows env ev s0 s" and k: "kept ev s t"
    and step: "\<And>n i. get_inst s n = Some i \<Longrightarrow>
      \<exists>j. get_inst t n = Some j \<and> (j = i \<or> allowed_step env s0 ev n i j)"
  shows "follows env ev s0 t"
proof -
  have "rel_option ((allowed_step env s0 ev n)\<^sup>*\<^sup>*) (get_inst s0 n) (get_inst t n)" for n
  proof (cases "get_inst s n")
    case None
    then have "get_inst t n = None" using k by (simp add: get_None_ikeys kept_def)
    moreover have "get_inst s0 n = None" using f None by (auto simp: follows_def option_rel_Some2 dest: spec [of _ n])
    ultimately show ?thesis by simp
  next
    case (Some i)
    then obtain i0 where i0: "get_inst s0 n = Some i0" "(allowed_step env s0 ev n)\<^sup>*\<^sup>* i0 i"
      using f by (auto simp: follows_def option_rel_Some2 dest!: spec [of _ n])
    obtain j where "get_inst t n = Some j" "j = i \<or> allowed_step env s0 ev n i j" using step [OF Some] by blast
    then show ?thesis using i0 by (auto intro: rtranclp.rtrancl_into_rtrancl)
  qed
  then show ?thesis using f k kept_trans by (auto simp: follows_def)
qed

lemma follows_one:
  assumes "follows env ev s0 s" and "kept ev s t" and "\<And>m. m \<noteq> n \<Longrightarrow> get_inst t m = get_inst s m"
    and "\<And>i. get_inst s n = Some i \<Longrightarrow> \<exists>j. get_inst t n = Some j \<and> (j = i \<or> allowed_step env s0 ev n i j)"
  shows "follows env ev s0 t"
  by (rule follows_step [OF assms(1,2)]) (metis assms(3,4))

lemma follows_upd:
  assumes "follows env ev s0 s" and "\<And>i. get_inst s n = Some i \<Longrightarrow> f i = i \<or> allowed_step env s0 ev n i (f i)"
  shows "follows env ev s0 (upd_inst n f s)"
  by (rule follows_one [OF assms(1), where n = n]) (use assms(2) in auto)

lemma follows_fold:
  "(\<And>x s. x \<in> set xs \<Longrightarrow> follows env ev s0 s \<Longrightarrow> follows env ev s0 (f x s)) \<Longrightarrow>
     follows env ev s0 s \<Longrightarrow> follows env ev s0 (fold f xs s)"
  by (induction xs arbitrary: s) simp_all

lemma follows_unit: "follows env ev s0 s \<Longrightarrow> unit_of s = unit_of s0"
proof
  fix n
  assume "follows env ev s0 s"
  then have "rel_option ((allowed_step env s0 ev n)\<^sup>*\<^sup>*) (get_inst s0 n) (get_inst s n)" by (simp add: follows_def)
  then show "unit_of s n = unit_of s0 n"
    by (cases "get_inst s0 n"; cases "get_inst s n") (auto simp: unit_of_def allowed_steps_unit)
qed

lemma follows_down:
  "follows env ev s0 s \<Longrightarrow> (\<And>a. ev \<noteq> EvShutdown a) \<Longrightarrow> shutting_down s = shutting_down s0"
  by (simp add: follows_def kept_def shutting_down_def)

lemma follows_cgroup: "follows env ev s0 s \<Longrightarrow> has_cgroup s = has_cgroup s0"
  by (auto simp: follows_def kept_def has_cgroup_def)

lemma follows_stop:
  assumes "follows env ev s0 s"
    and "\<And>i. get_inst s n = Some i \<Longrightarrow> allowed_step env s0 ev n i (stopped_inst env c i)"
  shows "follows env ev s0 (sup_stop env n c s)"
  by (rule follows_one [OF assms(1), where n = n]) (use assms(2) in \<open>auto simp: stop_self\<close>)

text \<open>A start: the units in conflict with it, then the unit itself.\<close>

definition stood_down :: "env \<Rightarrow> inst \<Rightarrow> inst" where
  "stood_down env i = (if is_idle (in_state i) then i else stopped_inst env Requested i)"

lemma stood_down_twice: "stood_down env (stood_down env i) = stood_down env i"
proof (cases "is_idle (in_state (stood_down env i))")
  case False
  then have st: "in_state (stopped_inst env Requested i) = Deactivating" "\<not> is_idle (in_state i)"
    using stopped_down [of env Requested i] by (auto simp: stood_down_def down_state_def is_idle_def split: if_splits)
  then obtain sv where "unit_service (in_unit i) = Some sv"
    using nonservice_deactivated [of i "e_now env" Requested]
    by (auto simp: stopped_inst_def is_idle_def cancel_restart_def split: if_splits)
  then have "stopped_inst env Requested (stopped_inst env Requested i) = stopped_inst env Requested i"
    using st(1) by (subst stopped_inst_def) simp
  then show ?thesis using st by (simp add: stood_down_def is_idle_def)
qed (simp add: stood_down_def)

lemma fold_conflicting_get:
  "get_inst (fold (stop_conflicting env) ns s) n =
     (if n \<in> set ns then map_option (stood_down env) (get_inst s n) else get_inst s n)"
proof (induction ns arbitrary: s)
  case (Cons m ns)
  have one: "get_inst (stop_conflicting env m s) n =
      (if n = m then map_option (stood_down env) (get_inst s n) else get_inst s n)"
    by (cases "get_inst s m") (auto simp: stop_conflicting_def stood_down_def stop_self)
  show ?case
    unfolding fold_simps comp_def Cons one by (simp add: option.map_comp comp_def stood_down_twice)
qed simp

lemma spawn_forked:
  assumes "spawn env src u cg names = Inr pid" and "unit_service u = Some sv"
  shows "\<exists>r. e_fork env r = Some pid \<and> sr_unit r = u_name u \<and> sr_exec r = sv_exec sv"
proof -
  obtain r where "e_fork env r = Some pid" "sr_unit r = u_name u" "sr_exec r = sv_exec sv"
    using assms by (auto simp: spawn_def Let_def split: option.splits if_splits)
  then show ?thesis by blast
qed

lemma start_unit_begun:
  assumes "get_inst s n = Some i"
  shows "\<exists>j. get_inst (start_unit env n s) n = Some j \<and> begun env i j"
proof (cases "unit_service (in_unit i)")
  case None
  then show ?thesis using assms
    by (cases "u_kind (in_unit i)") (auto simp: start_unit_def begun_def unit_service_def)
next
  case (Some sv)
  then have "u_kind (in_unit i) = Service sv" by (auto simp: unit_service_def split: kind.splits)
  then show ?thesis using assms Some
    by (auto simp: start_unit_def start_service_def begun_def Let_def split: sum.splits
        dest!: spawn_forked [OF _ Some])
qed

lemma conflicting_between:
  assumes "well_keyed s" and "m \<in> set (conflicting_with s n)" shows "conflict_between s n m"
proof -
  have "get_inst s m = Some i" if "(m, i) \<in> set (s_instances s)" for i
    using that assms(1) bget_Some_set [of "s_instances s" m i] by (simp add: well_keyed_def get_inst_def)
  then show ?thesis
    using assms(2) by (auto simp: conflicting_set conflict_between_def unit_of_def split: option.splits)
qed

lemma follows_start:
  assumes f: "follows env ev s0 s" and k: "well_keyed s0" and ev: "\<And>a. ev \<noteq> EvShutdown a"
    and i: "get_inst s n = Some i" and a: "asks env s0 ev n (in_state i)"
  shows "follows env ev s0 (sup_start env n s)"
proof (cases "shutting_down s")
  case False
  let ?ns = "conflicting_with s n" and ?c = "fold (stop_conflicting env) (conflicting_with s n) s"
  have ks: "well_keyed s" using k f by (simp add: well_keyed_ikeys [of s s0] follows_def kept_def)
  have up: "\<not> shutting_down s0" using False follows_down [OF f ev] by simp
  have between: "conflict_between s0 n m" if "m \<in> set ?ns" for m
    using conflicting_between [OF ks that] by (simp add: conflict_between_def follows_unit [OF f])
  have eq: "sup_start env n s = start_unit env n ?c" using False by (simp add: sup_start_def)
  show ?thesis
  proof (rule follows_step [OF f])
    show "kept ev s (sup_start env n s)" unfolding eq by (rule kept_trans [of _ _ ?c]) simp_all
    fix m j
    assume j: "get_inst s m = Some j"
    show "\<exists>k. get_inst (sup_start env n s) m = Some k \<and> (k = j \<or> allowed_step env s0 ev m j k)"
    proof (cases "m = n")
      case True
      let ?k = "if n \<in> set ?ns then stood_down env i else i"
      have "get_inst ?c n = Some ?k" using i by (simp add: fold_conflicting_get)
      then obtain b where b: "get_inst (sup_start env n s) n = Some b" "begun env ?k b"
        using start_unit_begun eq by metis
      have "?k = i \<or> conflict_between s0 n n \<and> \<not> is_idle (in_state i) \<and> ?k = stopped_inst env Requested i"
        using between by (auto simp: stood_down_def)
      then have "allowed_step env s0 ev n i b" using al_start [OF up a _ b(2)] by blast
      then show ?thesis using b(1) True i j by auto
    next
      case False
      then have "get_inst (sup_start env n s) m = Some (if m \<in> set ?ns then stood_down env j else j)"
        using j by (simp add: eq fold_conflicting_get)
      then show ?thesis
        using al_conflict [OF up a _ between, of m j] False by (auto simp: stood_down_def)
    qed
  qed
qed (use f in simp)

section \<open>Ends of processes\<close>

text \<open>The facts every handler of one event starts from.\<close>

definition handles :: "env \<Rightarrow> event \<Rightarrow> sup \<Rightarrow> sup \<Rightarrow> bool" where
  "handles env ev s0 s \<longleftrightarrow> well_keyed s0 \<and> (\<forall>a. ev \<noteq> EvShutdown a) \<and> follows env ev s0 s"

lemma handlesD:
  assumes "handles env ev s0 s"
  shows "follows env ev s0 s" "well_keyed s" "shutting_down s = shutting_down s0" "has_cgroup s = has_cgroup s0"
    "unit_of s = unit_of s0" "set (s_pending s) \<subseteq> set (s_pending s0)"
proof -
  show f: "follows env ev s0 s" using assms by (simp add: handles_def)
  show "well_keyed s" using assms f by (simp add: handles_def well_keyed_ikeys [of s s0] follows_def kept_def)
  show "shutting_down s = shutting_down s0" using follows_down [OF f] assms by (simp add: handles_def)
  show "has_cgroup s = has_cgroup s0" by (rule follows_cgroup [OF f])
  show "unit_of s = unit_of s0" by (rule follows_unit [OF f])
  show "set (s_pending s) \<subseteq> set (s_pending s0)" using f by (simp add: follows_def kept_def)
qed

lemma handlesI: "handles env ev s0 s \<Longrightarrow> follows env ev s0 t \<Longrightarrow> handles env ev s0 t"
  by (simp add: handles_def)

lemma handles_start:
  "handles env ev s0 s \<Longrightarrow> get_inst s n = Some i \<Longrightarrow> asks env s0 ev n (in_state i) \<Longrightarrow>
     follows env ev s0 (sup_start env n s)"
  using follows_start by (auto simp: handles_def)

lemma child_of_pid:
  assumes "well_keyed s" and "unit_for_pid s pid = Some n"
  shows "\<exists>i. get_inst s n = Some i \<and> in_child i = Some pid"
proof -
  obtain i where f: "find (\<lambda>(name, i). in_child i = Some pid) (s_instances s) = Some (n, i)"
    using assms(2) by (auto simp: unit_for_pid_def)
  from find_Some_mem [OF f] show ?thesis
    using assms(1) by (auto simp: well_keyed_def get_inst_def bget_Some_set)
qed

text \<open>An end of the unit \<open>n\<close>, with the restart it may schedule.\<close>

lemma follows_ended:
  assumes h: "handles env ev s0 s" and i: "get_inst s n = Some i"
    and step: "allowed_step env s0 ev n i (unless_down s0 (j, d))"
  shows "follows env ev s0 (case d of
      Some d \<Rightarrow> if shutting_down s then upd_inst n (\<lambda>_. cancel_restart j) s
        else sched env d (AlarmRestart n) (upd_inst n (\<lambda>_. j) s)
    | None \<Rightarrow> upd_inst n (\<lambda>_. j) s)" (is "follows env ev s0 ?t")
proof (rule follows_one [OF handlesD(1) [OF h], where n = n])
  show "kept ev s ?t"
    by (cases d) (auto intro: kept_trans [of _ _ "upd_inst n (\<lambda>_. j) s"])
  show "get_inst ?t m = get_inst s m" if "m \<noteq> n" for m
    using that by (cases d) simp_all
  have "get_inst ?t n = Some (unless_down s0 (j, d))"
    using i handlesD(3) [OF h] by (cases d) (simp_all add: unless_down_def)
  then show "\<exists>k. get_inst ?t n = Some k \<and> (k = i' \<or> allowed_step env s0 ev n i' k)"
    if "get_inst s n = Some i'" for i'
    using step that i by simp
qed

lemma follows_asked:
  assumes h: "handles env ev s0 s" and ev: "(\<exists>r. ev = EvSigchld r) \<or> (\<exists>c. ev = EvCgroup c)"
    and i: "get_inst s n = Some i" "is_idle (in_state i) \<or> in_state i = Restarting"
  shows "follows env ev s0 (start_if_asked env n s)"
proof (cases "n \<in> set (s_pending_restart s)")
  case True
  let ?t = "s\<lparr>s_pending_restart := filter (\<lambda>m. m \<noteq> n) (s_pending_restart s)\<rparr>"
  have "n \<in> set (s_pending_restart s0)"
    using True handlesD(1) [OF h] ev by (auto simp: follows_def kept_def)
  then have a: "asks env s0 ev n (in_state i)" using ev i(2) by auto
  have "follows env ev s0 ?t" by (rule follows_same [OF handlesD(1) [OF h]]) simp_all
  then have "follows env ev s0 (sup_start env n ?t)"
    by (rule handles_start [OF handlesI [OF h] _ a]) (simp add: i(1))
  then show ?thesis using True by (simp add: start_if_asked_def)
qed (use handlesD(1) [OF h] in \<open>simp add: start_if_asked_def\<close>)

lemma emptied_events: "emptied env s ev n i \<Longrightarrow> (\<exists>r. ev = EvSigchld r) \<or> (\<exists>c. ev = EvCgroup c)"
  by (cases ev) simp_all

lemma follows_finish:
  assumes h: "handles env ev s0 s"
    and e: "\<And>i. get_inst s n = Some i \<Longrightarrow> in_state i = Deactivating \<Longrightarrow> emptied env s0 ev n i"
  shows "follows env ev s0 (finish_deactivation env n s)"
proof (cases "\<exists>i. get_inst s n = Some i \<and> in_state i = Deactivating")
  case True
  then obtain i where i: "get_inst s n = Some i" "in_state i = Deactivating" by blast
  obtain j d where j: "deactivated (e_now env) i = (j, d)" by (cases "deactivated (e_now env) i")
  have "allowed_step env s0 ev n i (unless_down s0 (j, d))" using al_emptied [OF e [OF i] i(2)] by (simp add: j)
  note f = follows_ended [OF h i(1) this]
  define t where "t = (case d of
      Some d \<Rightarrow> if shutting_down s then upd_inst n (\<lambda>_. cancel_restart j) s
        else sched env d (AlarmRestart n) (upd_inst n (\<lambda>_. j) s)
    | None \<Rightarrow> upd_inst n (\<lambda>_. j) s)"
  have st: "get_inst t n = Some (unless_down s (j, d))" using i(1) by (cases d) (simp_all add: t_def unless_down_def)
  have "is_idle (in_state (unless_down s (j, d))) \<or> in_state (unless_down s (j, d)) = Restarting"
    using deactivated_outcome [OF j] cancel_restart_idle by (auto simp: unless_down_def split: if_splits)
  from follows_asked [OF handlesI [OF h f [folded t_def]] emptied_events [OF e [OF i]] st this]
  show ?thesis using i j by (simp add: finish_deactivation_def t_def)
next
  case False
  then have "finish_deactivation env n s = s" by (auto simp: finish_deactivation_def split: option.split)
  then show ?thesis using handlesD(1) [OF h] by simp
qed

lemma follows_sigchld:
  assumes h: "handles env ev s0 s" and ev: "ev = EvSigchld reaped" and r: "r \<in> set reaped"
  shows "follows env ev s0 (sigchld_one env r s)"
proof -
  obtain pid code signal where p: "r = (pid, code, signal)" by (cases r)
  let ?ex = "from_status code signal"
  show ?thesis
  proof (cases "unit_for_pid s pid")
    case None
    then show ?thesis using handlesD(1) [OF h] by (simp add: sigchld_one_def p Let_def)
  next
    case (Some n)
    then obtain i where i: "get_inst s n = Some i" "in_child i = Some pid"
      using child_of_pid [OF handlesD(2) [OF h]] by blast
    show ?thesis
    proof (cases "inst_ty i = Some Forking \<and> in_state i = Activating")
      case True
      let ?f = "if has_cgroup s0 n \<and> ?ex = CleanExit \<and> e_populated env n then forked_away (e_now env) i
          else failed_to_start i"
      have "allowed_step env s0 ev n i ?f" by (rule al_forked [OF ev]) (use r p i True in auto)
      then have "follows env ev s0 (upd_inst n (\<lambda>_. ?f) s)"
        by (intro follows_upd [OF handlesD(1) [OF h]]) (simp add: i(1))
      moreover have "sigchld_one env r s = forking_parent_exited env n ?ex s"
        using Some i True by (simp add: sigchld_one_def p Let_def)
      moreover have "get_inst (forking_parent_exited env n ?ex s) = get_inst (upd_inst n (\<lambda>_. ?f) s)"
        using i(1) handlesD(4) [OF h] by (auto simp: forking_parent_exited_def fun_eq_iff)
      moreover have "kept ev (upd_inst n (\<lambda>_. ?f) s) (forking_parent_exited env n ?ex s)"
        by (simp add: forking_parent_exited_def kept_def)
      ultimately show ?thesis using follows_same by metis
    next
      case False
      obtain j d where j: "on_exit (e_now env) ?ex i = (j, d)" by (cases "on_exit (e_now env) ?ex i")
      have "allowed_step env s0 ev n i (unless_down s0 (j, d))"
        using al_exit [OF ev _ i(2) False, where code = code and signal = signal and s = s0 and env = env and n = n] r p j by simp
      note f = follows_ended [OF h i(1) this]
      have c: "in_child j = None" using j by (auto simp: on_exit_def Let_def schedule_restart_def split: if_splits)
      have eq: "sigchld_one env r s = (case d of
          Some d \<Rightarrow> if shutting_down s then upd_inst n (\<lambda>_. cancel_restart j) s
            else sched env d (AlarmRestart n) (upd_inst n (\<lambda>_. j) s)
        | None \<Rightarrow> if in_state i = Deactivating \<and> \<not> (has_cgroup s n \<and> e_populated env n)
            then finish_deactivation env n (upd_inst n (\<lambda>_. j) s) else upd_inst n (\<lambda>_. j) s)"
        using Some i False j by (auto simp: sigchld_one_def p Let_def upd_upd split: option.split)
      show ?thesis
      proof (cases d)
        case None
        then have f1: "follows env ev s0 (upd_inst n (\<lambda>_. j) s)" using f by simp
        then have "follows env ev s0 (finish_deactivation env n (upd_inst n (\<lambda>_. j) s))"
          if "\<not> (has_cgroup s n \<and> e_populated env n)"
          by (rule follows_finish [OF handlesI [OF h]])
            (use that c i(1) handlesD(4) [OF h] in \<open>auto simp: ev\<close>)
        then show ?thesis using None f1 by (simp add: eq)
      next
        case (Some d')
        then show ?thesis using f by (simp add: eq)
      qed
    qed
  qed
qed

lemma follows_cgroup_event:
  assumes k: "well_keyed s"
  shows "follows env (EvCgroup ident) s (on_cgroup env ident s)"
proof -
  let ?ev = "EvCgroup ident"
  have h: "handles env ?ev s s" using k by (simp add: handles_def)
  show ?thesis
  proof (cases "cgroup_unit s ident = None \<or> e_events env ident \<noteq> Some False")
    case True
    then show ?thesis by (auto simp: on_cgroup_def split: option.split)
  next
    case False
    then obtain n where n: "cgroup_unit s ident = Some n" "e_events env ident = Some False" by auto
    show ?thesis
    proof (cases "get_inst s n")
      case (Some i)
      obtain j d where j: "on_exit (e_now env) AbnormalExit i = (j, d)" by (cases "on_exit (e_now env) AbnormalExit i")
      have "follows env ?ev s (unit_vanished env n s)" if a: "in_state i = Active" "in_child i = None"
      proof -
        have "allowed_step env s ?ev n i j" using al_vanished [OF refl n a] by (simp add: j)
        then have "follows env ?ev s (upd_inst n (\<lambda>_. j) s)"
          by (intro follows_upd) (simp_all add: Some)
        moreover have "kept ?ev (upd_inst n (\<lambda>_. j) s) (unit_vanished env n s)"
          "get_inst (unit_vanished env n s) = get_inst (upd_inst n (\<lambda>_. j) s)"
          using Some j by (auto simp: unit_vanished_def fun_eq_iff Let_def split: option.split)
        ultimately show ?thesis using follows_same by blast
      qed
      moreover have "follows env ?ev s (finish_deactivation env n s)"
        by (rule follows_finish [OF h]) (use n in simp)
      ultimately show ?thesis using n Some by (simp add: on_cgroup_def)
    qed (use n in \<open>simp add: on_cgroup_def\<close>)
  qed
qed

section \<open>Messages and deadlines\<close>

lemma follows_notify:
  assumes h: "handles env ev s0 s" and ev: "ev = EvNotify ms" and m: "m \<in> set ms"
  shows "follows env ev s0 (notify_one env m s)"
proof (cases "unit_for_pid s (m_pid m)")
  case None
  then show ?thesis using handlesD(1) [OF h] by (simp add: notify_one_def)
next
  case (Some n)
  then obtain i where i: "get_inst s n = Some i" "in_child i = Some (m_pid m)"
    using child_of_pid [OF handlesD(2) [OF h]] by blast
  let ?j = "if m_ready m \<and> in_state i = Activating then entered_active (e_now env) (spoken env m i) else spoken env m i"
  have "allowed_step env s0 ev n i ?j"
    using al_ready [OF ev m i(2)] al_heard [OF ev m i(2)] by simp
  then have f: "follows env ev s0 (upd_inst n (\<lambda>_. ?j) s)"
    by (intro follows_upd [OF handlesD(1) [OF h]]) (simp add: i(1))
  let ?limit = "Option.bind (unit_service (in_unit (spoken env m i))) sv_watchdog_sec"
  have eq: "notify_one env m s =
     (if m_ready m \<and> in_state (spoken env m i) = Activating then
        (case ?limit of None \<Rightarrow> upd_inst n (\<lambda>_. entered_active (e_now env) (spoken env m i)) s
          | Some limit \<Rightarrow> arm_watchdog env n limit (upd_inst n (\<lambda>_. entered_active (e_now env) (spoken env m i)) s))
      else upd_inst n (\<lambda>_. spoken env m i) s)"
    by (simp only: notify_one_def Let_def Some i option.case spoken_def)
  have "kept ev (upd_inst n (\<lambda>_. ?j) s) (notify_one env m s)"
    "get_inst (notify_one env m s) = get_inst (upd_inst n (\<lambda>_. ?j) s)"
    by (auto simp: eq arm_watchdog_def split: option.split)
  then show ?thesis using follows_same [OF f] by blast
qed

lemma pop_due_due: "a \<in> set (fst (pop_due now h)) \<Longrightarrow> \<exists>t \<le> now. (t, a) \<in> set h"
proof (induction now h rule: pop_due.induct)
  case (2 now e h)
  then show ?case by (cases e) (fastforce simp: not_less split: prod.splits if_splits)
qed simp

lemma follows_stop_timer:
  assumes h: "handles env EvTimer s0 s"
    and "\<And>i. get_inst s n = Some i \<Longrightarrow> stops env s0 EvTimer n WatchdogMissed i"
  shows "follows env EvTimer s0 (sup_stop env n WatchdogMissed s)"
  by (rule follows_stop [OF handlesD(1) [OF h]]) (rule al_stop, erule assms(2))

lemma follows_stop_deadline:
  assumes h: "handles env EvTimer s0 s" and d: "alarm_due env s0 (StopTimeout n)"
  shows "follows env EvTimer s0 (stop_deadline env n s)"
proof (cases "\<exists>i. get_inst s n = Some i \<and> in_state i = Deactivating")
  case True
  then obtain i where i: "get_inst s n = Some i" "in_state i = Deactivating" by blast
  have f: "follows env EvTimer s0 (upd_inst n stop_timed_out s)"
    by (rule follows_upd [OF handlesD(1) [OF h]]) (use al_timed_out [OF refl d i(2)] i in auto)
  have "get_inst (stop_deadline env n s) = get_inst (upd_inst n stop_timed_out s)"
    "kept EvTimer (upd_inst n stop_timed_out s) (stop_deadline env n s)"
    using i by (auto simp: stop_deadline_def kept_def Let_def split: option.split)
  then show ?thesis using follows_same [OF f] by blast
next
  case False
  then have "stop_deadline env n s = s" by (auto simp: stop_deadline_def split: option.split)
  then show ?thesis using handlesD(1) [OF h] by simp
qed

lemma follows_check_watchdog:
  assumes h: "handles env EvTimer s0 s" and d: "alarm_due env s0 (WatchdogCheck n)"
  shows "follows env EvTimer s0 (check_watchdog env n s)"
proof (cases "get_inst s n")
  case (Some i)
  have "follows env EvTimer s0 (arm_watchdog env n limit s)" for limit
    unfolding arm_watchdog_def by (rule follows_same [OF handlesD(1) [OF h]]) simp_all
  moreover have "follows env EvTimer s0 (sup_stop env n WatchdogMissed s)"
    if "Option.bind (unit_service (in_unit i)) sv_watchdog_sec = Some limit" "watchdog_expired (e_now env) limit i" for limit
    by (rule follows_stop_timer [OF h]) (use Some that d in simp)
  ultimately show ?thesis using Some handlesD(1) [OF h]
    by (auto simp: check_watchdog_def split: option.split)
qed (use handlesD(1) [OF h] in \<open>simp add: check_watchdog_def\<close>)

lemma follows_timer_elapsed:
  assumes h: "handles env ev s0 s"
    and a: "\<And>m st. timer_starts s0 n m \<Longrightarrow> is_idle st \<Longrightarrow> asks env s0 ev m st"
  shows "follows env ev s0 (timer_elapsed env n s)"
proof (cases "Option.bind (get_inst s n) (\<lambda>i. unit_timer (in_unit i))")
  case (Some t)
  then obtain i where i: "get_inst s n = Some i" "unit_timer (in_unit i) = Some t" by (auto simp: bind_eq_Some_conv)
  let ?t = "sup_arm env n (schedule_next (ti_schedule t) (e_unix env)) s"
  have f: "follows env ev s0 ?t" by (rule follows_same [OF handlesD(1) [OF h]]) simp_all
  have "unit_of s0 n = Some (in_unit i)" using i(1) handlesD(5) [OF h] by (metis unit_of_def option.simps(9))
  then have ts: "timer_starts s0 n (ti_service t)" using i(2) by (simp add: timer_starts_def)
  have "follows env ev s0 (sup_start env (ti_service t) ?t)"
    if "get_inst s (ti_service t) = Some k" "is_idle (in_state k)" for k
    by (rule handles_start [OF handlesI [OF h f] _ a [OF ts that(2)]]) (simp add: that(1))
  then show ?thesis using Some f handlesD(1) [OF h]
    by (auto simp: timer_elapsed_def Let_def split: option.split)
qed (use handlesD(1) [OF h] in \<open>simp add: timer_elapsed_def\<close>)

lemma follows_dispatch:
  assumes h: "handles env EvTimer s0 s" and d: "alarm_due env s0 a"
  shows "follows env EvTimer s0 (dispatch env a s)"
proof (cases a)
  case (AlarmRestart n)
  have "follows env EvTimer s0 (sup_start env n s)" if "get_inst s n = Some i" "in_state i = Restarting" for i
    by (rule handles_start [OF h that(1)]) (use that(2) d in \<open>simp add: AlarmRestart\<close>)
  then show ?thesis using handlesD(1) [OF h] by (auto simp: dispatch_def AlarmRestart split: option.split)
next
  case (StartTimeout n)
  have "follows env EvTimer s0 (sup_stop env n WatchdogMissed s)" if "get_inst s n = Some i" "in_state i = Activating" for i
    by (rule follows_stop_timer [OF h]) (use that d in \<open>simp add: StartTimeout\<close>)
  then show ?thesis using handlesD(1) [OF h]
    by (auto simp: dispatch_def StartTimeout start_timed_out_def split: option.split)
next
  case (TimerElapsed n)
  have "follows env EvTimer s0 (timer_elapsed env n s)"
    by (rule follows_timer_elapsed [OF h]) (use d in \<open>auto simp: TimerElapsed\<close>)
  then show ?thesis by (simp add: dispatch_def TimerElapsed)
qed (use d follows_check_watchdog [OF h] follows_stop_deadline [OF h] in \<open>simp_all add: dispatch_def\<close>)

lemma handles_fold:
  assumes "\<And>x t. x \<in> set xs \<Longrightarrow> handles env ev s0 t \<Longrightarrow> follows env ev s0 (f x t)" and h: "handles env ev s0 s"
  shows "follows env ev s0 (fold f xs s)"
proof (rule follows_fold)
  show "follows env ev s0 s" using h by (rule handlesD(1))
  fix x t assume "x \<in> set xs" "follows env ev s0 t"
  then show "follows env ev s0 (f x t)" using assms(1) handlesI [OF h] by blast
qed

lemma follows_on_timer:
  assumes "well_keyed s" shows "follows env EvTimer s (on_timer env s)"
proof -
  obtain t r where t: "timer_expired (e_settime env) (e_now env) (s_timers s) = (t, r)" by fastforce
  have f: "follows env EvTimer s (s\<lparr>s_timers := t\<rparr>)" by (rule follows_same [OF follows_refl]) simp_all
  have h: "handles env EvTimer s (s\<lparr>s_timers := t\<rparr>)" using assms f by (simp add: handles_def)
  have "alarm_due env s a" if "r = Some fired" "a \<in> set fired" for fired a
    using t that pop_due_due [of a "e_now env"]
    by (auto simp: timer_expired_unfold alarm_due_def split: if_splits)
  then have "follows env EvTimer s (fold (dispatch env) fired (s\<lparr>s_timers := t\<rparr>))" if "r = Some fired" for fired
    by (intro handles_fold [OF _ h] follows_dispatch) (use that in auto)
  then show ?thesis using t f by (simp add: on_timer_def split: option.split)
qed

lemma follows_on_wall_timer:
  assumes "well_keyed s" shows "follows env EvWallTimer s (on_wall_timer env s)"
proof -
  obtain t r where t: "wall_expired (e_settime env) (e_wall_stepped env) (e_unix env) (s_timers s) = (t, r)" by fastforce
  let ?f = "\<lambda>a s. case a of TimerElapsed u \<Rightarrow> timer_elapsed env u s | _ \<Rightarrow> s"
  have f: "follows env EvWallTimer s (s\<lparr>s_timers := t\<rparr>)" by (rule follows_same [OF follows_refl]) simp_all
  have h: "handles env EvWallTimer s (s\<lparr>s_timers := t\<rparr>)" using assms f by (simp add: handles_def)
  have d: "wall_alarm_due env s a" if "r = Some fired" "a \<in> set fired" for fired a
    using t that pop_due_due [of a "e_unix env"]
    by (auto simp: wall_expired_unfold wall_alarm_due_def split: if_splits)
  have "follows env EvWallTimer s (?f a u)"
    if "r = Some fired" "a \<in> set fired" "handles env EvWallTimer s u" for fired a u
  proof (cases a)
    case (TimerElapsed n)
    have "follows env EvWallTimer s (timer_elapsed env n u)"
      by (rule follows_timer_elapsed [OF that(3)]) (use d [OF that(1,2)] in \<open>auto simp: TimerElapsed\<close>)
    then show ?thesis by (simp add: TimerElapsed)
  qed (use handlesD(1) [OF that(3)] in simp_all)
  then have "follows env EvWallTimer s (fold ?f fired (s\<lparr>s_timers := t\<rparr>))" if "r = Some fired" for fired
    by (intro handles_fold [OF _ h]) (use that in auto)
  then show ?thesis using t f by (simp add: on_wall_timer_def split: option.split)
qed

section \<open>The queue and the requests\<close>

lemma follows_pump_loop:
  "handles env EvPump s0 s \<Longrightarrow> \<not> shutting_down s0 \<Longrightarrow> follows env EvPump s0 (pump_loop env s)"
proof (induction env s rule: pump_loop.induct)
  case (1 env s)
  note h = "1.prems"(1)
  show ?case
  proof (cases "next_startable s")
    case None
    then show ?thesis using handlesD(1) [OF h] by (subst pump_loop.simps) simp
  next
    case (Some n)
    then have n: "n \<in> set (s_pending s)" "ordering_satisfied s n"
      using find_Some_mem by (fastforce simp: next_startable_def)+
    then obtain i where i: "get_inst s n = Some i" by (auto simp: ordering_satisfied_def split: option.splits)
    have q: "n \<in> set (s_pending s0)" using n(1) handlesD(6) [OF h] by blast
    let ?d = "dequeue n s"
    have fd: "follows env EvPump s0 ?d" by (rule follows_same [OF handlesD(1) [OF h]]) simp_all
    have st: "follows env EvPump s0 (sup_start env n ?d)"
      by (rule handles_start [OF handlesI [OF h fd]]) (use i q in simp_all)
    have fl: "follows env EvPump s0 (upd_inst n failed_to_start ?d)" if "failed_requirement ?d n \<noteq> None"
    proof (rule follows_upd [OF fd])
      fix j assume "get_inst ?d n = Some j"
      moreover from this that have "requires (u_deps (in_unit j)) \<noteq> []" by (auto simp: failed_requirement_def)
      ultimately show "failed_to_start j = j \<or> allowed_step env s0 EvPump n j (failed_to_start j)"
        using al_requirement [OF refl "1.prems"(2) q] by blast
    qed
    show ?thesis
    proof (cases "failed_requirement ?d n = None")
      case True
      have "follows env EvPump s0 (pump_loop env (sup_start env n ?d))"
        by (rule "1.IH"(2) [OF Some]) (use True handlesI [OF h st] "1.prems"(2) in simp_all)
      then show ?thesis using Some True by (subst pump_loop.simps) simp
    next
      case False
      have "follows env EvPump s0 (pump_loop env (upd_inst n failed_to_start ?d))"
        by (rule "1.IH"(1) [OF Some False handlesI [OF h fl [OF False]] "1.prems"(2)])
      then show ?thesis using Some False by (subst pump_loop.simps) simp
    qed
  qed
qed

lemma follows_pump:
  assumes "well_keyed s" shows "follows env EvPump s (pump env s)"
proof (cases "shutting_down s")
  case True
  have "follows env EvPump s (s\<lparr>s_pending := []\<rparr>)" by (rule follows_same [OF follows_refl]) simp_all
  then show ?thesis using True by (simp add: pump_def)
next
  case False
  then show ?thesis using follows_pump_loop [of env s s] assms by (simp add: pump_def handles_def)
qed

lemma follows_socket:
  assumes "well_keyed s" shows "follows env (EvSocket ident) s (on_socket env ident s)"
proof -
  have "follows env (EvSocket ident) s (sup_start env n s)"
    if "get_inst s n = Some i" "is_idle (in_state i)" "ident < length (s_sockets s)"
      "bd_service (s_sockets s ! ident) = n" for n i
    by (rule handles_start [OF _ that(1)]) (use assms that in \<open>simp_all add: handles_def\<close>)
  then show ?thesis by (auto simp: on_socket_def Let_def split: option.split)
qed

lemma follows_request:
  assumes k: "well_keyed s" and r: "r \<noteq> RReload"
  shows "follows env (EvRequest l r) s (fst (handle env l' texts r s))"
proof -
  let ?ev = "EvRequest l r"
  have h: "handles env ?ev s s" using k by (simp add: handles_def)
  have stop: "follows env ?ev s (sup_stop env n Requested s)" if "r = RStop n \<or> r = RRestart n \<and> \<not> shutting_down s" for n
    by (rule follows_stop [OF follows_refl]) (rule al_stop, use that in auto)
  have start: "follows env ?ev s (sup_start env n t)"
    if "follows env ?ev s t" "get_inst t n = Some i" "r = RStart n \<or> r = RRestart n \<and> is_idle (in_state i)" for n t i
    by (rule handles_start [OF handlesI [OF h that(1)] that(2)]) (use that(3) in auto)
  have restart: "follows env ?ev s (restart_when_stopped env n (sup_stop env n Requested s))"
    if "r = RRestart n" "\<not> shutting_down s" for n
  proof -
    let ?t = "sup_stop env n Requested s"
    have f: "follows env ?ev s ?t" using stop that by blast
    have "kept ?ev ?t (?t\<lparr>s_pending_restart := sinsert n (s_pending_restart ?t)\<rparr>)"
      using that(1) by (auto simp: kept_def ikeys_def)
    then have "follows env ?ev s (?t\<lparr>s_pending_restart := sinsert n (s_pending_restart ?t)\<rparr>)"
      by (rule follows_same [OF f]) simp
    then show ?thesis using f start [OF f] that(1) by (auto simp: restart_when_stopped_def split: option.split)
  qed
  show ?thesis
  proof (cases r)
    case (RStart n)
    then show ?thesis using start [OF follows_refl] by (auto simp: handle_def)
  next
    case (RStop n)
    then show ?thesis using stop by (auto simp: handle_def)
  next
    case (RRestart n)
    then show ?thesis using restart by (auto simp: handle_def)
  qed (use r in \<open>simp_all add: handle_def split: option.split\<close>)
qed

lemma follows_shutdown:
  "follows env (EvShutdown a) s (begin_shutdown env a s)"
proof (cases "s_shutdown s")
  case None
  let ?t = "s\<lparr>s_shutdown := Some (shutdown_new env a)\<rparr>"
  have "get_inst ?t = get_inst s" by (simp add: get_inst_def fun_eq_iff)
  moreover have "kept (EvShutdown a) s ?t" by (simp add: kept_def)
  ultimately have "follows env (EvShutdown a) s ?t" by (rule follows_same [OF follows_refl, rotated])
  then have "follows env (EvShutdown a) s (fold (\<lambda>n. sup_stop env n Requested) (stop_order ?t) ?t)"
    by (rule follows_fold [rotated])
      (erule follows_stop, rule al_stop, simp add: shutting_down_def None)
  then show ?thesis using None by (simp add: begin_shutdown_def Let_def)
qed (simp add: begin_shutdown_def)

section \<open>A reload\<close>

lemma reload_one_get:
  "get_inst (fst (reload_one env (m, u) st)) n =
     (if n = m then (case get_inst (fst st) n of None \<Rightarrow> Some (inst_new u)
        | Some i \<Rightarrow> if in_unit i = u \<or> \<not> is_idle (in_state i) then Some i else Some (inst_new u))
      else get_inst (fst st) n)"
  by (auto simp: reload_one_def Let_def get_binsert split: prod.splits option.splits)

lemma fold_reload_get:
  "distinct (map fst us) \<Longrightarrow> get_inst (fst (fold (reload_one env) us st)) n =
     (case map_of us n of None \<Rightarrow> get_inst (fst st) n
      | Some u \<Rightarrow> (case get_inst (fst st) n of None \<Rightarrow> Some (inst_new u)
          | Some i \<Rightarrow> if in_unit i = u \<or> \<not> is_idle (in_state i) then Some i else Some (inst_new u)))"
proof (induction us arbitrary: st)
  case (Cons nu us)
  obtain m u where nu: "nu = (m, u)" by (cases nu)
  have "map_of us m = None" using Cons.prems by (simp add: nu map_of_eq_None_iff)
  then show ?case using Cons by (simp add: nu reload_one_get split: option.split)
qed simp

lemma reload_instance:
  assumes k: "well_keyed s" and l: "bmap_ok (l_units l)"
  shows "get_inst (fst (reload env l texts s)) n = reloaded l n (get_inst s n)"
proof (cases "l_errors l = []")
  case True
  let ?s1 = "fst (fold (reload_one env) (l_units l) (s, [], []))"
  have b: "bmap_ok (s_instances ?s1)" using k bmap_ok_fold_reload by (simp add: well_keyed_def)
  have "get_inst (fst (reload env l texts s)) n
      = (case get_inst ?s1 n of None \<Rightarrow> None | Some i \<Rightarrow> if retained (l_units l) (n, i) then Some i else None)"
  proof (cases "bget (filter (retained (l_units l)) (s_instances ?s1)) n")
    case None
    then have "\<not> (get_inst ?s1 n = Some i \<and> retained (l_units l) (n, i))" for i
      using b by (auto simp: bget_None_iff get_inst_def bget_Some_set image_iff)
    then show ?thesis using None True by (simp add: reload_state Let_def get_inst_def split: option.split)
  next
    case (Some i)
    then have "get_inst ?s1 n = Some i \<and> retained (l_units l) (n, i)"
      using b by (simp add: bget_Some_set bmap_ok_filter get_inst_def)
    then show ?thesis using Some True by (simp add: reload_state Let_def get_inst_def)
  qed
  moreover note fold_reload_get [OF bmap_ok_distinct [OF l], of env "(s, [], [])" n]
  ultimately show ?thesis using True
    by (auto simp: reloaded_def retained_def inst_new_def is_idle_def split: option.splits)
qed (simp add: reload_state reloaded_def)

section \<open>Every event\<close>

lemma follows_event:
  assumes k: "well_keyed s" and "\<And>l. ev \<noteq> EvRequest l RReload"
  shows "follows env ev s (handle_event env ev s)"
proof (cases ev)
  case (EvSigchld reaped)
  then have h: "handles env ev s s" using k by (simp add: handles_def)
  have "follows env ev s (fold (sigchld_one env) reaped s)"
    by (rule handles_fold [OF _ h]) (rule follows_sigchld [OF _ EvSigchld])
  then show ?thesis by (simp add: EvSigchld handle_event_def on_sigchld_def)
next
  case (EvNotify ms)
  then have h: "handles env ev s s" using k by (simp add: handles_def)
  have "follows env ev s (fold (notify_one env) ms s)"
    by (rule handles_fold [OF _ h]) (rule follows_notify [OF _ EvNotify])
  then show ?thesis by (simp add: EvNotify handle_event_def on_notify_def)
next
  case EvSync
  have "get_inst (sync_sockets env s) = get_inst s" by (simp add: sync_sockets_def get_inst_def fun_eq_iff)
  then show ?thesis using follows_same [OF follows_refl kept_ops(12)] by (simp add: EvSync handle_event_def)
next
  case (EvRequest l r)
  then show ?thesis using assms follows_request by (auto simp: handle_event_def)
qed (use k in \<open>simp_all add: handle_event_def follows_cgroup_event follows_on_timer follows_on_wall_timer
       follows_socket follows_shutdown follows_pump\<close>)

interpretation keying: event_system handle_event "\<lambda>_. True" well_keyed
  by unfold_locales (rule handle_event_well_keyed)

lemma events_well_keyed: "well_keyed s \<Longrightarrow> well_keyed (run_events evs s)"
  using keying.run_inv [of evs s] by (simp add: run_events_def list_all_iff split_beta)

section \<open>Properties\<close>

text \<open>C18.  The supervisor refines the guarded specification.  After any events on a machine just
  loaded, whatever event comes next: unless it is a reload, no unit appears or disappears and
  each instance makes only moves that the specification allows for that event and that state
  (so nothing starts during a shutdown, readiness counts only from the unit's own process and
  only while it activates, a deadline moves it only when due).  A reload changes nothing when
  a file failed to load; otherwise it adds the new units, drops the idle ones whose file is
  gone, replaces the idle ones whose file changed, and leaves every other instance alone.\<close>

theorem supervisor_refines_instances:
  fixes env env0 ev evs l0 hostname src ts cg
  assumes "\<And>l. ev = EvRequest l RReload \<Longrightarrow> bmap_ok (l_units l)"
  defines "s \<equiv> run_events evs (sup_load env0 l0 hostname src ts cg)"
  shows "case ev of
      EvRequest l RReload \<Rightarrow> get_inst (handle_event env ev s) n = reloaded l n (get_inst s n)
    | _ \<Rightarrow> rel_option ((allowed_step env s ev n)\<^sup>*\<^sup>*) (get_inst s n) (get_inst (handle_event env ev s) n)"
proof -
  have k: "well_keyed s" unfolding s_def
    by (rule events_well_keyed) (use fresh_load in \<open>simp add: fresh_def\<close>)
  show ?thesis
  proof (cases "\<exists>l. ev = EvRequest l RReload")
    case True
    then show ?thesis using assms(1) reload_instance [OF k] by (auto simp: handle_event_def handle_def)
  next
    case False
    then have "follows env ev s (handle_event env ev s)" by (intro follows_event [OF k]) simp
    then show ?thesis using False by (auto simp: follows_def split: event.split request.split)
  qed
qed

text \<open>A unit added by a reload and then started: the move is allowed, and the new one starts
  from the instance the reload made.\<close>

theorem supervisor_refines_instances_witness:
  "(allowed_step sample_env (run_events [(sample_env, EvRequest (sample_loaded Oneshot Always) RReload)] sample_empty)
       (EvRequest (sample_loaded Oneshot Always) (RStart ''s'')) ''s'')\<^sup>*\<^sup>*
     (inst_new (sample_unit Oneshot Always)) (entered_activating 7 (inst_new (sample_unit Oneshot Always)))"
proof -
  let ?l = "sample_loaded Oneshot Always" and ?i = "inst_new (sample_unit Oneshot Always)"
  let ?s = "run_events [(sample_env, EvRequest ?l RReload)] sample_empty"
  have u: "in_unit ?i = sample_unit Oneshot Always" by (simp add: inst_new_def)
  have s: "?s = (sample_sup ?i)\<lparr>s_order := []\<rparr>"
    by (simp add: run_events_def handle_event_def sample_reloaded)
  have g: "get_inst ?s ''s'' = Some ?i" by (simp add: s sample_sup_def get_inst_def)
  have "get_inst (handle_event sample_env (EvRequest ?l (RStart ''s'')) ?s) ''s'' = Some (entered_activating 7 ?i)"
    unfolding s using sample_start [OF u, of "[]"]
    by (simp add: handle_event_def) (simp add: handle_def sample_sup_def get_inst_def shutting_down_def)
  then show ?thesis
    using supervisor_refines_instances [where ev = "EvRequest ?l (RStart ''s'')" and env = sample_env and n = "''s''"
        and evs = "[(sample_env, EvRequest ?l RReload)]" and ?env0.0 = sample_env
        and ?l0.0 = "\<lparr>l_units = [], l_errors = []\<rparr>" and hostname = "''h''" and src = sample_source
        and ts = timers_new and cg = "\<lparr>cg_hierarchy = False, cg_handles = []\<rparr>"] g
    by (simp add: sample_empty_def [symmetric])
qed

section \<open>An explicit stop\<close>













end
