(* ===== verification/SupervisorEdges.thy ===== *)
theory SupervisorEdges
  imports SupervisorDeadlines
begin

text \<open>
  What the supervisor does at the edges of its states: a start of a unit that is up, a stop
  during a stop that a watchdog asked for, a stop after a restart was asked for, and
  \<open>before\<close> once the machine runs.
\<close>

lemma stop_deactivating:
  assumes "get_inst s n = Some i" and "in_state i = Deactivating" and "unit_service (in_unit i) \<noteq> None"
  shows "sup_stop env n c s = s\<lparr>s_pending := filter (\<lambda>q. q \<noteq> n) (s_pending s)\<rparr>"
  using assms by (auto simp: sup_stop_def Let_def split: option.splits)

lemma stop_pending_restart [simp]: "s_pending_restart (sup_stop env n c s) = s_pending_restart s"
  by (auto simp: sup_stop_def signal_unit_def emit_def Let_def split: option.splits)

lemma stop_shutting_down [simp]: "shutting_down (sup_stop env n c s) = shutting_down s"
  by (simp add: shutting_down_def)

section \<open>Properties\<close>

text \<open>A start request for a service that is up starts a second process: nothing is
  stopped, and the first process is no longer the one the unit is known by.\<close>

theorem start_again_starts_twice:
  assumes i: "get_inst s n = Some i" "in_state i = Active" and sv: "u_kind (in_unit i) = Service sv" "sv_ty sv = Simple"
    and "\<not> shutting_down s" and "conflicting_with s n = []" and "apply_resources env s n sv" and "output_ok env n sv"
    and "spawn env (s_source s) (in_unit i) (has_cgroup s n) (for_service (s_sockets s) n) = Inr pid"
  shows "s_trace (fst (handle env l texts (RStart n) s)) = s_trace s @ [Spawned n pid]
    \<and> snd (handle env l texts (RStart n) s) = Accepted (''started '' @ n)
    \<and> map_option in_child (get_inst (fst (handle env l texts (RStart n) s)) n) = Some (Some pid)
    \<and> map_option in_state (get_inst (fst (handle env l texts (RStart n) s)) n) = Some Active"
proof -
  let ?t = "upd_inst n (entered_active (e_now env)) (upd_inst n (entered_activating pid) (emit [Spawned n pid] s))"
  have "sup_start env n s = ?t"
    using assms by (simp add: sup_start_def start_unit_def start_service_def)
  moreover have "s_trace ?t = s_trace s @ [Spawned n pid]" by (simp add: upd_inst_def emit_def)
  moreover have "get_inst ?t n = Some (entered_active (e_now env) (entered_activating pid i))" using i by simp
  moreover have "in_child (entered_active (e_now env) (entered_activating pid i)) = Some pid"
    by (simp add: inst_op_defs)
  ultimately show ?thesis using assms(1,5) by (simp add: handle_def)
qed

theorem start_again_starts_twice_witness:
  "s_trace (fst (handle sample_env (sample_loaded Simple Always) (\<lambda>_. []) (RStart ''s'')
      (sample_sup (sample_running Simple Always)))) = [Spawned ''s'' 7]"
proof -
  let ?i = "sample_running Simple Always"
  obtain sv where sv: "u_kind (in_unit ?i) = Service sv" "sv_ty sv = Simple"
      "apply_resources sample_env (sample_sup ?i) ''s'' sv" "output_ok sample_env ''s'' sv"
    by (simp add: sample_running_def sample_unit_def inst_op_defs inst_new_def apply_resources_def output_ok_def)
  have g: "get_inst (sample_sup ?i) ''s'' = Some ?i" by (simp add: sample_sup_def get_inst_def)
  have a: "in_state ?i = Active" by (simp add: sample_running_def)
  have d: "\<not> shutting_down (sample_sup ?i)" by (simp add: sample_sup_def shutting_down_def)
  have c: "conflicting_with (sample_sup ?i) ''s'' = []"
    by (simp add: sample_sup_def conflicting_with_def get_inst_def sample_running_def sample_unit_def inst_op_defs
        inst_new_def)
  have p: "spawn sample_env (s_source (sample_sup ?i)) (in_unit ?i) (has_cgroup (sample_sup ?i) ''s'')
      (for_service (s_sockets (sample_sup ?i)) ''s'') = Inr 7"
    by (simp add: spawn_def sample_sup_def sample_running_def sample_unit_def inst_op_defs inst_new_def
        unit_service_def sample_source_def sample_env_def has_cgroup_def for_service_def service_env_def has_nul_def
        Let_def)
  show ?thesis
    using start_again_starts_twice [OF g a sv(1,2) d c sv(3,4) p] by (simp add: sample_sup_def)
qed

text \<open>A stop request does not override the policy when a watchdog is already stopping the
  unit: it is accepted, and when the cgroup empties the unit restarts all the same.\<close>

theorem stop_during_watchdog_stop_restarts:
  assumes "get_inst s n = Some i" and "in_state i = Deactivating" and "in_stop_cause i = Some WatchdogMissed"
    and "unit_service (in_unit i) \<noteq> None" and "should_restart (restart_policy i) AbnormalExit"
    and "\<not> shutting_down s" and "n \<notin> set (s_pending_restart s)"
  shows "\<exists>t. handle env l texts (RStop n) s = (t, Accepted (''stopping '' @ n))
    \<and> map_option in_state (get_inst (finish_deactivation env' n t) n) = Some Restarting
    \<and> AlarmRestart n \<in> pending_alarms (s_timers (finish_deactivation env' n t))"
proof -
  let ?t = "s\<lparr>s_pending := filter (\<lambda>q. q \<noteq> n) (s_pending s)\<rparr>"
  have h: "handle env l texts (RStop n) s = (?t, Accepted (''stopping '' @ n))"
    using assms(1) stop_deactivating [OF assms(1,2,4), of env Requested] by (simp add: handle_def)
  obtain j d where j: "deactivated (e_now env') i = (j, d)" by (cases "deactivated (e_now env') i")
  have "in_state j = Restarting" "d \<noteq> None"
    using j assms(3,5) by (auto simp: deactivated_def Let_def schedule_restart_def restart_policy_def split: if_splits)
  then obtain d' where d: "d = Some d'" "in_state j = Restarting" by auto
  let ?f = "sched env' d' (AlarmRestart n) (upd_inst n (\<lambda>_. j) ?t)"
  have "finish_deactivation env' n ?t = ?f"
    using assms(1,2,6,7) j d
    by (simp add: finish_deactivation_def start_if_asked_def shutting_down_def)
  moreover have "AlarmRestart n \<in> alarms ?f" by simp
  ultimately show ?thesis using h assms(1) d by (simp add: alarms_def)
qed

theorem stop_during_watchdog_stop_restarts_witness:
  "\<exists>t. handle sample_env (sample_loaded Simple Always) (\<lambda>_. []) (RStop ''s'')
       (sample_sup (entered_deactivating WatchdogMissed (sample_running Simple Always))) = (t, Accepted ''stopping s'')
    \<and> map_option in_state (get_inst (finish_deactivation sample_env ''s'' t) ''s'') = Some Restarting"
proof -
  let ?i = "entered_deactivating WatchdogMissed (sample_running Simple Always)"
  have g: "get_inst (sample_sup ?i) ''s'' = Some ?i" by (simp add: sample_sup_def get_inst_def)
  have f: "in_state ?i = Deactivating" "in_stop_cause ?i = Some WatchdogMissed" "unit_service (in_unit ?i) \<noteq> None"
    "should_restart (restart_policy ?i) AbnormalExit" "\<not> shutting_down (sample_sup ?i)"
    "''s'' \<notin> set (s_pending_restart (sample_sup ?i))"
    by (simp_all add: sample_running_def sample_unit_def inst_op_defs inst_new_def unit_service_def restart_policy_def
        sample_sup_def shutting_down_def)
  show ?thesis
    using stop_during_watchdog_stop_restarts [OF g f, of sample_env "sample_loaded Simple Always" "\<lambda>_. []" sample_env]
    by auto
qed

text \<open>A stop request does not take back a restart request: a service restarted and then
  stopped is started again when its cgroup empties.\<close>

theorem stop_does_not_cancel_restart:
  fixes env env' env2 l l' texts texts'
  assumes "get_inst s n = Some i" and "in_state i = Active" and "unit_service (in_unit i) \<noteq> None"
    and "\<not> shutting_down s"
  defines "s1 \<equiv> fst (handle env l texts (RRestart n) s)"
  defines "s2 \<equiv> fst (handle env' l' texts' (RStop n) s1)"
  shows "map_option in_state (get_inst s2 n) = Some Deactivating
    \<and> (\<exists>j. get_inst (finish_deactivation env2 n s2) n = Some j \<and> in_state j \<in> {Active, Activating, Failed})"
proof -
  let ?j = "entered_deactivating Requested i"
  let ?s0 = "sup_stop env n Requested s"
  have j: "get_inst ?s0 n = Some ?j" using assms(1-3) by (auto simp: stop_self stopped_inst_def)
  have js: "in_state ?j = Deactivating" "unit_service (in_unit ?j) \<noteq> None" "in_stop_cause ?j = Some Requested"
    using assms(3) by (simp_all add: inst_op_defs)
  have s1: "s1 = ?s0\<lparr>s_pending_restart := sinsert n (s_pending_restart ?s0)\<rparr>"
    using assms(1,4) j js(1) by (simp add: s1_def handle_def restart_when_stopped_def is_idle_def)
  have g1: "get_inst s1 n = Some ?j" using j by (simp add: s1)
  have s2: "s2 = s1\<lparr>s_pending := filter (\<lambda>q. q \<noteq> n) (s_pending s1)\<rparr>"
    using g1 stop_deactivating [OF g1 js(1,2)] by (simp add: s2_def handle_def)
  have g2: "get_inst s2 n = Some ?j" using g1 by (simp add: s2)
  have q: "n \<in> set (s_pending_restart s2)" by (simp add: s2 s1)
  have sd: "\<not> shutting_down s2" using assms(4) by (simp add: s2 s1 shutting_down_def)
  obtain k where k: "deactivated (e_now env2) ?j = (k, None)"
    using js(3) by (simp add: deactivated_def Let_def)
  let ?r = "(upd_inst n (\<lambda>_. k) s2)\<lparr>s_pending_restart := filter (\<lambda>m. m \<noteq> n) (s_pending_restart s2)\<rparr>"
  have "finish_deactivation env2 n s2 = sup_start env2 n ?r"
    using g2 js(1) k q by (simp add: finish_deactivation_def start_if_asked_def)
  moreover have "get_inst ?r n \<noteq> None" "\<not> shutting_down ?r" using g2 sd by (simp_all add: shutting_down_def)
  ultimately show ?thesis using start_state [of ?r n env2] g2 js(1) by auto
qed

theorem stop_does_not_cancel_restart_witness:
  "\<exists>j. get_inst (finish_deactivation sample_env ''s'' (fst (handle sample_env (sample_loaded Simple Always) (\<lambda>_. [])
      (RStop ''s'') (fst (handle sample_env (sample_loaded Simple Always) (\<lambda>_. []) (RRestart ''s'')
        (sample_sup (sample_running Simple Always))))))) ''s'' = Some j \<and> in_state j \<in> {Active, Activating, Failed}"
proof -
  let ?i = "sample_running Simple Always"
  have g: "get_inst (sample_sup ?i) ''s'' = Some ?i" by (simp add: sample_sup_def get_inst_def)
  have f: "in_state ?i = Active" "unit_service (in_unit ?i) \<noteq> None" "\<not> shutting_down (sample_sup ?i)"
    by (simp_all add: sample_running_def sample_unit_def inst_op_defs inst_new_def unit_service_def
        sample_sup_def shutting_down_def)
  show ?thesis using stop_does_not_cancel_restart [OF g f] by blast
qed

text \<open>\<open>before\<close> orders the plan but is not waited for: a queued unit that is \<open>after\<close> nothing
  starts although a unit that declares itself \<open>before\<close> it is still activating.\<close>

theorem before_is_not_waited_for:
  assumes "get_inst s a = Some i" and "in_state i = Activating" and "b \<in> set (before (u_deps (in_unit i)))"
    and "get_inst s b = Some j" and "after (u_deps (in_unit j)) = []" and "requires (u_deps (in_unit j)) = []"
    and "s_pending s = b # q" and "\<not> shutting_down s"
  shows "pump env s = pump_loop env (sup_start env b (dequeue b s))"
proof -
  have "next_startable s = Some b" using assms(4,5,7) by (simp add: next_startable_def ordering_satisfied_def)
  moreover have "failed_requirement (dequeue b s) b = None" using assms(4,6) by (simp add: failed_requirement_def)
  ultimately show ?thesis using assms(8) by (subst pump_def, subst pump_loop.simps) simp
qed

definition before_machine :: sup where
  "before_machine = (let a = (sample_unit Oneshot Always)\<lparr>u_name := ''a'',
       u_deps := \<lparr>requires = [], wants = [], after = [], before = [''b''], conflicts = []\<rparr>\<rparr>;
       b = (sample_unit Simple Always)\<lparr>u_name := ''b''\<rparr> in
     (sample_sup (inst_new b))\<lparr>s_instances := [(''a'', entered_activating 6 (inst_new a)), (''b'', inst_new b)],
       s_pending := [''b'']\<rparr>)"

theorem before_is_not_waited_for_witness:
  "pump sample_env before_machine = pump_loop sample_env (sup_start sample_env ''b'' (dequeue ''b'' before_machine))"
  by (rule before_is_not_waited_for [of _ "''a''"])
    (simp add: before_machine_def get_inst_def inst_op_defs inst_new_def sample_unit_def sample_sup_def
      shutting_down_def Let_def)+

end
