(* ===== verification/Spec2Isabelle.thy ===== *)
theory Spec2Isabelle
  imports Loader Graph Service NotifyMsg Deadlines Token SupervisorDeadlines SupervisorQueue
    Probes StartUp Recovery LogMain XtaskTests LowLevel
    SupervisorRefines SupervisorEdges MainLoop LogDaemon CgroupFs Child
begin

text \<open>
  oxinit, an init system in Rust.

  The program.  PID 1 (or a user's own manager) loads unit files from two or three
  directories, resolves them into a start order, and keeps the units running from one
  epoll loop: exits of children, emptied cgroups, two deadline heaps, readiness messages,
  connections to listening sockets, and requests on a control socket are the events.
  Service output goes through pipes to a log daemon.  A hardware watchdog is fed by the loop
  itself.  A shutdown is a state of the loop.  A command line client talks to the control
  socket, and a driver builds images, boots them and reads what they said.

  Which theory models which source, under \<open>src/crates\<close>:

  \<^item> \<open>Prelude\<close>, \<open>Text\<close>, \<open>Clock\<close>: ordered maps and sets as sorted lists (\<open>BTreeMap\<close>,
    \<open>BTreeSet\<close>), the string operations and decimal integers of the standard library, and
    durations and instants as numbers of nanoseconds with the saturation written out.
  \<^item> \<open>Values\<close> (\<open>oxinit-unit/src/value.rs\<close>), \<open>Exec\<close> (\<open>exec.rs\<close>), \<open>UnitFile\<close> (\<open>unit.rs\<close>,
    \<open>error.rs\<close>), \<open>Address\<close> (the socket addresses of the standard library), \<open>Loader\<close>
    (\<open>load.rs\<close>): a unit file becomes a unit or an error; the TOML reader and the file system
    are parameters.
  \<^item> \<open>Graph\<close> (\<open>oxinit-graph\<close>): reachability, conflicts, the topological order, cycles.
  \<^item> \<open>Schedule\<close> (\<open>oxinit-timer\<close>): calendars and monotonic schedules on 64-bit words.
  \<^item> \<open>Service\<close> (\<open>oxinit-service/src/lib.rs\<close>), \<open>NotifyMsg\<close> (\<open>notify.rs\<close>): the state of one
    unit and its restart policy; the readiness datagram.
  \<^item> \<open>Deadlines\<close> (\<open>oxinit/src/timer.rs\<close>): the two heaps and their descriptors.  \<open>Token\<close> and
    \<open>EventLoop\<close> (\<open>event.rs\<close>): the epoll tokens, the table of registrations, and what keeps it
    in step with the sockets and cgroups (\<open>wire\<close>, \<open>sync_sockets\<close>).
  \<^item> \<open>Supervisor\<close> (\<open>oxinit/src/supervisor.rs\<close>, with the units of \<open>cgroup.rs\<close> and \<open>listen.rs\<close>
    and the requests of \<open>oxinit-ipc\<close>): every handler as a function of the state and of what
    the kernel answers while it runs (\<open>env\<close>).
  \<^item> \<open>Watchdog\<close> (\<open>oxinit-watchdog\<close>) and \<open>Device\<close> (\<open>oxinit/src/watchdog.rs\<close>): when to feed the
    watchdog, and what its device sees.
  \<^item> \<open>Channels\<close> (\<open>control.rs\<close>, \<open>logs.rs\<close>, the encoding limit of \<open>oxinit-ipc\<close>): messages on
    the sockets once they are up.  \<open>Sockets\<close> (\<open>listen.rs\<close>, and the binding in \<open>control.rs\<close>,
    \<open>logs.rs\<close>, \<open>notify.rs\<close>): the calls that bring them up, and what a failure leaves behind.
  \<^item> \<open>Boot\<close> (\<open>container.rs\<close>, \<open>mounts.rs\<close>, \<open>console.rs\<close>, \<open>shutdown.rs\<close>, part of \<open>user.rs\<close>),
    \<open>Paths\<close> (\<open>oxinit-paths\<close>), \<open>Users\<close> (\<open>oxinit-user\<close>), \<open>CgroupFs\<close> (\<open>oxinit-cgroup\<close>),
    \<open>CgroupTable\<close> (\<open>oxinit/src/cgroup.rs\<close>: the descriptors held on cgroups), \<open>Errors\<close>
    (\<open>oxinit/src/error.rs\<close>: what each error says).
  \<^item> \<open>StartUp\<close> (\<open>main.rs\<close>, \<open>shell.rs\<close>, \<open>boot\<close> of \<open>user.rs\<close>): from the first call to the loop,
    the fallback shell or an exit, on a \<open>host\<close> that answers each step.
  \<^item> \<open>Child\<close> (\<open>oxinit/src/sys/raw.rs\<close>): what a service's process does between fork and exec,
    on a table of descriptors, and the image it executes.
  \<^item> \<open>MainLoop\<close> (\<open>oxinit/src/main.rs\<close>): the dispatch of sources, the signals, and a turn of the
    loop over all of the above.  \<open>Recovery\<close> (\<open>main.rs\<close> too): the same loop when handlers panic,
    epoll fails or the kernel refuses to go down.
  \<^item> \<open>LogFormat\<close> (\<open>oxinit-log\<close>), \<open>LogDaemon\<close> and \<open>LogMain\<close> (\<open>oxlogd\<close>): records, lines,
    rotation, and the daemon from its arguments to its last flush.
  \<^item> \<open>Client\<close> (\<open>oxctl\<close>): arguments, one request and its reply, the log read from its file, and
    what is printed.
  \<^item> \<open>Probes\<close> (\<open>notify-probe\<close>, \<open>listen-probe\<close>): the services of the test image, on the other
    side of readiness and of inherited sockets.  \<open>LowLevel\<close>: small routines of
    \<open>supervisor.rs\<close> and \<open>sys/raw.rs\<close> at the edge of the system.
  \<^item> \<open>Xtask\<close>, \<open>XtaskSuites\<close>, \<open>XtaskImage\<close>, \<open>XtaskRuns\<close>, \<open>XtaskMain\<close>, \<open>XtaskTests\<close>
    (\<open>xtask\<close>): the driver's calls, the suites and the check of a log, the staged tree, the
    boots, the container and the demo, and what a test that passes has seen.

  What the lemmas show.  Parsing: exactly which files, values, calendars and messages are
  accepted and what they mean, with round trips where the program prints.  Ordering: a plan
  exists exactly when it should, holds exactly the pulled units, and respects every edge.
  One unit: its invariant, the backoff, the restart policy, and that a requested stop is
  final.  The supervisor: \<open>SupervisorSafety\<close> (nothing starts after a shutdown began),
  \<open>SupervisorDeadlines\<close> (every waiting state has its alarm, and the alarm moves it on),
  \<open>SupervisorQueue\<close> (boot starts the plan), \<open>SupervisorRefines\<close> (every handler drives an
  instance through its own operations only), \<open>SupervisorEdges\<close> (behaviour that the
  documentation does not promise).  The loop: it is a run of supervisor events, the first
  terminating signal decides the end, a shutdown ends in time, a request gets one reply, and
  whatever panics the watchdog is ticked and a shutdown still ends.
  The tables: registrations follow the sockets and cgroups that are open.  A started service:
  its descriptors, its identity, its environment.  The log: what comes out of a pipe the
  daemon serves is in the file, whatever the rotation; the client reads it back.  The driver:
  a staged tree is whole and nothing was written beside it, and a passing test has seen every
  line it names, in order, from a machine that turned itself off.

  Interfaces are locales, each interpreted on the model: \<open>codec\<close> (an encoding and its
  decoder) with the integers, calendars and tokens as instances; \<open>ordered_map\<close> with the sorted
  lists of \<open>Prelude\<close>; \<open>deadline_queue\<close> with the heaps of \<open>Deadlines\<close>; \<open>interest_table\<close> with
  the registrations of \<open>EventLoop\<close>; \<open>event_system\<close> (a handler that keeps an invariant) with
  the supervisor's handlers as \<open>winding\<close>, \<open>guarding\<close> and \<open>living\<close>.

  Bounds.  Loops over a list recurse on it.  The walks of the graph recurse on a measure of
  the units not yet visited.  The start queue shrinks by one unit in each step of \<open>pump\<close>.
  The driver's waits count down the polls that fit in their limit.  A loop that has no end of
  its own (the manager's, the daemon's) recurses on the rounds it is given.

  Modelling choices.  Within a handler the clock stands still.  Alarms with equal deadlines
  come out of a heap in the order they went in, where the source promises no order.  Strings
  are lists of characters up to U+00FF; lengths count characters.  Log and progress lines are
  left out where they are the only effect.  The pipes a starting service is given are the
  operation \<open>logs_pipe\<close> of \<open>Channels\<close>; the supervisor sees only whether one was made.  Where
  a routine is a sequence of system calls, it returns the calls it made, and what answers a
  call may depend on all calls before it (\<open>Sockets\<close>, and the \<open>workshop\<close> of the driver).

  Not modelled: the system calls themselves and the wrappers that only pass their arguments
  on (signal descriptors, the watchdog's ioctls, forking); where in a handler a panic happens,
  so what it leaves is any state of what the handler may write; JSON and TOML, which are
  libraries and parameters; re-exports of names; the tests written in Rust.
\<close>

end
